(* ===== verification/Evm_Prelude.thy ===== *)
theory Evm_Prelude
  imports Main "HOL-Library.Word"
begin

text \<open>
  The prelude of the library. It names the machine types the C++ code uses (bytes, byte strings,
  unsigned integers of a fixed width), models the \<open>outcome::result\<close> control flow of the code
  (\<open>BOOST_OUTCOME_TRY\<close>, and the \<open>if (!op) return error;\<close> idiom), collects the lemma sets the
  component theories extend, and proves the facts about lists and big-endian numbers that several
  components share.
\<close>

unbundle bit_operations_syntax

section \<open>Machine types\<close>

type_synonym byte = "8 word"
type_synonym bytes = "8 word list"
type_synonym u8 = "8 word"
type_synonym u16 = "16 word"
type_synonym u32 = "32 word"
type_synonym u64 = "64 word"
type_synonym u256 = "256 word"

section \<open>Results\<close>

text \<open>
  \<open>outcome::result<T, E>\<close> is \<^typ>\<open>'e + 'a\<close> with \<open>Inl\<close> for the error.
  \<open>outcome_try\<close> is \<open>BOOST_OUTCOME_TRY\<close>: an error is returned to the caller unchanged.
  \<open>fail_as\<close> is the idiom \<open>if (!op) { return e; }\<close>: the error of \<open>op\<close> is replaced by \<open>e\<close>.
  \<open>run_ops\<close> runs a sequence of state-changing calls and stops at the first error.
\<close>

definition outcome_try :: "'e + 'a \<Rightarrow> ('a \<Rightarrow> 'e + 'b) \<Rightarrow> 'e + 'b" where
  "outcome_try r f = (case r of Inl e \<Rightarrow> Inl e | Inr x \<Rightarrow> f x)"

definition fail_as :: "'e \<Rightarrow> 'd + 'a \<Rightarrow> 'e + 'a" where
  "fail_as e r = (case r of Inl _ \<Rightarrow> Inl e | Inr x \<Rightarrow> Inr x)"

definition guard_fail :: "bool \<Rightarrow> 'e \<Rightarrow> 'e + 'a \<Rightarrow> 'e + 'a" where
  "guard_fail c e r = (if c then Inl e else r)"

primrec run_ops :: "('s \<Rightarrow> 'e + 's) list \<Rightarrow> 's \<Rightarrow> 'e + 's" where
  "run_ops [] s = Inr s"
| "run_ops (f # fs) s = outcome_try (f s) (run_ops fs)"

lemma outcome_try_simps [simp]:
  "outcome_try (Inl e) f = Inl e" "outcome_try (Inr x) f = f x"
  by (simp_all add: outcome_try_def)

lemma fail_as_simps [simp]:
  "fail_as e (Inl d) = Inl e" "fail_as e (Inr x) = Inr x"
  by (simp_all add: fail_as_def)

lemma guard_fail_simps [simp]:
  "guard_fail True e r = Inl e" "guard_fail False e r = r"
  by (simp_all add: guard_fail_def)

lemma outcome_try_eq_Inr: "outcome_try r f = Inr y \<longleftrightarrow> (\<exists>x. r = Inr x \<and> f x = Inr y)"
  by (cases r) auto

lemma outcome_try_eq_Inl: "outcome_try r f = Inl e \<longleftrightarrow> r = Inl e \<or> (\<exists>x. r = Inr x \<and> f x = Inl e)"
  by (cases r) auto

lemma fail_as_eq_Inr: "fail_as e r = Inr y \<longleftrightarrow> r = Inr y"
  by (cases r) auto

lemma guard_fail_eq_Inr: "guard_fail c e r = Inr y \<longleftrightarrow> \<not> c \<and> r = Inr y"
  by (cases c) auto

lemmas outcome_iffs = outcome_try_eq_Inr fail_as_eq_Inr guard_fail_eq_Inr

lemma run_ops_append:
  "run_ops (fs @ gs) s = outcome_try (run_ops fs s) (run_ops gs)"
proof (induction fs arbitrary: s)
  case (Cons f fs)
  then show ?case by (cases "f s") simp_all
qed simp

lemma outcome_try_cong [fundef_cong]:
  "r = r' \<Longrightarrow> (\<And>x. r' = Inr x \<Longrightarrow> f x = g x) \<Longrightarrow> outcome_try r f = outcome_try r' g"
  by (cases r') auto

lemma guard_fail_cong [fundef_cong]:
  "c = c' \<Longrightarrow> (\<not> c' \<Longrightarrow> r = r') \<Longrightarrow> guard_fail c e r = guard_fail c' e r'"
  by (cases c') auto

section \<open>Lemma collections\<close>

named_theorems emits_intros \<open>what an encoder call appends to the buffer\<close>
named_theorems reads_simps \<open>what a decoder call returns on bytes an encoder call wrote\<close>
named_theorems wire_simps \<open>sizes and shapes of encoded values\<close>

section \<open>Words\<close>

lemma unat_less_exp: "unat (x :: 'a::len word) < 2 ^ LENGTH('a)"
  by (rule unsigned_less)

lemma unat_ucast_widen:
  "LENGTH('a::len) \<le> LENGTH('b::len) \<Longrightarrow> unat (ucast (x :: 'a word) :: 'b word) = unat x"
proof -
  assume "LENGTH('a) \<le> LENGTH('b)"
  then have "(2::nat) ^ LENGTH('a) \<le> 2 ^ LENGTH('b)" by (intro power_increasing) simp_all
  then have "unat x < 2 ^ LENGTH('b)" using unat_less_exp [of x] less_le_trans by blast
  then show ?thesis by (simp add: unsigned_ucast_eq take_bit_nat_eq_self)
qed

lemma unat_byte_less [simp]: "unat (b :: 8 word) < 256"
  using unat_less_exp [of b] by simp

lemma unat_byte_mod [simp]: "unat (b :: 8 word) mod 256 = unat b"
  by simp

lemma unat_of_nat_byte: "n < 256 \<Longrightarrow> unat (word_of_nat n :: 8 word) = n"
  by (simp add: unat_of_nat)

section \<open>Big-endian numbers\<close>

text \<open>
  The reference reading of a byte string as a big-endian natural number, and the shortest
  big-endian representation of a number (no leading zero byte; zero is the empty string).
\<close>

definition be_val :: "bytes \<Rightarrow> nat" where
  "be_val bs = foldl (\<lambda>n b. n * 256 + unat b) 0 bs"

fun nat_to_be :: "nat \<Rightarrow> bytes" where
  "nat_to_be n = (if n = 0 then [] else nat_to_be (n div 256) @ [word_of_nat (n mod 256)])"

declare nat_to_be.simps [simp del]

lemma nat_to_be_0 [simp]: "nat_to_be 0 = []"
  by (simp add: nat_to_be.simps)

lemma nat_to_be_pos: "0 < n \<Longrightarrow> nat_to_be n = nat_to_be (n div 256) @ [word_of_nat (n mod 256)]"
  by (subst nat_to_be.simps) simp

lemma nat_to_be_eq_Nil [simp]: "nat_to_be n = [] \<longleftrightarrow> n = 0"
  by (subst nat_to_be.simps) simp

lemma be_val_Nil [simp]: "be_val [] = 0"
  by (simp add: be_val_def)

lemma be_val_snoc [simp]: "be_val (bs @ [b]) = be_val bs * 256 + unat b"
  by (simp add: be_val_def)

lemma be_val_append: "be_val (as @ bs) = be_val as * 256 ^ length bs + be_val bs"
proof (induction bs rule: rev_induct)
  case (snoc b bs)
  have "be_val (as @ bs @ [b]) = be_val (as @ bs) * 256 + unat b"
    using be_val_snoc [of "as @ bs" b] by simp
  then show ?case using snoc by (simp add: algebra_simps)
qed simp

lemma be_val_Cons: "be_val (b # bs) = unat b * 256 ^ length bs + be_val bs"
  using be_val_append [of "[b]" bs] be_val_snoc [of "[]" b] by simp

lemma be_val_less: "be_val bs < 256 ^ length bs"
proof (induction bs rule: rev_induct)
  case (snoc b bs)
  have "be_val bs * 256 + unat b < (be_val bs + 1) * 256"
    using unat_byte_less [of b] by simp
  also have "\<dots> \<le> 256 ^ length bs * 256"
    using snoc by (intro mult_right_mono) simp_all
  finally show ?case by (simp add: algebra_simps)
qed simp

lemma be_val_replicate_0 [simp]: "be_val (replicate n 0) = 0"
  by (induction n) (simp_all add: be_val_Cons)

lemma be_val_nat_to_be [simp]: "be_val (nat_to_be n) = n"
proof (induction n rule: nat_to_be.induct)
  case (1 n)
  show ?case
  proof (cases "n = 0")
    case False
    have "unat (word_of_nat (n mod 256) :: 8 word) = n mod 256"
      by (simp add: unat_of_nat)
    with False "1.IH" show ?thesis by (simp add: nat_to_be_pos)
  qed simp
qed

lemma hd_nat_to_be: "0 < n \<Longrightarrow> hd (nat_to_be n) \<noteq> 0"
proof (induction n rule: nat_to_be.induct)
  case (1 n)
  show ?case
  proof (cases "n div 256 = 0")
    case True
    then have "n < 256" by simp
    with "1.prems" True have "nat_to_be n = [word_of_nat n]" by (simp add: nat_to_be_pos)
    moreover have "unat (word_of_nat n :: 8 word) = n" using \<open>n < 256\<close> by (simp add: unat_of_nat)
    ultimately show ?thesis using "1.prems" by (metis list.sel(1) unat_0 less_numeral_extra(3))
  next
    case False
    then have "hd (nat_to_be (n div 256)) \<noteq> 0" using "1.IH" "1.prems" by simp
    moreover have "nat_to_be (n div 256) \<noteq> []" using False by simp
    ultimately show ?thesis using nat_to_be_pos [OF "1.prems"] by simp
  qed
qed

lemma nat_to_be_be_val: "bs = [] \<or> hd bs \<noteq> 0 \<Longrightarrow> nat_to_be (be_val bs) = bs"
proof (induction bs rule: rev_induct)
  case (snoc b bs)
  show ?case
  proof (cases "bs = []")
    case True
    then have "b \<noteq> 0" using snoc.prems by simp
    then have "unat b \<noteq> 0" by (simp add: unat_eq_0)
    then show ?thesis using True be_val_snoc [of "[]" b] by (simp add: nat_to_be_pos)
  next
    case False
    with snoc have IH: "nat_to_be (be_val bs) = bs" by simp
    then have "be_val bs \<noteq> 0" using False nat_to_be_0 by metis
    then show ?thesis using IH by (simp add: nat_to_be_pos div_mult_self3)
  qed
qed simp

lemma length_nat_to_be_le: "n < 256 ^ k \<Longrightarrow> length (nat_to_be n) \<le> k"
proof (induction k arbitrary: n)
  case (Suc k)
  show ?case
  proof (cases "n = 0")
    case False
    have "n div 256 < 256 ^ k" using Suc.prems by (simp add: less_mult_imp_div_less mult.commute)
    with Suc.IH have "length (nat_to_be (n div 256)) \<le> k" by blast
    with False show ?thesis by (simp add: nat_to_be_pos)
  qed simp
qed simp

lemma be_val_ge: "bs \<noteq> [] \<Longrightarrow> hd bs \<noteq> 0 \<Longrightarrow> 256 ^ (length bs - 1) \<le> be_val bs"
proof (cases bs)
  case (Cons b cs)
  moreover assume "hd bs \<noteq> 0"
  ultimately have "1 \<le> unat b" by (simp add: Suc_leI unat_gt_0)
  then have "1 * 256 ^ length cs \<le> unat b * 256 ^ length cs" by (intro mult_right_mono) simp_all
  with Cons show ?thesis by (simp add: be_val_Cons trans_le_add1)
qed simp

lemma nat_to_be_single: "0 < n \<Longrightarrow> n < 256 \<Longrightarrow> nat_to_be n = [word_of_nat n]"
  by (simp add: nat_to_be_pos)

lemma length_nat_to_be_ge_2: "256 \<le> n \<Longrightarrow> 2 \<le> length (nat_to_be n)"
proof -
  assume "256 \<le> n"
  then have "nat_to_be (n div 256) \<noteq> []" and "0 < n" by auto
  then show ?thesis by (cases "nat_to_be (n div 256)") (simp_all add: nat_to_be_pos)
qed

section \<open>Lists\<close>

lemma drop_replicate_append: "drop k (replicate k x @ xs) = xs"
  by simp

lemma length_concat_map_const:
  "(\<And>x. x \<in> set xs \<Longrightarrow> length (f x) = n) \<Longrightarrow> length (concat (map f xs)) = n * length xs"
  by (induction xs) simp_all

end
