(* ===== verification/Rlp_Types.thy ===== *)
theory Rlp_Types
  imports Evm_Prelude
begin

text \<open>
  The types, constants and error codes of \<open>namespace rlp\<close>: \<open>include/rlp/constants.hpp\<close>,
  \<open>include/rlp/errors.hpp\<close>, and the functions of \<open>src/rlp/common.cpp\<close> that print them.
\<close>

section \<open>Errors\<close>

datatype encoding_error =
    kPayloadTooLarge
  | kEmptyInput
  | kUnclosedList
  | kUnmatchedEndList

datatype decoding_error =
    kOverflow
  | kLeadingZero
  | kInputTooShort
  | kInputTooLong
  | kNonCanonicalSize
  | kUnexpectedList
  | kUnexpectedString
  | kUnexpectedLength
  | kUnexpectedListElements
  | kInvalidVrsValue
  | kListLengthMismatch
  | kNotInList
  | kMalformedHeader
  | kDecAlreadyFinalized
  | kDecNotFinalized
  | kDecInvalidChunkSize
  | kDecHeaderSizeExceeded

datatype streaming_error =
    kAlreadyFinalized
  | kNotFinalized
  | kInvalidChunkSize
  | kHeaderSizeExceeded

fun encoding_error_to_string :: "encoding_error \<Rightarrow> string" where
  "encoding_error_to_string kPayloadTooLarge = ''RLP Encoding: Payload exceeds 64-bit limit''"
| "encoding_error_to_string kEmptyInput = ''RLP Encoding: Empty input not allowed''"
| "encoding_error_to_string kUnclosedList = ''RLP Encoding: Unclosed list''"
| "encoding_error_to_string kUnmatchedEndList = ''RLP Encoding: EndList without matching BeginList''"

fun decoding_error_to_string :: "decoding_error \<Rightarrow> string" where
  "decoding_error_to_string kOverflow = ''RLP Overflow''"
| "decoding_error_to_string kLeadingZero = ''RLP Leading Zero''"
| "decoding_error_to_string kInputTooShort = ''RLP Input Too Short''"
| "decoding_error_to_string kInputTooLong = ''RLP Input Too Long''"
| "decoding_error_to_string kNonCanonicalSize = ''RLP Non-Canonical Size''"
| "decoding_error_to_string kUnexpectedList = ''RLP Unexpected List''"
| "decoding_error_to_string kUnexpectedString = ''RLP Unexpected String''"
| "decoding_error_to_string kUnexpectedListElements = ''RLP Unexpected List Elements''"
| "decoding_error_to_string kInvalidVrsValue = ''RLP Invalid VRS Value''"
| "decoding_error_to_string kListLengthMismatch = ''RLP List Length Mismatch''"
| "decoding_error_to_string kNotInList = ''RLP Operation requires being in a list context''"
| "decoding_error_to_string kMalformedHeader = ''RLP Malformed Header''"
| "decoding_error_to_string kDecAlreadyFinalized = ''RLP Already Finalized''"
| "decoding_error_to_string kDecNotFinalized = ''RLP Not Finalized''"
| "decoding_error_to_string kDecInvalidChunkSize = ''RLP Invalid Chunk Size''"
| "decoding_error_to_string kDecHeaderSizeExceeded = ''RLP Header Size Exceeded''"
| "decoding_error_to_string _ = ''RLP Unknown Error''"

fun streaming_error_to_string :: "streaming_error \<Rightarrow> string" where
  "streaming_error_to_string kAlreadyFinalized = ''RLP Streaming: Already finalized''"
| "streaming_error_to_string kNotFinalized = ''RLP Streaming: Not finalized''"
| "streaming_error_to_string kInvalidChunkSize = ''RLP Streaming: Invalid chunk size''"
| "streaming_error_to_string kHeaderSizeExceeded = ''RLP Streaming: Header size exceeded''"

section \<open>Constants\<close>

abbreviation (input) kEmptyStringCode :: u8 where "kEmptyStringCode \<equiv> 0x80"
abbreviation (input) kEmptyListCode :: u8 where "kEmptyListCode \<equiv> 0xC0"
abbreviation (input) kMaxShortStringLen :: nat where "kMaxShortStringLen \<equiv> 55"
abbreviation (input) kMaxShortListLen :: nat where "kMaxShortListLen \<equiv> 55"
abbreviation (input) kShortStringOffset :: nat where "kShortStringOffset \<equiv> 0x80"
abbreviation (input) kLongStringOffset :: nat where "kLongStringOffset \<equiv> 0xB7"
abbreviation (input) kShortListOffset :: nat where "kShortListOffset \<equiv> 0xC0"
abbreviation (input) kLongListOffset :: nat where "kLongListOffset \<equiv> 0xF7"
abbreviation (input) kRlpSingleByteThreshold :: nat where "kRlpSingleByteThreshold \<equiv> 0x80"
abbreviation (input) kLongPrefixByteSize :: nat where "kLongPrefixByteSize \<equiv> 1"
abbreviation (input) kSingleByteStringSize :: nat where "kSingleByteStringSize \<equiv> 2"

text \<open>\<open>struct Header\<close>; \<open>size_t\<close> fields are \<^typ>\<open>nat\<close>.\<close>

record rlp_header =
  list_h :: bool
  payload_size_bytes :: nat
  header_size_bytes :: nat

datatype leftover = kProhibit | kAllow

section \<open>Hexadecimal printing\<close>

definition hex_digit :: "nat \<Rightarrow> char" where
  "hex_digit n = ''0123456789abcdef'' ! n"

definition hexToString :: "bytes \<Rightarrow> string" where
  "hexToString bv = concat (map (\<lambda>b. [hex_digit (unat b div 16), hex_digit (unat b mod 16)]) bv)"

lemma length_hexToString: "length (hexToString bv) = 2 * length bv"
  by (induction bv) (simp_all add: hexToString_def)

lemma hex_digit_inj: "m < 16 \<Longrightarrow> n < 16 \<Longrightarrow> hex_digit m = hex_digit n \<Longrightarrow> m = n"
proof -
  have d: "distinct ''0123456789abcdef''" by simp
  have l: "length ''0123456789abcdef'' = 16" by simp
  show "m < 16 \<Longrightarrow> n < 16 \<Longrightarrow> hex_digit m = hex_digit n \<Longrightarrow> m = n"
    unfolding hex_digit_def using nth_eq_iff_index_eq [OF d] l by metis
qed

lemma hexToString_inj: "hexToString as = hexToString bs \<Longrightarrow> as = bs"
proof (induction as arbitrary: bs)
  case Nil
  then show ?case by (cases bs) (simp_all add: hexToString_def)
next
  case (Cons a as)
  then obtain b bs' where bs: "bs = b # bs'" by (cases bs) (auto simp: hexToString_def)
  have q: "unat a div 16 < 16" "unat b div 16 < 16"
    by (simp_all add: less_mult_imp_div_less)
  from Cons.prems bs have "hex_digit (unat a div 16) = hex_digit (unat b div 16)"
    "hex_digit (unat a mod 16) = hex_digit (unat b mod 16)" "hexToString as = hexToString bs'"
    by (simp_all add: hexToString_def)
  then have "unat a div 16 = unat b div 16" "unat a mod 16 = unat b mod 16" "as = bs'"
    using hex_digit_inj q Cons.IH by auto
  then show ?case using bs by (metis div_mult_mod_eq word_unat_eq_iff)
qed

end
