(* ===== verification/Rlp_Endian.thy ===== *)
theory Rlp_Endian
  imports Rlp_Types
begin

text \<open>
  The parts of \<open>include/rlp/intx.hpp\<close> the RLP code uses on \<open>intx::uint256\<close> (the number of
  significant bytes, big-endian load and store) and \<open>src/rlp/endian.cpp\<close>, the compact
  big-endian representation of unsigned integers. The lemmas show that both directions are the
  reference functions \<^const>\<open>nat_to_be\<close> and \<^const>\<open>be_val\<close>.
\<close>

section \<open>intx\<close>

text \<open>An \<open>intx::uint256\<close> is its value; \<open>words_[i]\<close> is its \<open>i\<close>-th 64-bit word.\<close>

definition uint256_word :: "u256 \<Rightarrow> nat \<Rightarrow> u64" where
  "uint256_word x i = ucast (drop_bit (64 * i) x)"

text \<open>\<open>clz_generic(uint64_t)\<close>: the loop over \<open>i = 5, ..., 0\<close>.\<close>

fun clz_loop :: "nat list \<Rightarrow> nat \<Rightarrow> u64 \<Rightarrow> nat" where
  "clz_loop [] n x = n - unat x"
| "clz_loop (i # is) n x =
     (let s = 2 ^ i; hi = drop_bit s x
      in if hi \<noteq> 0 then clz_loop is (n - s) hi else clz_loop is n x)"

definition clz_generic :: "u64 \<Rightarrow> nat" where
  "clz_generic x = clz_loop [5, 4, 3, 2, 1, 0] 64 x"

text \<open>\<open>__builtin_clzll\<close> counts the zero bits above the highest set bit.\<close>

definition builtin_clzll :: "u64 \<Rightarrow> nat" where
  "builtin_clzll x = length (takeWhile (\<lambda>i. \<not> bit x i) (rev [0..<64]))"

definition clz :: "u64 \<Rightarrow> nat" where
  "clz x = (if x \<noteq> 0 then builtin_clzll x else 64)"

definition count_significant_bytes_u64 :: "u64 \<Rightarrow> nat" where
  "count_significant_bytes_u64 x = (64 - clz x + 7) div 8"

fun count_significant_words :: "nat \<Rightarrow> u256 \<Rightarrow> nat" where
  "count_significant_words 0 x = 0"
| "count_significant_words (Suc i) x =
     (if uint256_word x i \<noteq> 0 then Suc i else count_significant_words i x)"

definition count_significant_bytes :: "u256 \<Rightarrow> nat" where
  "count_significant_bytes x =
     (let w = count_significant_words 4 x
      in if w \<noteq> 0 then count_significant_bytes_u64 (uint256_word x (w - 1)) + (w - 1) * 8 else 0)"

definition be_store :: "u256 \<Rightarrow> bytes" where
  "be_store x = rev (map (\<lambda>i. ucast (drop_bit (8 * i) x)) [0..<32])"

definition be_load :: "bytes \<Rightarrow> u256" where
  "be_load bs = foldl (\<lambda>x b. x * 256 + ucast b) 0 bs"

section \<open>Compact big-endian integers\<close>

definition to_big_compact :: "'a::len word \<Rightarrow> bytes" where
  "to_big_compact n =
     (if n = 0 then []
      else let val = ucast n :: u256; num_bytes = count_significant_bytes val;
               temp_buffer = be_store val
           in drop (32 - num_bytes) temp_buffer)"

definition from_big_compact :: "bytes \<Rightarrow> decoding_error + 'a::len word" where
  "from_big_compact bytes =
     (if bytes = [] then Inr 0
      else if bytes ! 0 = 0 \<and> 1 < length bytes then Inl kLeadingZero
      else if length bytes = 1 \<and> bytes ! 0 = 0 then Inr 0
      else if 32 < length bytes then Inl kOverflow
      else let padded = replicate (32 - length bytes) 0 @ bytes; val = be_load padded
           in if ucast (- 1 :: 'a word) < val then Inl kOverflow else Inr (ucast val))"

definition to_big_compact_u256 :: "u256 \<Rightarrow> bytes" where
  "to_big_compact_u256 n =
     (if n = 0 then []
      else let num_bytes = count_significant_bytes n; temp_buffer = be_store n
           in drop (32 - num_bytes) temp_buffer)"

definition from_big_compact_u256 :: "bytes \<Rightarrow> decoding_error + u256" where
  "from_big_compact_u256 bytes =
     (if bytes = [] then Inr 0
      else if bytes ! 0 = 0 \<and> 1 < length bytes then Inl kLeadingZero
      else if length bytes = 1 \<and> bytes ! 0 = 0 then Inr 0
      else if 32 < length bytes then Inl kOverflow
      else let padded = replicate (32 - length bytes) 0 @ bytes in Inr (be_load padded))"

section \<open>The number of significant bytes\<close>

fun bit_len :: "nat \<Rightarrow> nat" where
  "bit_len n = (if n = 0 then 0 else Suc (bit_len (n div 2)))"

declare bit_len.simps [simp del]

lemma bit_len_0 [simp]: "bit_len 0 = 0"
  by (simp add: bit_len.simps)

lemma bit_len_pos: "0 < n \<Longrightarrow> bit_len n = Suc (bit_len (n div 2))"
  by (subst bit_len.simps) simp

lemma bit_len_1 [simp]: "bit_len (Suc 0) = Suc 0"
  by (simp add: bit_len_pos)

lemma bit_len_le_iff: "bit_len n \<le> k \<longleftrightarrow> n < 2 ^ k"
proof (induction k arbitrary: n)
  case 0
  then show ?case by (cases "n = 0") (simp_all add: bit_len_pos)
next
  case (Suc k)
  show ?case
  proof (cases "n = 0")
    case False
    then have "bit_len n \<le> Suc k \<longleftrightarrow> n div 2 < 2 ^ k" using Suc by (simp add: bit_len_pos)
    also have "\<dots> \<longleftrightarrow> n < 2 ^ Suc k" by auto
    finally show ?thesis .
  qed simp
qed

lemma bit_len_div: "bit_len (n div 2 ^ s) = bit_len n - s"
proof (induction s arbitrary: n)
  case (Suc s)
  have "bit_len (n div 2 ^ Suc s) = bit_len (n div 2 div 2 ^ s)" by (simp add: div_mult2_eq)
  also have "\<dots> = bit_len (n div 2) - s" by (rule Suc.IH)
  also have "\<dots> = bit_len n - Suc s" by (cases "n = 0") (simp_all add: bit_len_pos)
  finally show ?case .
qed simp

lemma clz_loop_eq:
  "unat x < 2 ^ (2 ^ k) \<Longrightarrow> bit_len (unat x) \<le> n \<Longrightarrow> clz_loop (rev [0..<k]) n x = n - bit_len (unat x)"
proof (induction k arbitrary: n x)
  case 0
  then have "unat x = 0 \<or> unat x = 1" by auto
  then show ?case by auto
next
  case (Suc k)
  let ?s = "2 ^ k :: nat"
  have hi: "unat (drop_bit ?s x) = unat x div 2 ^ ?s"
    unfolding unat_drop_bit_eq by (rule drop_bit_eq_div)
  show ?case
  proof (cases "drop_bit ?s x = 0")
    case True
    then have "unat x div 2 ^ ?s = 0" using hi by simp
    then have "unat x < 2 ^ ?s" by (simp add: div_eq_0_iff)
    then show ?thesis using Suc True by simp
  next
    case False
    have less: "unat (drop_bit ?s x) < 2 ^ ?s"
      unfolding hi using Suc.prems(1) by (simp add: less_mult_imp_div_less flip: power_add mult_2)
    have ge: "?s \<le> bit_len (unat x)"
    proof (rule ccontr)
      assume "\<not> ?s \<le> bit_len (unat x)"
      then have "bit_len (unat x) \<le> ?s" by simp
      then have "unat x div 2 ^ ?s = 0" by (simp add: bit_len_le_iff)
      then show False using False hi by (simp add: unat_eq_0)
    qed
    have len: "bit_len (unat (drop_bit ?s x)) = bit_len (unat x) - ?s"
      unfolding hi by (rule bit_len_div)
    have "clz_loop (rev [0..<k]) (n - ?s) (drop_bit ?s x) = n - ?s - (bit_len (unat x) - ?s)"
      using Suc.IH [OF less, of "n - ?s"] Suc.prems(2) len by simp
    also have "\<dots> = n - bit_len (unat x)" using ge by simp
    finally show ?thesis using False by (simp add: Let_def)
  qed
qed

lemma clz_generic_eq: "clz_generic x = 64 - bit_len (unat x)"
proof -
  have "unat x < 2 ^ (2 ^ 6)" using unat_less_exp [of x] by simp
  moreover from this have "bit_len (unat x) \<le> 64" by (simp add: bit_len_le_iff)
  moreover have "rev [0..<6] = [5, 4, 3, 2, 1, 0 :: nat]" by (simp add: upt_rec)
  ultimately show ?thesis unfolding clz_generic_def using clz_loop_eq [of x 6 64] by simp
qed

lemma takeWhile_zero_bits:
  "unat x < 2 ^ k \<Longrightarrow> length (takeWhile (\<lambda>i. \<not> bit (x :: u64) i) (rev [0..<k])) = k - bit_len (unat x)"
proof (induction k)
  case (Suc k)
  have b: "bit x k \<longleftrightarrow> odd (unat x div 2 ^ k)"
    using bit_unsigned_iff [of x k, where 'a = nat] bit_iff_odd [of "unat x" k] by simp
  show ?case
  proof (cases "unat x < 2 ^ k")
    case True
    then have "\<not> bit x k" unfolding b by simp
    moreover have "bit_len (unat x) \<le> k" using True by (simp add: bit_len_le_iff)
    ultimately show ?thesis using Suc.IH [OF True] by simp
  next
    case False
    then have "unat x div 2 ^ k = 1" using Suc.prems
      by (intro div_nat_eqI) simp_all
    then have "bit x k" unfolding b by simp
    moreover have "bit_len (unat x) = Suc k"
      using False Suc.prems bit_len_le_iff [of "unat x" k] bit_len_le_iff [of "unat x" "Suc k"] by simp
    ultimately show ?thesis by simp
  qed
qed simp

lemma clz_eq: "clz x = 64 - bit_len (unat x)"
proof (cases "x = 0")
  case False
  have "unat x < 2 ^ 64" using unat_less_exp [of x] by simp
  then show ?thesis using False takeWhile_zero_bits [of x 64] by (simp add: clz_def builtin_clzll_def)
qed (simp add: clz_def)

lemma count_significant_bytes_u64_eq: "count_significant_bytes_u64 x = (bit_len (unat x) + 7) div 8"
proof -
  have "unat x < 2 ^ 64" using unat_less_exp [of x] by simp
  then have "bit_len (unat x) \<le> 64" by (simp add: bit_len_le_iff)
  then show ?thesis by (simp add: count_significant_bytes_u64_def clz_eq)
qed

lemma unat_uint256_word: "unat (uint256_word x i) = unat x div 2 ^ (64 * i) mod 2 ^ 64"
proof -
  have "unat (uint256_word x i) = take_bit 64 (unat (drop_bit (64 * i) x))"
    unfolding uint256_word_def by (simp add: unsigned_ucast_eq)
  also have "\<dots> = take_bit 64 (drop_bit (64 * i) (unat x))"
    by (simp only: unat_drop_bit_eq)
  finally show ?thesis by (simp only: take_bit_eq_mod drop_bit_eq_div)
qed

lemma count_significant_words_bytes:
  "unat x < 2 ^ (64 * k) \<Longrightarrow>
   (let w = count_significant_words k x
    in if w \<noteq> 0 then count_significant_bytes_u64 (uint256_word x (w - 1)) + (w - 1) * 8 else 0)
   = (bit_len (unat x) + 7) div 8"
proof (induction k)
  case (Suc k)
  have q: "unat x div 2 ^ (64 * k) < 2 ^ 64"
    using Suc.prems by (simp add: less_mult_imp_div_less power_add)
  then have w: "unat (uint256_word x k) = unat x div 2 ^ (64 * k)"
    by (simp add: unat_uint256_word)
  show ?case
  proof (cases "uint256_word x k = 0")
    case True
    then have "unat x div 2 ^ (64 * k) = 0" using w by simp
    then have "unat x < 2 ^ (64 * k)" by (simp add: div_eq_0_iff)
    then show ?thesis using Suc.IH True by (simp add: Let_def)
  next
    case False
    then have "unat x div 2 ^ (64 * k) \<noteq> 0" using w by (metis unat_eq_0)
    then have "64 * k < bit_len (unat x)"
      using bit_len_le_iff [of "unat x" "64 * k"] by (metis div_less leI)
    moreover have "bit_len (unat x div 2 ^ (64 * k)) = bit_len (unat x) - 64 * k"
      by (rule bit_len_div)
    ultimately show ?thesis using False
      by (simp add: Let_def count_significant_bytes_u64_eq w)
  qed
qed simp

lemma count_significant_bytes_eq: "count_significant_bytes x = (bit_len (unat x) + 7) div 8"
  using count_significant_words_bytes [of x 4] unat_less_exp [of x]
  by (simp add: count_significant_bytes_def)

lemma length_nat_to_be: "length (nat_to_be n) = (bit_len n + 7) div 8"
proof (induction n rule: nat_to_be.induct)
  case (1 n)
  show ?case
  proof (cases "n = 0")
    case False
    have "bit_len (n div 256) = bit_len n - 8" using bit_len_div [of n 8] by simp
    moreover have "0 < bit_len n" using False by (simp add: bit_len_pos)
    moreover have "length (nat_to_be n) = Suc (length (nat_to_be (n div 256)))"
      using nat_to_be_pos [of n] False by simp
    moreover have "0 < m \<Longrightarrow> Suc ((m - 8 + 7) div 8) = (m + 7) div 8" for m :: nat
    proof (cases "m \<le> 8")
      case True
      moreover assume "0 < m"
      ultimately have "(m + 7) div 8 = 1" by (intro div_nat_eqI) simp_all
      with True show ?thesis by simp
    next
      case False
      then obtain k where "m = k + 8" by (metis le_add_diff_inverse2 nat_le_linear)
      then show ?thesis by simp
    qed
    ultimately show ?thesis using "1.IH" [OF False] by metis
  qed simp
qed

lemma count_significant_bytes_length: "count_significant_bytes x = length (nat_to_be (unat x))"
  by (simp add: count_significant_bytes_eq length_nat_to_be)

section \<open>Store, load, and the two compact conversions\<close>

lemma be_digits_eq:
  "n < 256 ^ m \<Longrightarrow>
   rev (map (\<lambda>i. word_of_nat (n div 256 ^ i) :: 8 word) [0..<m])
   = replicate (m - length (nat_to_be n)) 0 @ nat_to_be n"
proof (induction m arbitrary: n)
  case (Suc m)
  have less: "n div 256 < 256 ^ m" using Suc.prems by (simp add: less_mult_imp_div_less mult.commute)
  have m: "map (\<lambda>i. word_of_nat (n div 256 ^ i) :: 8 word) [0..<Suc m]
    = word_of_nat n # map (\<lambda>i. word_of_nat (n div 256 div 256 ^ i)) [0..<m]"
    by (simp add: upt_conv_Cons map_Suc_upt [symmetric] div_mult2_eq del: upt_Suc)
  have b: "word_of_nat n = (word_of_nat (n mod 256) :: 8 word)"
    by (simp add: word_of_nat_eq_iff take_bit_eq_mod)
  show ?case
  proof (cases "n = 0")
    case False
    have "length (nat_to_be (n div 256)) \<le> m" using less by (rule length_nat_to_be_le)
    then show ?thesis unfolding m using Suc.IH [OF less] False b by (simp add: nat_to_be_pos)
  next
    case True
    then show ?thesis by (simp add: map_replicate_const replicate_append_same)
  qed
qed simp

lemma be_store_eq:
  "be_store x = replicate (32 - length (nat_to_be (unat x))) 0 @ nat_to_be (unat x)"
proof -
  have "unat x < 256 ^ 32" using unat_less_exp [of x] by simp
  moreover have "ucast (drop_bit (8 * i) x) = (word_of_nat (unat x div 256 ^ i) :: 8 word)" for i
  proof -
    have "unat (drop_bit (8 * i) x) = unat x div 256 ^ i"
      unfolding unat_drop_bit_eq by (simp add: drop_bit_eq_div power_mult)
    then show ?thesis by (metis of_nat_unat)
  qed
  ultimately show ?thesis unfolding be_store_def using be_digits_eq [of "unat x" 32] by simp
qed

lemma unat_be_load: "length bs \<le> 32 \<Longrightarrow> unat (be_load bs) = be_val bs"
proof (induction bs rule: rev_induct)
  case (snoc b bs)
  have "be_val bs * 256 + unat b < 256 ^ 32"
  proof -
    have "be_val (bs @ [b]) < 256 ^ length (bs @ [b])" by (rule be_val_less)
    also have "\<dots> \<le> 256 ^ 32" using snoc.prems by (intro power_increasing) simp_all
    finally show ?thesis by simp
  qed
  moreover have "be_load (bs @ [b]) = be_load bs * 256 + ucast b" by (simp add: be_load_def)
  moreover have "unat (ucast b :: u256) = unat b" by (rule unat_ucast_widen) simp
  ultimately show ?case using snoc by (simp add: unat_word_ariths)
qed (simp add: be_load_def)

lemma to_big_compact_u256_eq: "to_big_compact_u256 n = nat_to_be (unat n)"
proof -
  have "length (nat_to_be (unat n)) \<le> 32"
    using unat_less_exp [of n] by (intro length_nat_to_be_le) simp
  then show ?thesis
    by (simp add: to_big_compact_u256_def be_store_eq count_significant_bytes_length Let_def)
qed

lemma to_big_compact_eq:
  assumes "LENGTH('a::len) \<le> 256"
  shows "to_big_compact (n :: 'a word) = nat_to_be (unat n)"
proof -
  have u: "unat (ucast n :: u256) = unat n" using assms by (intro unat_ucast_widen) simp
  have "to_big_compact n = to_big_compact_u256 (ucast n)"
  proof (cases "n = 0")
    case False
    then have "unat (ucast n :: u256) \<noteq> 0" using u by (simp add: unat_eq_0)
    then have "(ucast n :: u256) \<noteq> 0" by (metis unat_0)
    with False show ?thesis by (simp add: to_big_compact_def to_big_compact_u256_def Let_def)
  qed (simp add: to_big_compact_def to_big_compact_u256_def)
  then show ?thesis using u by (simp add: to_big_compact_u256_eq)
qed

text \<open>
  The reference reading of a compact integer: no leading zero (a lone zero byte is accepted as
  zero) and the value fits the target width.
\<close>

definition compact_value :: "nat \<Rightarrow> bytes \<Rightarrow> decoding_error + nat" where
  "compact_value w bytes =
     (if bytes \<noteq> [] \<and> hd bytes = 0 \<and> 1 < length bytes then Inl kLeadingZero
      else if be_val bytes < 2 ^ w then Inr (be_val bytes) else Inl kOverflow)"

lemma be_val_too_long:
  assumes "32 < length bs" "hd bs \<noteq> 0" "w \<le> 256"
  shows "2 ^ w \<le> be_val bs"
proof -
  have "(2::nat) ^ w \<le> 2 ^ 256" using assms(3) by (intro power_increasing) simp_all
  also have "\<dots> = 256 ^ 32" by simp
  also have "\<dots> \<le> 256 ^ (length bs - 1)" using assms(1) by (intro power_increasing) simp_all
  also have "\<dots> \<le> be_val bs" using assms(1,2) by (intro be_val_ge) auto
  finally show ?thesis .
qed

lemma from_big_compact_u256_eq:
  "from_big_compact_u256 bytes = outcome_try (compact_value 256 bytes) (\<lambda>n. Inr (word_of_nat n))"
proof (cases "bytes = [] \<or> hd bytes = 0")
  case True
  then show ?thesis
    by (cases bytes) (auto simp: from_big_compact_u256_def compact_value_def be_val_Cons)
next
  case False
  then have ne: "bytes \<noteq> []" "hd bytes \<noteq> 0" "bytes ! 0 \<noteq> 0" by (auto simp: hd_conv_nth)
  show ?thesis
  proof (cases "32 < length bytes")
    case True
    then show ?thesis using ne be_val_too_long [of bytes 256]
      by (simp add: from_big_compact_u256_def compact_value_def)
  next
    case short: False
    let ?p = "replicate (32 - length bytes) 0 @ bytes"
    have v: "be_val ?p = be_val bytes" by (simp add: be_val_append)
    have l: "unat (be_load ?p) = be_val bytes" using short v by (simp add: unat_be_load)
    moreover have "be_val bytes < 2 ^ 256"
      using l unat_less_exp [of "be_load ?p"] by simp
    moreover have "be_load ?p = word_of_nat (be_val bytes)" using l by (metis of_nat_unat ucast_id)
    ultimately show ?thesis using ne short
      by (simp add: from_big_compact_u256_def compact_value_def)
  qed
qed

lemma from_big_compact_eq_u256:
  "from_big_compact bytes =
     outcome_try (from_big_compact_u256 bytes)
       (\<lambda>v. if ucast (- 1 :: 'a::len word) < v then Inl kOverflow else Inr (ucast v :: 'a word))"
  by (simp add: from_big_compact_def from_big_compact_u256_def Let_def)

lemma from_big_compact_eq:
  assumes w: "LENGTH('a::len) \<le> 256"
  shows "(from_big_compact bytes :: decoding_error + 'a word) =
     outcome_try (compact_value LENGTH('a) bytes) (\<lambda>n. Inr (word_of_nat n))"
proof -
  have m: "unat (ucast (- 1 :: 'a word) :: u256) = 2 ^ LENGTH('a) - 1"
  proof -
    have "unat (ucast (- 1 :: 'a word) :: u256) = unat (- 1 :: 'a word)"
      using w by (intro unat_ucast_widen) simp
    also have "\<dots> = mask LENGTH('a)" by (rule unsigned_minus_1_eq_mask)
    finally show ?thesis by (simp add: mask_eq_exp_minus_1)
  qed
  have pw: "(2::nat) ^ LENGTH('a) \<le> 2 ^ 256" using w by (intro power_increasing) simp_all
  have un: "n < 2 ^ 256 \<Longrightarrow> unat (word_of_nat n :: u256) = n" for n
    by (simp add: unat_of_nat)
  have uc: "n < 2 ^ 256 \<Longrightarrow> (ucast (word_of_nat n :: u256) :: 'a word) = word_of_nat n" for n
    by (metis un of_nat_unat)
  have lt: "ucast (- 1 :: 'a word) < (word_of_nat n :: u256) \<longleftrightarrow> \<not> n < 2 ^ LENGTH('a)" if "n < 2 ^ 256" for n
  proof -
    have "0 < (2::nat) ^ LENGTH('a)" by simp
    then show ?thesis unfolding word_less_nat_alt m un [OF that] by linarith
  qed
  show ?thesis
    unfolding from_big_compact_eq_u256 from_big_compact_u256_eq compact_value_def
    using pw un uc lt by auto
qed

lemma compact_value_nat_to_be [simp]: "n < 2 ^ w \<Longrightarrow> compact_value w (nat_to_be n) = Inr n"
  using hd_nat_to_be [of n] by (auto simp: compact_value_def)

lemma compact_value_canonical:
  "compact_value w bytes = Inr n \<Longrightarrow> bytes \<noteq> [0] \<Longrightarrow> nat_to_be n = bytes"
proof -
  assume c: "compact_value w bytes = Inr n" and "bytes \<noteq> [0]"
  then have "bytes = [] \<or> hd bytes \<noteq> 0"
    by (cases bytes rule: list.exhaust; cases "tl bytes") (auto simp: compact_value_def split: if_splits)
  moreover have "n = be_val bytes" using c by (auto simp: compact_value_def split: if_splits)
  ultimately show ?thesis using nat_to_be_be_val by simp
qed

end
