(* ===== verification/Rlp_Spec.thy ===== *)
theory Rlp_Spec
  imports Rlp_Endian
begin

text \<open>
  The abstract specification of Recursive Length Prefix encoding: an RLP value is a tree of byte
  strings, and \<open>rlp_encode\<close> writes it in the canonical form of the Ethereum yellow paper. The
  encoder, the decoder and the codecs built on them are proved against this specification.
\<close>

section \<open>Items and their encoding\<close>

datatype rlp_item = RStr bytes | RList "rlp_item list"

definition rlp_prefix :: "nat \<Rightarrow> nat \<Rightarrow> bytes" where
  "rlp_prefix offset n =
     (if n \<le> 55 then [word_of_nat (offset + n)]
      else word_of_nat (offset + 55 + length (nat_to_be n)) # nat_to_be n)"

definition rlp_str :: "bytes \<Rightarrow> bytes" where
  "rlp_str bs = (if length bs = 1 \<and> unat (bs ! 0) < 0x80 then bs else rlp_prefix 0x80 (length bs) @ bs)"

definition rlp_list :: "bytes \<Rightarrow> bytes" where
  "rlp_list payload = rlp_prefix 0xC0 (length payload) @ payload"

fun rlp_encode :: "rlp_item \<Rightarrow> bytes" where
  "rlp_encode (RStr bs) = rlp_str bs"
| "rlp_encode (RList ts) = rlp_list (concat (map rlp_encode ts))"

definition rlp_encodes :: "rlp_item list \<Rightarrow> bytes" where
  "rlp_encodes ts = concat (map rlp_encode ts)"

lemma rlp_encode_simps:
  "rlp_encode (RStr bs) = rlp_str bs" "rlp_encode (RList ts) = rlp_list (rlp_encodes ts)"
  by (simp_all add: rlp_encodes_def)

declare rlp_encode.simps [simp del]

lemma rlp_encodes_simps [simp]:
  "rlp_encodes [] = []" "rlp_encodes (t # ts) = rlp_encode t @ rlp_encodes ts"
  "rlp_encodes (ts @ us) = rlp_encodes ts @ rlp_encodes us"
  by (simp_all add: rlp_encodes_def)

definition RUint :: "nat \<Rightarrow> rlp_item" where
  "RUint n = RStr (nat_to_be n)"

definition RBool :: "bool \<Rightarrow> rlp_item" where
  "RBool b = RUint (if b then 1 else 0)"

text \<open>
  A byte string held in memory has a length that fits \<open>size_t\<close>; an item \<^emph>\<open>fits\<close> when its
  encoding does.
\<close>

definition fits :: "rlp_item \<Rightarrow> bool" where
  "fits t \<longleftrightarrow> length (rlp_encode t) < 2 ^ 64"

section \<open>Shapes and sizes\<close>

lemma rlp_prefix_not_Nil [simp]: "rlp_prefix k n \<noteq> []"
  by (simp add: rlp_prefix_def)

lemma rlp_str_not_Nil [simp]: "rlp_str bs \<noteq> []"
  by (auto simp: rlp_str_def)

lemma rlp_list_not_Nil [simp]: "rlp_list p \<noteq> []"
  by (simp add: rlp_list_def)

lemma rlp_encode_not_Nil [simp]: "rlp_encode t \<noteq> []"
  by (cases t) (simp_all add: rlp_encode_simps)

lemma length_rlp_encode_pos [simp]: "0 < length (rlp_encode t)"
  by simp

lemma length_rlp_str_ge: "length bs \<le> length (rlp_str bs)"
  by (simp add: rlp_str_def)

lemma fits_RStrD: "fits (RStr bs) \<Longrightarrow> length bs < 2 ^ 64"
  using length_rlp_str_ge [of bs] by (simp add: fits_def rlp_encode_simps)

lemma fits_RListD: "fits (RList ts) \<Longrightarrow> length (rlp_encodes ts) < 2 ^ 64"
  by (simp add: fits_def rlp_encode_simps rlp_list_def)

lemma fits_RList_elem: "fits (RList ts) \<Longrightarrow> t \<in> set ts \<Longrightarrow> fits t"
proof -
  assume f: "fits (RList ts)" and t: "t \<in> set ts"
  then obtain us vs where "ts = us @ t # vs" by (meson split_list)
  then have "length (rlp_encode t) \<le> length (rlp_encodes ts)" by simp
  then show ?thesis using fits_RListD [OF f] by (simp add: fits_def)
qed

lemma fits_RList_all: "fits (RList ts) \<Longrightarrow> list_all fits ts"
  by (auto simp: list_all_iff intro: fits_RList_elem)

lemma length_nat_to_be_u64: "n < 2 ^ 64 \<Longrightarrow> length (nat_to_be n) \<le> 8"
  by (rule length_nat_to_be_le) simp

lemma length_nat_to_be_u256: "n < 2 ^ 256 \<Longrightarrow> length (nat_to_be n) \<le> 32"
  by (rule length_nat_to_be_le) simp

lemma length_rlp_str_le: "length bs \<le> 55 \<Longrightarrow> length (rlp_str bs) \<le> length bs + 1"
  by (simp add: rlp_str_def rlp_prefix_def)

lemma fits_short [simp]: "length bs \<le> 55 \<Longrightarrow> fits (RStr bs)"
  using length_rlp_str_le [of bs] by (simp add: fits_def rlp_encode_simps)

lemma fits_RUint [simp]: "n < 2 ^ 256 \<Longrightarrow> fits (RUint n)"
  using length_nat_to_be_u256 [of n] by (simp add: RUint_def)

lemma fits_RBool [simp]: "fits (RBool b)"
  by (simp add: RBool_def)

lemma length_rlp_prefix_le: "n < 2 ^ 64 \<Longrightarrow> length (rlp_prefix k n) \<le> 9"
  using length_nat_to_be_u64 [of n] by (simp add: rlp_prefix_def)

lemma fits_RStrI: "length bs < 2 ^ 63 \<Longrightarrow> fits (RStr bs)"
  using length_rlp_prefix_le [of "length bs" "0x80"] by (simp add: fits_def rlp_encode_simps rlp_str_def)

lemma fits_RListI: "length (rlp_encodes ts) < 2 ^ 63 \<Longrightarrow> fits (RList ts)"
  using length_rlp_prefix_le [of "length (rlp_encodes ts)" "0xC0"]
  by (simp add: fits_def rlp_encode_simps rlp_list_def)

lemma length_RUint_le: "n < 2 ^ 256 \<Longrightarrow> length (rlp_encode (RUint n)) \<le> 33"
  using length_nat_to_be_u256 [of n] length_rlp_str_le [of "nat_to_be n"]
  by (simp add: RUint_def rlp_encode_simps)

text \<open>An easily computed upper bound for the size of an encoding.\<close>

fun rlp_bound :: "rlp_item \<Rightarrow> nat" where
  "rlp_bound (RStr bs) = length bs + 9"
| "rlp_bound (RList ts) = sum_list (map rlp_bound ts) + 9"

lemma length_rlp_encode_bound: "rlp_bound t < 2 ^ 64 \<Longrightarrow> length (rlp_encode t) \<le> rlp_bound t"
proof (induction t)
  case (RStr bs)
  then show ?case using length_rlp_prefix_le [of "length bs" "0x80"]
    by (simp add: rlp_encode_simps rlp_str_def)
next
  case (RList ts)
  have "length (rlp_encodes us) \<le> sum_list (map rlp_bound us)" if "set us \<subseteq> set ts" for us
    using that
  proof (induction us)
    case (Cons u us)
    then have "rlp_bound u \<le> sum_list (map rlp_bound ts)"
      by (intro member_le_sum_list) auto
    with RList.prems have "rlp_bound u < 2 ^ 64" by simp
    with RList.IH [of u] Cons show ?case by simp
  qed simp
  from this [of ts] RList.prems length_rlp_prefix_le [of "length (rlp_encodes ts)" "0xC0"] show ?case
    by (simp add: rlp_encode_simps rlp_list_def)
qed

lemma fits_bound: "rlp_bound t < 2 ^ 64 \<Longrightarrow> fits t"
  using length_rlp_encode_bound [of t] by (simp add: fits_def)

text \<open>The first byte tells strings from lists.\<close>

lemma unat_byte_numeral_plus [simp]:
  "numeral k + n < 256 \<Longrightarrow> unat (numeral k + word_of_nat n :: byte) = numeral k + n"
  using unat_of_nat_byte [of "numeral k + n"] by simp

lemma hd_rlp_str_less: "length bs < 2 ^ 64 \<Longrightarrow> unat (hd (rlp_str bs)) < 0xC0"
proof -
  assume "length bs < 2 ^ 64"
  then have "length (nat_to_be (length bs)) \<le> 8" by (rule length_nat_to_be_u64)
  then show ?thesis
    by (cases bs) (auto simp: rlp_str_def rlp_prefix_def)
qed

lemma hd_rlp_list_ge: "length p < 2 ^ 64 \<Longrightarrow> 0xC0 \<le> unat (hd (rlp_list p))"
proof -
  assume "length p < 2 ^ 64"
  then have "length (nat_to_be (length p)) \<le> 8" by (rule length_nat_to_be_u64)
  then show ?thesis by (auto simp: rlp_list_def rlp_prefix_def)
qed

end
