(* ===== verification/Rlp_Encoder.thy ===== *)
theory Rlp_Encoder
  imports Rlp_Spec
begin

text \<open>
  The model of \<open>RlpEncoder\<close> (include/rlp/rlp\_encoder.hpp, src/rlp/rlp\_encoder.cpp): a buffer and a
  stack of list start positions. Each public method is an operation on the record that returns the
  new state or an \<open>EncodingError\<close>. The operations are proved to append exactly the bytes of the
  abstract encoding of Rlp\_Spec, and the relation \<open>emits_item\<close> carries that fact through every codec
  written on top of the encoder.
\<close>

section \<open>State and operations\<close>

record rlp_encoder =
  buffer :: bytes
  list_start_positions :: "nat list"

type_synonym encoder_op = "rlp_encoder \<Rightarrow> encoding_error + rlp_encoder"

definition new_encoder :: rlp_encoder where
  "new_encoder = \<lparr>buffer = [], list_start_positions = []\<rparr>"

definition push_bytes :: "bytes \<Rightarrow> rlp_encoder \<Rightarrow> rlp_encoder" where
  "push_bytes bs e = e\<lparr>buffer := buffer e @ bs\<rparr>"

definition encode_header_bytes :: "bool \<Rightarrow> nat \<Rightarrow> encoding_error + bytes" where
  "encode_header_bytes lst payload_size =
     (let short_offset = (if lst then kShortListOffset else kShortStringOffset);
          long_offset = (if lst then kLongListOffset else kLongStringOffset)
      in if payload_size \<le> kMaxShortStringLen
         then Inr [word_of_nat (short_offset + payload_size)]
         else let len_be = to_big_compact (word_of_nat payload_size :: u64)
              in if 8 < length len_be then Inl kPayloadTooLarge
                 else Inr (word_of_nat (long_offset + length len_be) # len_be))"

definition add_bytes :: "bytes \<Rightarrow> encoder_op" where
  "add_bytes bs e =
     (if length bs = 1 \<and> unat (bs ! 0) < kRlpSingleByteThreshold
      then Inr (push_bytes [bs ! 0] e)
      else outcome_try (encode_header_bytes False (length bs))
             (\<lambda>header. Inr (push_bytes (header @ bs) e)))"

definition AddRaw :: "bytes \<Rightarrow> encoder_op" where
  "AddRaw bs e = (if bs = [] then Inl kEmptyInput else Inr (push_bytes bs e))"

definition add_uint256 :: "u256 \<Rightarrow> encoder_op" where
  "add_uint256 n e =
     (if n = 0 then Inr (push_bytes [kEmptyStringCode] e)
      else if unat n < kRlpSingleByteThreshold then Inr (push_bytes [ucast n] e)
      else let be = to_big_compact_u256 n
           in outcome_try (encode_header_bytes False (length be))
                (\<lambda>header. Inr (push_bytes (header @ be) e)))"

text \<open>
  The integral template, one definition per width. \<open>shift_byte\<close> is the conditional store
  \<open>if (val >> s) buf[len++] = (uint8_t)(val >> s)\<close>.
\<close>

definition shift_byte :: "'a::len word \<Rightarrow> nat \<Rightarrow> bytes" where
  "shift_byte val s = (if drop_bit s val \<noteq> 0 then [ucast (drop_bit s val)] else [])"

definition push_integral :: "bytes \<Rightarrow> rlp_encoder \<Rightarrow> rlp_encoder" where
  "push_integral buf e = push_bytes (word_of_nat (kShortStringOffset + length buf) # buf) e"

definition add_u8 :: "u8 \<Rightarrow> encoder_op" where
  "add_u8 n e =
     (if n = 0 then Inr (push_bytes [kEmptyStringCode] e)
      else if unat n < kRlpSingleByteThreshold then Inr (push_bytes [n] e)
      else Inr (push_bytes [word_of_nat (kShortStringOffset + kLongPrefixByteSize), n] e))"

definition add_u16 :: "u16 \<Rightarrow> encoder_op" where
  "add_u16 n e =
     (if n = 0 then Inr (push_bytes [kEmptyStringCode] e)
      else if unat n < kRlpSingleByteThreshold then Inr (push_bytes [ucast n] e)
      else Inr (push_integral (shift_byte n 8 @ [ucast (n AND 0xFF)]) e))"

definition add_u32 :: "u32 \<Rightarrow> encoder_op" where
  "add_u32 n e =
     (if n = 0 then Inr (push_bytes [kEmptyStringCode] e)
      else if unat n < kRlpSingleByteThreshold then Inr (push_bytes [ucast n] e)
      else Inr (push_integral
             (shift_byte n 24 @ shift_byte n 16 @ shift_byte n 8 @ [ucast (n AND 0xFF)]) e))"

definition add_u64 :: "u64 \<Rightarrow> encoder_op" where
  "add_u64 n e =
     (if n = 0 then Inr (push_bytes [kEmptyStringCode] e)
      else if unat n < kRlpSingleByteThreshold then Inr (push_bytes [ucast n] e)
      else Inr (push_integral
             (shift_byte n 56 @ shift_byte n 48 @ shift_byte n 40 @ shift_byte n 32 @
              shift_byte n 24 @ shift_byte n 16 @ shift_byte n 8 @ [ucast (n AND 0xFF)]) e))"

text \<open>A \<open>bool\<close> argument is not an \<open>is_unsigned_integral_v\<close> type: the call converts it to \<open>uint256\<close>.\<close>

definition add_bool :: "bool \<Rightarrow> encoder_op" where
  "add_bool b = add_uint256 (if b then 1 else 0)"

definition BeginList :: encoder_op where
  "BeginList e = Inr (e\<lparr>list_start_positions := list_start_positions e @ [length (buffer e)]\<rparr>)"

definition EndList :: encoder_op where
  "EndList e =
     (if list_start_positions e = [] then Inl kUnmatchedEndList
      else let start_pos = last (list_start_positions e);
               payload_len = length (buffer e) - start_pos
           in outcome_try (encode_header_bytes True payload_len)
                (\<lambda>header. Inr (e\<lparr>buffer := take start_pos (buffer e) @ header @ drop start_pos (buffer e),
                                list_start_positions := butlast (list_start_positions e)\<rparr>)))"

definition add_vector :: "('a \<Rightarrow> encoder_op) \<Rightarrow> 'a list \<Rightarrow> encoder_op" where
  "add_vector add_item vec = run_ops (BeginList # map add_item vec @ [EndList])"

definition GetBytes :: "rlp_encoder \<Rightarrow> encoding_error + bytes" where
  "GetBytes e = (if list_start_positions e \<noteq> [] then Inl kUnclosedList else Inr (buffer e))"

definition clear :: "rlp_encoder \<Rightarrow> rlp_encoder" where
  "clear e = e\<lparr>buffer := [], list_start_positions := []\<rparr>"

section \<open>The invariant of the list stack\<close>

text \<open>
  The start positions are non-decreasing and lie inside the buffer, so the subtraction in
  \<open>EndList\<close> never wraps and the insertion point exists.
\<close>

definition encoder_inv :: "rlp_encoder \<Rightarrow> bool" where
  "encoder_inv e \<longleftrightarrow> sorted (list_start_positions e) \<and>
     (\<forall>p \<in> set (list_start_positions e). p \<le> length (buffer e))"

lemma new_encoder_inv [simp]: "encoder_inv new_encoder"
  by (simp add: encoder_inv_def new_encoder_def)

lemma clear_inv [simp]: "encoder_inv (clear e)"
  by (simp add: encoder_inv_def clear_def)

lemma push_bytes_inv [simp]: "encoder_inv e \<Longrightarrow> encoder_inv (push_bytes bs e)"
  by (auto simp: encoder_inv_def push_bytes_def intro: le_trans)

lemma BeginList_inv: "encoder_inv e \<Longrightarrow> BeginList e = Inr e' \<Longrightarrow> encoder_inv e'"
  by (auto simp: encoder_inv_def BeginList_def sorted_append)

lemma EndList_inv:
  assumes "encoder_inv e" "EndList e = Inr e'"
  shows "encoder_inv e'"
proof (cases "list_start_positions e" rule: rev_cases)
  case Nil
  with assms show ?thesis by (simp add: EndList_def)
next
  case (snoc ys y)
  with assms obtain h where
    "e' = e\<lparr>buffer := take y (buffer e) @ h @ drop y (buffer e), list_start_positions := ys\<rparr>"
    by (auto simp: EndList_def outcome_iffs Let_def)
  with snoc assms(1) show ?thesis
    by (simp add: encoder_inv_def sorted_append trans_le_add2)
qed

section \<open>What each operation appends\<close>

lemma push_bytes_Nil [simp]: "push_bytes [] e = e"
  by (simp add: push_bytes_def)

lemma push_bytes_push_bytes [simp]: "push_bytes bs (push_bytes as e) = push_bytes (as @ bs) e"
  by (simp add: push_bytes_def)

lemma encode_header_bytes_eq:
  "n < 2 ^ 64 \<Longrightarrow> encode_header_bytes lst n = Inr (rlp_prefix (if lst then 0xC0 else 0x80) n)"
proof -
  assume n: "n < 2 ^ 64"
  then have "to_big_compact (word_of_nat n :: u64) = nat_to_be n"
    by (simp add: to_big_compact_eq unat_of_nat)
  with length_nat_to_be_u64 [OF n] show ?thesis
    by (simp add: encode_header_bytes_def rlp_prefix_def Let_def)
qed

lemma add_bytes_eq: "length bs < 2 ^ 64 \<Longrightarrow> add_bytes bs e = Inr (push_bytes (rlp_str bs) e)"
  by (cases bs) (auto simp: add_bytes_def rlp_str_def encode_header_bytes_eq)

lemma rlp_str_nat_to_be:
  "rlp_str (nat_to_be n) =
     (if n = 0 then [0x80] else if n < 0x80 then [word_of_nat n]
      else rlp_prefix 0x80 (length (nat_to_be n)) @ nat_to_be n)"
proof (cases "n < 256")
  case True
  then show ?thesis
    by (cases "n = 0") (auto simp: rlp_str_def nat_to_be_single unat_of_nat_byte rlp_prefix_def)
next
  case False
  then have "2 \<le> length (nat_to_be n)" by (intro length_nat_to_be_ge_2) simp
  with False show ?thesis by (simp add: rlp_str_def)
qed

lemma length_nat_to_be_word:
  assumes "LENGTH('a::len) \<le> 256"
  shows "length (nat_to_be (unat (w :: 'a word))) < 18446744073709551616"
proof -
  have "(2::nat) ^ LENGTH('a) \<le> 2 ^ 256" using assms by (intro power_increasing) simp_all
  then have "unat w < 2 ^ 256" using unat_less_exp [of w] by (rule less_le_trans [rotated])
  from length_nat_to_be_u256 [OF this] show ?thesis by simp
qed

lemma ucast_byte_of_nat: "(ucast (w :: 'a::len word) :: byte) = word_of_nat (unat w)"
  by simp

lemma add_uint256_eq: "add_uint256 n e = Inr (push_bytes (rlp_str (nat_to_be (unat n))) e)"
proof -
  have len: "length (nat_to_be (unat n)) \<le> 32"
    using unat_less_exp [of n] by (intro length_nat_to_be_u256) simp
  then have hdr: "encode_header_bytes False (length (nat_to_be (unat n)))
      = Inr (rlp_prefix 0x80 (length (nat_to_be (unat n))))"
    by (simp add: encode_header_bytes_eq)
  have z: "n = 0 \<longleftrightarrow> unat n = 0" by (simp add: unat_eq_0)
  show ?thesis
    unfolding add_uint256_def rlp_str_nat_to_be to_big_compact_u256_eq Let_def z hdr
    by (simp add: unat_eq_0)
qed

text \<open>The shift cascades write the shortest big-endian form.\<close>

lemma nat_to_be_shift:
  "n < 256 ^ Suc k \<Longrightarrow> nat_to_be n = nat_to_be (n div 256) @ (if n = 0 then [] else [word_of_nat n])"
  using nat_to_be_pos [of n] by (auto simp: word_of_nat_eq_iff take_bit_eq_mod)

lemma shift_byte_eq:
  "shift_byte (v :: 'a::len word) s =
     (if unat v div 2 ^ s = 0 then [] else [word_of_nat (unat v div 2 ^ s)])"
proof -
  have "unat (drop_bit s v) = unat v div 2 ^ s"
    unfolding unat_drop_bit_eq by (rule drop_bit_eq_div)
  then show ?thesis
    unfolding shift_byte_def ucast_byte_of_nat by (simp add: unat_eq_0 [symmetric])
qed


text \<open>Peeling the last digit \<open>k\<close> times writes the cascade of \<open>k + 1\<close> conditional bytes.\<close>

lemma nat_to_be_peel:
  "nat_to_be (n div 2 ^ s) =
     nat_to_be (n div 2 ^ (s + 8)) @ (if n div 2 ^ s = 0 then [] else [word_of_nat (n div 2 ^ s)])"
proof -
  have "n div 2 ^ s div 256 = n div 2 ^ (s + 8)"
    by (simp add: div_mult2_eq [symmetric] power_add)
  then show ?thesis using nat_to_be_shift [of "n div 2 ^ s"] nat_to_be_pos [of "n div 2 ^ s"]
    by (auto simp: word_of_nat_eq_iff take_bit_eq_mod)
qed

lemma shift_cascade: "nat_to_be (unat v div 2 ^ s) = nat_to_be (unat v div 2 ^ (s + 8)) @ shift_byte v s"
  by (simp add: nat_to_be_peel [of "unat v" s] shift_byte_eq)

lemma ucast_byte_and_mask: "(ucast ((v :: 'a::len word) AND 0xFF) :: byte) = ucast v"
proof -
  have m: "(0xFF :: 'a word) = mask 8" by (simp add: mask_eq_exp_minus_1)
  show ?thesis unfolding m
    by (rule bit_eqI) (auto simp: bit_ucast_iff bit_and_iff bit_mask_iff dest: bit_imp_le_length)
qed

lemma shift_byte_last: "v \<noteq> 0 \<Longrightarrow> [ucast ((v :: 'a::len word) AND 0xFF)] = shift_byte v 0"
  by (simp add: ucast_byte_and_mask shift_byte_def)

lemma integral_prefix:
  "length bs \<le> 32 \<Longrightarrow> push_integral bs e = push_bytes (rlp_prefix 0x80 (length bs) @ bs) e"
  by (simp add: push_integral_def rlp_prefix_def)

lemma add_u8_eq: "add_u8 n e = Inr (push_bytes (rlp_str (nat_to_be (unat n))) e)"
  using unat_byte_less [of n]
  by (auto simp: add_u8_def rlp_str_nat_to_be unat_eq_0 rlp_prefix_def nat_to_be_single)

lemma nat_to_be_u16: "nat_to_be (unat (n :: u16)) = shift_byte n 8 @ shift_byte n 0"
  using shift_cascade [of n 0] shift_cascade [of n 8] unat_less_exp [of n] by simp

lemma nat_to_be_u32: "nat_to_be (unat (n :: u32)) =
    shift_byte n 24 @ shift_byte n 16 @ shift_byte n 8 @ shift_byte n 0"
  using shift_cascade [of n 0] shift_cascade [of n 8] shift_cascade [of n 16]
    shift_cascade [of n 24] unat_less_exp [of n] by simp

lemma nat_to_be_u64: "nat_to_be (unat (n :: u64)) =
    shift_byte n 56 @ shift_byte n 48 @ shift_byte n 40 @ shift_byte n 32 @
    shift_byte n 24 @ shift_byte n 16 @ shift_byte n 8 @ shift_byte n 0"
  using shift_cascade [of n 0] shift_cascade [of n 8] shift_cascade [of n 16]
    shift_cascade [of n 24] shift_cascade [of n 32] shift_cascade [of n 40]
    shift_cascade [of n 48] shift_cascade [of n 56] unat_less_exp [of n] by simp

lemma length_shift_byte_le: "length (shift_byte n s) \<le> 1"
  by (simp add: shift_byte_def)

lemma add_integral_aux:
  assumes "nat_to_be (unat n) = buf" "unat n < 2 ^ 256"
  shows "(if n = 0 then Inr (push_bytes [0x80] e)
          else if unat n < 0x80 then Inr (push_bytes [ucast n] e)
          else Inr (push_integral buf e)) = Inr (push_bytes (rlp_str (nat_to_be (unat n))) e)"
  using length_nat_to_be_u256 [OF assms(2)] assms(1) rlp_str_nat_to_be [of 0]
  by (auto simp: rlp_str_nat_to_be unat_eq_0 integral_prefix)

lemma add_u16_eq: "add_u16 n e = Inr (push_bytes (rlp_str (nat_to_be (unat n))) e)"
  using add_integral_aux [OF nat_to_be_u16, of n e] unat_less_exp [of n]
  by (simp add: add_u16_def shift_byte_last split: if_splits)

lemma add_u32_eq: "add_u32 n e = Inr (push_bytes (rlp_str (nat_to_be (unat n))) e)"
  using add_integral_aux [OF nat_to_be_u32, of n e] unat_less_exp [of n]
  by (simp add: add_u32_def shift_byte_last split: if_splits)

lemma add_u64_eq: "add_u64 n e = Inr (push_bytes (rlp_str (nat_to_be (unat n))) e)"
  using add_integral_aux [OF nat_to_be_u64, of n e] unat_less_exp [of n]
  by (simp add: add_u64_def shift_byte_last split: if_splits)


lemma add_bool_eq: "add_bool b e = Inr (push_bytes [if b then 0x01 else 0x80] e)"
  using rlp_str_nat_to_be [of 0] rlp_str_nat_to_be [of 1]
  by (simp add: add_bool_def add_uint256_eq)

lemma BeginList_EndList:
  assumes "buffer e' = buffer e @ p" "list_start_positions e' = list_start_positions e @ [length (buffer e)]"
    "length p < 2 ^ 64"
  shows "EndList e' = Inr (push_bytes (rlp_list p) e)"
  using assms by (simp add: EndList_def encode_header_bytes_eq push_bytes_def rlp_list_def)

section \<open>The refinement relation\<close>

text \<open>
  \<open>emits f bs\<close>: on every state \<open>f\<close> succeeds, appends \<open>bs\<close> and leaves the list stack alone.
  \<open>emits_item f t\<close>: what it appends is the encoding of the item \<open>t\<close>. \<open>or_fail\<close> is
  \<open>if (!encoder.op()) return err;\<close>, and \<open>list_of\<close> brackets a sequence of calls with \<open>BeginList\<close> and
  \<open>EndList\<close> the way every codec of the program does.
\<close>

definition emits :: "encoder_op \<Rightarrow> bytes \<Rightarrow> bool" where
  "emits f bs \<longleftrightarrow> (\<forall>e. f e = Inr (push_bytes bs e))"

definition emits_item :: "encoder_op \<Rightarrow> rlp_item \<Rightarrow> bool" where
  "emits_item f t \<longleftrightarrow> emits f (rlp_encode t)"

definition or_fail :: "encoding_error \<Rightarrow> encoder_op \<Rightarrow> encoder_op" where
  "or_fail err f e = fail_as err (f e)"

definition list_of :: "encoder_op list \<Rightarrow> encoder_op" where
  "list_of fs = run_ops (or_fail kUnclosedList BeginList # fs @ [or_fail kUnclosedList EndList])"

definition put :: "encoder_op \<Rightarrow> encoder_op" where
  "put f = or_fail kPayloadTooLarge f"

lemma emits_or_fail [simp]: "emits f bs \<Longrightarrow> emits (or_fail err f) bs"
  by (simp add: emits_def or_fail_def)

lemma emits_run_ops: "list_all2 emits fs bss \<Longrightarrow> emits (run_ops fs) (concat bss)"
proof (induction fs bss rule: list_all2_induct)
  case (Cons f fs b bss)
  then show ?case by (simp add: emits_def)
qed (simp add: emits_def)

lemma emits_bracket:
  assumes "emits (run_ops fs) p" "length p < 2 ^ 64"
  shows "emits (run_ops (BeginList # fs @ [EndList])) (rlp_list p)"
    and "emits (list_of fs) (rlp_list p)"
  using assms BeginList_EndList
  by (simp_all add: emits_def list_of_def or_fail_def BeginList_def run_ops_append push_bytes_def)

lemma emits_item_or_fail [simp]: "emits_item f t \<Longrightarrow> emits_item (or_fail err f) t"
  by (simp add: emits_item_def)

lemma emits_item_put [simp]: "emits_item f t \<Longrightarrow> emits_item (put f) t"
  by (simp add: put_def)

lemma emits_item_run_ops:
  "list_all2 emits_item fs ts \<Longrightarrow> emits (run_ops fs) (rlp_encodes ts)"
  unfolding rlp_encodes_def by (rule emits_run_ops) (simp add: list_all2_map2 emits_item_def [abs_def])

lemma emits_item_list_of [simp]:
  "list_all2 emits_item fs ts \<Longrightarrow> fits (RList ts) \<Longrightarrow> emits_item (list_of fs) (RList ts)"
  using emits_bracket(2) [OF emits_item_run_ops fits_RListD]
  by (simp add: emits_item_def rlp_encode_simps)

lemma emits_item_add_vector [simp]:
  "list_all2 (\<lambda>x t. emits_item (f x) t) xs ts \<Longrightarrow> fits (RList ts)
     \<Longrightarrow> emits_item (add_vector f xs) (RList ts)"
  using emits_bracket(1) [OF emits_item_run_ops fits_RListD, of "map f xs" ts]
  by (simp add: emits_item_def rlp_encode_simps add_vector_def list_all2_map1)

lemma emits_item_add_bytes [simp]: "fits (RStr bs) \<Longrightarrow> emits_item (add_bytes bs) (RStr bs)"
  using add_bytes_eq [OF fits_RStrD, of bs] by (simp add: emits_item_def emits_def rlp_encode_simps)

lemma emits_item_AddRaw [simp]: "emits_item (AddRaw (rlp_encode t)) t"
  by (simp add: emits_item_def emits_def AddRaw_def)

lemma emits_item_ints [simp]:
  "emits_item (add_u8 a) (RUint (unat a))" "emits_item (add_u16 b) (RUint (unat b))"
  "emits_item (add_u32 c) (RUint (unat c))" "emits_item (add_u64 d) (RUint (unat d))"
  "emits_item (add_uint256 n) (RUint (unat n))" "emits_item (add_bool t) (RBool t)"
  by (simp_all add: emits_item_def emits_def RUint_def rlp_encode_simps add_u8_eq add_u16_eq
      add_u32_eq add_u64_eq add_uint256_eq add_bool_def RBool_def)

section \<open>The encoder refines the specification\<close>

text \<open>
  \<open>write_item\<close> is the recursion the \<open>add\<close> template performs on nested vectors of byte strings.
\<close>

fun write_item :: "rlp_item \<Rightarrow> encoder_op" where
  "write_item (RStr bs) = add_bytes bs"
| "write_item (RList ts) = run_ops (BeginList # map write_item ts @ [EndList])"

lemma emits_item_write_item: "fits t \<Longrightarrow> emits_item (write_item t) t"
proof (induction t)
  case (RList ts)
  then have "list_all2 (\<lambda>x t. emits_item (write_item x) t) ts ts"
    by (auto simp: list_all2_same intro: fits_RList_elem)
  from emits_item_add_vector [OF this RList.prems] show ?case
    unfolding add_vector_def write_item.simps .
qed simp

text \<open>
  C37. Encoding any tree of byte strings whose encoding fits \<open>size_t\<close> with \<open>add\<close>, \<open>BeginList\<close> and
  \<open>EndList\<close> succeeds from every encoder state, appends exactly the canonical RLP encoding of the tree
  and leaves the open lists as they were.
\<close>

theorem write_item_refines: "fits t \<Longrightarrow> write_item t e = Inr (push_bytes (rlp_encode t) e)"
  using emits_item_write_item by (simp add: emits_item_def emits_def)

theorem write_item_refines_witness:
  "fits (RList [RStr [0x83], RList []]) \<and>
   write_item (RList [RStr [0x83], RList []]) new_encoder =
     Inr \<lparr>buffer = [0xC3, 0x81, 0x83, 0xC0], list_start_positions = []\<rparr>"
proof -
  have e: "rlp_encode (RList [RStr [0x83], RList []]) = [0xC3, 0x81, 0x83, 0xC0]"
    by (simp add: rlp_encode_simps rlp_list_def rlp_str_def rlp_prefix_def)
  then have f: "fits (RList [RStr [0x83], RList []])" by (simp add: fits_def)
  from write_item_refines [OF f, of new_encoder] e f show ?thesis
    by (simp add: push_bytes_def new_encoder_def)
qed

text \<open>
  The hand-written shift cascades of the integral \<open>add\<close> overloads and the \<open>uint256\<close> overload
  all write what \<open>add(ByteView)\<close> writes for the shortest big-endian representation of the number.
\<close>

theorem add_integers_canonical:
  "add_u8 a e = add_bytes (nat_to_be (unat a)) e \<and> add_u16 b e = add_bytes (nat_to_be (unat b)) e \<and>
   add_u32 c e = add_bytes (nat_to_be (unat c)) e \<and> add_u64 d e = add_bytes (nat_to_be (unat d)) e \<and>
   add_uint256 n e = add_bytes (nat_to_be (unat n)) e"
  by (simp add: add_u8_eq add_u16_eq add_u32_eq add_u64_eq add_uint256_eq add_bytes_eq length_nat_to_be_word)

text \<open>The states an encoder object goes through.\<close>

inductive encoder_reachable :: "rlp_encoder \<Rightarrow> bool" where
  created: "encoder_reachable new_encoder"
| bytes: "encoder_reachable e \<Longrightarrow> add_bytes bs e = Inr e' \<Longrightarrow> encoder_reachable e'"
| raw: "encoder_reachable e \<Longrightarrow> AddRaw bs e = Inr e' \<Longrightarrow> encoder_reachable e'"
| uint256: "encoder_reachable e \<Longrightarrow> add_uint256 n e = Inr e' \<Longrightarrow> encoder_reachable e'"
| u64: "encoder_reachable e \<Longrightarrow> add_u64 i e = Inr e' \<Longrightarrow> encoder_reachable e'"
| u32: "encoder_reachable e \<Longrightarrow> add_u32 j e = Inr e' \<Longrightarrow> encoder_reachable e'"
| u16: "encoder_reachable e \<Longrightarrow> add_u16 k e = Inr e' \<Longrightarrow> encoder_reachable e'"
| u8: "encoder_reachable e \<Longrightarrow> add_u8 l e = Inr e' \<Longrightarrow> encoder_reachable e'"
| begin_list: "encoder_reachable e \<Longrightarrow> BeginList e = Inr e' \<Longrightarrow> encoder_reachable e'"
| end_list: "encoder_reachable e \<Longrightarrow> EndList e = Inr e' \<Longrightarrow> encoder_reachable e'"
| cleared: "encoder_reachable e \<Longrightarrow> encoder_reachable (clear e)"

lemma add_bytes_inv: "encoder_inv e \<Longrightarrow> add_bytes bs e = Inr e' \<Longrightarrow> encoder_inv e'"
  by (auto simp: add_bytes_def outcome_iffs split: if_splits)

lemma add_int_inv:
  "encoder_inv e \<Longrightarrow> add_uint256 n e = Inr e' \<Longrightarrow> encoder_inv e'"
  "encoder_inv e \<Longrightarrow> add_u64 i e = Inr e' \<Longrightarrow> encoder_inv e'"
  "encoder_inv e \<Longrightarrow> add_u32 j e = Inr e' \<Longrightarrow> encoder_inv e'"
  "encoder_inv e \<Longrightarrow> add_u16 k e = Inr e' \<Longrightarrow> encoder_inv e'"
  "encoder_inv e \<Longrightarrow> add_u8 l e = Inr e' \<Longrightarrow> encoder_inv e'"
  "encoder_inv e \<Longrightarrow> AddRaw bs e = Inr e' \<Longrightarrow> encoder_inv e'"
  by (auto simp: add_uint256_eq add_u64_eq add_u32_eq add_u16_eq add_u8_eq AddRaw_def split: if_splits)

text \<open>
  In every state the public methods can reach, the recorded list starts are sorted and lie inside
  the buffer, so \<open>EndList\<close> never computes a negative payload length or inserts outside the buffer.
\<close>

theorem encoder_reachable_inv: "encoder_reachable e \<Longrightarrow> encoder_inv e"
  by (induction rule: encoder_reachable.induct)
     (auto intro: add_bytes_inv add_int_inv BeginList_inv EndList_inv)

theorem encoder_reachable_inv_witness:
  "encoder_inv \<lparr>buffer = [0x05], list_start_positions = [0]\<rparr>"
proof (rule encoder_reachable_inv)
  have "encoder_reachable \<lparr>buffer = [], list_start_positions = [0]\<rparr>"
    by (rule encoder_reachable.begin_list [OF encoder_reachable.created])
       (simp add: BeginList_def new_encoder_def)
  then show "encoder_reachable \<lparr>buffer = [0x05], list_start_positions = [0]\<rparr>"
    by (rule encoder_reachable.u8 [of _ 5]) (simp add: add_u8_def push_bytes_def)
qed

end
