(* ===== verification/Rlp_Decoder.thy ===== *)
theory Rlp_Decoder
  imports Rlp_Encoder
begin

text \<open>
  The model of \<open>RlpDecoder\<close> (include/rlp/rlp\_decoder.hpp, src/rlp/rlp\_decoder.cpp): a view of the
  bytes that remain. An operation returns what it read and the decoder with the consumed prefix
  removed, or a \<open>DecodingError\<close>. The theory proves that the header routine accepts exactly the
  canonical encodings of Rlp\_Spec, that no operation reads past the view, and that every reading
  operation inverts the encoder's writing operation.
\<close>

section \<open>State and header decoding\<close>

record rlp_decoder =
  view :: bytes

type_synonym 'a decoder_op = "rlp_decoder \<Rightarrow> decoding_error + ('a \<times> rlp_decoder)"

definition remove_prefix :: "nat \<Rightarrow> rlp_decoder \<Rightarrow> rlp_decoder" where
  "remove_prefix n d = d\<lparr>view := drop n (view d)\<rparr>"

definition substr :: "bytes \<Rightarrow> nat \<Rightarrow> nat \<Rightarrow> bytes" where
  "substr v pos n = take n (drop pos v)"

text \<open>
  \<open>long_header\<close> is the code both long forms share: the length bytes after the first byte, read with
  \<open>from_big_compact\<close> and required to exceed the short limit.
\<close>

definition long_header :: "bool \<Rightarrow> nat \<Rightarrow> nat \<Rightarrow> bytes \<Rightarrow> decoding_error + (rlp_header \<times> bytes)" where
  "long_header lst hsize limit v =
     (if length v < hsize then Inl kInputTooShort
      else outcome_try (from_big_compact (substr v 1 (hsize - 1)) :: decoding_error + u64) (\<lambda>len64.
        if unat len64 \<le> limit then Inl kNonCanonicalSize
        else Inr (\<lparr>list_h = lst, payload_size_bytes = unat len64, header_size_bytes = hsize\<rparr>,
                  drop hsize v)))"

definition short_string_header :: "nat \<Rightarrow> bytes \<Rightarrow> decoding_error + (rlp_header \<times> bytes)" where
  "short_string_header payload v =
     (if length v < 1 then Inl kInputTooShort
      else if payload = 1 \<and> length v < kSingleByteStringSize then Inl kInputTooShort
      else if payload = 1 \<and> unat (v ! 1) < kShortStringOffset then Inl kNonCanonicalSize
      else Inr (\<lparr>list_h = False, payload_size_bytes = payload, header_size_bytes = 1\<rparr>, drop 1 v))"

definition decode_header_impl :: "bytes \<Rightarrow> decoding_error + (rlp_header \<times> bytes)" where
  "decode_header_impl v =
     (if v = [] then Inl kInputTooShort
      else let b = unat (v ! 0); input_len = length v in
        if input_len = 1 \<and> 0xf9 \<le> b then Inl kMalformedHeader
        else outcome_try
          (if b < kShortStringOffset
             then Inr (\<lparr>list_h = False, payload_size_bytes = 1, header_size_bytes = 0\<rparr>, v)
           else if b \<le> kMaxShortStringLen + kShortStringOffset
             then short_string_header (b - kShortStringOffset) v
           else if b < kShortListOffset
             then long_header False (1 + (b - kLongStringOffset)) kMaxShortStringLen v
           else if b \<le> kMaxShortListLen + kShortListOffset
             then (if input_len < 1 then Inl kInputTooShort
                   else Inr (\<lparr>list_h = True, payload_size_bytes = b - kShortListOffset,
                              header_size_bytes = 1\<rparr>, drop 1 v))
           else long_header True (1 + (b - kLongListOffset)) kMaxShortListLen v)
          (\<lambda>(h, v'). if kShortStringOffset \<le> b
             then (if length v' < payload_size_bytes h then Inl kInputTooShort else Inr (h, v'))
             else (if input_len < 1 then Inl kInputTooShort else Inr (h, v'))))"

definition IsFinished :: "rlp_decoder \<Rightarrow> bool" where
  "IsFinished d = (view d = [])"

definition Remaining :: "rlp_decoder \<Rightarrow> bytes" where
  "Remaining d = view d"

definition IsList :: "rlp_decoder \<Rightarrow> decoding_error + bool" where
  "IsList d = (if view d = [] then Inl kInputTooShort else Inr (kShortListOffset \<le> unat (view d ! 0)))"

definition IsString :: "rlp_decoder \<Rightarrow> decoding_error + bool" where
  "IsString d = (if view d = [] then Inl kInputTooShort else Inr (unat (view d ! 0) < kShortListOffset))"

definition PeekHeader :: "rlp_decoder \<Rightarrow> decoding_error + rlp_header" where
  "PeekHeader d = outcome_try (decode_header_impl (view d)) (\<lambda>(h, _). Inr h)"

definition PeekPayloadSizeBytes :: "rlp_decoder \<Rightarrow> decoding_error + nat" where
  "PeekPayloadSizeBytes d = outcome_try (PeekHeader d) (\<lambda>h. Inr (payload_size_bytes h))"

definition skip_header_internal :: "rlp_decoder \<Rightarrow> decoding_error + rlp_decoder" where
  "skip_header_internal d =
     (if view d = [] then Inl kInputTooShort
      else let b = unat (view d ! 0);
               header_len =
                 (if b < kShortStringOffset then 0
                  else if b \<le> kMaxShortStringLen + kShortStringOffset then 1
                  else if b < kShortListOffset then 1 + (b - kLongStringOffset)
                  else if b \<le> kMaxShortListLen + kShortListOffset then 1
                  else 1 + (b - kLongListOffset))
           in if length (view d) < header_len then Inl kInputTooShort
              else Inr (remove_prefix header_len d))"

section \<open>Reading items\<close>

definition read_bytes :: "bytes decoder_op" where
  "read_bytes d =
     outcome_try (PeekHeader d) (\<lambda>h.
     if list_h h then Inl kUnexpectedList else
     outcome_try (skip_header_internal d) (\<lambda>d.
     if length (view d) < payload_size_bytes h then Inl kInputTooShort
     else Inr (take (payload_size_bytes h) (view d), remove_prefix (payload_size_bytes h) d)))"

definition ReadListHeaderBytes :: "nat decoder_op" where
  "ReadListHeaderBytes d =
     outcome_try (PeekHeader d) (\<lambda>h.
     if \<not> list_h h then Inl kUnexpectedString else
     outcome_try (skip_header_internal d) (\<lambda>d. Inr (payload_size_bytes h, d)))"

definition SkipItem :: "rlp_decoder \<Rightarrow> decoding_error + rlp_decoder" where
  "SkipItem d =
     outcome_try (PeekHeader d) (\<lambda>h.
     outcome_try (skip_header_internal d) (\<lambda>d.
     if length (view d) < payload_size_bytes h then Inl kInputTooShort
     else Inr (remove_prefix (payload_size_bytes h) d)))"

definition PeekPayload :: "rlp_decoder \<Rightarrow> decoding_error + bytes" where
  "PeekPayload d =
     outcome_try (PeekHeader d) (\<lambda>h.
     if list_h h then Inl kUnexpectedList
     else if length (view d) < header_size_bytes h + payload_size_bytes h then Inl kInputTooShort
     else Inr (substr (view d) (header_size_bytes h) (payload_size_bytes h)))"

definition read_uint256 :: "u256 decoder_op" where
  "read_uint256 d =
     outcome_try (PeekHeader d) (\<lambda>h.
     if list_h h then Inl kUnexpectedList else
     let payload_view = substr (view d) (header_size_bytes h) (payload_size_bytes h) in
     if 1 < payload_size_bytes h \<and> payload_view ! 0 = 0 then Inl kLeadingZero
     else if 32 < payload_size_bytes h then Inl kOverflow
     else outcome_try (from_big_compact_u256 payload_view) (\<lambda>out.
       if payload_size_bytes h = 1 \<and> unat out < kRlpSingleByteThreshold \<and> 0 < header_size_bytes h
       then Inl kNonCanonicalSize
       else if length (view d) < header_size_bytes h + payload_size_bytes h then Inl kInputTooShort
       else Inr (out, remove_prefix (header_size_bytes h + payload_size_bytes h) d)))"

text \<open>\<open>sizeof(T)\<close> of the integral templates.\<close>

definition sizeof :: "'a::len itself \<Rightarrow> nat" where
  "sizeof _ = LENGTH('a) div 8"

definition read_integral :: "('a::len word) decoder_op" where
  "read_integral d =
     outcome_try (PeekHeader d) (\<lambda>h.
     if list_h h then Inl kUnexpectedList else
     let payload_view = substr (view d) (header_size_bytes h) (payload_size_bytes h) in
     if 1 < payload_size_bytes h \<and> payload_view ! 0 = 0 then Inl kLeadingZero
     else if sizeof TYPE('a) < payload_size_bytes h then Inl kOverflow
     else if payload_size_bytes h = 1 \<and> 0 < header_size_bytes h
             \<and> unat (payload_view ! 0) < kRlpSingleByteThreshold then Inl kNonCanonicalSize
     else if length (view d) < header_size_bytes h + payload_size_bytes h then Inl kInputTooShort
     else outcome_try (from_big_compact payload_view) (\<lambda>out.
       Inr (out, remove_prefix (header_size_bytes h + payload_size_bytes h) d)))"

definition read_bool :: "bool decoder_op" where
  "read_bool d =
     outcome_try (PeekHeader d) (\<lambda>h.
     if list_h h then Inl kUnexpectedList
     else if length (view d) < header_size_bytes h + payload_size_bytes h then Inl kInputTooShort
     else let rest = remove_prefix (header_size_bytes h + payload_size_bytes h) d in
       if payload_size_bytes h = 1 then
         (let payload_view = substr (view d) (header_size_bytes h) (payload_size_bytes h) in
          if payload_view ! 0 = 1 then Inr (True, rest)
          else if payload_view ! 0 = 0 then Inr (False, rest)
          else Inl kOverflow)
       else if payload_size_bytes h = 0 \<and> header_size_bytes h = 1 \<and> view d ! 0 = kEmptyStringCode
       then Inr (False, rest)
       else Inl kOverflow)"

text \<open>\<open>read(span<uint8_t, N>)\<close> and its array forms.\<close>

definition read_array :: "nat \<Rightarrow> bytes decoder_op" where
  "read_array N d =
     outcome_try (PeekHeader d) (\<lambda>h.
     if list_h h then Inl kUnexpectedList else
     let single_byte_literal = (payload_size_bytes h = 1 \<and> header_size_bytes h = 0) in
     if payload_size_bytes h \<noteq> N \<and> \<not> (N = 1 \<and> single_byte_literal) then Inl kUnexpectedLength
     else outcome_try (skip_header_internal d) (\<lambda>d.
       if length (view d) < N then Inl kInputTooShort
       else Inr (take N (view d), remove_prefix N d)))"

text \<open>The static \<open>decode\<close> and the \<open>read(ByteView\&, T\&, Leftover)\<close> helper, which also return the data left.\<close>

definition decode_static :: "'a decoder_op \<Rightarrow> bytes \<Rightarrow> leftover \<Rightarrow> decoding_error + ('a \<times> bytes)" where
  "decode_static read data left =
     outcome_try (read \<lparr>view = data\<rparr>) (\<lambda>(value, decoder).
     if left = kProhibit \<and> \<not> IsFinished decoder then Inl kInputTooLong
     else Inr (value, Remaining decoder))"

definition check_payload :: "'a::len itself \<Rightarrow> rlp_header \<Rightarrow> bytes \<Rightarrow> bytes \<Rightarrow> decoding_error + unit" where
  "check_payload T h payload_view v =
     (if list_h h then Inl kUnexpectedList
      else if 1 < payload_size_bytes h \<and> payload_view ! 0 = 0 then Inl kLeadingZero
      else if payload_size_bytes h = 1 \<and> payload_view ! 0 = 0
              \<and> kRlpSingleByteThreshold \<le> unat (ucast (0 :: 'a word) :: u8) then Inl kLeadingZero
      else if sizeof T < payload_size_bytes h
              \<and> (if sizeof T < 32 then sizeof T < payload_size_bytes h else 32 < payload_size_bytes h)
           then Inl kOverflow
      else if length v < header_size_bytes h + payload_size_bytes h then Inl kInputTooShort
      else outcome_try (from_big_compact payload_view) (\<lambda>temp_out :: 'a word.
        if payload_size_bytes h = 1 \<and> unat (ucast temp_out :: u8) < kRlpSingleByteThreshold
           \<and> 0 < header_size_bytes h
        then Inl kNonCanonicalSize else Inr ()))"

definition read_view :: "bytes \<Rightarrow> leftover \<Rightarrow> decoding_error + (('a::len word) \<times> bytes)" where
  "read_view data left =
     outcome_try (PeekHeader \<lparr>view = data\<rparr>) (\<lambda>h.
     let payload_view = substr data (header_size_bytes h) (payload_size_bytes h) in
     outcome_try (check_payload TYPE('a) h payload_view data) (\<lambda>_.
     outcome_try (from_big_compact payload_view) (\<lambda>out.
     let rest = drop (header_size_bytes h + payload_size_bytes h) data in
     if left = kProhibit \<and> rest \<noteq> [] then Inl kInputTooLong else Inr (out, rest))))"

section \<open>The header routine accepts exactly the canonical encodings\<close>

lemma from_big_compact_u64:
  "(from_big_compact bs :: decoding_error + u64) = outcome_try (compact_value 64 bs) (\<lambda>n. Inr (word_of_nat n))"
  by (simp add: from_big_compact_eq)

lemma long_header_rlp:
  assumes "55 < length p" "length p < 2 ^ 64" "hsize = 1 + length (nat_to_be (length p))"
  shows "long_header lst hsize 55 (b # nat_to_be (length p) @ p @ rest) =
     Inr (\<lparr>list_h = lst, payload_size_bytes = length p, header_size_bytes = hsize\<rparr>, p @ rest)"
  using assms by (simp add: long_header_def substr_def from_big_compact_u64 unat_of_nat)

lemma decode_header_rlp_str:
  assumes "length p < 2 ^ 64"
  shows "decode_header_impl (rlp_str p @ rest) =
    Inr (\<lparr>list_h = False, payload_size_bytes = length p,
          header_size_bytes = length (rlp_str p) - length p\<rparr>, p @ rest)"
proof -
  consider (single) a where "p = [a]" "unat a < 0x80"
    | (short) "\<not> (length p = 1 \<and> unat (p ! 0) < 0x80)" "length p \<le> 55"
    | (long) "55 < length p"
    by (cases p rule: list.exhaust; cases "tl p") (auto, linarith)
  then show ?thesis
  proof cases
    case single
    then show ?thesis by (simp add: rlp_str_def decode_header_impl_def)
  next
    case short
    then show ?thesis
      by (cases p) (auto simp: rlp_str_def rlp_prefix_def decode_header_impl_def short_string_header_def Let_def)
  next
    case long
    have l: "length (nat_to_be (length p)) \<le> 8" by (rule length_nat_to_be_u64 [OF assms])
    have "0 < length (nat_to_be (length p))" using long by auto
    with l long_header_rlp [OF long assms refl, of False _ rest] long show ?thesis
      by (simp add: rlp_str_def rlp_prefix_def decode_header_impl_def Let_def)
  qed
qed

lemma decode_header_rlp_list:
  assumes "length p < 2 ^ 64"
  shows "decode_header_impl (rlp_list p @ rest) =
    Inr (\<lparr>list_h = True, payload_size_bytes = length p,
          header_size_bytes = length (rlp_list p) - length p\<rparr>, p @ rest)"
proof (cases "length p \<le> 55")
  case True
  then show ?thesis by (auto simp: rlp_list_def rlp_prefix_def decode_header_impl_def Let_def)
next
  case False
  have l: "length (nat_to_be (length p)) \<le> 8" by (rule length_nat_to_be_u64 [OF assms])
  have "0 < length (nat_to_be (length p))" using False by auto
  with l long_header_rlp [OF _ assms refl, of True _ rest] False show ?thesis
    by (simp add: rlp_list_def rlp_prefix_def decode_header_impl_def Let_def)
qed

lemma byte_of_unat: "unat b = k \<Longrightarrow> (word_of_nat k :: byte) = b"
  by auto

lemma long_header_canonical:
  assumes "long_header lst hsize 55 (b # bs) = Inr (h, v')" "1 \<le> hsize"
    "payload_size_bytes h \<le> length v'"
  shows "\<exists>p rest. 55 < length p \<and> length p < 2 ^ 64 \<and> bs = nat_to_be (length p) @ p @ rest
    \<and> hsize = 1 + length (nat_to_be (length p))"
proof -
  let ?lb = "take (hsize - 1) bs"
  from assms obtain n where n: "compact_value 64 ?lb = Inr n" and hs: "hsize - 1 \<le> length bs"
    and h: "unat (word_of_nat n :: u64) > 55" "payload_size_bytes h = unat (word_of_nat n :: u64)"
    and v': "v' = drop (hsize - 1) bs"
    by (cases hsize) (auto simp: long_header_def substr_def from_big_compact_u64 outcome_iffs split: if_splits)
  from n have lt: "n < 2 ^ 64" and nv: "n = be_val ?lb" by (auto simp: compact_value_def split: if_splits)
  then have un: "unat (word_of_nat n :: u64) = n" by (simp add: unat_of_nat)
  have nb: "nat_to_be n = ?lb"
    using compact_value_canonical [OF n] h(1) un nv by (cases "?lb = [0]") (auto simp: be_val_Cons)
  let ?p = "take n v'"
  have lp: "length ?p = n" using assms(3) h(2) un by simp
  have "bs = ?lb @ ?p @ drop n v'" unfolding v' append_take_drop_id ..
  then show ?thesis using lp nb lt h(1) un hs assms(2)
    by (intro exI [of _ ?p] exI [of _ "drop n v'"]) simp
qed

lemma decode_header_canonical:
  assumes d: "decode_header_impl v = Inr (h, v')"
  shows "\<exists>p rest. length p < 2 ^ 64 \<and> v = (if list_h h then rlp_list p else rlp_str p) @ rest"
proof -
  from d obtain b bs where v: "v = b # bs" by (cases v) (auto simp: decode_header_impl_def)
  have ge: "0x80 \<le> unat b \<Longrightarrow> payload_size_bytes h \<le> length v'"
    using d by (auto simp: decode_header_impl_def v Let_def outcome_iffs split: if_splits prod.splits)
  consider "unat b < 0x80" | "0x80 \<le> unat b" "unat b \<le> 0xB7" | "0xB7 < unat b" "unat b < 0xC0"
    | "0xC0 \<le> unat b" "unat b \<le> 0xF7" | "0xF7 < unat b" by linarith
  then show ?thesis
  proof cases
    case 1
    then have "\<not> list_h h" using d by (auto simp: decode_header_impl_def v)
    with 1 show ?thesis
      by (intro exI [of _ "[b]"] exI [of _ bs]) (simp add: v rlp_str_def)
  next
    case 2
    let ?n = "unat b - 0x80"
    have s: "short_string_header ?n v = Inr (h, v')"
      using d 2 by (auto simp: decode_header_impl_def v Let_def outcome_iffs split: if_splits prod.splits)
    then have "\<not> list_h h" "payload_size_bytes h = ?n" "v' = bs"
      "?n = 1 \<longrightarrow> bs \<noteq> [] \<and> 0x80 \<le> unat (bs ! 0)"
      by (auto simp: short_string_header_def v split: if_splits)
    with 2 ge show ?thesis
      by (intro exI [of _ "take ?n bs"] exI [of _ "drop ?n bs"])
         (auto simp: v rlp_str_def rlp_prefix_def byte_of_unat min_absorb2)
  next
    case 3
    have l: "long_header False (1 + (unat b - 0xB7)) 55 (b # bs) = Inr (h, v')"
      using d 3 by (auto simp: decode_header_impl_def v Let_def outcome_iffs split: if_splits prod.splits)
    then have "\<not> list_h h" by (auto simp: long_header_def outcome_iffs split: if_splits)
    moreover obtain p rest where p: "55 < length p" "length p < 2 ^ 64"
      "bs = nat_to_be (length p) @ p @ rest" "unat b = 0xB7 + length (nat_to_be (length p))"
      using long_header_canonical [OF l] ge 3 by auto
    ultimately show ?thesis using byte_of_unat [OF p(4)]
      by (intro exI [of _ p] exI [of _ rest]) (simp add: v rlp_str_def rlp_prefix_def)
  next
    case 4
    let ?n = "unat b - 0xC0"
    have "list_h h" "payload_size_bytes h = ?n" "v' = bs"
      using d 4 by (auto simp: decode_header_impl_def v Let_def outcome_iffs split: if_splits prod.splits)
    with 4 ge show ?thesis
      by (intro exI [of _ "take ?n bs"] exI [of _ "drop ?n bs"])
         (auto simp: v rlp_list_def rlp_prefix_def byte_of_unat min_absorb2)
  next
    case 5
    have l: "long_header True (1 + (unat b - 0xF7)) 55 (b # bs) = Inr (h, v')"
      using d 5 by (auto simp: decode_header_impl_def v Let_def outcome_iffs split: if_splits prod.splits)
    then have "list_h h" by (auto simp: long_header_def outcome_iffs split: if_splits)
    moreover obtain p rest where p: "55 < length p" "length p < 2 ^ 64"
      "bs = nat_to_be (length p) @ p @ rest" "unat b = 0xF7 + length (nat_to_be (length p))"
      using long_header_canonical [OF l] ge 5 by auto
    ultimately show ?thesis using byte_of_unat [OF p(4)]
      by (intro exI [of _ p] exI [of _ rest]) (simp add: v rlp_list_def rlp_prefix_def)
  qed
qed

text \<open>The header of an item, and the exact characterisation of header decoding.\<close>

definition item_bytes :: "bool \<Rightarrow> bytes \<Rightarrow> bytes" where
  "item_bytes lst p = (if lst then rlp_list p else rlp_str p)"

definition item_header :: "bool \<Rightarrow> bytes \<Rightarrow> rlp_header" where
  "item_header lst p = \<lparr>list_h = lst, payload_size_bytes = length p,
     header_size_bytes = length (item_bytes lst p) - length p\<rparr>"

lemma decode_header_item:
  "length p < 2 ^ 64 \<Longrightarrow> decode_header_impl (item_bytes lst p @ rest) = Inr (item_header lst p, p @ rest)"
  by (simp add: item_bytes_def item_header_def decode_header_rlp_str decode_header_rlp_list)

lemma decode_header_iff:
  "decode_header_impl v = Inr (h, v') \<longleftrightarrow>
     (\<exists>lst p rest. length p < 2 ^ 64 \<and> v = item_bytes lst p @ rest \<and> h = item_header lst p \<and> v' = p @ rest)"
proof
  assume d: "decode_header_impl v = Inr (h, v')"
  from decode_header_canonical [OF d] obtain p rest where
    p: "length p < 2 ^ 64" "v = item_bytes (list_h h) p @ rest" by (auto simp: item_bytes_def)
  with d decode_header_item [OF p(1), of "list_h h" rest] have "h = item_header (list_h h) p \<and> v' = p @ rest"
    by simp
  with p show "\<exists>lst p rest. length p < 2 ^ 64 \<and> v = item_bytes lst p @ rest \<and> h = item_header lst p \<and> v' = p @ rest"
    by blast
qed (auto simp: decode_header_item)

section \<open>What each operation reads\<close>

lemma remove_prefix_view [simp]: "remove_prefix n \<lparr>view = v\<rparr> = \<lparr>view = drop n v\<rparr>"
  by (simp add: remove_prefix_def)

lemma item_bytes_len: "length (item_bytes lst p) = header_size_bytes (item_header lst p) + length p"
  using length_rlp_str_ge [of p] by (simp add: item_bytes_def item_header_def rlp_list_def)

lemma item_header_simps [simp]:
  "list_h (item_header lst p) = lst" "payload_size_bytes (item_header lst p) = length p"
  by (simp_all add: item_header_def)

lemma item_bytes_split:
  "item_bytes lst p = take (header_size_bytes (item_header lst p)) (item_bytes lst p) @ p"
  by (simp add: item_bytes_def item_header_def rlp_list_def rlp_str_def)

lemma drop_item [simp]: "drop (header_size_bytes (item_header lst p)) (item_bytes lst p @ rest) = p @ rest"
  by (simp add: item_bytes_def item_header_def rlp_list_def rlp_str_def)

lemma drop_item_only [simp]: "drop (header_size_bytes (item_header lst p)) (item_bytes lst p) = p"
  using drop_item [of lst p "[]"] by simp

lemma drop_item_all [simp]:
  "drop (header_size_bytes (item_header lst p) + length p) (item_bytes lst p @ rest) = rest"
  by (simp flip: item_bytes_len)

lemma substr_item: "substr (item_bytes lst p @ rest) (header_size_bytes (item_header lst p)) (length p) = p"
  unfolding substr_def drop_item by simp

lemma item_header_single:
  "length p = 1 \<Longrightarrow> 0 < header_size_bytes (item_header False p) \<Longrightarrow> 0x80 \<le> unat (p ! 0)"
  by (auto simp: item_header_def item_bytes_def rlp_str_def split: if_splits)

lemma item_header_zero: "header_size_bytes (item_header False []) = 1"
  by (simp add: item_header_def item_bytes_def rlp_str_def rlp_prefix_def)

lemma PeekHeader_iff:
  "PeekHeader d = Inr h \<longleftrightarrow>
     (\<exists>lst p rest. length p < 2 ^ 64 \<and> view d = item_bytes lst p @ rest \<and> h = item_header lst p)"
  by (auto simp: PeekHeader_def outcome_iffs decode_header_iff split: prod.splits)

lemma PeekHeader_item [simp]:
  "length p < 2 ^ 64 \<Longrightarrow> PeekHeader \<lparr>view = item_bytes lst p @ rest\<rparr> = Inr (item_header lst p)"
  by (simp add: PeekHeader_def decode_header_item)

text \<open>\<open>skip_header_internal\<close> agrees with the header routine on how far to advance.\<close>

lemma skip_header_internal_agrees:
  "decode_header_impl (view d) = Inr (h, v') \<Longrightarrow> skip_header_internal d = Inr (d\<lparr>view := v'\<rparr>)"
  by (cases "view d")
     (auto simp: decode_header_impl_def skip_header_internal_def Let_def outcome_iffs remove_prefix_def
        short_string_header_def long_header_def split: if_splits prod.splits)

lemma skip_header_item [simp]:
  "length p < 2 ^ 64 \<Longrightarrow> skip_header_internal \<lparr>view = item_bytes lst p @ rest\<rparr> = Inr \<lparr>view = p @ rest\<rparr>"
  using skip_header_internal_agrees [of "\<lparr>view = item_bytes lst p @ rest\<rparr>"] decode_header_item [of p lst rest]
  by simp

lemma decoder_eq: "view d = v \<Longrightarrow> d = \<lparr>view = v\<rparr>"
  by (cases d) simp

lemma PeekHeader_cases:
  assumes "PeekHeader d = Inr h"
  obtains lst p rest where "length p < 2 ^ 64" "d = \<lparr>view = item_bytes lst p @ rest\<rparr>" "h = item_header lst p"
  using assms unfolding PeekHeader_iff by (auto dest: decoder_eq)

lemma read_bytes_item:
  "length p < 2 ^ 64 \<Longrightarrow> read_bytes \<lparr>view = item_bytes lst p @ rest\<rparr> =
     (if lst then Inl kUnexpectedList else Inr (p, \<lparr>view = rest\<rparr>))"
  by (simp add: read_bytes_def)

lemma ReadListHeaderBytes_item:
  "length p < 2 ^ 64 \<Longrightarrow> ReadListHeaderBytes \<lparr>view = item_bytes lst p @ rest\<rparr> =
     (if lst then Inr (length p, \<lparr>view = p @ rest\<rparr>) else Inl kUnexpectedString)"
  by (simp add: ReadListHeaderBytes_def)

lemma SkipItem_item: "length p < 2 ^ 64 \<Longrightarrow> SkipItem \<lparr>view = item_bytes lst p @ rest\<rparr> = Inr \<lparr>view = rest\<rparr>"
  by (simp add: SkipItem_def)

lemma PeekPayload_item:
  "length p < 2 ^ 64 \<Longrightarrow> PeekPayload \<lparr>view = item_bytes lst p @ rest\<rparr> =
     (if lst then Inl kUnexpectedList else Inr p)"
  by (simp add: PeekPayload_def item_bytes_len substr_item)

lemma read_array_item:
  "length p < 2 ^ 64 \<Longrightarrow> read_array N \<lparr>view = item_bytes lst p @ rest\<rparr> =
     (if lst then Inl kUnexpectedList else if length p = N then Inr (p, \<lparr>view = rest\<rparr>)
      else Inl kUnexpectedLength)"
  by (auto simp: read_array_def)

text \<open>An integer payload: at most one zero byte, and no leading zero otherwise.\<close>

lemma compact_value_too_long:
  assumes "1 < length p" "p ! 0 \<noteq> 0" "w div 8 < length p" "8 dvd w"
  shows "compact_value w p = Inl kOverflow"
proof -
  have ne: "hd p \<noteq> 0" "p \<noteq> []" using assms(1,2) by (cases p; auto)+
  have "(2::nat) ^ w = 256 ^ (w div 8)"
    using assms(4) by (auto simp: power_mult)
  also have "\<dots> \<le> 256 ^ (length p - 1)" using assms(3) by (intro power_increasing) simp_all
  also have "\<dots> \<le> be_val p" using ne by (intro be_val_ge)
  finally show ?thesis using ne by (simp add: compact_value_def)
qed

lemma compact_value_leading_zero: "1 < length p \<Longrightarrow> p ! 0 = 0 \<Longrightarrow> compact_value w p = Inl kLeadingZero"
  by (cases p) (auto simp: compact_value_def)

lemma read_integral_item:
  assumes "length p < 2 ^ 64" "LENGTH('a::len) \<le> 256" "8 dvd LENGTH('a)"
  shows "(read_integral \<lparr>view = item_bytes lst p @ rest\<rparr> :: decoding_error + ('a word \<times> rlp_decoder)) =
     (if lst then Inl kUnexpectedList
      else outcome_try (compact_value LENGTH('a) p) (\<lambda>n. Inr (word_of_nat n, \<lparr>view = rest\<rparr>)))"
proof (cases "lst \<or> 1 < length p \<and> p ! 0 = 0 \<or> sizeof TYPE('a) < length p")
  case True
  have "0 < sizeof TYPE('a)" using assms(3) len_gt_0 [where 'a = 'a] by (auto simp: sizeof_def dvd_imp_le div_greater_zero_iff)
  with True show ?thesis using assms compact_value_leading_zero [of p] compact_value_too_long [of p "LENGTH('a)"]
    by (auto simp: read_integral_def substr_item sizeof_def)
next
  case False
  with assms show ?thesis using item_header_single [of p]
    by (cases "compact_value LENGTH('a) p")
       (auto simp: read_integral_def substr_item item_bytes_len from_big_compact_eq not_less)
qed

lemma read_uint256_item:
  assumes "length p < 2 ^ 64"
  shows "read_uint256 \<lparr>view = item_bytes lst p @ rest\<rparr> =
     (if lst then Inl kUnexpectedList
      else outcome_try (compact_value 256 p) (\<lambda>n. Inr (word_of_nat n, \<lparr>view = rest\<rparr>)))"
proof (cases "lst \<or> 1 < length p \<and> p ! 0 = 0 \<or> 32 < length p")
  case True
  then show ?thesis using assms compact_value_leading_zero [of p] compact_value_too_long [of p 256]
    by (auto simp: read_uint256_def substr_item)
next
  case False
  have single: "0 < header_size_bytes (item_header False p) \<Longrightarrow> length p = 1 \<Longrightarrow>
      compact_value 256 p = Inr n \<Longrightarrow> 0x80 \<le> unat (word_of_nat n :: u256)" for n
    using item_header_single [of p] unat_byte_less [of "p ! 0"]
    by (cases p) (auto simp: compact_value_def be_val_Cons unat_of_nat split: if_splits)
  with False assms show ?thesis
    by (cases "compact_value 256 p")
       (auto simp: read_uint256_def substr_item item_bytes_len from_big_compact_u256_eq not_less)
qed


lemma read_bool_item:
  assumes "length p < 2 ^ 64"
  shows "read_bool \<lparr>view = item_bytes lst p @ rest\<rparr> =
     (if lst then Inl kUnexpectedList
      else if p = [1] then Inr (True, \<lparr>view = rest\<rparr>)
      else if p = [0] \<or> p = [] then Inr (False, \<lparr>view = rest\<rparr>)
      else Inl kOverflow)"
proof (cases "length p = 1")
  case True
  then obtain a where "p = [a]" by (cases p) auto
  then show ?thesis using substr_item [of False "[a]" rest] drop_item_all [of False "[a]" rest]
    by (auto simp: read_bool_def item_bytes_len Let_def)
next
  case False
  have z: "item_bytes False [] = [0x80]" by (simp add: item_bytes_def rlp_str_def rlp_prefix_def)
  show ?thesis
  proof (cases "lst \<or> p = []")
    case True
    then show ?thesis using item_header_zero assms by (auto simp: read_bool_def z)
  next
    case F: False
    with False assms show ?thesis by (cases p) (auto simp: read_bool_def item_bytes_len Let_def)
  qed
qed

lemma read_view_item:
  assumes "length p < 2 ^ 64" "LENGTH('a::len) \<le> 256" "8 dvd LENGTH('a)"
  shows "(read_view (item_bytes lst p @ rest) left :: decoding_error + ('a word \<times> bytes)) =
     (if lst then Inl kUnexpectedList
      else outcome_try (compact_value LENGTH('a) p) (\<lambda>n.
        if left = kProhibit \<and> rest \<noteq> [] then Inl kInputTooLong else Inr (word_of_nat n, rest)))"
proof (cases "lst \<or> 1 < length p \<and> p ! 0 = 0 \<or> sizeof TYPE('a) < length p")
  case True
  have "0 < sizeof TYPE('a)" "sizeof TYPE('a) \<le> 32"
    using assms(2,3) len_gt_0 [where 'a = 'a] by (auto simp: sizeof_def dvd_imp_le div_greater_zero_iff)
  with True show ?thesis using assms compact_value_leading_zero [of p] compact_value_too_long [of p "LENGTH('a)"]
    by (auto simp: read_view_def check_payload_def substr_item sizeof_def)
next
  case False
  have len8: "8 \<le> LENGTH('a)" using assms(3) len_gt_0 [where 'a = 'a] by (simp add: dvd_imp_le)
  have single: "\<not> unat (ucast (word_of_nat n :: 'a word) :: u8) < 0x80"
    if "0 < header_size_bytes (item_header False p)" "length p = 1" "compact_value LENGTH('a) p = Inr n" for n
  proof -
    have "n = unat (p ! 0)" using that(2,3)
      by (cases p) (auto simp: compact_value_def be_val_Cons split: if_splits)
    then have "unat (word_of_nat n :: 'a word) = n" using len8 by (simp add: unat_ucast_widen)
    with \<open>n = unat (p ! 0)\<close> have "(ucast (word_of_nat n :: 'a word) :: u8) = p ! 0"
      by (metis ucast_byte_of_nat of_nat_unat ucast_id)
    then show ?thesis using item_header_single [OF that(2,1)] by simp
  qed
  from False assms single show ?thesis
    by (cases "compact_value LENGTH('a) p")
       (auto simp: read_view_def check_payload_def substr_item item_bytes_len from_big_compact_eq not_less)
qed


section \<open>Reading what the encoder wrote\<close>

lemma rlp_encode_item_bytes:
  "rlp_encode (RStr p) = item_bytes False p" "rlp_encode (RList ts) = item_bytes True (rlp_encodes ts)"
  by (simp_all add: rlp_encode_simps item_bytes_def)

lemma read_bytes_RStr [simp]:
  "fits (RStr p) \<Longrightarrow> read_bytes \<lparr>view = rlp_encode (RStr p) @ rest\<rparr> = Inr (p, \<lparr>view = rest\<rparr>)"
  by (drule fits_RStrD) (simp add: rlp_encode_item_bytes read_bytes_item)

lemma read_array_RStr [simp]:
  "fits (RStr p) \<Longrightarrow> length p = N \<Longrightarrow>
     read_array N \<lparr>view = rlp_encode (RStr p) @ rest\<rparr> = Inr (p, \<lparr>view = rest\<rparr>)"
  by (drule fits_RStrD) (simp add: rlp_encode_item_bytes read_array_item)

lemma ReadListHeaderBytes_RList [simp]:
  "fits (RList ts) \<Longrightarrow> ReadListHeaderBytes \<lparr>view = rlp_encode (RList ts) @ rest\<rparr> =
     Inr (length (rlp_encodes ts), \<lparr>view = rlp_encodes ts @ rest\<rparr>)"
  by (drule fits_RListD) (simp add: rlp_encode_item_bytes ReadListHeaderBytes_item)

lemma ReadListHeaderBytes_RStr [simp]:
  "fits (RStr p) \<Longrightarrow> ReadListHeaderBytes \<lparr>view = rlp_encode (RStr p) @ rest\<rparr> = Inl kUnexpectedString"
  by (drule fits_RStrD) (simp add: rlp_encode_item_bytes ReadListHeaderBytes_item)

lemma SkipItem_item_encode [simp]:
  "fits t \<Longrightarrow> SkipItem \<lparr>view = rlp_encode t @ rest\<rparr> = Inr \<lparr>view = rest\<rparr>"
  by (cases t) (auto simp: rlp_encode_item_bytes SkipItem_item dest: fits_RStrD fits_RListD)

lemma read_integral_RUint:
  assumes "LENGTH('a::len) \<le> 256" "8 dvd LENGTH('a)" "n < 2 ^ LENGTH('a)"
  shows "(read_integral \<lparr>view = rlp_encode (RUint n) @ rest\<rparr> :: decoding_error + ('a word \<times> rlp_decoder)) =
    Inr (word_of_nat n, \<lparr>view = rest\<rparr>)"
proof -
  have "(2::nat) ^ LENGTH('a) \<le> 2 ^ 256" using assms(1) by (intro power_increasing) simp_all
  with assms(3) have "fits (RStr (nat_to_be n))" using fits_RUint [of n] by (simp add: RUint_def)
  then have "length (nat_to_be n) < 2 ^ 64" by (rule fits_RStrD)
  then show ?thesis using assms by (simp add: RUint_def rlp_encode_item_bytes read_integral_item)
qed

lemma read_u_RUint [simp]:
  "read_integral \<lparr>view = rlp_encode (RUint (unat (a :: u8))) @ rest\<rparr> = Inr (a, \<lparr>view = rest\<rparr>)"
  "read_integral \<lparr>view = rlp_encode (RUint (unat (b :: u16))) @ rest\<rparr> = Inr (b, \<lparr>view = rest\<rparr>)"
  "read_integral \<lparr>view = rlp_encode (RUint (unat (c :: u32))) @ rest\<rparr> = Inr (c, \<lparr>view = rest\<rparr>)"
  "read_integral \<lparr>view = rlp_encode (RUint (unat (d :: u64))) @ rest\<rparr> = Inr (d, \<lparr>view = rest\<rparr>)"
  using unat_less_exp [of a] unat_less_exp [of b] unat_less_exp [of c] unat_less_exp [of d]
  by (simp_all add: read_integral_RUint)

lemma read_uint256_RUint [simp]:
  "read_uint256 \<lparr>view = rlp_encode (RUint (unat n)) @ rest\<rparr> = Inr (n, \<lparr>view = rest\<rparr>)"
proof -
  have "length (nat_to_be (unat n)) < 2 ^ 64"
    using length_nat_to_be_u256 [of "unat n"] unat_less_exp [of n] by simp
  then show ?thesis using unat_less_exp [of n]
    by (simp add: RUint_def rlp_encode_item_bytes read_uint256_item)
qed

lemma read_bool_RBool [simp]:
  "read_bool \<lparr>view = rlp_encode (RBool b) @ rest\<rparr> = Inr (b, \<lparr>view = rest\<rparr>)"
  by (simp add: RBool_def RUint_def rlp_encode_item_bytes read_bool_item nat_to_be_single)

text \<open>The same facts at the end of the input, where the rest is empty.\<close>

lemmas read_at_end [simp] =
  read_bytes_RStr [where rest = "[]", simplified] read_array_RStr [where rest = "[]", simplified]
  ReadListHeaderBytes_RList [where rest = "[]", simplified] SkipItem_item_encode [where rest = "[]", simplified]
  ReadListHeaderBytes_RStr [where rest = "[]", simplified]
  read_u_RUint [where rest = "[]", unfolded append_Nil2]
  read_uint256_RUint [where rest = "[]", simplified]
  read_bool_RBool [where rest = "[]", unfolded append_Nil2]

lemma IsList_item [simp]:
  "fits (RList ts) \<Longrightarrow> IsList \<lparr>view = rlp_encode (RList ts) @ rest\<rparr> = Inr True"
  "fits (RStr p) \<Longrightarrow> IsList \<lparr>view = rlp_encode (RStr p) @ rest\<rparr> = Inr False"
  using hd_rlp_list_ge [OF fits_RListD, of ts] hd_rlp_str_less [OF fits_RStrD, of p]
  by (simp_all add: IsList_def rlp_encode_simps nth_append hd_conv_nth)

section \<open>Every successful read makes progress\<close>

lemma item_bytes_not_Nil [simp]: "item_bytes lst p \<noteq> []"
  by (simp add: item_bytes_def)

lemma item_bytes_list_longer: "length p < length (item_bytes True p)"
  by (simp add: item_bytes_def rlp_list_def)

lemma item_bytes_simps: "item_bytes False p = rlp_str p" "item_bytes True p = rlp_list p"
  by (simp_all add: item_bytes_def)

lemma read_bytes_iff:
  "read_bytes d = Inr (p, d') \<longleftrightarrow> length p < 2 ^ 64 \<and> view d = rlp_str p @ view d'"
proof
  assume r: "read_bytes d = Inr (p, d')"
  then obtain h where "PeekHeader d = Inr h" by (auto simp: read_bytes_def outcome_iffs)
  then obtain lst q rest where "length q < 2 ^ 64" "d = \<lparr>view = item_bytes lst q @ rest\<rparr>"
    by (rule PeekHeader_cases)
  moreover from this r have "\<not> lst" "q = p" "d' = \<lparr>view = rest\<rparr>"
    by (auto simp: read_bytes_item split: if_splits)
  ultimately show "length p < 2 ^ 64 \<and> view d = rlp_str p @ view d'"
    by (simp add: item_bytes_simps)
next
  assume "length p < 2 ^ 64 \<and> view d = rlp_str p @ view d'"
  then have "length p < 2 ^ 64" "d = \<lparr>view = item_bytes False p @ view d'\<rparr>"
    by (auto simp: item_bytes_def intro: decoder_eq)
  then show "read_bytes d = Inr (p, d')" by (simp add: read_bytes_item)
qed

lemma read_array_bytes: "read_array N d = Inr (p, d') \<longleftrightarrow> read_bytes d = Inr (p, d') \<and> length p = N"
proof (cases "PeekHeader d")
  case (Inl e)
  then show ?thesis by (simp add: read_array_def read_bytes_def)
next
  case (Inr h)
  then obtain lst q rest where "length q < 2 ^ 64" "d = \<lparr>view = item_bytes lst q @ rest\<rparr>"
    by (rule PeekHeader_cases)
  then show ?thesis by (auto simp: read_array_item read_bytes_item)
qed

lemma ReadListHeaderBytes_iff:
  "ReadListHeaderBytes d = Inr (n, d') \<longleftrightarrow>
     (\<exists>p rest. length p < 2 ^ 64 \<and> n = length p \<and> view d = rlp_list p @ rest \<and> view d' = p @ rest)"
proof
  assume r: "ReadListHeaderBytes d = Inr (n, d')"
  then obtain h where "PeekHeader d = Inr h" by (auto simp: ReadListHeaderBytes_def outcome_iffs)
  then obtain lst q rest where "length q < 2 ^ 64" "d = \<lparr>view = item_bytes lst q @ rest\<rparr>"
    by (rule PeekHeader_cases)
  moreover from this r have "lst" "n = length q" "d' = \<lparr>view = q @ rest\<rparr>"
    by (auto simp: ReadListHeaderBytes_item split: if_splits)
  ultimately show "\<exists>p rest. length p < 2 ^ 64 \<and> n = length p \<and> view d = rlp_list p @ rest \<and> view d' = p @ rest"
    by (auto simp: item_bytes_simps)
next
  assume "\<exists>p rest. length p < 2 ^ 64 \<and> n = length p \<and> view d = rlp_list p @ rest \<and> view d' = p @ rest"
  then obtain p rest where "length p < 2 ^ 64" "n = length p" "d = \<lparr>view = item_bytes True p @ rest\<rparr>"
    "d' = \<lparr>view = p @ rest\<rparr>" by (auto simp: item_bytes_def intro: decoder_eq)
  then show "ReadListHeaderBytes d = Inr (n, d')" by (simp add: ReadListHeaderBytes_item)
qed

lemma SkipItem_iff:
  "SkipItem d = Inr d' \<longleftrightarrow> (\<exists>lst p. length p < 2 ^ 64 \<and> view d = item_bytes lst p @ view d')"
proof
  assume r: "SkipItem d = Inr d'"
  then obtain h where "PeekHeader d = Inr h" by (auto simp: SkipItem_def outcome_iffs)
  then obtain lst q rest where "length q < 2 ^ 64" "d = \<lparr>view = item_bytes lst q @ rest\<rparr>"
    by (rule PeekHeader_cases)
  with r show "\<exists>lst p. length p < 2 ^ 64 \<and> view d = item_bytes lst p @ view d'"
    by (intro exI [of _ lst] exI [of _ q]) (auto simp: SkipItem_item)
next
  assume "\<exists>lst p. length p < 2 ^ 64 \<and> view d = item_bytes lst p @ view d'"
  then obtain lst p where "length p < 2 ^ 64" "d = \<lparr>view = item_bytes lst p @ view d'\<rparr>"
    by (auto intro: decoder_eq)
  then show "SkipItem d = Inr d'" by (cases d') (simp add: SkipItem_item)
qed

lemma read_consumes:
  "read_bytes d = Inr (x1, d') \<Longrightarrow> length (view d') < length (view d)"
  "read_array N d = Inr (x2, d') \<Longrightarrow> length (view d') < length (view d)"
  "ReadListHeaderBytes d = Inr (n, d') \<Longrightarrow> length (view d') < length (view d)"
  "SkipItem d = Inr d' \<Longrightarrow> length (view d') < length (view d)"
  by (auto simp: read_array_bytes read_bytes_iff ReadListHeaderBytes_iff SkipItem_iff rlp_list_def)

lemma PeekHeader_consumes:
  assumes "PeekHeader d = Inr h"
  shows "length (view (remove_prefix (header_size_bytes h + payload_size_bytes h) d)) < length (view d)"
  using assms by (rule PeekHeader_cases) (simp flip: item_bytes_len)

lemma read_int_consumes:
  "(read_integral d :: decoding_error + ('a::len word \<times> rlp_decoder)) = Inr (x, d') \<Longrightarrow>
     length (view d') < length (view d)"
  "read_uint256 d = Inr (y, d') \<Longrightarrow> length (view d') < length (view d)"
  "read_bool d = Inr (z, d') \<Longrightarrow> length (view d') < length (view d)"
  using PeekHeader_consumes [of d]
  by (auto simp: read_integral_def read_uint256_def read_bool_def outcome_iffs Let_def split: if_splits)

lemmas consumes = read_consumes read_int_consumes


section \<open>Lists of items\<close>

text \<open>
  \<open>read_vector\<close>: the items of a list payload are read one after the other until the payload is
  empty; each read consumes at least one byte, so the loop ends.
\<close>

lemma read_view_consumes:
  "read_view data left = Inr (x :: 'a::len word, rest) \<Longrightarrow> length rest < length data"
  using PeekHeader_consumes [of "\<lparr>view = data\<rparr>"]
  by (auto simp: read_view_def outcome_iffs Let_def split: if_splits)

function read_vector_loop :: "bytes \<Rightarrow> 'a::len word list \<Rightarrow> decoding_error + 'a word list" where
  "read_vector_loop list_payload vec =
     (if list_payload = [] then Inr vec
      else outcome_try (read_view list_payload kAllow) (\<lambda>(x, rest). read_vector_loop rest (vec @ [x])))"
  by pat_completeness auto
termination by (relation "measure (\<lambda>(p, _). length p)") (auto simp: read_view_consumes)

declare read_vector_loop.simps [simp del]

definition read_vector :: "('a::len word list) decoder_op" where
  "read_vector d =
     outcome_try (ReadListHeaderBytes d) (\<lambda>(payload_len, d).
     outcome_try (read_vector_loop (substr (view d) 0 payload_len) []) (\<lambda>vec.
     if length (view d) < payload_len then Inl kInputTooShort
     else Inr (vec, remove_prefix payload_len d)))"

lemma read_view_RUint:
  assumes "LENGTH('a::len) \<le> 256" "8 dvd LENGTH('a)"
  shows "read_view (rlp_encode (RUint (unat (x :: 'a word))) @ rest) kAllow = Inr (x, rest)"
proof -
  have "(2::nat) ^ LENGTH('a) \<le> 2 ^ 256" using assms(1) by (intro power_increasing) simp_all
  then have "unat x < 2 ^ 256" using unat_less_exp [of x] by (rule less_le_trans [rotated])
  then have "fits (RStr (nat_to_be (unat x)))" using fits_RUint [of "unat x"] by (simp add: RUint_def)
  then have "length (nat_to_be (unat x)) < 2 ^ 64" by (rule fits_RStrD)
  then show ?thesis using assms unat_less_exp [of x]
    by (simp add: RUint_def rlp_encode_item_bytes read_view_item)
qed

lemma read_vector_loop_RUints:
  assumes "LENGTH('a::len) \<le> 256" "8 dvd LENGTH('a)"
  shows "read_vector_loop (rlp_encodes (map (\<lambda>x. RUint (unat x)) (xs :: 'a word list))) vec = Inr (vec @ xs)"
proof (induction xs arbitrary: vec)
  case Nil
  show ?case by (simp add: read_vector_loop.simps)
next
  case (Cons x xs)
  show ?case
    by (subst read_vector_loop.simps) (simp add: read_view_RUint [OF assms] Cons.IH)
qed

lemma read_vector_RList:
  assumes "LENGTH('a::len) \<le> 256" "8 dvd LENGTH('a)" "fits (RList (map (\<lambda>x. RUint (unat x)) xs))"
  shows "read_vector \<lparr>view = rlp_encode (RList (map (\<lambda>x. RUint (unat x)) (xs :: 'a word list))) @ rest\<rparr> =
    Inr (xs, \<lparr>view = rest\<rparr>)"
  using assms by (simp add: read_vector_def substr_def read_vector_loop_RUints)

text \<open>
  The loop every codec uses: \<open>while (decoder.Remaining().size() > end)\<close> one step reads an element.
  A codec that satisfies the two laws reads back the list an encoder wrote, each element \<open>x\<close> as
  \<open>out x\<close> (the identity for most codecs, a normalisation for some).
\<close>

locale item_loop =
  fixes enc :: "'b \<Rightarrow> rlp_item"
    and wf :: "'b \<Rightarrow> bool"
    and out :: "'b \<Rightarrow> 'a"
    and step :: "rlp_decoder \<Rightarrow> 'e + ('a \<times> rlp_decoder)"
    and loop :: "nat \<Rightarrow> rlp_decoder \<Rightarrow> 'a list \<Rightarrow> 'e + ('a list \<times> rlp_decoder)"
  assumes loop_eq: "loop end_size d acc =
      (if end_size < length (view d)
       then outcome_try (step d) (\<lambda>(x, d'). loop end_size d' (acc @ [x]))
       else Inr (acc, d))"
    and step_reads: "wf x \<Longrightarrow> fits (enc x) \<Longrightarrow>
      step \<lparr>view = rlp_encode (enc x) @ rest\<rparr> = Inr (out x, \<lparr>view = rest\<rparr>)"
begin

lemma loop_reads:
  "\<forall>x \<in> set xs. wf x \<and> fits (enc x) \<Longrightarrow>
     loop (length rest) \<lparr>view = rlp_encodes (map enc xs) @ rest\<rparr> acc = Inr (acc @ map out xs, \<lparr>view = rest\<rparr>)"
proof (induction xs arbitrary: acc)
  case Nil
  show ?case by (subst loop_eq) simp
next
  case (Cons x xs)
  then have "step \<lparr>view = rlp_encode (enc x) @ rlp_encodes (map enc xs) @ rest\<rparr> =
      Inr (out x, \<lparr>view = rlp_encodes (map enc xs) @ rest\<rparr>)" by (intro step_reads) simp_all
  with Cons show ?case by (subst loop_eq) simp
qed

lemma loop_reads_list:
  assumes "\<forall>x \<in> set xs. wf x" "fits (RList (map enc xs))" "n = length rest"
  shows "loop n \<lparr>view = rlp_encodes (map enc xs) @ rest\<rparr> acc = Inr (acc @ map out xs, \<lparr>view = rest\<rparr>)"
  unfolding assms(3) using assms(1,2) by (intro loop_reads) (auto intro: fits_RList_elem)

lemma loop_reads_all:
  assumes "\<forall>x \<in> set xs. wf x" "fits (RList (map enc xs))"
  shows "loop 0 \<lparr>view = rlp_encodes (map enc xs)\<rparr> acc = Inr (acc @ map out xs, \<lparr>view = []\<rparr>)"
  using loop_reads_list [OF assms, of 0 "[]"] by simp

text \<open>
  If every element read takes at least one byte, the loop never gives bytes back.
\<close>

lemma loop_shrinks:
  assumes consumes: "\<And>d x d'. step d = Inr (x, d') \<Longrightarrow> length (view d') < length (view d)"
    and "loop n d acc = Inr (xs, d')"
  shows "length (view d') \<le> length (view d)"
  using assms(2)
proof (induction "length (view d)" arbitrary: d acc rule: less_induct)
  case less
  show ?case
  proof (cases "n < length (view d)")
    case True
    with less.prems obtain x d1 where x: "step d = Inr (x, d1)" "loop n d1 (acc @ [x]) = Inr (xs, d')"
      by (subst (asm) loop_eq) (auto simp: outcome_try_eq_Inr)
    from less.hyps [OF consumes [OF x(1)] x(2)] consumes [OF x(1)] show ?thesis by simp
  next
    case False
    with less.prems show ?thesis by (subst (asm) loop_eq) simp
  qed
qed

end

section \<open>Correctness of the decoder\<close>

text \<open>
  C25. Header decoding succeeds on an input exactly when the input starts with a canonical RLP item
  (with a payload below \<open>2^64\<close> bytes that is completely present); the header then describes
  that item and the view is left at its payload. Non-minimal lengths, a length form that is too
  long and truncated payloads are all rejected.
\<close>

theorem decode_header_exact:
  "decode_header_impl v = Inr (h, v') \<longleftrightarrow>
     (\<exists>lst p rest. length p < 2 ^ 64 \<and> v = (if lst then rlp_list p else rlp_str p) @ rest \<and>
        h = \<lparr>list_h = lst, payload_size_bytes = length p,
             header_size_bytes = length v - length (p @ rest)\<rparr> \<and> v' = p @ rest)"
proof -
  have "item_header lst p = \<lparr>list_h = lst, payload_size_bytes = length p,
      header_size_bytes = length (item_bytes lst p @ rest) - length (p @ rest)\<rparr>" for lst p rest
    by (simp add: item_header_def)
  then show ?thesis unfolding decode_header_iff item_bytes_def [symmetric] by metis
qed

text \<open>
  A header the decoder reports lies inside the view: header and payload together never exceed
  the remaining input, and header skipping advances by exactly the reported header size.
\<close>

theorem PeekHeader_bounds:
  "PeekHeader d = Inr h \<Longrightarrow>
     header_size_bytes h + payload_size_bytes h \<le> length (view d) \<and>
     header_size_bytes h \<le> 9 \<and>
     skip_header_internal d = Inr (remove_prefix (header_size_bytes h) d)"
proof (erule PeekHeader_cases)
  fix lst p rest
  assume p: "length p < 2 ^ 64" and d: "d = \<lparr>view = item_bytes lst p @ rest\<rparr>" and h: "h = item_header lst p"
  have "header_size_bytes (item_header lst p) \<le> 9"
    using length_nat_to_be_u64 [OF p]
    by (simp add: item_header_def item_bytes_def rlp_list_def rlp_str_def rlp_prefix_def)
  then show "header_size_bytes h + payload_size_bytes h \<le> length (view d) \<and> header_size_bytes h \<le> 9 \<and>
     skip_header_internal d = Inr (remove_prefix (header_size_bytes h) d)"
    using p by (simp add: d h item_bytes_len del: drop_append)
qed

theorem PeekHeader_bounds_witness:
  "PeekHeader \<lparr>view = [0x82, 7, 8, 9]\<rparr> = Inr \<lparr>list_h = False, payload_size_bytes = 2, header_size_bytes = 1\<rparr> \<and>
   skip_header_internal \<lparr>view = [0x82, 7, 8, 9]\<rparr> = Inr \<lparr>view = [7, 8, 9]\<rparr>"
proof -
  have p: "PeekHeader \<lparr>view = [0x82, 7, 8, 9]\<rparr> =
      Inr \<lparr>list_h = False, payload_size_bytes = 2, header_size_bytes = 1\<rparr>"
    by (simp add: PeekHeader_def decode_header_impl_def short_string_header_def)
  from PeekHeader_bounds [OF this] p show ?thesis by simp
qed

lemma RUint_decode_item:
  "compact_value w p = Inr n \<Longrightarrow> rlp_str p = rlp_encode (RUint n) \<or> n = 0 \<and> p = [0]"
  using compact_value_canonical [of w p n]
  by (cases "p = [0]") (auto simp: RUint_def rlp_encode_simps compact_value_def be_val_Cons split: if_splits)

text \<open>
  Reading an unsigned 64-bit integer succeeds exactly on the canonical encoding of a number below
  \<open>2^64\<close> and, as the code documents, on the single byte \<open>0x00\<close>, which also reads as zero.
\<close>

theorem read_u64_exact:
  "(read_integral d :: decoding_error + (u64 \<times> rlp_decoder)) = Inr (n, d') \<longleftrightarrow>
     view d = rlp_encode (RUint (unat n)) @ view d' \<or> n = 0 \<and> view d = 0 # view d'"
proof
  assume r: "(read_integral d :: decoding_error + (u64 \<times> rlp_decoder)) = Inr (n, d')"
  then obtain h where "PeekHeader d = Inr h" by (auto simp: read_integral_def outcome_iffs)
  then obtain lst p rest where p: "length p < 2 ^ 64" and d: "d = \<lparr>view = item_bytes lst p @ rest\<rparr>"
    by (rule PeekHeader_cases)
  with r obtain m where m: "\<not> lst" "compact_value 64 p = Inr m" "n = word_of_nat m" "d' = \<lparr>view = rest\<rparr>"
    by (auto simp: read_integral_item outcome_iffs split: if_splits)
  then have "unat n = m" by (auto simp: compact_value_def unat_of_nat split: if_splits)
  with m RUint_decode_item [OF m(2)] show "view d = rlp_encode (RUint (unat n)) @ view d' \<or> n = 0 \<and> view d = 0 # view d'"
    by (auto simp: d item_bytes_simps rlp_str_def unat_eq_0)
next
  assume "view d = rlp_encode (RUint (unat n)) @ view d' \<or> n = 0 \<and> view d = 0 # view d'"
  then consider "d = \<lparr>view = rlp_encode (RUint (unat n)) @ view d'\<rparr>"
    | "n = 0" "d = \<lparr>view = item_bytes False [0] @ view d'\<rparr>"
    by (auto simp: item_bytes_simps rlp_str_def intro: decoder_eq)
  then show "(read_integral d :: decoding_error + (u64 \<times> rlp_decoder)) = Inr (n, d')"
    by cases (auto simp: read_integral_item compact_value_def be_val_Cons simp del: append_Cons)
qed

lemma item_bytes_inj:
  assumes "item_bytes l p @ r = item_bytes l' p' @ r'" "length p < 2 ^ 64" "length p' < 2 ^ 64"
  shows "l = l' \<and> p = p' \<and> r = r'"
proof -
  have e: "(item_header l p, p @ r) = (item_header l' p', p' @ r')"
    using decode_header_item [OF assms(2), of l r] decode_header_item [OF assms(3), of l' r'] assms(1) by simp
  then have "l = l'" "length p = length p'"
    using item_header_simps [of l p] item_header_simps [of l' p'] by simp_all
  with e show ?thesis by simp
qed
lemma rlp_encodes_inj:
  assumes "\<And>t u r r'. t \<in> set ts \<Longrightarrow> fits u \<Longrightarrow> rlp_encode t @ r = rlp_encode u @ r' \<Longrightarrow> t = u \<and> r = r'"
    and "rlp_encodes ts = rlp_encodes us" "\<forall>u \<in> set us. fits u"
  shows "ts = us"
  using assms
proof (induction ts arbitrary: us)
  case Nil
  then show ?case by (cases us) auto
next
  case (Cons t ts)
  then obtain u us' where us: "us = u # us'" by (cases us) auto
  with Cons.prems(2,3) Cons.prems(1) [of t u "rlp_encodes ts" "rlp_encodes us'"]
  have "t = u" "rlp_encodes ts = rlp_encodes us'" by auto
  moreover have "ts = us'"
    by (rule Cons.IH) (use Cons.prems us calculation in auto)
  ultimately show ?case using us by simp
qed

text \<open>
  The encoding is prefix-free: if the encodings of two items are prefixes of the same byte
  string, the items are equal and so are the remainders. Every byte string the decoder accepts as an
  item therefore has one meaning.
\<close>

theorem rlp_encode_prefix_free:
  "fits s \<Longrightarrow> fits t \<Longrightarrow> rlp_encode s @ r = rlp_encode t @ r' \<Longrightarrow> s = t \<and> r = r'"
proof (induction s arbitrary: t r r')
  case (RStr p)
  show ?case
  proof (cases t)
    case (RStr q)
    with RStr.prems show ?thesis using item_bytes_inj [of False p r False q r'] fits_RStrD [of p] fits_RStrD [of q]
      by (simp add: rlp_encode_item_bytes)
  next
    case (RList ts)
    with RStr.prems show ?thesis using item_bytes_inj [of False p r True "rlp_encodes ts" r']
        fits_RStrD [of p] fits_RListD [of ts]
      by (simp add: rlp_encode_item_bytes)
  qed
next
  case (RList ss)
  have "t \<noteq> RStr q" for q
    using item_bytes_inj [of True "rlp_encodes ss" r False q r'] fits_RListD [of ss] fits_RStrD [of q]
      RList.prems by (auto simp: rlp_encode_item_bytes)
  then obtain ts where t: "t = RList ts" by (cases t) auto
  with RList.prems have e: "rlp_encodes ss = rlp_encodes ts" "r = r'"
    using item_bytes_inj [of True "rlp_encodes ss" r True "rlp_encodes ts" r']
      fits_RListD [of ss] fits_RListD [of ts]
    by (simp_all add: rlp_encode_item_bytes)
  have "ss = ts"
  proof (rule rlp_encodes_inj [OF _ e(1)])
    show "s = u \<and> q = q'" if "s \<in> set ss" "fits u" "rlp_encode s @ q = rlp_encode u @ q'" for s u q q'
      using RList.IH [OF that(1) fits_RList_elem [OF RList.prems(1) that(1)] that(2,3)] .
    show "\<forall>u \<in> set ts. fits u" using RList.prems(2) t by (auto intro: fits_RList_elem)
  qed
  with t e show ?case by simp
qed

theorem rlp_encode_prefix_free_witness:
  "rlp_encode (RStr [1]) @ [2] = rlp_encode (RStr [1]) @ [2] \<and> [2 :: byte] = [2]"
  using rlp_encode_prefix_free [of "RStr [1]" "RStr [1]" "[2]" "[2]"] by simp

text \<open>
  A list of integers written with the vector form of \<open>add\<close> is read back unchanged by
  \<open>read_vector\<close>, which consumes exactly the list and leaves what follows it.
\<close>

theorem add_vector_read_vector:
  assumes "fits (RList (map (\<lambda>x. RUint (unat x)) (xs :: u64 list)))"
  shows "\<exists>bs. outcome_try (add_vector add_u64 xs new_encoder) GetBytes = Inr bs \<and>
     (\<forall>rest. read_vector \<lparr>view = bs @ rest\<rparr> = Inr (xs, \<lparr>view = rest\<rparr>))"
proof -
  have "emits_item (add_vector add_u64 xs) (RList (map (\<lambda>x. RUint (unat x)) xs))"
    using assms by (intro emits_item_add_vector) (simp_all add: list_all2_map2 list_all2_same)
  then have "add_vector add_u64 xs new_encoder =
      Inr (push_bytes (rlp_encode (RList (map (\<lambda>x. RUint (unat x)) xs))) new_encoder)"
    by (simp add: emits_item_def emits_def)
  then show ?thesis using read_vector_RList [where 'a = 64, OF _ _ assms]
    by (simp add: GetBytes_def push_bytes_def new_encoder_def)
qed

theorem add_vector_read_vector_witness:
  "\<exists>bs. outcome_try (add_vector add_u64 [1, 500] new_encoder) GetBytes = Inr bs \<and>
     (\<forall>rest. read_vector \<lparr>view = bs @ rest\<rparr> = Inr ([1, 500 :: u64], \<lparr>view = rest\<rparr>))"
proof (rule add_vector_read_vector)
  show "fits (RList (map (\<lambda>x. RUint (unat x)) [1, 500 :: u64]))"
    using length_RUint_le [of 1] length_RUint_le [of 500] by (intro fits_RListI) simp
qed

end
