(* ===== verification/Rlp_Streaming.thy ===== *)
theory Rlp_Streaming
  imports Rlp_Decoder
begin

text \<open>
  The streaming codecs of src/rlp/rlp\_streaming.cpp and include/rlp/rlp\_streaming.hpp. A stream object
  holds a reference to an encoder: the model passes the encoder state beside the stream's own record.
  The callback of the convenience functions is the list of chunks it supplies.
\<close>

section \<open>Reserve and patch: one large string\<close>

record large_encoder =
  header_start :: nat
  payload_start :: nat
  payload_size :: nat
  finished :: bool

definition encode_string_header :: "nat \<Rightarrow> bytes" where
  "encode_string_header payload_len =
     (if payload_len \<le> kMaxShortStringLen then [word_of_nat (kShortStringOffset + payload_len)]
      else let len_be = to_big_compact (word_of_nat payload_len :: u64)
           in if 8 < length len_be then []
              else word_of_nat (kLongStringOffset + length len_be) # len_be)"

definition large_create :: "rlp_encoder \<Rightarrow> streaming_error + (large_encoder \<times> rlp_encoder)" where
  "large_create e =
     (case GetBytes e of
        Inl _ \<Rightarrow> Inl kNotFinalized
      | Inr buf \<Rightarrow>
          let e' = e\<lparr>buffer := buf @ replicate 9 0\<rparr>
          in Inr (\<lparr>header_start = length (buffer e') - 9, payload_start = length (buffer e'),
                   payload_size = 0, finished = False\<rparr>, e'))"

definition large_addChunk :: "bytes \<Rightarrow> large_encoder \<times> rlp_encoder
    \<Rightarrow> (streaming_error + unit) \<times> (large_encoder \<times> rlp_encoder)" where
  "large_addChunk chunk = (\<lambda>(s, e).
     if finished s then (Inl kAlreadyFinalized, (s, e))
     else case GetBytes e of
        Inl _ \<Rightarrow> (Inl kNotFinalized, (s, e))
      | Inr buf \<Rightarrow> (Inr (), (s\<lparr>payload_size := payload_size s + length chunk\<rparr>, e\<lparr>buffer := buf @ chunk\<rparr>)))"

text \<open>\<open>memcpy\<close> and \<open>memmove\<close> into the buffer, both inside its bounds.\<close>

definition overwrite :: "nat \<Rightarrow> bytes \<Rightarrow> bytes \<Rightarrow> bytes" where
  "overwrite pos bs buf = take pos buf @ bs @ drop (pos + length bs) buf"

definition patch_header :: "nat \<Rightarrow> nat \<Rightarrow> nat \<Rightarrow> bytes \<Rightarrow> bytes \<Rightarrow> bytes" where
  "patch_header hdr_start pay_start pay_size actual_header buf =
     (let shift = 9 - length actual_header;
          buf1 = overwrite hdr_start actual_header buf
      in if 0 < shift
         then take (length buf1 - shift)
                (overwrite (hdr_start + length actual_header) (take pay_size (drop pay_start buf1)) buf1)
         else buf1)"

definition large_finish :: "large_encoder \<times> rlp_encoder
    \<Rightarrow> (streaming_error + unit) \<times> (large_encoder \<times> rlp_encoder)" where
  "large_finish = (\<lambda>(s, e).
     if finished s then (Inl kAlreadyFinalized, (s, e))
     else let s = s\<lparr>finished := True\<rparr>;
              actual_header = encode_string_header (payload_size s)
       in if actual_header = [] \<and> kMaxShortStringLen < payload_size s then (Inl kHeaderSizeExceeded, (s, e))
       else case GetBytes e of
          Inl _ \<Rightarrow> (Inl kNotFinalized, (s, e))
        | Inr buf \<Rightarrow>
            if length actual_header \<le> 9
            then (Inr (), (s, e\<lparr>buffer :=
                    patch_header (header_start s) (payload_start s) (payload_size s) actual_header buf\<rparr>))
            else (Inl kHeaderSizeExceeded, (s, e)))"

text \<open>The destructor finishes the stream if it is not finished.\<close>

definition large_destroy :: "large_encoder \<times> rlp_encoder \<Rightarrow> rlp_encoder" where
  "large_destroy se = (if finished (fst se) then snd se else snd (snd (large_finish se)))"

fun feed_chunks :: "(bytes \<Rightarrow> 's \<Rightarrow> (streaming_error + unit) \<times> 's) \<Rightarrow> bytes list \<Rightarrow> 's
    \<Rightarrow> (streaming_error + unit) \<times> 's" where
  "feed_chunks add [] s = (Inr (), s)"
| "feed_chunks add (c # cs) s =
     (case add c s of (Inl err, s') \<Rightarrow> (Inl err, s') | (Inr _, s') \<Rightarrow> feed_chunks add cs s')"

definition encodeLargeString :: "bytes list \<Rightarrow> rlp_encoder \<Rightarrow> (streaming_error + unit) \<times> rlp_encoder" where
  "encodeLargeString chunks e =
     (case large_create e of
        Inl err \<Rightarrow> (Inl err, e)
      | Inr se \<Rightarrow> (case feed_chunks large_addChunk chunks se of (r, se') \<Rightarrow> (r, large_destroy se')))"

lemma encode_string_header_eq: "n < 2 ^ 64 \<Longrightarrow> encode_string_header n = rlp_prefix 0x80 n"
proof -
  assume n: "n < 2 ^ 64"
  then have "to_big_compact (word_of_nat n :: u64) = nat_to_be n"
    by (simp add: to_big_compact_eq unat_of_nat)
  with length_nat_to_be_u64 [OF n] show ?thesis
    by (simp add: encode_string_header_def rlp_prefix_def Let_def)
qed

definition large_state :: "bytes \<Rightarrow> bytes \<Rightarrow> large_encoder \<times> rlp_encoder" where
  "large_state base payload =
     (\<lparr>header_start = length base, payload_start = length base + 9, payload_size = length payload,
       finished = False\<rparr>,
      \<lparr>buffer = base @ replicate 9 0 @ payload, list_start_positions = []\<rparr>)"

lemma large_create_state:
  "large_create \<lparr>buffer = base, list_start_positions = []\<rparr> = Inr (large_state base [])"
  by (simp add: large_create_def large_state_def GetBytes_def)

lemma large_addChunk_state:
  "large_addChunk c (large_state base payload) = (Inr (), large_state base (payload @ c))"
  by (simp add: large_addChunk_def large_state_def GetBytes_def)

lemma feed_large: "feed_chunks large_addChunk cs (large_state base payload) =
    (Inr (), large_state base (payload @ concat cs))"
  by (induction cs arbitrary: payload) (simp_all add: large_addChunk_state)

lemma patch_header_eq:
  assumes "length hdr \<le> 9"
  shows "patch_header (length base) (length base + 9) (length payload) hdr (base @ replicate 9 0 @ payload) =
    base @ hdr @ payload"
  using assms by (auto simp: patch_header_def overwrite_def Let_def)

lemma large_finish_state:
  assumes "length payload < 2 ^ 64"
  shows "large_finish (large_state base payload) =
    (Inr (), (fst (large_state base payload))\<lparr>finished := True\<rparr>,
       \<lparr>buffer = base @ rlp_prefix 0x80 (length payload) @ payload, list_start_positions = []\<rparr>)"
  using assms length_rlp_prefix_le [OF assms, of "0x80"]
  by (simp add: large_finish_def large_state_def encode_string_header_eq GetBytes_def patch_header_eq Let_def)

lemma encodeLargeString_eq:
  assumes "length (concat chunks) < 2 ^ 64" "list_start_positions e = []"
  shows "encodeLargeString chunks e =
    (Inr (), push_bytes (rlp_prefix 0x80 (length (concat chunks)) @ concat chunks) e)"
proof -
  have e: "e = \<lparr>buffer = buffer e, list_start_positions = []\<rparr>" using assms(2) by simp
  have "large_destroy (large_state (buffer e) (concat chunks)) =
      snd (snd (large_finish (large_state (buffer e) (concat chunks))))"
    by (simp add: large_destroy_def large_state_def)
  then show ?thesis
    unfolding encodeLargeString_def
    by (subst e, subst (2) e) (simp add: large_create_state feed_large large_finish_state [OF assms(1)] push_bytes_def)
qed

text \<open>
  A large string streamed in any chunks is written exactly as \<open>add\<close> writes the concatenated
  payload, for every payload that is not a single byte below \<open>0x80\<close>.
\<close>

theorem encodeLargeString_is_add:
  assumes "length (concat chunks) < 2 ^ 64" "list_start_positions e = []"
    "\<not> (length (concat chunks) = 1 \<and> unat (concat chunks ! 0) < 0x80)"
  shows "\<exists>e'. encodeLargeString chunks e = (Inr (), e') \<and> add_bytes (concat chunks) e = Inr e'"
  using encodeLargeString_eq [OF assms(1,2)] add_bytes_eq [OF assms(1), of e] assms(3)
  by (auto simp: rlp_str_def)

theorem encodeLargeString_is_add_witness:
  "\<exists>e'. encodeLargeString [[1, 2], [], [3]] new_encoder = (Inr (), e') \<and>
     add_bytes (concat [[1, 2], [], [3]]) new_encoder = Inr e'"
  by (rule encodeLargeString_is_add) (simp_all add: new_encoder_def)

text \<open>
  The one payload the streaming encoder gets wrong: a single byte below \<open>0x80\<close> is written with
  the header \<open>0x81\<close>, which \<open>add\<close> never produces and the decoder rejects as non-canonical, although
  the header file promises a canonical string.
\<close>

theorem encodeLargeString_single_byte:
  assumes "unat b < 0x80"
  shows "encodeLargeString [[b]] new_encoder = (Inr (), \<lparr>buffer = [0x81, b], list_start_positions = []\<rparr>) \<and>
    read_bytes \<lparr>view = [0x81, b]\<rparr> = Inl kNonCanonicalSize"
  using assms encodeLargeString_eq [of "[[b]]" new_encoder]
  by (simp add: new_encoder_def rlp_prefix_def push_bytes_def read_bytes_def PeekHeader_def
      decode_header_impl_def short_string_header_def)

theorem encodeLargeString_single_byte_witness:
  "encodeLargeString [[5]] new_encoder = (Inr (), \<lparr>buffer = [0x81, 5], list_start_positions = []\<rparr>) \<and>
    read_bytes \<lparr>view = [0x81, 5]\<rparr> = Inl kNonCanonicalSize"
  by (rule encodeLargeString_single_byte) simp

section \<open>Chunked lists: the encoder\<close>

record chunked_encoder =
  chunk_size :: nat
  pending :: bytes
  chunk_count :: nat
  total_bytes :: nat
  chunk_finished :: bool
  list_started :: bool

definition chunked_create :: "nat \<Rightarrow> streaming_error + chunked_encoder" where
  "chunked_create n =
     (if n = 0 then Inl kInvalidChunkSize
      else Inr \<lparr>chunk_size = n, pending = [], chunk_count = 0, total_bytes = 0,
                chunk_finished = False, list_started = False\<rparr>)"

definition flushBuffer :: "chunked_encoder \<times> rlp_encoder \<Rightarrow> chunked_encoder \<times> rlp_encoder" where
  "flushBuffer = (\<lambda>(s, e).
     if pending s = [] then (s, e)
     else (s\<lparr>chunk_count := chunk_count s + 1, pending := []\<rparr>,
           case add_bytes (pending s) e of Inl _ \<Rightarrow> e | Inr e' \<Rightarrow> e'))"

text \<open>
  The copy loop of \<open>addChunk\<close>, on the data that is still to be copied. \<open>None\<close> is a loop that never
  ends, which a chunk size of zero would give.
\<close>

partial_function (option) chunk_loop ::
    "bytes \<Rightarrow> chunked_encoder \<times> rlp_encoder \<Rightarrow> (chunked_encoder \<times> rlp_encoder) option" where
  "chunk_loop data se =
     (if data = [] then Some se
      else let space_left = chunk_size (fst se) - length (pending (fst se));
               to_copy = min space_left (length data);
               s = (fst se)\<lparr>pending := pending (fst se) @ take to_copy data,
                            total_bytes := total_bytes (fst se) + to_copy\<rparr>
           in chunk_loop (drop to_copy data)
                (if chunk_size s \<le> length (pending s) then flushBuffer (s, snd se) else (s, snd se)))"

definition chunked_addChunk :: "bytes \<Rightarrow> chunked_encoder \<times> rlp_encoder
    \<Rightarrow> ((streaming_error + unit) \<times> (chunked_encoder \<times> rlp_encoder)) option" where
  "chunked_addChunk data = (\<lambda>(s, e).
     if chunk_finished s then Some (Inl kAlreadyFinalized, (s, e))
     else case (if list_started s then Inr (s, e)
                else case BeginList e of Inl _ \<Rightarrow> Inl kNotFinalized
                     | Inr e' \<Rightarrow> Inr (s\<lparr>list_started := True\<rparr>, e')) of
        Inl err \<Rightarrow> Some (Inl err, (s, e))
      | Inr se \<Rightarrow> map_option (\<lambda>se'. (Inr (), se')) (chunk_loop data se))"

definition chunked_finish :: "chunked_encoder \<times> rlp_encoder
    \<Rightarrow> (streaming_error + unit) \<times> (chunked_encoder \<times> rlp_encoder)" where
  "chunked_finish = (\<lambda>(s, e).
     if chunk_finished s then (Inl kAlreadyFinalized, (s, e))
     else case (if pending s \<noteq> [] then flushBuffer (s\<lparr>chunk_finished := True\<rparr>, e)
                else (s\<lparr>chunk_finished := True\<rparr>, e)) of (s, e) \<Rightarrow>
       if list_started s then
         (case EndList e of Inl _ \<Rightarrow> (Inl kNotFinalized, (s, e)) | Inr e' \<Rightarrow> (Inr (), (s, e')))
       else (case outcome_try (BeginList e) EndList of
               Inl _ \<Rightarrow> (Inl kNotFinalized, (s, e)) | Inr e' \<Rightarrow> (Inr (), (s, e'))))"

definition chunked_destroy :: "chunked_encoder \<times> rlp_encoder \<Rightarrow> rlp_encoder" where
  "chunked_destroy se = (if chunk_finished (fst se) then snd se else snd (snd (chunked_finish se)))"

fun feed_chunked :: "bytes list \<Rightarrow> chunked_encoder \<times> rlp_encoder
    \<Rightarrow> ((streaming_error + unit) \<times> (chunked_encoder \<times> rlp_encoder)) option" where
  "feed_chunked [] se = Some (Inr (), se)"
| "feed_chunked (c # cs) se =
     (case chunked_addChunk c se of
        None \<Rightarrow> None
      | Some (Inl err, se') \<Rightarrow> Some (Inl err, se')
      | Some (Inr _, se') \<Rightarrow> feed_chunked cs se')"

definition encodeChunkedList :: "nat \<Rightarrow> bytes list \<Rightarrow> rlp_encoder
    \<Rightarrow> ((streaming_error + unit) \<times> rlp_encoder) option" where
  "encodeChunkedList n chunks e =
     (case chunked_create n of
        Inl err \<Rightarrow> Some (Inl err, e)
      | Inr s \<Rightarrow> map_option (\<lambda>(r, se). (r, chunked_destroy se)) (feed_chunked chunks (s, e)))"

text \<open>The reference: the data cut into pieces of the chunk size.\<close>

function chunks_of :: "nat \<Rightarrow> bytes \<Rightarrow> bytes list" where
  "chunks_of n xs = (if n = 0 \<or> xs = [] then [] else take n xs # chunks_of n (drop n xs))"
  by pat_completeness auto
termination by (relation "measure (\<lambda>(n, xs). length xs)") auto

declare chunks_of.simps [simp del]

lemma concat_chunks_of: "0 < n \<Longrightarrow> concat (chunks_of n xs) = xs"
  by (induction n xs rule: chunks_of.induct) (subst chunks_of.simps, simp)

lemma chunks_of_split:
  assumes "\<forall>f \<in> set fs. length f = n" "length b < n"
  shows "chunks_of n (concat fs @ b) = fs @ (if b = [] then [] else [b])"
  using assms
proof (induction fs)
  case Nil
  then show ?case by (subst chunks_of.simps) (simp add: chunks_of.simps [of _ "[]"])
next
  case (Cons f fs)
  then have "f \<noteq> []" by auto
  with Cons show ?case by (subst chunks_of.simps) simp
qed

text \<open>The states of the stream while the list is open.\<close>

definition chunked_inv :: "nat \<Rightarrow> rlp_encoder \<Rightarrow> bytes \<Rightarrow> chunked_encoder \<times> rlp_encoder \<Rightarrow> bool" where
  "chunked_inv n e0 fed se \<longleftrightarrow>
     (\<exists>fs. (\<forall>f \<in> set fs. length f = n) \<and> length (pending (fst se)) < n \<and>
        concat fs @ pending (fst se) = fed \<and> chunk_size (fst se) = n \<and>
        chunk_count (fst se) = length fs \<and> total_bytes (fst se) = length fed \<and>
        \<not> chunk_finished (fst se) \<and> list_started (fst se) \<and>
        snd se = push_bytes (rlp_encodes (map RStr fs))
          (e0\<lparr>list_start_positions := list_start_positions e0 @ [length (buffer e0)]\<rparr>))"

lemma chunk_step_inv:
  assumes inv: "chunked_inv n e0 fed (s, e)" and n: "n < 2 ^ 64"
    and k: "k = min (n - length (pending s)) (length data)"
    and s': "s' = s\<lparr>pending := pending s @ take k data, total_bytes := total_bytes s + k\<rparr>"
  shows "chunked_inv n e0 (fed @ take k data) (if n \<le> length (pending s') then flushBuffer (s', e) else (s', e))"
proof -
  from inv obtain fs where fs: "\<forall>f \<in> set fs. length f = n" "length (pending s) < n"
    "concat fs @ pending s = fed" "chunk_size s = n" "chunk_count s = length fs" "total_bytes s = length fed"
    "\<not> chunk_finished s" "list_started s"
    and e: "e = push_bytes (rlp_encodes (map RStr fs))
          (e0\<lparr>list_start_positions := list_start_positions e0 @ [length (buffer e0)]\<rparr>)"
    by (auto simp: chunked_inv_def)
  show ?thesis
  proof (cases "n \<le> length (pending s')")
    case False
    with fs e k s' show ?thesis unfolding chunked_inv_def by (intro exI [of _ fs]) auto
  next
    case True
    then have l: "length (pending s') = n" using fs(2) k s' by auto
    have "add_bytes (pending s') e = Inr (push_bytes (rlp_str (pending s')) e)"
      using l n by (intro add_bytes_eq) simp
    then have "flushBuffer (s', e) = (s'\<lparr>chunk_count := chunk_count s' + 1, pending := []\<rparr>,
        push_bytes (rlp_str (pending s')) e)"
      using l fs(2) by (auto simp: flushBuffer_def)
    then show ?thesis using True l fs e k s' unfolding chunked_inv_def
      by (intro exI [of _ "fs @ [pending s']"]) (auto simp: rlp_encode_simps)
  qed
qed

lemma chunk_loop_inv:
  assumes "chunked_inv n e0 fed se" "n < 2 ^ 64"
  shows "\<exists>se'. chunk_loop data se = Some se' \<and> chunked_inv n e0 (fed @ data) se'"
  using assms(1)
proof (induction data arbitrary: se fed rule: length_induct)
  case (1 data)
  show ?case
  proof (cases "data = []")
    case True
    with 1 show ?thesis by (subst chunk_loop.simps) simp
  next
    case False
    obtain s e where se: "se = (s, e)" by (cases se)
    define k where "k = min (n - length (pending s)) (length data)"
    define s' where "s' = s\<lparr>pending := pending s @ take k data, total_bytes := total_bytes s + k\<rparr>"
    define se' where "se' = (if n \<le> length (pending s') then flushBuffer (s', e) else (s', e))"
    have inv': "chunked_inv n e0 (fed @ take k data) se'" unfolding se'_def
      using chunk_step_inv [OF 1(2) [unfolded se] assms(2) k_def s'_def] .
    have cs: "chunk_size s = n" "length (pending s) < n" using 1(2) se by (auto simp: chunked_inv_def)
    then have "length (drop k data) < length data" using False by (simp add: k_def)
    with 1(1) inv' obtain se'' where
      "chunk_loop (drop k data) se' = Some se''" "chunked_inv n e0 ((fed @ take k data) @ drop k data) se''"
      by blast
    moreover have "chunk_loop data se = chunk_loop (drop k data)
        (if chunk_size s' \<le> length (pending s') then flushBuffer (s', e) else (s', e))"
      unfolding s'_def k_def cs(1) [symmetric]
      by (subst chunk_loop.simps) (simp only: se fst_conv snd_conv Let_def False if_False)
    moreover have "chunk_size s' = n" by (simp add: s'_def cs)
    ultimately show ?thesis by (simp add: se'_def)
  qed
qed

lemma chunked_addChunk_inv:
  assumes "chunked_inv n e0 fed se" "n < 2 ^ 64"
  shows "\<exists>se'. chunked_addChunk data se = Some (Inr (), se') \<and> chunked_inv n e0 (fed @ data) se'"
  using chunk_loop_inv [OF assms, of data] assms(1)
  by (cases se) (auto simp: chunked_addChunk_def chunked_inv_def)

lemma feed_chunked_inv:
  assumes "chunked_inv n e0 fed se" "n < 2 ^ 64"
  shows "\<exists>se'. feed_chunked cs se = Some (Inr (), se') \<and> chunked_inv n e0 (fed @ concat cs) se'"
  using assms(1)
proof (induction cs arbitrary: se fed)
  case (Cons c cs)
  from chunked_addChunk_inv [OF Cons.prems assms(2), of c] obtain se' where
    "chunked_addChunk c se = Some (Inr (), se')" "chunked_inv n e0 (fed @ c) se'" by blast
  with Cons.IH [of "fed @ c" se'] show ?case by simp
qed simp

lemma chunked_first_inv:
  assumes "0 < n" "n < 2 ^ 64" "chunked_create n = Inr s"
  shows "\<exists>se'. chunked_addChunk data (s, e) = Some (Inr (), se') \<and> chunked_inv n e data se'"
proof -
  have "chunked_inv n e [] (s\<lparr>list_started := True\<rparr>,
      e\<lparr>list_start_positions := list_start_positions e @ [length (buffer e)]\<rparr>)"
    using assms unfolding chunked_inv_def by (intro exI [of _ "[]"]) (auto simp: chunked_create_def)
  from chunk_loop_inv [OF this assms(2), of data] assms(3) show ?thesis
    by (auto simp: chunked_addChunk_def chunked_create_def BeginList_def split: if_splits)
qed

lemma chunked_finish_inv:
  assumes inv: "chunked_inv n e0 fed se" and n: "n < 2 ^ 64"
    and fit: "fits (RList (map RStr (chunks_of n fed)))"
  shows "\<exists>s'. chunked_finish se = (Inr (), s', push_bytes (rlp_encode (RList (map RStr (chunks_of n fed)))) e0)"
proof -
  from inv obtain fs s e where se: "se = (s, e)" and fs: "\<forall>f \<in> set fs. length f = n" "length (pending s) < n"
    "concat fs @ pending s = fed" "\<not> chunk_finished s" "list_started s"
    and e: "e = push_bytes (rlp_encodes (map RStr fs))
          (e0\<lparr>list_start_positions := list_start_positions e0 @ [length (buffer e0)]\<rparr>)"
    by (cases se) (auto simp: chunked_inv_def)
  let ?cs = "fs @ (if pending s = [] then [] else [pending s])"
  have cs: "chunks_of n fed = ?cs" using chunks_of_split [OF fs(1,2)] fs(3) by simp
  have "add_bytes (pending s) e = Inr (push_bytes (rlp_str (pending s)) e)"
    using fs(2) n by (intro add_bytes_eq) simp
  then have "snd (if pending s \<noteq> [] then flushBuffer (s\<lparr>chunk_finished := True\<rparr>, e)
       else (s\<lparr>chunk_finished := True\<rparr>, e)) =
     push_bytes (rlp_encodes (map RStr ?cs)) (e0\<lparr>list_start_positions := list_start_positions e0 @ [length (buffer e0)]\<rparr>)"
    (is "snd ?f = ?e1") by (simp add: e flushBuffer_def rlp_encode_simps)
  moreover have "EndList ?e1 = Inr (push_bytes (rlp_list (rlp_encodes (map RStr ?cs))) e0)"
    using fits_RListD [OF fit] unfolding cs
    by (intro BeginList_EndList) (auto simp: push_bytes_def)
  moreover have "list_started (fst ?f)" using fs(5) by (simp add: flushBuffer_def)
  ultimately show ?thesis using fs(4) unfolding cs
    by (cases ?f) (simp add: chunked_finish_def se rlp_encode_simps(2) split del: if_split)
qed

lemma encodeChunkedList_eq:
  assumes "0 < n" "n < 2 ^ 64" "fits (RList (map RStr (chunks_of n (concat chunks))))"
  shows "encodeChunkedList n chunks e =
    Some (Inr (), push_bytes (rlp_encode (RList (map RStr (chunks_of n (concat chunks))))) e)"
proof -
  obtain s where s: "chunked_create n = Inr s" "\<not> chunk_finished s" "\<not> list_started s" "pending s = []"
    using assms(1) by (simp add: chunked_create_def)
  show ?thesis
  proof (cases chunks)
    case Nil
    have "outcome_try (BeginList e) EndList = Inr (push_bytes (rlp_list []) e)"
      using BeginList_EndList [of _ e "[]"] by (simp add: BeginList_def)
    with Nil s show ?thesis
      by (simp add: encodeChunkedList_def chunked_destroy_def chunked_finish_def chunks_of.simps rlp_encode_simps(2))
  next
    case (Cons c cs)
    from chunked_first_inv [OF assms(1,2) s(1)] obtain se1 where
      1: "chunked_addChunk c (s, e) = Some (Inr (), se1)" "chunked_inv n e c se1" by blast
    from feed_chunked_inv [OF 1(2) assms(2), of cs] obtain se2 where
      2: "feed_chunked cs se1 = Some (Inr (), se2)" "chunked_inv n e (concat chunks) se2" using Cons by auto
    from chunked_finish_inv [OF 2(2) assms(2,3)] 2(2) show ?thesis
      by (auto simp: encodeChunkedList_def s Cons 1 2 chunked_destroy_def chunked_inv_def)
  qed
qed

section \<open>The streaming decoders\<close>

record large_decoder =
  lview :: bytes
  lpayload_size :: nat
  bytes_read :: nat
  linitialized :: bool

definition new_large_decoder :: "bytes \<Rightarrow> large_decoder" where
  "new_large_decoder data = \<lparr>lview = data, lpayload_size = 0, bytes_read = 0, linitialized = False\<rparr>"

definition peekPayloadSize :: "large_decoder \<Rightarrow> decoding_error + nat" where
  "peekPayloadSize s =
     outcome_try (PeekHeader \<lparr>view = lview s\<rparr>) (\<lambda>h.
     if list_h h then Inl kUnexpectedList
     else if length (lview s) < header_size_bytes h + payload_size_bytes h then Inl kInputTooShort
     else Inr (payload_size_bytes h))"

definition large_init :: "large_decoder \<Rightarrow> decoding_error + large_decoder" where
  "large_init s =
     (if linitialized s then Inr s
      else outcome_try (PeekHeader \<lparr>view = lview s\<rparr>) (\<lambda>h.
        if list_h h then Inl kUnexpectedList
        else if length (lview s) < header_size_bytes h + payload_size_bytes h then Inl kInputTooShort
        else Inr (s\<lparr>lpayload_size := payload_size_bytes h, lview := drop (header_size_bytes h) (lview s),
                    linitialized := True\<rparr>)))"

text \<open>A failed initialisation leaves the object unchanged.\<close>

definition large_readChunk :: "nat \<Rightarrow> large_decoder \<Rightarrow> (decoding_error + bytes) \<times> large_decoder" where
  "large_readChunk max_chunk_size s0 =
     (case large_init s0 of
        Inl err \<Rightarrow> (Inl err, s0)
      | Inr s \<Rightarrow>
          if lpayload_size s \<le> bytes_read s then (Inr [], s)
          else let remaining = lpayload_size s - bytes_read s;
                   n = min remaining max_chunk_size
               in (Inr (take n (lview s)), s\<lparr>lview := drop n (lview s), bytes_read := bytes_read s + n\<rparr>))"

lemma large_init_shrinks: "large_init s = Inr s' \<Longrightarrow> length (lview s') \<le> length (lview s)"
  by (auto simp: large_init_def outcome_iffs split: if_splits)

lemma large_readChunk_shrinks:
  assumes "large_readChunk m s = (Inr c, s')" "c \<noteq> []"
  shows "length (lview s') < length (lview s)"
proof -
  from assms obtain t where t: "large_init s = Inr t" and nr: "\<not> lpayload_size t \<le> bytes_read t"
    and s': "length (lview s') = length (lview t) - min (lpayload_size t - bytes_read t) m"
    and "take (min (lpayload_size t - bytes_read t) m) (lview t) \<noteq> []"
    by (auto simp: large_readChunk_def Let_def split: sum.splits if_splits)
  then have "0 < length (lview t)" "0 < min (lpayload_size t - bytes_read t) m" by auto
  then show ?thesis using large_init_shrinks [OF t] unfolding s' by linarith
qed

function decodeLargeString_loop :: "nat \<Rightarrow> large_decoder \<Rightarrow> bytes list \<Rightarrow> decoding_error + bytes list" where
  "decodeLargeString_loop m s calls =
     (case large_readChunk m s of
        (Inl err, _) \<Rightarrow> Inl err
      | (Inr chunk, s') \<Rightarrow>
          if chunk = [] then Inr calls else decodeLargeString_loop m s' (calls @ [chunk]))"
  by pat_completeness auto
termination
  by (relation "measure (\<lambda>(m, s, calls). length (lview s))") (auto dest: large_readChunk_shrinks [OF sym])

declare decodeLargeString_loop.simps [simp del]

text \<open>The chunks the callback receives, in order.\<close>

definition decodeLargeString :: "nat \<Rightarrow> rlp_decoder \<Rightarrow> decoding_error + bytes list" where
  "decodeLargeString m d = decodeLargeString_loop m (new_large_decoder (Remaining d)) []"

lemma large_init_item:
  "length p < 2 ^ 64 \<Longrightarrow> large_init (new_large_decoder (item_bytes False p @ rest)) =
     Inr \<lparr>lview = p @ rest, lpayload_size = length p, bytes_read = 0, linitialized = True\<rparr>"
  by (simp add: large_init_def new_large_decoder_def item_bytes_len)

lemma decodeLargeString_loop_eq:
  assumes "0 < m" "payload = done @ todo"
  shows "decodeLargeString_loop m \<lparr>lview = todo @ rest, lpayload_size = length payload,
      bytes_read = length done, linitialized = True\<rparr> calls = Inr (calls @ chunks_of m todo)"
  using assms(2)
proof (induction todo arbitrary: "done" calls rule: length_induct)
  case (1 todo)
  show ?case
  proof (cases "todo = []")
    case True
    with 1 show ?thesis
      by (subst decodeLargeString_loop.simps) (simp add: large_readChunk_def large_init_def chunks_of.simps)
  next
    case False
    have "length (drop m todo) < length todo" "payload = (done @ take m todo) @ drop m todo"
      using assms(1) False 1(2) by simp_all
    with 1(1) have IH: "decodeLargeString_loop m \<lparr>lview = drop m todo @ rest, lpayload_size = length payload,
        bytes_read = length (done @ take m todo), linitialized = True\<rparr> (calls @ [take m todo]) =
        Inr ((calls @ [take m todo]) @ chunks_of m (drop m todo))" by blast
    have "large_readChunk m \<lparr>lview = todo @ rest, lpayload_size = length payload,
        bytes_read = length done, linitialized = True\<rparr> =
      (Inr (take m todo), \<lparr>lview = drop m todo @ rest, lpayload_size = length payload,
        bytes_read = length (done @ take m todo), linitialized = True\<rparr>)"
      using False 1(2) by (auto simp: large_readChunk_def large_init_def Let_def min_def)
    with IH False assms(1) show ?thesis
      by (subst decodeLargeString_loop.simps, subst chunks_of.simps) simp
  qed
qed

lemma loop_start:
  "large_readChunk m s = large_readChunk m t \<Longrightarrow> decodeLargeString_loop m s cs = decodeLargeString_loop m t cs"
  by (subst decodeLargeString_loop.simps, subst (2) decodeLargeString_loop.simps) simp

lemma decodeLargeString_eq:
  assumes "0 < m" "length p < 2 ^ 64"
  shows "decodeLargeString m \<lparr>view = rlp_str p @ rest\<rparr> = Inr (chunks_of m p)"
proof -
  have "large_init (new_large_decoder (rlp_str p @ rest)) =
     Inr \<lparr>lview = p @ rest, lpayload_size = length p, bytes_read = 0, linitialized = True\<rparr>"
    using large_init_item [OF assms(2), of rest] by (simp add: item_bytes_def)
  then have "large_readChunk m (new_large_decoder (rlp_str p @ rest)) =
      large_readChunk m \<lparr>lview = p @ rest, lpayload_size = length p, bytes_read = 0, linitialized = True\<rparr>"
    by (simp add: large_readChunk_def large_init_def)
  from loop_start [OF this, of "[]"] decodeLargeString_loop_eq [OF assms(1), of p "[]" p rest "[]"]
  show ?thesis by (simp add: decodeLargeString_def Remaining_def)
qed

text \<open>
  What the streaming encoder writes (of any payload but a single byte below \<open>0x80\<close>), the
  streaming decoder hands to its callback in pieces of the read size whose concatenation is the
  payload; the decoding loop ends for every read size above zero.
\<close>

theorem large_string_round_trip:
  assumes "length (concat chunks) < 2 ^ 64" "0 < m"
    "\<not> (length (concat chunks) = 1 \<and> unat (concat chunks ! 0) < 0x80)"
  shows "\<exists>e' out. encodeLargeString chunks new_encoder = (Inr (), e') \<and>
    decodeLargeString m \<lparr>view = buffer e'\<rparr> = Inr out \<and> concat out = concat chunks \<and>
    list_all (\<lambda>c. length c \<le> m) out"
proof -
  have le: "\<forall>c \<in> set (chunks_of m xs). length c \<le> m" for xs
    by (induction m xs rule: chunks_of.induct) (subst chunks_of.simps, simp)
  have "encodeLargeString chunks new_encoder = (Inr (), push_bytes (rlp_str (concat chunks)) new_encoder)"
    using encodeLargeString_eq [OF assms(1), of new_encoder] assms(3)
    by (auto simp: new_encoder_def rlp_str_def)
  moreover have "decodeLargeString m \<lparr>view = rlp_str (concat chunks)\<rparr> = Inr (chunks_of m (concat chunks))"
    using decodeLargeString_eq [OF assms(2,1), of "[]"] by simp
  ultimately show ?thesis using concat_chunks_of [OF assms(2)] le
    by (auto simp: push_bytes_def new_encoder_def list_all_iff)
qed

theorem large_string_round_trip_witness:
  "\<exists>e' out. encodeLargeString [[1], [2, 3]] new_encoder = (Inr (), e') \<and>
    decodeLargeString 2 \<lparr>view = buffer e'\<rparr> = Inr out \<and> concat out = concat [[1], [2, 3]] \<and>
    list_all (\<lambda>c. length c \<le> 2) out"
  by (rule large_string_round_trip) simp_all

section \<open>Chunked lists: the decoder\<close>

record chunked_decoder =
  cview :: bytes
  list_payload :: bytes
  total_size :: nat
  total_chunks :: nat
  chunk_index :: nat
  cinitialized :: bool

definition new_chunked_decoder :: "bytes \<Rightarrow> chunked_decoder" where
  "new_chunked_decoder data = \<lparr>cview = data, list_payload = [], total_size = 0, total_chunks = 0,
     chunk_index = 0, cinitialized = False\<rparr>"

function scan_sizes :: "bytes \<Rightarrow> nat \<Rightarrow> nat \<Rightarrow> decoding_error + (nat \<times> nat)" where
  "scan_sizes list_view tot chunks =
     (if list_view = [] then Inr (tot, chunks)
      else outcome_try (PeekHeader \<lparr>view = list_view\<rparr>) (\<lambda>h.
        if list_h h then Inl kUnexpectedList
        else if length list_view < header_size_bytes h + payload_size_bytes h then Inl kInputTooShort
        else scan_sizes (drop (header_size_bytes h + payload_size_bytes h) list_view)
               (tot + payload_size_bytes h) (chunks + 1)))"
  by pat_completeness auto
termination
  by (relation "measure (\<lambda>(v, _, _). length v)") (auto dest: PeekHeader_consumes)

definition peekTotalSize :: "chunked_decoder \<Rightarrow> (decoding_error + nat) \<times> chunked_decoder" where
  "peekTotalSize s =
     (if cinitialized s \<and> 0 < total_size s then (Inr (total_size s), s)
      else case outcome_try (PeekHeader \<lparr>view = cview s\<rparr>) (\<lambda>h.
          if \<not> list_h h then Inl kUnexpectedString
          else if length (cview s) < header_size_bytes h + payload_size_bytes h then Inl kInputTooShort
          else scan_sizes (substr (cview s) (header_size_bytes h) (payload_size_bytes h)) 0 0) of
        Inl err \<Rightarrow> (Inl err, s)
      | Inr (tot, chunks) \<Rightarrow> (Inr tot, s\<lparr>total_size := tot, total_chunks := chunks\<rparr>))"

definition peekChunkCount :: "chunked_decoder \<Rightarrow> (decoding_error + nat) \<times> chunked_decoder" where
  "peekChunkCount s =
     (if cinitialized s \<and> 0 < total_chunks s then (Inr (total_chunks s), s)
      else case peekTotalSize s of
        (Inl err, s') \<Rightarrow> (Inl err, s')
      | (Inr _, s') \<Rightarrow> (Inr (total_chunks s'), s'))"

function count_chunks :: "bytes \<Rightarrow> nat \<Rightarrow> decoding_error + nat" where
  "count_chunks temp_view chunks =
     (if temp_view = [] then Inr chunks
      else outcome_try (PeekHeader \<lparr>view = temp_view\<rparr>) (\<lambda>h2.
        if list_h h2 then Inl kUnexpectedList
        else if length temp_view < header_size_bytes h2 + payload_size_bytes h2 then Inl kInputTooShort
        else count_chunks (drop (header_size_bytes h2 + payload_size_bytes h2) temp_view) (chunks + 1)))"
  by pat_completeness auto
termination
  by (relation "measure (\<lambda>(v, _). length v)") (auto dest: PeekHeader_consumes)

declare scan_sizes.simps [simp del] count_chunks.simps [simp del]

text \<open>
  The initialisation on the first read. An error found while the chunks are counted is returned after
  the list header has been removed from the view.
\<close>

definition chunked_init :: "chunked_decoder \<Rightarrow> (decoding_error + unit) \<times> chunked_decoder" where
  "chunked_init s =
     (if cinitialized s then (Inr (), s)
      else case PeekHeader \<lparr>view = cview s\<rparr> of
        Inl err \<Rightarrow> (Inl err, s)
      | Inr h \<Rightarrow>
          if \<not> list_h h then (Inl kUnexpectedString, s)
          else if length (cview s) < header_size_bytes h + payload_size_bytes h then (Inl kInputTooShort, s)
          else let v = drop (header_size_bytes h) (cview s);
                   s1 = s\<lparr>cview := v, list_payload := take (payload_size_bytes h) v\<rparr>
               in if total_chunks s1 = 0
                  then (case count_chunks (list_payload s1) 0 of
                          Inl err \<Rightarrow> (Inl err, s1)
                        | Inr chunks \<Rightarrow> (Inr (), s1\<lparr>total_chunks := chunks, cinitialized := True\<rparr>))
                  else (Inr (), s1\<lparr>cinitialized := True\<rparr>))"

definition chunked_readChunk :: "chunked_decoder \<Rightarrow> (decoding_error + bytes) \<times> chunked_decoder" where
  "chunked_readChunk s0 =
     (case chunked_init s0 of
        (Inl err, s) \<Rightarrow> (Inl err, s)
      | (Inr _, s) \<Rightarrow>
          if total_chunks s \<le> chunk_index s \<or> list_payload s = [] then
            (Inr [], if list_payload s \<noteq> []
                     then s\<lparr>cview := drop (length (list_payload s)) (cview s), list_payload := []\<rparr> else s)
          else (case PeekHeader \<lparr>view = list_payload s\<rparr> of
            Inl err \<Rightarrow> (Inl err, s)
          | Inr h \<Rightarrow>
              if list_h h then (Inl kUnexpectedList, s)
              else if length (list_payload s) < header_size_bytes h + payload_size_bytes h
              then (Inl kInputTooShort, s)
              else (Inr (substr (list_payload s) (header_size_bytes h) (payload_size_bytes h)),
                    s\<lparr>list_payload := drop (header_size_bytes h + payload_size_bytes h) (list_payload s),
                      chunk_index := chunk_index s + 1\<rparr>)))"

definition chunked_measure :: "chunked_decoder \<Rightarrow> nat" where
  "chunked_measure s = (if cinitialized s then length (list_payload s) else length (cview s))"

lemma chunked_init_measure:
  "chunked_init s = (Inr (), s') \<Longrightarrow> chunked_measure s' \<le> chunked_measure s \<and> cinitialized s'"
  by (auto simp: chunked_init_def chunked_measure_def Let_def split: if_splits sum.splits)

lemma chunked_readChunk_measure:
  assumes "chunked_readChunk s = (Inr c, s')" "c \<noteq> []"
  shows "chunked_measure s' < chunked_measure s"
proof -
  from assms obtain t h where t: "chunked_init s = (Inr (), t)" and h: "PeekHeader \<lparr>view = list_payload t\<rparr> = Inr h"
    and s': "s' = t\<lparr>list_payload := drop (header_size_bytes h + payload_size_bytes h) (list_payload t),
                    chunk_index := chunk_index t + 1\<rparr>"
    by (cases "chunked_init s") (auto simp: chunked_readChunk_def split: sum.splits if_splits)
  from chunked_init_measure [OF t] PeekHeader_consumes [OF h] show ?thesis
    by (auto simp: s' chunked_measure_def split: if_splits)
qed

function decodeChunkedList_loop :: "chunked_decoder \<Rightarrow> bytes list \<Rightarrow> decoding_error + bytes list" where
  "decodeChunkedList_loop s calls =
     (case chunked_readChunk s of
        (Inl err, _) \<Rightarrow> Inl err
      | (Inr chunk, s') \<Rightarrow> if chunk = [] then Inr calls else decodeChunkedList_loop s' (calls @ [chunk]))"
  by pat_completeness auto
termination
  by (relation "measure (\<lambda>(s, _). chunked_measure s)") (auto dest: chunked_readChunk_measure [OF sym])

declare decodeChunkedList_loop.simps [simp del]

definition decodeChunkedList :: "rlp_decoder \<Rightarrow> decoding_error + bytes list" where
  "decodeChunkedList d = decodeChunkedList_loop (new_chunked_decoder (Remaining d)) []"

definition decodeChunkedListFull :: "rlp_decoder \<Rightarrow> decoding_error + bytes" where
  "decodeChunkedListFull d = outcome_try (decodeChunkedList d) (\<lambda>chunks. Inr (concat chunks))"

lemma count_chunks_RStrs:
  "\<forall>c \<in> set cs. length c < 2 ^ 64 \<Longrightarrow> count_chunks (rlp_encodes (map RStr cs)) k = Inr (k + length cs)"
  by (induction cs arbitrary: k; subst count_chunks.simps) (simp_all add: rlp_encode_item_bytes item_bytes_len)

lemma scan_sizes_RStrs:
  "\<forall>c \<in> set cs. length c < 2 ^ 64 \<Longrightarrow>
     scan_sizes (rlp_encodes (map RStr cs)) t k = Inr (t + length (concat cs), k + length cs)"
  by (induction cs arbitrary: t k; subst scan_sizes.simps) (simp_all add: rlp_encode_item_bytes item_bytes_len)

text \<open>The decoder after its first read, with \<open>i\<close> chunks delivered and \<open>cs\<close> still to come.\<close>

definition chunked_at :: "bytes \<Rightarrow> nat \<Rightarrow> bytes list \<Rightarrow> chunked_decoder" where
  "chunked_at v i cs = \<lparr>cview = v, list_payload = rlp_encodes (map RStr cs), total_size = 0,
     total_chunks = i + length cs, chunk_index = i, cinitialized = True\<rparr>"

lemma chunked_readChunk_at:
  assumes "length c < 2 ^ 64"
  shows "chunked_readChunk (chunked_at v i (c # cs)) = (Inr c, chunked_at v (i + 1) cs)"
  using assms
  by (simp add: chunked_readChunk_def chunked_init_def chunked_at_def rlp_encode_item_bytes item_bytes_len substr_item)

lemma chunked_readChunk_end: "chunked_readChunk (chunked_at v i []) = (Inr [], chunked_at v i [])"
  by (simp add: chunked_readChunk_def chunked_init_def chunked_at_def)

lemma decodeChunkedList_loop_at:
  "\<forall>c \<in> set cs. length c < 2 ^ 64 \<Longrightarrow>
     decodeChunkedList_loop (chunked_at v i cs) calls = Inr (calls @ takeWhile (\<lambda>c. c \<noteq> []) cs)"
proof (induction cs arbitrary: i calls)
  case Nil
  show ?case by (subst decodeChunkedList_loop.simps) (simp add: chunked_readChunk_end)
next
  case (Cons c cs)
  then show ?case
    by (subst decodeChunkedList_loop.simps) (simp add: chunked_readChunk_at)
qed

lemma chunk_lengths: "fits (RList (map RStr cs)) \<Longrightarrow> \<forall>c \<in> set cs. length c < 2 ^ 64"
  by (intro ballI fits_RStrD) (erule fits_RList_elem, simp)

lemma chunked_init_RList:
  assumes "fits (RList (map RStr cs))"
  shows "chunked_init (new_chunked_decoder (rlp_encode (RList (map RStr cs)) @ rest)) =
    (Inr (), chunked_at (rlp_encodes (map RStr cs) @ rest) 0 cs)"
proof -
  note all = chunk_lengths [OF assms]
  from fits_RListD [OF assms] count_chunks_RStrs [OF all, of 0] show ?thesis
    by (simp add: chunked_init_def new_chunked_decoder_def chunked_at_def rlp_encode_item_bytes item_bytes_len)
qed

lemma chunked_start:
  "chunked_init s = (Inr (), t) \<Longrightarrow> cinitialized t \<Longrightarrow> decodeChunkedList_loop s cs = decodeChunkedList_loop t cs"
  by (subst decodeChunkedList_loop.simps, subst (2) decodeChunkedList_loop.simps)
     (simp add: chunked_readChunk_def chunked_init_def [of t])

lemma decodeChunkedList_RList:
  assumes "fits (RList (map RStr cs))"
  shows "decodeChunkedList \<lparr>view = rlp_encode (RList (map RStr cs)) @ rest\<rparr> =
    Inr (takeWhile (\<lambda>c. c \<noteq> []) cs)"
proof -
  have i: "cinitialized (chunked_at v i xs)" for v i xs by (simp add: chunked_at_def)
  show ?thesis
    using chunked_start [OF chunked_init_RList [OF assms, of rest] i, of "[]"]
      decodeChunkedList_loop_at [OF chunk_lengths [OF assms]]
    by (simp add: decodeChunkedList_def Remaining_def)
qed

text \<open>
  On a well-formed chunked list the callback receives the chunks up to the first empty one: an
  empty chunk is taken for the end of the stream, and the chunks after it are dropped without an error.
\<close>

theorem decodeChunkedList_exact:
  assumes "fits (RList (map RStr cs))"
  shows "decodeChunkedList \<lparr>view = rlp_encode (RList (map RStr cs)) @ rest\<rparr> =
    Inr (takeWhile (\<lambda>c. c \<noteq> []) cs)"
  using assms by (rule decodeChunkedList_RList)

theorem decodeChunkedList_exact_witness:
  "decodeChunkedList \<lparr>view = rlp_encode (RList (map RStr [[1], [], [2]])) @ []\<rparr> = Inr [[1]] \<and>
   rlp_encode (RList (map RStr [[1], [], [2]])) = [0xC3, 1, 0x80, 2]"
proof
  have e: "rlp_encode (RList (map RStr [[1], [], [2]])) = [0xC3, 1, 0x80, 2]"
    by (simp add: rlp_encode_simps rlp_list_def rlp_str_def rlp_prefix_def)
  then have "fits (RList (map RStr [[1], [], [2]]))" by (simp add: fits_def)
  from decodeChunkedList_exact [OF this, of "[]"]
  show "decodeChunkedList \<lparr>view = rlp_encode (RList (map RStr [[1], [], [2]])) @ []\<rparr> = Inr [[1]]" by simp
  show "rlp_encode (RList (map RStr [[1], [], [2]])) = [0xC3, 1, 0x80, 2]" by (rule e)
qed

lemma chunks_of_not_Nil: "c \<in> set (chunks_of n xs) \<Longrightarrow> c \<noteq> []"
  by (induction n xs rule: chunks_of.induct) (subst (asm) (2) chunks_of.simps, auto split: if_splits)

text \<open>
  For every chunk size above zero and every way of feeding the data, the chunked encoder ends and
  writes one list whose elements are the data cut into pieces of the chunk size, and full reassembly
  returns the data.
\<close>

theorem chunked_list_round_trip:
  assumes "0 < n" "n < 2 ^ 64" "fits (RList (map RStr (chunks_of n (concat chunks))))"
  shows "\<exists>e'. encodeChunkedList n chunks new_encoder = Some (Inr (), e') \<and>
     buffer e' = rlp_encode (RList (map RStr (chunks_of n (concat chunks)))) \<and>
     decodeChunkedListFull \<lparr>view = buffer e' @ rest\<rparr> = Inr (concat chunks)"
proof -
  have "concat (takeWhile (\<lambda>c. c \<noteq> []) (chunks_of n (concat chunks))) = concat chunks"
    using concat_chunks_of [OF assms(1), of "concat chunks"]
    by (subst takeWhile_eq_all_conv [THEN iffD2]) (auto dest: chunks_of_not_Nil)
  then show ?thesis
    using encodeChunkedList_eq [OF assms, of new_encoder] decodeChunkedList_RList [OF assms(3), of rest]
    by (simp add: decodeChunkedListFull_def push_bytes_def new_encoder_def)
qed

theorem chunked_list_round_trip_witness:
  "\<exists>e'. encodeChunkedList 2 [[1], [2, 3]] new_encoder = Some (Inr (), e') \<and>
     buffer e' = rlp_encode (RList (map RStr (chunks_of 2 (concat [[1], [2, 3]])))) \<and>
     decodeChunkedListFull \<lparr>view = buffer e' @ [9]\<rparr> = Inr (concat [[1], [2, 3]])"
  by (rule chunked_list_round_trip)
     (simp_all add: chunks_of.simps fits_def rlp_encode_simps rlp_list_def rlp_str_def rlp_prefix_def)

end
