(* ===== verification/Eth_Objects.thy ===== *)
theory Eth_Objects
  imports Rlp_Streaming
begin

text \<open>
  The Ethereum object codecs of include/eth/objects.hpp and src/eth/objects.cpp: log entries, access
  lists, transactions, receipts and block headers. Each encoder is the sequence of encoder calls of
  the source; each decoder is the sequence of reads with the error the source returns for each. The
  theory proves that the encoders write the RLP tree the protocol prescribes and that decoding gives
  the object back, up to the normalisation of optional fields the code performs.
\<close>

section \<open>Shared steps\<close>

type_synonym hash256 = bytes
type_synonym address = bytes
type_synonym bloom = bytes

definition finalize_encoding :: "rlp_encoder \<Rightarrow> encoding_error + bytes" where
  "finalize_encoding e = (case GetBytes e of Inl err \<Rightarrow> Inl err | Inr bs \<Rightarrow> Inr bs)"

text \<open>
  \<open>list_target\<close>: the list header is read and the size the view has at the end of the list is computed
  (\<open>start_remaining - payload_size\<close>). \<open>at_target\<close>: the check that the view has that size.
\<close>

definition list_target :: "nat decoder_op" where
  "list_target d = outcome_try (ReadListHeaderBytes d) (\<lambda>(payload, d). Inr (length (Remaining d) - payload, d))"

definition at_target :: "nat \<Rightarrow> rlp_decoder \<Rightarrow> decoding_error + 'a \<Rightarrow> decoding_error + 'a" where
  "at_target target d r = (if length (Remaining d) \<noteq> target then Inl kListLengthMismatch else r)"

lemma list_target_consumes: "list_target d = Inr (n, d') \<Longrightarrow> length (view d') < length (view d)"
  by (auto simp: list_target_def outcome_iffs dest: read_consumes)

lemma list_target_RList [simp]:
  "fits (RList ts) \<Longrightarrow>
     list_target \<lparr>view = rlp_encode (RList ts) @ rest\<rparr> = Inr (length rest, \<lparr>view = rlp_encodes ts @ rest\<rparr>)"
  by (simp add: list_target_def Remaining_def)

lemma list_target_RList_end [simp]:
  "fits (RList ts) \<Longrightarrow> list_target \<lparr>view = rlp_encode (RList ts)\<rparr> = Inr (0, \<lparr>view = rlp_encodes ts\<rparr>)"
  using list_target_RList [of ts "[]"] by simp

lemma at_target_simps [simp]: "n = length v \<Longrightarrow> at_target n \<lparr>view = v\<rparr> r = r"
  by (simp add: at_target_def Remaining_def)

lemma at_target_Inr: "at_target t d r = Inr y \<longleftrightarrow> length (view d) = t \<and> r = Inr y"
  by (auto simp: at_target_def Remaining_def)

lemma emits_item_finalize:
  "emits_item f t \<Longrightarrow> outcome_try (f new_encoder) finalize_encoding = Inr (rlp_encode t)"
  by (simp add: emits_item_def emits_def finalize_encoding_def GetBytes_def push_bytes_def new_encoder_def)

text \<open>\<open>if (!decoder.read(x)) return kUnexpectedString;\<close> and the same with \<open>kUnexpectedLength\<close>.\<close>

definition need :: "'a decoder_op \<Rightarrow> 'a decoder_op" where
  "need f d = fail_as kUnexpectedString (f d)"

definition need_len :: "'a decoder_op \<Rightarrow> 'a decoder_op" where
  "need_len f d = fail_as kUnexpectedLength (f d)"

lemma need_Inr [simp]: "f d = Inr y \<Longrightarrow> need f d = Inr y" "f d = Inr y \<Longrightarrow> need_len f d = Inr y"
  by (simp_all add: need_def need_len_def)

lemma need_iff: "need f d = Inr y \<longleftrightarrow> f d = Inr y" "need_len f d = Inr y \<longleftrightarrow> f d = Inr y"
  by (simp_all add: need_def need_len_def fail_as_eq_Inr)

text \<open>The loop that reads 32-byte values up to the end of a list.\<close>

definition read_hash :: "hash256 decoder_op" where
  "read_hash d = need_len (read_array 32) d"

function hash_loop :: "nat \<Rightarrow> rlp_decoder \<Rightarrow> hash256 list \<Rightarrow> decoding_error + (hash256 list \<times> rlp_decoder)" where
  "hash_loop target d acc =
     (if target < length (view d)
      then outcome_try (read_hash d) (\<lambda>(x, d'). hash_loop target d' (acc @ [x]))
      else Inr (acc, d))"
  by pat_completeness auto
termination
  by (relation "measure (\<lambda>(_, d, _). length (view d))")
     (auto simp: read_hash_def need_iff dest: read_consumes)

declare hash_loop.simps [simp del]

interpretation hashes: item_loop RStr "\<lambda>h. length h = 32" "\<lambda>h. h" read_hash hash_loop
  by unfold_locales (subst hash_loop.simps, auto simp: read_hash_def)

lemma hash_loop_shrinks: "hash_loop t d acc = Inr (xs, d') \<Longrightarrow> length (view d') \<le> length (view d)"
  by (erule hashes.loop_shrinks [rotated]) (auto simp: read_hash_def need_iff dest: read_consumes)

section \<open>Log entries\<close>

record log_entry =
  log_address :: address
  log_topics :: "hash256 list"
  log_data :: bytes

definition log_ops :: "log_entry \<Rightarrow> encoder_op" where
  "log_ops l = list_of
     [put (add_bytes (log_address l)),
      list_of (map (\<lambda>t. put (add_bytes t)) (log_topics l)),
      put (add_bytes (log_data l))]"

definition encode_log_entry :: "log_entry \<Rightarrow> encoding_error + bytes" where
  "encode_log_entry l = outcome_try (log_ops l new_encoder) finalize_encoding"

definition decode_log_entry_from_decoder :: "log_entry decoder_op" where
  "decode_log_entry_from_decoder d =
     outcome_try (list_target d) (\<lambda>(target, d).
     outcome_try (need_len (read_array 20) d) (\<lambda>(addr, d).
     outcome_try (list_target d) (\<lambda>(topics_target, d).
     outcome_try (hash_loop topics_target d []) (\<lambda>(ts, d).
     at_target topics_target d (
     outcome_try (need read_bytes d) (\<lambda>(dat, d).
     at_target target d (
     Inr (\<lparr>log_address = addr, log_topics = ts, log_data = dat\<rparr>, d))))))))"

definition decode_log_entry :: "bytes \<Rightarrow> decoding_error + log_entry" where
  "decode_log_entry rlp_data =
     outcome_try (decode_log_entry_from_decoder \<lparr>view = rlp_data\<rparr>) (\<lambda>(l, _). Inr l)"

text \<open>The wire form and the well-formedness of the fixed-size fields.\<close>

definition log_item :: "log_entry \<Rightarrow> rlp_item" where
  "log_item l = RList [RStr (log_address l), RList (map RStr (log_topics l)), RStr (log_data l)]"

definition wf_log :: "log_entry \<Rightarrow> bool" where
  "wf_log l \<longleftrightarrow> length (log_address l) = 20 \<and> (\<forall>t \<in> set (log_topics l). length t = 32)"

lemma emits_item_bytes_list:
  "fits (RList (map RStr xs)) \<Longrightarrow> emits_item (list_of (map (\<lambda>x. put (add_bytes x)) xs)) (RList (map RStr xs))"
  using fits_RList_elem [of "map RStr xs"]
  by (intro emits_item_list_of) (simp_all add: list_all2_map1 list_all2_map2 list_all2_same)

lemma emits_item_log_ops [simp]: "fits (log_item l) \<Longrightarrow> emits_item (log_ops l) (log_item l)"
  unfolding log_ops_def log_item_def
  by (frule fits_RList_all, rule emits_item_list_of) (simp_all add: emits_item_bytes_list)

lemma decode_log_reads:
  "wf_log l \<Longrightarrow> fits (log_item l) \<Longrightarrow>
     decode_log_entry_from_decoder \<lparr>view = rlp_encode (log_item l) @ rest\<rparr> = Inr (l, \<lparr>view = rest\<rparr>)"
  unfolding log_item_def
  by (frule fits_RList_all)
     (simp add: decode_log_entry_from_decoder_def wf_log_def hashes.loop_reads_list)

lemma decode_log_consumes:
  "decode_log_entry_from_decoder d = Inr (l, d') \<Longrightarrow> length (view d') < length (view d)"
  by (auto simp: decode_log_entry_from_decoder_def outcome_iffs need_iff at_target_Inr
      dest!: list_target_consumes hash_loop_shrinks read_consumes split: prod.splits)

section \<open>Access lists\<close>

record access_list_entry =
  al_address :: address
  storage_keys :: "hash256 list"

definition encode_access_list_entry_to_encoder :: "access_list_entry \<Rightarrow> encoder_op" where
  "encode_access_list_entry_to_encoder a = list_of
     [put (add_bytes (al_address a)),
      list_of (map (\<lambda>k. put (add_bytes k)) (storage_keys a))]"

definition decode_access_list_entry_from_decoder :: "access_list_entry decoder_op" where
  "decode_access_list_entry_from_decoder d =
     outcome_try (list_target d) (\<lambda>(target, d).
     outcome_try (need_len (read_array 20) d) (\<lambda>(addr, d).
     outcome_try (list_target d) (\<lambda>(kt, d).
     outcome_try (hash_loop kt d []) (\<lambda>(ks, d).
     at_target kt d (
     at_target target d (
     Inr (\<lparr>al_address = addr, storage_keys = ks\<rparr>, d)))))))"

definition encode_access_list :: "access_list_entry list \<Rightarrow> encoder_op" where
  "encode_access_list al = list_of (map encode_access_list_entry_to_encoder al)"

definition encode_access_list_entry :: "access_list_entry \<Rightarrow> encoding_error + bytes" where
  "encode_access_list_entry a = outcome_try (encode_access_list_entry_to_encoder a new_encoder) finalize_encoding"

definition decode_access_list_entry :: "bytes \<Rightarrow> decoding_error + access_list_entry" where
  "decode_access_list_entry rlp_data =
     outcome_try (decode_access_list_entry_from_decoder \<lparr>view = rlp_data\<rparr>) (\<lambda>(a, _). Inr a)"

definition access_item :: "access_list_entry \<Rightarrow> rlp_item" where
  "access_item a = RList [RStr (al_address a), RList (map RStr (storage_keys a))]"

definition wf_access :: "access_list_entry \<Rightarrow> bool" where
  "wf_access a \<longleftrightarrow> length (al_address a) = 20 \<and> (\<forall>k \<in> set (storage_keys a). length k = 32)"

lemma emits_item_access_ops [simp]:
  "fits (access_item a) \<Longrightarrow> emits_item (encode_access_list_entry_to_encoder a) (access_item a)"
  unfolding encode_access_list_entry_to_encoder_def access_item_def
  by (frule fits_RList_all, rule emits_item_list_of) (simp_all add: emits_item_bytes_list)

lemma decode_access_reads:
  "wf_access a \<Longrightarrow> fits (access_item a) \<Longrightarrow>
     decode_access_list_entry_from_decoder \<lparr>view = rlp_encode (access_item a) @ rest\<rparr> = Inr (a, \<lparr>view = rest\<rparr>)"
  unfolding access_item_def
  by (frule fits_RList_all)
     (simp add: decode_access_list_entry_from_decoder_def wf_access_def hashes.loop_reads_list)

lemma decode_access_consumes:
  "decode_access_list_entry_from_decoder d = Inr (a, d') \<Longrightarrow> length (view d') < length (view d)"
  by (auto simp: decode_access_list_entry_from_decoder_def outcome_iffs need_iff at_target_Inr
      dest!: list_target_consumes hash_loop_shrinks read_consumes split: prod.splits)

function access_loop :: "nat \<Rightarrow> rlp_decoder \<Rightarrow> access_list_entry list
    \<Rightarrow> decoding_error + (access_list_entry list \<times> rlp_decoder)" where
  "access_loop target d acc =
     (if target < length (view d)
      then outcome_try (decode_access_list_entry_from_decoder d) (\<lambda>(x, d'). access_loop target d' (acc @ [x]))
      else Inr (acc, d))"
  by pat_completeness auto
termination
  by (relation "measure (\<lambda>(_, d, _). length (view d))") (auto dest: decode_access_consumes)

declare access_loop.simps [simp del]

interpretation accesses: item_loop access_item wf_access "\<lambda>a. a" decode_access_list_entry_from_decoder access_loop
  by unfold_locales (subst access_loop.simps, auto simp: decode_access_reads)

definition decode_access_list :: "(access_list_entry list) decoder_op" where
  "decode_access_list d =
     outcome_try (list_target d) (\<lambda>(target, d).
     outcome_try (access_loop target d []) (\<lambda>(entries, d).
     at_target target d (Inr (entries, d))))"

lemma emits_item_access_list [simp]:
  "fits (RList (map access_item al)) \<Longrightarrow> emits_item (encode_access_list al) (RList (map access_item al))"
  unfolding encode_access_list_def using fits_RList_elem [of "map access_item al"]
  by (intro emits_item_list_of) (simp_all add: list_all2_map1 list_all2_map2 list_all2_same)

lemma decode_access_list_reads [simp]:
  "\<forall>a \<in> set al. wf_access a \<Longrightarrow> fits (RList (map access_item al)) \<Longrightarrow>
     decode_access_list \<lparr>view = rlp_encode (RList (map access_item al)) @ rest\<rparr> = Inr (al, \<lparr>view = rest\<rparr>)"
  by (simp add: decode_access_list_def accesses.loop_reads_list)

section \<open>Transactions\<close>

datatype transaction_type = kLegacy | kAccessList | kDynamicFee | kOpDeposit

definition tx_type_byte :: "transaction_type \<Rightarrow> byte" where
  "tx_type_byte t = (case t of kLegacy \<Rightarrow> 0x00 | kAccessList \<Rightarrow> 0x01 | kDynamicFee \<Rightarrow> 0x02 | kOpDeposit \<Rightarrow> 0x7e)"

record transaction =
  tx_type :: transaction_type
  tx_nonce :: u64
  tx_gas_limit :: u64
  tx_to :: "address option"
  tx_value :: u256
  tx_data :: bytes
  gas_price :: "u256 option"
  max_priority_fee_per_gas :: "u256 option"
  max_fee_per_gas :: "u256 option"
  access_list :: "access_list_entry list"
  chain_id :: "u64 option"
  tx_v :: u256
  tx_r :: u256
  tx_s :: u256

definition empty_transaction :: transaction where
  "empty_transaction = \<lparr>tx_type = kLegacy, tx_nonce = 0, tx_gas_limit = 0, tx_to = None, tx_value = 0,
     tx_data = [], gas_price = None, max_priority_fee_per_gas = None, max_fee_per_gas = None,
     access_list = [], chain_id = None, tx_v = 0, tx_r = 0, tx_s = 0\<rparr>"

definition value_or :: "'a option \<Rightarrow> 'a \<Rightarrow> 'a" where
  "value_or v d = (case v of None \<Rightarrow> d | Some x \<Rightarrow> x)"

abbreviation (input) kDefaultChainId :: u64 where "kDefaultChainId \<equiv> 1"
abbreviation (input) kRlpListPrefixMin :: nat where "kRlpListPrefixMin \<equiv> 0xC0"
abbreviation (input) kTypedTxPrefixSize :: nat where "kTypedTxPrefixSize \<equiv> 1"

definition put_to :: "address option \<Rightarrow> encoder_op" where
  "put_to a = (case a of Some addr \<Rightarrow> put (add_bytes addr) | None \<Rightarrow> put (add_bytes []))"

definition legacy_ops :: "transaction \<Rightarrow> encoder_op" where
  "legacy_ops tx = list_of
     [put (add_u64 (tx_nonce tx)),
      put (add_uint256 (value_or (gas_price tx) 0)),
      put (add_u64 (tx_gas_limit tx)),
      put_to (tx_to tx),
      put (add_uint256 (tx_value tx)),
      put (add_bytes (tx_data tx)),
      put (add_uint256 (tx_v tx)), put (add_uint256 (tx_r tx)), put (add_uint256 (tx_s tx))]"

definition eip2930_ops :: "transaction \<Rightarrow> encoder_op" where
  "eip2930_ops tx = list_of
     [put (add_u64 (value_or (chain_id tx) kDefaultChainId)),
      put (add_u64 (tx_nonce tx)),
      put (add_uint256 (value_or (gas_price tx) 0)),
      put (add_u64 (tx_gas_limit tx)),
      put_to (tx_to tx),
      put (add_uint256 (tx_value tx)),
      put (add_bytes (tx_data tx)),
      encode_access_list (access_list tx),
      put (add_uint256 (tx_v tx)), put (add_uint256 (tx_r tx)), put (add_uint256 (tx_s tx))]"

definition eip1559_ops :: "transaction \<Rightarrow> encoder_op" where
  "eip1559_ops tx = list_of
     [put (add_u64 (value_or (chain_id tx) kDefaultChainId)),
      put (add_u64 (tx_nonce tx)),
      put (add_uint256 (value_or (max_priority_fee_per_gas tx) 0)),
      put (add_uint256 (value_or (max_fee_per_gas tx) 0)),
      put (add_u64 (tx_gas_limit tx)),
      put_to (tx_to tx),
      put (add_uint256 (tx_value tx)),
      put (add_bytes (tx_data tx)),
      encode_access_list (access_list tx),
      put (add_uint256 (tx_v tx)), put (add_uint256 (tx_r tx)), put (add_uint256 (tx_s tx))]"

definition encode_transaction :: "transaction \<Rightarrow> encoding_error + bytes" where
  "encode_transaction tx =
     (case tx_type tx of
        kLegacy \<Rightarrow> outcome_try (legacy_ops tx new_encoder) finalize_encoding
      | kAccessList \<Rightarrow>
          outcome_try (outcome_try (eip2930_ops tx new_encoder) finalize_encoding)
            (\<lambda>rlp_bytes. Inr (tx_type_byte kAccessList # rlp_bytes))
      | kDynamicFee \<Rightarrow>
          outcome_try (outcome_try (eip1559_ops tx new_encoder) finalize_encoding)
            (\<lambda>rlp_bytes. Inr (tx_type_byte kDynamicFee # rlp_bytes))
      | kOpDeposit \<Rightarrow> Inl kEmptyInput)"

definition read_to :: "(address option) decoder_op" where
  "read_to d =
     outcome_try (PeekHeader d) (\<lambda>to_header.
     if payload_size_bytes to_header = 0
     then outcome_try (need read_bytes d) (\<lambda>(_, d). Inr (None, d))
     else outcome_try (need_len (read_array 20) d) (\<lambda>(addr, d). Inr (Some addr, d)))"

definition decode_typed_transaction :: "transaction_type \<Rightarrow> bytes \<Rightarrow> decoding_error + transaction" where
  "decode_typed_transaction ty rlp_payload =
     outcome_try (ReadListHeaderBytes \<lparr>view = rlp_payload\<rparr>) (\<lambda>(_, d).
     outcome_try (need read_integral d) (\<lambda>(cid, d).
     outcome_try (need read_integral d) (\<lambda>(nonce, d).
     outcome_try
       (if ty = kAccessList
        then outcome_try (need read_uint256 d) (\<lambda>(gp, d). Inr ((Some gp, None, None), d))
        else outcome_try (need read_uint256 d) (\<lambda>(mpf, d).
             outcome_try (need read_uint256 d) (\<lambda>(mf, d). Inr ((None, Some mpf, Some mf), d))))
       (\<lambda>((gp, mpf, mf), d).
     outcome_try (need read_integral d) (\<lambda>(gas, d).
     outcome_try (read_to d) (\<lambda>(to, d).
     outcome_try (need read_uint256 d) (\<lambda>(val, d).
     outcome_try (need read_bytes d) (\<lambda>(dat, d).
     outcome_try (decode_access_list d) (\<lambda>(al, d).
     outcome_try (need read_uint256 d) (\<lambda>(v, d).
     outcome_try (need read_uint256 d) (\<lambda>(r, d).
     outcome_try (need read_uint256 d) (\<lambda>(s, d).
     Inr \<lparr>tx_type = ty, tx_nonce = nonce, tx_gas_limit = gas, tx_to = to, tx_value = val, tx_data = dat,
          gas_price = gp, max_priority_fee_per_gas = mpf, max_fee_per_gas = mf, access_list = al,
          chain_id = Some cid, tx_v = v, tx_r = r, tx_s = s\<rparr>))))))))))))"

definition decode_legacy_transaction :: "bytes \<Rightarrow> decoding_error + transaction" where
  "decode_legacy_transaction raw_data =
     outcome_try (ReadListHeaderBytes \<lparr>view = raw_data\<rparr>) (\<lambda>(_, d).
     outcome_try (need read_integral d) (\<lambda>(nonce, d).
     outcome_try (need read_uint256 d) (\<lambda>(gp, d).
     outcome_try (need read_integral d) (\<lambda>(gas, d).
     outcome_try (read_to d) (\<lambda>(to, d).
     outcome_try (need read_uint256 d) (\<lambda>(val, d).
     outcome_try (need read_bytes d) (\<lambda>(dat, d).
     outcome_try (need read_uint256 d) (\<lambda>(v, d).
     outcome_try (need read_uint256 d) (\<lambda>(r, d).
     outcome_try (need read_uint256 d) (\<lambda>(s, d).
     Inr \<lparr>tx_type = kLegacy, tx_nonce = nonce, tx_gas_limit = gas, tx_to = to, tx_value = val, tx_data = dat,
          gas_price = Some gp, max_priority_fee_per_gas = None, max_fee_per_gas = None, access_list = [],
          chain_id = None, tx_v = v, tx_r = r, tx_s = s\<rparr>))))))))))"

definition decode_transaction :: "bytes \<Rightarrow> decoding_error + transaction" where
  "decode_transaction raw_data =
     (if raw_data = [] then Inl kInputTooShort
      else if unat (raw_data ! 0) < kRlpListPrefixMin then
        (let type_byte = raw_data ! 0 in
         if type_byte = tx_type_byte kAccessList
         then decode_typed_transaction kAccessList (drop kTypedTxPrefixSize raw_data)
         else if type_byte = tx_type_byte kDynamicFee
         then decode_typed_transaction kDynamicFee (drop kTypedTxPrefixSize raw_data)
         else if type_byte = tx_type_byte kOpDeposit
         then Inr (empty_transaction\<lparr>tx_type := kOpDeposit\<rparr>)
         else Inl kUnexpectedString)
      else decode_legacy_transaction raw_data)"

text \<open>The wire forms of the three transaction formats.\<close>

definition to_item :: "address option \<Rightarrow> rlp_item" where
  "to_item a = RStr (value_or a [])"

definition sig_items :: "transaction \<Rightarrow> rlp_item list" where
  "sig_items tx = [RUint (unat (tx_v tx)), RUint (unat (tx_r tx)), RUint (unat (tx_s tx))]"

definition call_items :: "transaction \<Rightarrow> rlp_item list" where
  "call_items tx = [RUint (unat (tx_gas_limit tx)), to_item (tx_to tx), RUint (unat (tx_value tx)), RStr (tx_data tx)]"

definition transaction_item :: "transaction \<Rightarrow> rlp_item" where
  "transaction_item tx = RList
     (case tx_type tx of
        kLegacy \<Rightarrow> [RUint (unat (tx_nonce tx)), RUint (unat (value_or (gas_price tx) 0))]
          @ call_items tx @ sig_items tx
      | kAccessList \<Rightarrow> [RUint (unat (value_or (chain_id tx) 1)), RUint (unat (tx_nonce tx)),
            RUint (unat (value_or (gas_price tx) 0))]
          @ call_items tx @ [RList (map access_item (access_list tx))] @ sig_items tx
      | _ \<Rightarrow> [RUint (unat (value_or (chain_id tx) 1)), RUint (unat (tx_nonce tx)),
            RUint (unat (value_or (max_priority_fee_per_gas tx) 0)), RUint (unat (value_or (max_fee_per_gas tx) 0))]
          @ call_items tx @ [RList (map access_item (access_list tx))] @ sig_items tx)"

definition transaction_bytes :: "transaction \<Rightarrow> bytes" where
  "transaction_bytes tx =
     (if tx_type tx = kLegacy then [] else [tx_type_byte (tx_type tx)]) @ rlp_encode (transaction_item tx)"

definition wf_transaction :: "transaction \<Rightarrow> bool" where
  "wf_transaction tx \<longleftrightarrow> tx_type tx \<noteq> kOpDeposit \<and>
     (\<forall>a. tx_to tx = Some a \<longrightarrow> length a = 20) \<and> (\<forall>e \<in> set (access_list tx). wf_access e) \<and>
     fits (transaction_item tx)"

text \<open>What the wire keeps of a transaction: fields the format does not carry are dropped, absent fees and
  chain ids become the defaults the encoder writes.\<close>

definition canonical_transaction :: "transaction \<Rightarrow> transaction" where
  "canonical_transaction tx =
     (case tx_type tx of
        kLegacy \<Rightarrow> tx\<lparr>gas_price := Some (value_or (gas_price tx) 0), max_priority_fee_per_gas := None,
            max_fee_per_gas := None, access_list := [], chain_id := None\<rparr>
      | kAccessList \<Rightarrow> tx\<lparr>gas_price := Some (value_or (gas_price tx) 0), max_priority_fee_per_gas := None,
            max_fee_per_gas := None, chain_id := Some (value_or (chain_id tx) 1)\<rparr>
      | _ \<Rightarrow> tx\<lparr>gas_price := None, max_priority_fee_per_gas := Some (value_or (max_priority_fee_per_gas tx) 0),
            max_fee_per_gas := Some (value_or (max_fee_per_gas tx) 0), chain_id := Some (value_or (chain_id tx) 1)\<rparr>)"

lemma emits_item_put_to [simp]: "fits (to_item a) \<Longrightarrow> emits_item (put_to a) (to_item a)"
  by (cases a) (auto simp: put_to_def to_item_def value_or_def)

lemma PeekHeader_RStr [simp]:
  "fits (RStr p) \<Longrightarrow> PeekHeader \<lparr>view = rlp_encode (RStr p) @ rest\<rparr> = Inr (item_header False p)"
  by (drule fits_RStrD) (simp add: rlp_encode_item_bytes)

lemma read_to_reads [simp]:
  "fits (to_item a) \<Longrightarrow> (\<forall>x. a = Some x \<longrightarrow> length x = 20) \<Longrightarrow>
     read_to \<lparr>view = rlp_encode (to_item a) @ rest\<rparr> = Inr (a, \<lparr>view = rest\<rparr>)"
  by (cases a) (auto simp: read_to_def to_item_def value_or_def)

lemma encode_transaction_eq:
  assumes "wf_transaction tx"
  shows "encode_transaction tx = Inr (transaction_bytes tx)"
proof -
  from assms have f: "fits (transaction_item tx)" "tx_type tx \<noteq> kOpDeposit" by (simp_all add: wf_transaction_def)
  note all = fits_RList_all [OF f(1) [unfolded transaction_item_def]]
  consider "tx_type tx = kLegacy" "emits_item (legacy_ops tx) (transaction_item tx)"
    | "tx_type tx = kAccessList" "emits_item (eip2930_ops tx) (transaction_item tx)"
    | "tx_type tx = kDynamicFee" "emits_item (eip1559_ops tx) (transaction_item tx)"
    using f all unfolding transaction_item_def legacy_ops_def eip2930_ops_def eip1559_ops_def
    by (cases "tx_type tx") (auto simp: call_items_def sig_items_def intro!: emits_item_list_of)
  then show ?thesis
    by cases (simp_all add: encode_transaction_def transaction_bytes_def emits_item_finalize)
qed

lemma decode_legacy_reads:
  assumes "wf_transaction tx" "tx_type tx = kLegacy"
  shows "decode_legacy_transaction (rlp_encode (transaction_item tx) @ rest) = Inr (canonical_transaction tx)"
proof -
  from assms have f: "fits (transaction_item tx)" "\<forall>a. tx_to tx = Some a \<longrightarrow> length a = 20"
    by (simp_all add: wf_transaction_def)
  note all = fits_RList_all [OF f(1) [unfolded transaction_item_def]]
  show ?thesis
    using assms(2) f all unfolding transaction_item_def
    by (simp add: decode_legacy_transaction_def canonical_transaction_def call_items_def sig_items_def)
qed

lemma decode_typed_reads:
  assumes "wf_transaction tx" "tx_type tx = kAccessList \<or> tx_type tx = kDynamicFee"
  shows "decode_typed_transaction (tx_type tx) (rlp_encode (transaction_item tx) @ rest) = Inr (canonical_transaction tx)"
proof -
  from assms have f: "fits (transaction_item tx)" "\<forall>a. tx_to tx = Some a \<longrightarrow> length a = 20"
    "\<forall>e \<in> set (access_list tx). wf_access e"
    by (simp_all add: wf_transaction_def)
  note all = fits_RList_all [OF f(1) [unfolded transaction_item_def]]
  show ?thesis
    using assms(2)
  proof
    assume "tx_type tx = kAccessList"
    with f all show ?thesis unfolding transaction_item_def
      by (simp add: decode_typed_transaction_def canonical_transaction_def call_items_def sig_items_def)
  next
    assume "tx_type tx = kDynamicFee"
    with f all show ?thesis unfolding transaction_item_def
      by (simp add: decode_typed_transaction_def canonical_transaction_def call_items_def sig_items_def)
  qed
qed

lemma decode_transaction_reads:
  assumes "wf_transaction tx"
  shows "decode_transaction (transaction_bytes tx @ rest) = Inr (canonical_transaction tx)"
proof (cases "tx_type tx = kLegacy")
  case True
  have "fits (transaction_item tx)" using assms by (simp add: wf_transaction_def)
  then have "0xC0 \<le> unat (hd (rlp_encode (transaction_item tx)))"
    unfolding transaction_item_def rlp_encode_simps by (intro hd_rlp_list_ge fits_RListD)
  then have "\<not> unat ((rlp_encode (transaction_item tx) @ rest) ! 0) < 0xC0"
    by (simp add: nth_append hd_conv_nth)
  with True decode_legacy_reads [OF assms True, of rest] show ?thesis
    by (simp add: decode_transaction_def transaction_bytes_def)
next
  case False
  with assms have "tx_type tx = kAccessList \<or> tx_type tx = kDynamicFee"
    by (cases "tx_type tx") (simp_all add: wf_transaction_def)
  with decode_typed_reads [OF assms this, of rest] show ?thesis
    by (auto simp: decode_transaction_def transaction_bytes_def tx_type_byte_def)
qed

section \<open>Receipts\<close>

record receipt =
  rc_state_root :: "hash256 option"
  rc_status :: "bool option"
  cumulative_gas_used :: u256
  rc_bloom :: bloom
  rc_logs :: "log_entry list"

definition status_op :: "receipt \<Rightarrow> encoder_op" where
  "status_op rc =
     (case rc_state_root rc of
        Some root \<Rightarrow> put (add_bytes root)
      | None \<Rightarrow> (case rc_status rc of
          Some ok \<Rightarrow> put (add_u8 (if ok then 1 else 0))
        | None \<Rightarrow> (\<lambda>e. Inl kEmptyInput)))"

definition receipt_ops :: "receipt \<Rightarrow> encoder_op" where
  "receipt_ops rc = list_of
     [status_op rc,
      put (add_uint256 (cumulative_gas_used rc)),
      put (add_bytes (rc_bloom rc)),
      list_of (map log_ops (rc_logs rc))]"

definition encode_receipt :: "receipt \<Rightarrow> encoding_error + bytes" where
  "encode_receipt rc = outcome_try (receipt_ops rc new_encoder) finalize_encoding"

definition decode_status_or_state_root :: "(hash256 option \<times> bool option) decoder_op" where
  "decode_status_or_state_root d =
     outcome_try (PeekHeader d) (\<lambda>h.
     if list_h h then Inl kUnexpectedList
     else if payload_size_bytes h = 32
     then outcome_try (read_array 32 d) (\<lambda>(root, d). Inr ((Some root, None), d))
     else outcome_try (read_bytes d) (\<lambda>(status_bytes, d).
       if status_bytes = [] then Inr ((None, Some False), d)
       else if length status_bytes = 1 then Inr ((None, Some (status_bytes ! 0 \<noteq> 0)), d)
       else Inl kUnexpectedLength))"

function log_loop :: "nat \<Rightarrow> rlp_decoder \<Rightarrow> log_entry list \<Rightarrow> decoding_error + (log_entry list \<times> rlp_decoder)" where
  "log_loop target d acc =
     (if target < length (view d)
      then outcome_try (decode_log_entry_from_decoder d) (\<lambda>(x, d'). log_loop target d' (acc @ [x]))
      else Inr (acc, d))"
  by pat_completeness auto
termination
  by (relation "measure (\<lambda>(_, d, _). length (view d))") (auto dest: decode_log_consumes)

declare log_loop.simps [simp del]

interpretation logs: item_loop log_item wf_log "\<lambda>l. l" decode_log_entry_from_decoder log_loop
  by unfold_locales (subst log_loop.simps, auto simp: decode_log_reads)

definition decode_receipt :: "bytes \<Rightarrow> decoding_error + receipt" where
  "decode_receipt rlp_data =
     (let rlp_data = (if rlp_data \<noteq> [] \<and> unat (rlp_data ! 0) < kRlpListPrefixMin
                      then drop kTypedTxPrefixSize rlp_data else rlp_data) in
      outcome_try (ReadListHeaderBytes \<lparr>view = rlp_data\<rparr>) (\<lambda>(_, d).
      outcome_try (decode_status_or_state_root d) (\<lambda>((root, status), d).
      outcome_try (need read_uint256 d) (\<lambda>(gas, d).
      outcome_try (need_len (read_array 256) d) (\<lambda>(blm, d).
      outcome_try (list_target d) (\<lambda>(target, d).
      outcome_try (log_loop target d []) (\<lambda>(ls, d).
      at_target target d (
      Inr \<lparr>rc_state_root = root, rc_status = status, cumulative_gas_used = gas, rc_bloom = blm,
           rc_logs = ls\<rparr>))))))))"

definition status_item :: "receipt \<Rightarrow> rlp_item" where
  "status_item rc = (case rc_state_root rc of Some root \<Rightarrow> RStr root
     | None \<Rightarrow> RUint (if rc_status rc = Some True then 1 else 0))"

definition receipt_item :: "receipt \<Rightarrow> rlp_item" where
  "receipt_item rc = RList [status_item rc, RUint (unat (cumulative_gas_used rc)), RStr (rc_bloom rc),
     RList (map log_item (rc_logs rc))]"

definition wf_receipt :: "receipt \<Rightarrow> bool" where
  "wf_receipt rc \<longleftrightarrow> (\<forall>r. rc_state_root rc = Some r \<longrightarrow> length r = 32) \<and>
     (rc_state_root rc = None \<longrightarrow> rc_status rc \<noteq> None) \<and> length (rc_bloom rc) = 256 \<and>
     (\<forall>l \<in> set (rc_logs rc). wf_log l) \<and> fits (receipt_item rc)"

definition canonical_receipt :: "receipt \<Rightarrow> receipt" where
  "canonical_receipt rc = (if rc_state_root rc \<noteq> None then rc\<lparr>rc_status := None\<rparr> else rc)"

lemma emits_item_status [simp]:
  "fits (status_item rc) \<Longrightarrow> (rc_state_root rc = None \<Longrightarrow> rc_status rc \<noteq> None) \<Longrightarrow>
     emits_item (status_op rc) (status_item rc)"
  using emits_item_ints(1) [of 0] emits_item_ints(1) [of 1]
  by (cases "rc_state_root rc") (auto simp: status_op_def status_item_def)

lemma emits_item_logs [simp]:
  "fits (RList (map log_item ls)) \<Longrightarrow> emits_item (list_of (map log_ops ls)) (RList (map log_item ls))"
  using fits_RList_elem [of "map log_item ls"]
  by (intro emits_item_list_of) (simp_all add: list_all2_map1 list_all2_map2 list_all2_same)

lemma encode_receipt_eq: "wf_receipt rc \<Longrightarrow> encode_receipt rc = Inr (rlp_encode (receipt_item rc))"
proof -
  assume w: "wf_receipt rc"
  then have f: "fits (receipt_item rc)" "rc_state_root rc = None \<Longrightarrow> rc_status rc \<noteq> None"
    by (simp_all add: wf_receipt_def)
  note all = fits_RList_all [OF f(1) [unfolded receipt_item_def]]
  have "emits_item (receipt_ops rc) (receipt_item rc)"
    using f all unfolding receipt_ops_def receipt_item_def by (intro emits_item_list_of) simp_all
  then show ?thesis by (simp add: encode_receipt_def emits_item_finalize)
qed

lemma decode_status_or_root_reads [simp]:
  assumes "fits (status_item rc)" "\<forall>r. rc_state_root rc = Some r \<longrightarrow> length r = 32"
    "rc_state_root rc = None \<Longrightarrow> rc_status rc \<noteq> None"
  shows "decode_status_or_state_root \<lparr>view = rlp_encode (status_item rc) @ rest\<rparr> =
    Inr ((rc_state_root rc, if rc_state_root rc = None then rc_status rc else None), \<lparr>view = rest\<rparr>)"
proof (cases "rc_state_root rc")
  case (Some r)
  with assms show ?thesis by (simp add: decode_status_or_state_root_def status_item_def)
next
  case None
  with assms(3) obtain b where "rc_status rc = Some b" by auto
  with None show ?thesis
    by (cases b) (simp_all add: decode_status_or_state_root_def status_item_def RUint_def nat_to_be_single)
qed

lemma rlp_encode_RList_first: "fits (RList ts) \<Longrightarrow> \<not> unat ((rlp_encode (RList ts) @ rest) ! 0) < 0xC0"
proof -
  assume "fits (RList ts)"
  then have "0xC0 \<le> unat (hd (rlp_encode (RList ts)))"
    unfolding rlp_encode_simps by (intro hd_rlp_list_ge fits_RListD)
  then show ?thesis by (simp add: nth_append hd_conv_nth)
qed

lemma decode_receipt_reads:
  assumes "wf_receipt rc" "prefix = [] \<or> (\<exists>t. prefix = [t] \<and> unat t < 0xC0)"
  shows "decode_receipt (prefix @ rlp_encode (receipt_item rc) @ rest) = Inr (canonical_receipt rc)"
proof -
  from assms(1) have f: "fits (receipt_item rc)" "\<forall>r. rc_state_root rc = Some r \<longrightarrow> length r = 32"
    "rc_state_root rc = None \<Longrightarrow> rc_status rc \<noteq> None" "length (rc_bloom rc) = 256"
    "\<forall>l \<in> set (rc_logs rc). wf_log l" by (simp_all add: wf_receipt_def)
  note all = fits_RList_all [OF f(1) [unfolded receipt_item_def]]
  have "decode_receipt (prefix @ rlp_encode (receipt_item rc) @ rest) =
      decode_receipt (rlp_encode (receipt_item rc) @ rest)"
    using assms(2) rlp_encode_RList_first [OF f(1) [unfolded receipt_item_def], of rest, folded receipt_item_def]
    by (auto simp: decode_receipt_def)
  also have "\<dots> = Inr (canonical_receipt rc)"
    using f all rlp_encode_RList_first [OF f(1) [unfolded receipt_item_def], of rest]
    unfolding receipt_item_def
    by (simp add: decode_receipt_def logs.loop_reads_list canonical_receipt_def)
  finally show ?thesis .
qed

section \<open>Block headers\<close>

record block_header =
  parent_hash :: hash256
  ommers_hash :: hash256
  beneficiary :: address
  state_root :: hash256
  transactions_root :: hash256
  receipts_root :: hash256
  logs_bloom :: bloom
  difficulty :: u256
  bh_number :: u64
  bh_gas_limit :: u64
  gas_used :: u64
  bh_timestamp :: u64
  extra_data :: bytes
  mix_hash :: hash256
  bh_nonce :: bytes
  base_fee_per_gas :: "u256 option"

definition header_ops :: "block_header \<Rightarrow> encoder_op" where
  "header_ops h = list_of (
     [put (add_bytes (parent_hash h)), put (add_bytes (ommers_hash h)), put (add_bytes (beneficiary h)),
      put (add_bytes (state_root h)), put (add_bytes (transactions_root h)), put (add_bytes (receipts_root h)),
      put (add_bytes (logs_bloom h)), put (add_uint256 (difficulty h)), put (add_u64 (bh_number h)),
      put (add_u64 (bh_gas_limit h)), put (add_u64 (gas_used h)), put (add_u64 (bh_timestamp h)),
      put (add_bytes (extra_data h)), put (add_bytes (mix_hash h)), put (add_bytes (bh_nonce h))]
     @ (case base_fee_per_gas h of Some fee \<Rightarrow> [put (add_uint256 fee)] | None \<Rightarrow> []))"

definition encode_block_header :: "block_header \<Rightarrow> encoding_error + bytes" where
  "encode_block_header h = outcome_try (header_ops h new_encoder) finalize_encoding"

function skip_rest :: "rlp_decoder \<Rightarrow> decoding_error + unit" where
  "skip_rest d = (if IsFinished d then Inr () else outcome_try (SkipItem d) skip_rest)"
  by pat_completeness auto
termination by (relation "measure (\<lambda>d. length (view d))") (auto dest: read_consumes)

declare skip_rest.simps [simp del]

definition read_base_fee :: "(u256 option) decoder_op" where
  "read_base_fee d = (if IsFinished d then Inr (None, d)
     else outcome_try (need read_uint256 d) (\<lambda>(fee, d). Inr (Some fee, d)))"

definition decode_block_header :: "bytes \<Rightarrow> decoding_error + block_header" where
  "decode_block_header rlp_data =
     outcome_try (ReadListHeaderBytes \<lparr>view = rlp_data\<rparr>) (\<lambda>(_, d).
     outcome_try (need_len (read_array 32) d) (\<lambda>(ph, d).
     outcome_try (need_len (read_array 32) d) (\<lambda>(oh, d).
     outcome_try (need_len (read_array 20) d) (\<lambda>(ben, d).
     outcome_try (need_len (read_array 32) d) (\<lambda>(sr, d).
     outcome_try (need_len (read_array 32) d) (\<lambda>(tr, d).
     outcome_try (need_len (read_array 32) d) (\<lambda>(rr, d).
     outcome_try (need_len (read_array 256) d) (\<lambda>(blm, d).
     outcome_try (need read_uint256 d) (\<lambda>(diff, d).
     outcome_try (need read_integral d) (\<lambda>(num, d).
     outcome_try (need read_integral d) (\<lambda>(gl, d).
     outcome_try (need read_integral d) (\<lambda>(gu, d).
     outcome_try (need read_integral d) (\<lambda>(ts, d).
     outcome_try (need read_bytes d) (\<lambda>(ext, d).
     outcome_try (need_len (read_array 32) d) (\<lambda>(mh, d).
     outcome_try (need_len (read_array 8) d) (\<lambda>(non, d).
     outcome_try (read_base_fee d) (\<lambda>(fee, d).
     outcome_try (skip_rest d) (\<lambda>_.
     Inr \<lparr>parent_hash = ph, ommers_hash = oh, beneficiary = ben, state_root = sr, transactions_root = tr,
          receipts_root = rr, logs_bloom = blm, difficulty = diff, bh_number = num, bh_gas_limit = gl,
          gas_used = gu, bh_timestamp = ts, extra_data = ext, mix_hash = mh, bh_nonce = non,
          base_fee_per_gas = fee\<rparr>))))))))))))))))))"

definition header_items :: "block_header \<Rightarrow> rlp_item list" where
  "header_items h =
     [RStr (parent_hash h), RStr (ommers_hash h), RStr (beneficiary h), RStr (state_root h),
      RStr (transactions_root h), RStr (receipts_root h), RStr (logs_bloom h), RUint (unat (difficulty h)),
      RUint (unat (bh_number h)), RUint (unat (bh_gas_limit h)), RUint (unat (gas_used h)),
      RUint (unat (bh_timestamp h)), RStr (extra_data h), RStr (mix_hash h), RStr (bh_nonce h)]
     @ (case base_fee_per_gas h of Some fee \<Rightarrow> [RUint (unat fee)] | None \<Rightarrow> [])"

definition header_item :: "block_header \<Rightarrow> rlp_item" where
  "header_item h = RList (header_items h)"

definition wf_header_sizes :: "block_header \<Rightarrow> bool" where
  "wf_header_sizes h \<longleftrightarrow> length (parent_hash h) = 32 \<and> length (ommers_hash h) = 32 \<and> length (beneficiary h) = 20 \<and>
     length (state_root h) = 32 \<and> length (transactions_root h) = 32 \<and> length (receipts_root h) = 32 \<and>
     length (logs_bloom h) = 256 \<and> length (mix_hash h) = 32 \<and> length (bh_nonce h) = 8"

definition wf_block_header :: "block_header \<Rightarrow> bool" where
  "wf_block_header h \<longleftrightarrow> wf_header_sizes h \<and> fits (header_item h)"

lemma encode_block_header_eq:
  assumes "wf_block_header h"
  shows "encode_block_header h = Inr (rlp_encode (header_item h))"
proof -
  from assms have f: "fits (header_item h)" by (simp add: wf_block_header_def)
  note all = fits_RList_all [OF f [unfolded header_item_def header_items_def]]
  have "emits_item (header_ops h) (header_item h)"
    using f all unfolding header_ops_def header_item_def header_items_def
    by (intro emits_item_list_of) (auto split: option.splits)
  then show ?thesis by (simp add: encode_block_header_def emits_item_finalize)
qed

lemma skip_rest_items: "\<forall>t \<in> set ts. fits t \<Longrightarrow> skip_rest \<lparr>view = rlp_encodes ts\<rparr> = Inr ()"
  by (induction ts; subst skip_rest.simps) (simp_all add: IsFinished_def)

lemma read_base_fee_reads:
  "read_base_fee \<lparr>view = rlp_encode (RUint (unat fee)) @ rest\<rparr> = Inr (Some fee, \<lparr>view = rest\<rparr>)"
  "read_base_fee \<lparr>view = []\<rparr> = Inr (None, \<lparr>view = []\<rparr>)"
  by (simp_all add: read_base_fee_def IsFinished_def)

lemma decode_block_header_reads:
  assumes "wf_header_sizes h" "fits (RList (header_items h @ extra))"
    "base_fee_per_gas h = None \<longrightarrow> extra = []"
  shows "decode_block_header (rlp_encode (RList (header_items h @ extra))) = Inr h"
proof -
  note all = fits_RList_all [OF assms(2), unfolded header_items_def]
  have ex: "\<forall>t \<in> set extra. fits t" using fits_RList_all [OF assms(2)] by (simp add: list_all_iff)
  show ?thesis
  proof (cases "base_fee_per_gas h")
    case None
    with assms all show ?thesis unfolding header_items_def wf_header_sizes_def
      by (simp add: decode_block_header_def read_base_fee_reads skip_rest.simps IsFinished_def)
  next
    case (Some fee)
    with assms all show ?thesis unfolding header_items_def wf_header_sizes_def
      by (simp add: decode_block_header_def read_base_fee_reads skip_rest_items [OF ex])
  qed
qed

section \<open>Correctness of the codecs\<close>

text \<open>
  C34. Every transaction in one of the three supported formats is encoded to its type byte (none for
  legacy) followed by the list the format prescribes, and decoding these bytes returns the
  transaction, with the fields the format does not carry dropped and absent fees and chain ids
  replaced by the defaults.
\<close>

theorem transaction_round_trip:
  assumes "wf_transaction tx"
  shows "encode_transaction tx = Inr (transaction_bytes tx) \<and>
    decode_transaction (transaction_bytes tx) = Inr (canonical_transaction tx)"
  using encode_transaction_eq [OF assms] decode_transaction_reads [OF assms, of "[]"] by simp

theorem transaction_round_trip_witness:
  "encode_transaction (empty_transaction\<lparr>tx_type := kDynamicFee, tx_nonce := 7\<rparr>) =
     Inr [0x02, 0xCC, 1, 7, 0x80, 0x80, 0x80, 0x80, 0x80, 0x80, 0xC0, 0x80, 0x80, 0x80]"
proof -
  let ?tx = "empty_transaction\<lparr>tx_type := kDynamicFee, tx_nonce := 7\<rparr>"
  have "fits (transaction_item ?tx)"
    by (rule fits_bound) (simp add: transaction_item_def empty_transaction_def call_items_def sig_items_def
      to_item_def value_or_def RUint_def nat_to_be.simps)
  then have "wf_transaction ?tx" by (simp add: wf_transaction_def empty_transaction_def)
  from transaction_round_trip [OF this] show ?thesis
    by (simp add: transaction_bytes_def transaction_item_def empty_transaction_def call_items_def sig_items_def
      to_item_def value_or_def RUint_def nat_to_be.simps rlp_encode_simps rlp_list_def rlp_str_def rlp_prefix_def
      tx_type_byte_def)
qed

text \<open>
  A receipt with a state root or a status is encoded to its list and decoded back, also when a
  transaction type byte precedes the list and whatever follows it; a status beside a state root is
  not carried by the wire form.
\<close>

theorem receipt_round_trip:
  assumes "wf_receipt rc" "unat t < 0xC0"
  shows "encode_receipt rc = Inr (rlp_encode (receipt_item rc)) \<and>
    decode_receipt (rlp_encode (receipt_item rc) @ rest) = Inr (canonical_receipt rc) \<and>
    decode_receipt (t # rlp_encode (receipt_item rc) @ rest) = Inr (canonical_receipt rc)"
  using encode_receipt_eq [OF assms(1)] decode_receipt_reads [OF assms(1), of "[]" rest]
    decode_receipt_reads [OF assms(1), of "[t]" rest] assms(2) by simp

definition sample_receipt :: receipt where
  "sample_receipt = \<lparr>rc_state_root = None, rc_status = Some True, cumulative_gas_used = 21000,
     rc_bloom = replicate 256 0,
     rc_logs = [\<lparr>log_address = replicate 20 1, log_topics = [replicate 32 2], log_data = [3]\<rparr>]\<rparr>"

theorem receipt_round_trip_witness:
  "decode_receipt (0x02 # rlp_encode (receipt_item sample_receipt) @ []) = Inr sample_receipt"
proof -
  have "fits (receipt_item sample_receipt)"
    by (rule fits_bound) (simp add: receipt_item_def sample_receipt_def status_item_def log_item_def
      RUint_def nat_to_be.simps)
  then have "wf_receipt sample_receipt" by (simp add: wf_receipt_def sample_receipt_def wf_log_def)
  moreover have "canonical_receipt sample_receipt = sample_receipt"
    by (simp add: canonical_receipt_def sample_receipt_def)
  ultimately show ?thesis using receipt_round_trip [of sample_receipt 2 "[]"] by simp
qed

text \<open>
  A block header is encoded to the list of its 15 or 16 fields and decoded back; a header of a
  later fork, with more fields after the base fee, decodes to the same record.
\<close>

theorem block_header_round_trip:
  assumes "wf_block_header h" "fits (RList (header_items h @ extra))"
    "base_fee_per_gas h = None \<longrightarrow> extra = []"
  shows "encode_block_header h = Inr (rlp_encode (header_item h)) \<and>
    decode_block_header (rlp_encode (header_item h)) = Inr h \<and>
    decode_block_header (rlp_encode (RList (header_items h @ extra))) = Inr h"
proof -
  have w: "wf_header_sizes h" "fits (RList (header_items h @ []))"
    using assms(1) by (simp_all add: wf_block_header_def header_item_def)
  show ?thesis
    using encode_block_header_eq [OF assms(1)] decode_block_header_reads [OF w] decode_block_header_reads [OF w(1) assms(2,3)]
    by (simp add: header_item_def)
qed

definition sample_header :: block_header where
  "sample_header = \<lparr>parent_hash = replicate 32 1, ommers_hash = replicate 32 2, beneficiary = replicate 20 3,
     state_root = replicate 32 4, transactions_root = replicate 32 5, receipts_root = replicate 32 6,
     logs_bloom = replicate 256 0, difficulty = 0, bh_number = 100, bh_gas_limit = 30000000, gas_used = 21000,
     bh_timestamp = 1700000000, extra_data = [], mix_hash = replicate 32 7, bh_nonce = replicate 8 0,
     base_fee_per_gas = Some 7\<rparr>"

lemma sample_header_wf: "wf_block_header sample_header" "fits (RList (header_items sample_header @ [RStr (replicate 32 9)]))"
proof -
  have "fits (header_item sample_header)"
    by (rule fits_bound) (simp add: header_item_def header_items_def sample_header_def RUint_def nat_to_be.simps)
  then show "wf_block_header sample_header"
    by (simp add: wf_block_header_def wf_header_sizes_def sample_header_def)
  show "fits (RList (header_items sample_header @ [RStr (replicate 32 9)]))"
    by (rule fits_bound) (simp add: header_items_def sample_header_def RUint_def nat_to_be.simps)
qed

theorem block_header_round_trip_witness:
  "decode_block_header (rlp_encode (header_item sample_header)) = Inr sample_header \<and>
   decode_block_header (rlp_encode (RList (header_items sample_header @ [RStr (replicate 32 9)]))) = Inr sample_header"
  using block_header_round_trip [OF sample_header_wf] by (simp add: sample_header_def)

text \<open>
  Log entries and access list entries with 20-byte addresses and 32-byte topics or keys survive
  encoding and decoding unchanged.
\<close>

theorem log_access_round_trip:
  assumes "wf_log l" "fits (log_item l)" "wf_access a" "fits (access_item a)"
  shows "encode_log_entry l = Inr (rlp_encode (log_item l)) \<and> decode_log_entry (rlp_encode (log_item l)) = Inr l \<and>
    encode_access_list_entry a = Inr (rlp_encode (access_item a)) \<and>
    decode_access_list_entry (rlp_encode (access_item a)) = Inr a"
  using decode_log_reads [OF assms(1,2), of "[]"] decode_access_reads [OF assms(3,4), of "[]"]
    emits_item_finalize [OF emits_item_log_ops [OF assms(2)]]
    emits_item_finalize [OF emits_item_access_ops [OF assms(4)]]
  by (simp add: encode_log_entry_def encode_access_list_entry_def decode_log_entry_def decode_access_list_entry_def)

theorem log_access_round_trip_witness:
  "decode_log_entry (rlp_encode (log_item \<lparr>log_address = replicate 20 1, log_topics = [replicate 32 2], log_data = [3]\<rparr>))
     = Inr \<lparr>log_address = replicate 20 1, log_topics = [replicate 32 2], log_data = [3]\<rparr>"
proof -
  let ?l = "\<lparr>log_address = replicate 20 1, log_topics = [replicate 32 2], log_data = [3]\<rparr>"
  let ?a = "\<lparr>al_address = replicate 20 1, storage_keys = []\<rparr>"
  have "fits (log_item ?l)" "fits (access_item ?a)"
    by (rule fits_bound, simp add: log_item_def access_item_def)+
  then show ?thesis using log_access_round_trip [of ?l ?a] by (simp add: wf_log_def wf_access_def)
qed

end
