(* ===== verification/Eth_Payloads.thy ===== *)
theory Eth_Payloads
  imports Eth_Objects
begin

text \<open>
  The payload helpers in the first part of src/eth/messages.cpp: lists of hashes and integers, block
  headers, receipts, pooled transactions, transactions and block bodies, and the detection of an
  eth/66 request id. Every list loop of the file is an instance of the \<open>item_loop\<close> interface, so that
  the round trip of each payload is one step over its interpretation.
\<close>

section \<open>Steps shared by the payloads\<close>

definition consume_next_item :: "bytes decoder_op" where
  "consume_next_item d =
     (let before = Remaining d in
      if before = [] then Inl kInputTooShort
      else outcome_try (SkipItem d) (\<lambda>d'.
        let after = Remaining d' in Inr (substr before 0 (length before - length after), d')))"

definition consume_eth66_request_id :: "rlp_decoder \<Rightarrow> u64 option \<times> rlp_decoder" where
  "consume_eth66_request_id d =
     (case read_integral d :: decoding_error + (u64 \<times> rlp_decoder) of
        Inl _ \<Rightarrow> (None, d)
      | Inr (_, probe) \<Rightarrow>
          (case PeekHeader probe of
             Inl _ \<Rightarrow> (None, d)
           | Inr next_header \<Rightarrow>
               if \<not> list_h next_header then (None, d)
               else (case read_integral d of
                       Inl _ \<Rightarrow> (None, d)
                     | Inr (request_id, d') \<Rightarrow> (Some request_id, d'))))"

text \<open>Splicing the finished encoding of an object into a list.\<close>

definition add_encoded :: "encoding_error + bytes \<Rightarrow> encoder_op" where
  "add_encoded r e = outcome_try r (\<lambda>bs. put (AddRaw bs) e)"

text \<open>The loop that skips trailing items up to the end of a list.\<close>

lemma consume_next_item_consumes:
  "consume_next_item d = Inr (x, d') \<Longrightarrow> length (view d') < length (view d)"
  by (auto simp: consume_next_item_def outcome_iffs Let_def dest: read_consumes split: if_splits)

function ignore_items :: "nat \<Rightarrow> rlp_decoder \<Rightarrow> decoding_error + rlp_decoder" where
  "ignore_items target d =
     (if target < length (Remaining d)
      then outcome_try (consume_next_item d) (\<lambda>(_, d'). ignore_items target d')
      else Inr d)"
  by pat_completeness auto
termination
  by (relation "measure (\<lambda>(_, d). length (view d))") (auto dest: consume_next_item_consumes)

declare ignore_items.simps [simp del]

lemma consume_next_item_reads [simp]:
  "fits t \<Longrightarrow> consume_next_item \<lparr>view = rlp_encode t @ rest\<rparr> = Inr (rlp_encode t, \<lparr>view = rest\<rparr>)"
  by (simp add: consume_next_item_def Remaining_def substr_def)

lemma consume_next_item_reads_end [simp]:
  "fits t \<Longrightarrow> consume_next_item \<lparr>view = rlp_encode t\<rparr> = Inr (rlp_encode t, \<lparr>view = []\<rparr>)"
  using consume_next_item_reads [of t "[]"] by simp

lemma ignore_items_none [simp]: "n = length v \<Longrightarrow> ignore_items n \<lparr>view = v\<rparr> = Inr \<lparr>view = v\<rparr>"
  by (subst ignore_items.simps) (simp add: Remaining_def)

lemma ignore_items_reads:
  "\<forall>t \<in> set ts. fits t \<Longrightarrow> n = length rest \<Longrightarrow>
     ignore_items n \<lparr>view = rlp_encodes ts @ rest\<rparr> = Inr \<lparr>view = rest\<rparr>"
  by (induction ts; subst ignore_items.simps) (simp_all add: Remaining_def)

lemma PeekHeader_RList [simp]:
  "fits (RList ts) \<Longrightarrow> PeekHeader \<lparr>view = rlp_encode (RList ts) @ rest\<rparr> = Inr (item_header True (rlp_encodes ts))"
  by (drule fits_RListD) (simp add: rlp_encode_item_bytes)

lemma PeekHeader_at_end [simp]:
  "fits (RList ts) \<Longrightarrow> PeekHeader \<lparr>view = rlp_encode (RList ts)\<rparr> = Inr (item_header True (rlp_encodes ts))"
  "fits (RStr p) \<Longrightarrow> PeekHeader \<lparr>view = rlp_encode (RStr p)\<rparr> = Inr (item_header False p)"
  using PeekHeader_RList [of ts "[]"] PeekHeader_RStr [of p "[]"] by simp_all

lemma request_id_found [simp]:
  "fits (RList ts) \<Longrightarrow>
     consume_eth66_request_id \<lparr>view = rlp_encode (RUint (unat rid)) @ rlp_encode (RList ts) @ rest\<rparr> =
       (Some rid, \<lparr>view = rlp_encode (RList ts) @ rest\<rparr>)"
  by (simp add: consume_eth66_request_id_def)

lemma request_id_absent_list:
  "fits (RList ts) \<Longrightarrow>
     consume_eth66_request_id \<lparr>view = rlp_encode (RList ts) @ rest\<rparr> = (None, \<lparr>view = rlp_encode (RList ts) @ rest\<rparr>)"
  by (drule fits_RListD) (simp add: consume_eth66_request_id_def rlp_encode_item_bytes read_integral_item)

lemma emits_item_add_encoded [simp]: "r = Inr (rlp_encode t) \<Longrightarrow> emits_item (add_encoded r) t"
  using emits_item_put [OF emits_item_AddRaw [of t]]
  by (simp add: emits_item_def emits_def add_encoded_def)

lemma emits_item_map:
  assumes "\<And>x. x \<in> set xs \<Longrightarrow> fits (enc x) \<Longrightarrow> emits_item (f x) (enc x)" "fits (RList (map enc xs))"
  shows "emits_item (list_of (map f xs)) (RList (map enc xs))"
  using assms fits_RList_elem [of "map enc xs"]
  by (intro emits_item_list_of) (simp_all add: list_all2_map1 list_all2_map2 list_all2_same)

section \<open>Lists of hashes and integers\<close>

definition encode_hash_list :: "hash256 list \<Rightarrow> encoder_op" where
  "encode_hash_list hashes = list_of (map (\<lambda>h. put (add_bytes h)) hashes)"

definition decode_hash_list :: "(hash256 list) decoder_op" where
  "decode_hash_list d =
     outcome_try (list_target d) (\<lambda>(target, d).
     outcome_try (hash_loop target d []) (\<lambda>(hs, d).
     at_target target d (Inr (hs, d))))"

definition encode_uint32_list :: "u32 list \<Rightarrow> encoder_op" where
  "encode_uint32_list values = list_of (map (\<lambda>v. put (add_u32 v)) values)"

function uint32_loop :: "nat \<Rightarrow> rlp_decoder \<Rightarrow> u32 list \<Rightarrow> decoding_error + (u32 list \<times> rlp_decoder)" where
  "uint32_loop target d acc =
     (if target < length (view d)
      then outcome_try (need read_integral d) (\<lambda>(x, d'). uint32_loop target d' (acc @ [x]))
      else Inr (acc, d))"
  by pat_completeness auto
termination
  by (relation "measure (\<lambda>(_, d, _). length (view d))") (auto simp: need_iff dest: read_int_consumes)

declare uint32_loop.simps [simp del]

interpretation uint32s: item_loop "\<lambda>v. RUint (unat v)" "\<lambda>_. True" "\<lambda>v. v" "need read_integral" uint32_loop
  by unfold_locales (subst uint32_loop.simps, auto)

definition decode_uint32_list :: "(u32 list) decoder_op" where
  "decode_uint32_list d =
     outcome_try (list_target d) (\<lambda>(target, d).
     outcome_try (uint32_loop target d []) (\<lambda>(vs, d).
     at_target target d (Inr (vs, d))))"

lemma emits_hash_list [simp]:
  "fits (RList (map RStr hs)) \<Longrightarrow> emits_item (encode_hash_list hs) (RList (map RStr hs))"
  by (simp add: encode_hash_list_def emits_item_bytes_list)

lemma emits_uint32_list [simp]:
  "fits (RList (map (\<lambda>v. RUint (unat v)) vs)) \<Longrightarrow>
     emits_item (encode_uint32_list vs) (RList (map (\<lambda>v. RUint (unat v)) vs))"
  unfolding encode_uint32_list_def by (rule emits_item_map) simp_all

lemma decode_hash_list_reads [simp]:
  "\<forall>h \<in> set hs. length h = 32 \<Longrightarrow> fits (RList (map RStr hs)) \<Longrightarrow>
     decode_hash_list \<lparr>view = rlp_encode (RList (map RStr hs)) @ rest\<rparr> = Inr (hs, \<lparr>view = rest\<rparr>)"
  by (simp add: decode_hash_list_def hashes.loop_reads_list)

lemma decode_uint32_list_reads [simp]:
  "fits (RList (map (\<lambda>v. RUint (unat v)) vs)) \<Longrightarrow>
     decode_uint32_list \<lparr>view = rlp_encode (RList (map (\<lambda>v. RUint (unat v)) vs)) @ rest\<rparr> = Inr (vs, \<lparr>view = rest\<rparr>)"
  by (simp add: decode_uint32_list_def uint32s.loop_reads_list)

section \<open>Block headers\<close>

text \<open>\<open>decode_item dec\<close>: the next item is taken as a raw view and handed to an object decoder.\<close>

definition decode_item :: "(bytes \<Rightarrow> decoding_error + 'a) \<Rightarrow> 'a decoder_op" where
  "decode_item dec d =
     outcome_try (consume_next_item d) (\<lambda>(item_view, d). outcome_try (dec item_view) (\<lambda>x. Inr (x, d)))"

lemma decode_item_consumes: "decode_item dec d = Inr (x, d') \<Longrightarrow> length (view d') < length (view d)"
  by (auto simp: decode_item_def outcome_iffs dest: consume_next_item_consumes)

lemma decode_item_reads [simp]:
  "fits t \<Longrightarrow> dec (rlp_encode t) = Inr x \<Longrightarrow>
     decode_item dec \<lparr>view = rlp_encode t @ rest\<rparr> = Inr (x, \<lparr>view = rest\<rparr>)"
  by (simp add: decode_item_def)

definition encode_block_headers_payload :: "block_header list \<Rightarrow> encoder_op" where
  "encode_block_headers_payload headers = list_of (map (\<lambda>h. add_encoded (encode_block_header h)) headers)"

function header_loop :: "nat \<Rightarrow> rlp_decoder \<Rightarrow> block_header list \<Rightarrow> decoding_error + (block_header list \<times> rlp_decoder)" where
  "header_loop target d acc =
     (if target < length (view d)
      then outcome_try (decode_item decode_block_header d) (\<lambda>(x, d'). header_loop target d' (acc @ [x]))
      else Inr (acc, d))"
  by pat_completeness auto
termination
  by (relation "measure (\<lambda>(_, d, _). length (view d))") (auto dest: decode_item_consumes)

declare header_loop.simps [simp del]

lemma decode_block_header_item: "wf_block_header h \<Longrightarrow> decode_block_header (rlp_encode (header_item h)) = Inr h"
  using decode_block_header_reads [of h "[]"] by (simp add: wf_block_header_def header_item_def)

interpretation headers: item_loop header_item wf_block_header "\<lambda>h. h" "decode_item decode_block_header" header_loop
  by unfold_locales (subst header_loop.simps, auto simp: decode_block_header_item)

definition decode_block_headers_payload :: "(block_header list) decoder_op" where
  "decode_block_headers_payload d =
     outcome_try (list_target d) (\<lambda>(target, d).
     outcome_try (header_loop target d []) (\<lambda>(hs, d).
     at_target target d (Inr (hs, d))))"

lemma emits_block_headers [simp]:
  "\<forall>h \<in> set hs. wf_block_header h \<Longrightarrow> fits (RList (map header_item hs)) \<Longrightarrow>
     emits_item (encode_block_headers_payload hs) (RList (map header_item hs))"
  unfolding encode_block_headers_payload_def
  by (rule emits_item_map) (simp_all add: encode_block_header_eq)

lemma decode_block_headers_reads [simp]:
  "\<forall>h \<in> set hs. wf_block_header h \<Longrightarrow> fits (RList (map header_item hs)) \<Longrightarrow>
     decode_block_headers_payload \<lparr>view = rlp_encode (RList (map header_item hs)) @ rest\<rparr> = Inr (hs, \<lparr>view = rest\<rparr>)"
  by (simp add: decode_block_headers_payload_def headers.loop_reads_list)

section \<open>Receipts\<close>

definition encode_receipts_payload :: "receipt list list \<Rightarrow> encoder_op" where
  "encode_receipts_payload receipts =
     list_of (map (\<lambda>block. list_of (map (\<lambda>rc. add_encoded (encode_receipt rc)) block)) receipts)"

function receipt_loop :: "nat \<Rightarrow> rlp_decoder \<Rightarrow> receipt list \<Rightarrow> decoding_error + (receipt list \<times> rlp_decoder)" where
  "receipt_loop target d acc =
     (if target < length (view d)
      then outcome_try (decode_item decode_receipt d) (\<lambda>(x, d'). receipt_loop target d' (acc @ [x]))
      else Inr (acc, d))"
  by pat_completeness auto
termination
  by (relation "measure (\<lambda>(_, d, _). length (view d))") (auto dest: decode_item_consumes)

declare receipt_loop.simps [simp del]

lemma decode_receipt_item: "wf_receipt rc \<Longrightarrow> decode_receipt (rlp_encode (receipt_item rc)) = Inr (canonical_receipt rc)"
  using decode_receipt_reads [of rc "[]" "[]"] by simp

interpretation receipts: item_loop receipt_item wf_receipt canonical_receipt "decode_item decode_receipt" receipt_loop
  by unfold_locales (subst receipt_loop.simps, auto simp: decode_receipt_item)

definition read_block_receipts :: "(receipt list) decoder_op" where
  "read_block_receipts d =
     outcome_try (list_target d) (\<lambda>(target, d).
     outcome_try (receipt_loop target d []) (\<lambda>(rs, d).
     at_target target d (Inr (rs, d))))"

lemma receipt_loop_shrinks: "receipt_loop n d acc = Inr (xs, d') \<Longrightarrow> length (view d') \<le> length (view d)"
  by (erule receipts.loop_shrinks [rotated]) (rule decode_item_consumes)

lemma read_block_receipts_consumes: "read_block_receipts d = Inr (x, d') \<Longrightarrow> length (view d') < length (view d)"
  by (auto simp: read_block_receipts_def outcome_iffs at_target_Inr
      dest!: list_target_consumes receipt_loop_shrinks)

function block_receipts_loop :: "nat \<Rightarrow> rlp_decoder \<Rightarrow> receipt list list
    \<Rightarrow> decoding_error + (receipt list list \<times> rlp_decoder)" where
  "block_receipts_loop target d acc =
     (if target < length (view d)
      then outcome_try (read_block_receipts d) (\<lambda>(x, d'). block_receipts_loop target d' (acc @ [x]))
      else Inr (acc, d))"
  by pat_completeness auto
termination
  by (relation "measure (\<lambda>(_, d, _). length (view d))") (auto dest: read_block_receipts_consumes)

declare block_receipts_loop.simps [simp del]

lemma read_block_receipts_reads:
  "\<forall>rc \<in> set rs. wf_receipt rc \<Longrightarrow> fits (RList (map receipt_item rs)) \<Longrightarrow>
     read_block_receipts \<lparr>view = rlp_encode (RList (map receipt_item rs)) @ rest\<rparr> =
       Inr (map canonical_receipt rs, \<lparr>view = rest\<rparr>)"
  by (simp add: read_block_receipts_def receipts.loop_reads_list)

interpretation blocks: item_loop "\<lambda>rs. RList (map receipt_item rs)" "\<lambda>rs. \<forall>rc \<in> set rs. wf_receipt rc"
    "map canonical_receipt" read_block_receipts block_receipts_loop
  by unfold_locales (subst block_receipts_loop.simps, auto simp: read_block_receipts_reads)

definition decode_receipts_payload :: "(receipt list list) decoder_op" where
  "decode_receipts_payload d =
     outcome_try (list_target d) (\<lambda>(target, d).
     outcome_try (block_receipts_loop target d []) (\<lambda>(bs, d).
     at_target target d (Inr (bs, d))))"

definition receipts_payload_item :: "receipt list list \<Rightarrow> rlp_item" where
  "receipts_payload_item bs = RList (map (\<lambda>rs. RList (map receipt_item rs)) bs)"

lemma emits_receipts [simp]:
  assumes "\<forall>rs \<in> set bs. \<forall>rc \<in> set rs. wf_receipt rc" "fits (receipts_payload_item bs)"
  shows "emits_item (encode_receipts_payload bs) (receipts_payload_item bs)"
  using assms unfolding encode_receipts_payload_def receipts_payload_item_def
  by (intro emits_item_map) (auto intro!: emits_item_map simp: encode_receipt_eq)

lemma decode_receipts_reads [simp]:
  assumes "\<forall>rs \<in> set bs. \<forall>rc \<in> set rs. wf_receipt rc" "fits (receipts_payload_item bs)"
  shows "decode_receipts_payload \<lparr>view = rlp_encode (receipts_payload_item bs) @ rest\<rparr> =
    Inr (map (map canonical_receipt) bs, \<lparr>view = rest\<rparr>)"
  using assms unfolding receipts_payload_item_def
  by (simp add: decode_receipts_payload_def blocks.loop_reads_list)

section \<open>Pooled transactions\<close>

definition encode_pooled_transactions_payload :: "bytes list \<Rightarrow> encoder_op" where
  "encode_pooled_transactions_payload txs = list_of (map (\<lambda>tx. put (AddRaw tx)) txs)"

function pooled_loop :: "nat \<Rightarrow> rlp_decoder \<Rightarrow> bytes list \<Rightarrow> decoding_error + (bytes list \<times> rlp_decoder)" where
  "pooled_loop target d acc =
     (if target < length (view d)
      then outcome_try (consume_next_item d) (\<lambda>(x, d'). pooled_loop target d' (acc @ [x]))
      else Inr (acc, d))"
  by pat_completeness auto
termination
  by (relation "measure (\<lambda>(_, d, _). length (view d))") (auto dest: consume_next_item_consumes)

declare pooled_loop.simps [simp del]

interpretation pooled: item_loop "\<lambda>t. t" "\<lambda>_. True" rlp_encode consume_next_item pooled_loop
  by unfold_locales (subst pooled_loop.simps, auto)

definition decode_pooled_transactions_payload :: "(bytes list) decoder_op" where
  "decode_pooled_transactions_payload d =
     outcome_try (list_target d) (\<lambda>(target, d).
     outcome_try (pooled_loop target d []) (\<lambda>(txs, d).
     at_target target d (Inr (txs, d))))"

lemma emits_pooled [simp]:
  "fits (RList ts) \<Longrightarrow> emits_item (encode_pooled_transactions_payload (map rlp_encode ts)) (RList ts)"
  unfolding encode_pooled_transactions_payload_def
  by (rule emits_item_list_of) (simp_all add: list_all2_map1 list_all2_same)

lemma decode_pooled_reads [simp]:
  "fits (RList ts) \<Longrightarrow>
     decode_pooled_transactions_payload \<lparr>view = rlp_encode (RList ts) @ rest\<rparr> = Inr (map rlp_encode ts, \<lparr>view = rest\<rparr>)"
  using pooled.loop_reads_list [of ts] by (simp add: decode_pooled_transactions_payload_def)

section \<open>Transaction lists and block bodies\<close>

definition transaction_op :: "transaction \<Rightarrow> encoder_op" where
  "transaction_op tx e =
     outcome_try (encode_transaction tx) (\<lambda>encoded.
     if tx_type tx = kLegacy then put (AddRaw encoded) e else put (add_bytes encoded) e)"

definition encode_transaction_list :: "transaction list \<Rightarrow> encoder_op" where
  "encode_transaction_list txs = list_of (map transaction_op txs)"

definition read_transaction :: "transaction decoder_op" where
  "read_transaction d =
     outcome_try (PeekHeader d) (\<lambda>next_header.
     if \<not> list_h next_header \<and> 0 < payload_size_bytes next_header
     then outcome_try (need read_bytes d) (\<lambda>(raw_bytes, d).
          if raw_bytes \<noteq> [] \<and> unat (raw_bytes ! 0) < 0x80
          then outcome_try (decode_transaction raw_bytes) (\<lambda>tx. Inr (tx, d))
          else outcome_try (decode_transaction raw_bytes) (\<lambda>tx. Inr (tx, d)))
     else outcome_try (consume_next_item d) (\<lambda>(item_view, d).
          outcome_try (decode_transaction item_view) (\<lambda>tx. Inr (tx, d))))"

lemma read_transaction_consumes: "read_transaction d = Inr (x, d') \<Longrightarrow> length (view d') < length (view d)"
  by (auto simp: read_transaction_def outcome_iffs need_iff dest: read_consumes consume_next_item_consumes split: if_splits)

function transaction_loop :: "nat \<Rightarrow> rlp_decoder \<Rightarrow> transaction list \<Rightarrow> decoding_error + (transaction list \<times> rlp_decoder)" where
  "transaction_loop target d acc =
     (if target < length (view d)
      then outcome_try (read_transaction d) (\<lambda>(x, d'). transaction_loop target d' (acc @ [x]))
      else Inr (acc, d))"
  by pat_completeness auto
termination
  by (relation "measure (\<lambda>(_, d, _). length (view d))") (auto dest: read_transaction_consumes)

declare transaction_loop.simps [simp del]

text \<open>Inside a list a legacy transaction is its own list and a typed one a byte string.\<close>

definition transaction_wire :: "transaction \<Rightarrow> rlp_item" where
  "transaction_wire tx = (if tx_type tx = kLegacy then transaction_item tx else RStr (transaction_bytes tx))"

lemma transaction_item_list: "\<exists>ts. transaction_item tx = RList ts"
  by (simp add: transaction_item_def)

lemma transaction_bytes_not_Nil [simp]: "transaction_bytes tx \<noteq> []"
  by (simp add: transaction_bytes_def)

lemma emits_transaction [simp]:
  "wf_transaction tx \<Longrightarrow> fits (transaction_wire tx) \<Longrightarrow> emits_item (transaction_op tx) (transaction_wire tx)"
  using emits_item_put [OF emits_item_AddRaw [of "transaction_item tx"]]
    emits_item_put [OF emits_item_add_bytes [of "transaction_bytes tx"]]
  by (auto simp: emits_item_def emits_def transaction_op_def encode_transaction_eq transaction_wire_def
      transaction_bytes_def split: if_splits)

lemma read_transaction_reads:
  assumes "wf_transaction tx" "fits (transaction_wire tx)"
  shows "read_transaction \<lparr>view = rlp_encode (transaction_wire tx) @ rest\<rparr> = Inr (canonical_transaction tx, \<lparr>view = rest\<rparr>)"
proof (cases "tx_type tx = kLegacy")
  case True
  obtain ts where ts: "transaction_item tx = RList ts" using transaction_item_list by blast
  have "decode_transaction (rlp_encode (RList ts)) = Inr (canonical_transaction tx)"
    using decode_transaction_reads [OF assms(1), of "[]"] True by (simp add: transaction_bytes_def ts)
  with True assms(2) show ?thesis by (simp add: read_transaction_def transaction_wire_def ts)
next
  case False
  with assms(2) decode_transaction_reads [OF assms(1), of "[]"] show ?thesis
    by (simp add: read_transaction_def transaction_wire_def)
qed

interpretation transactions: item_loop transaction_wire wf_transaction canonical_transaction read_transaction transaction_loop
  by unfold_locales (subst transaction_loop.simps, auto simp: read_transaction_reads)

definition decode_transaction_list :: "(transaction list) decoder_op" where
  "decode_transaction_list d =
     outcome_try (list_target d) (\<lambda>(target, d).
     outcome_try (transaction_loop target d []) (\<lambda>(txs, d).
     at_target target d (Inr (txs, d))))"

lemma emits_transaction_list [simp]:
  "\<forall>tx \<in> set txs. wf_transaction tx \<Longrightarrow> fits (RList (map transaction_wire txs)) \<Longrightarrow>
     emits_item (encode_transaction_list txs) (RList (map transaction_wire txs))"
  unfolding encode_transaction_list_def by (rule emits_item_map) simp_all

lemma decode_transaction_list_reads [simp]:
  "\<forall>tx \<in> set txs. wf_transaction tx \<Longrightarrow> fits (RList (map transaction_wire txs)) \<Longrightarrow>
     decode_transaction_list \<lparr>view = rlp_encode (RList (map transaction_wire txs)) @ rest\<rparr> =
       Inr (map canonical_transaction txs, \<lparr>view = rest\<rparr>)"
  by (simp add: decode_transaction_list_def transactions.loop_reads_list)

record block_body =
  body_transactions :: "transaction list"
  body_ommers :: "block_header list"

definition encode_block_body :: "block_body \<Rightarrow> encoder_op" where
  "encode_block_body body = list_of
     [encode_transaction_list (body_transactions body),
      encode_block_headers_payload (body_ommers body)]"

definition decode_block_body :: "block_body decoder_op" where
  "decode_block_body d =
     outcome_try (list_target d) (\<lambda>(target, d).
     outcome_try (decode_transaction_list d) (\<lambda>(txs, d).
     outcome_try (decode_block_headers_payload d) (\<lambda>(oms, d).
     outcome_try (ignore_items target d) (\<lambda>d.
     at_target target d (
     Inr (\<lparr>body_transactions = txs, body_ommers = oms\<rparr>, d))))))"

definition body_items :: "block_body \<Rightarrow> rlp_item list" where
  "body_items b = [RList (map transaction_wire (body_transactions b)), RList (map header_item (body_ommers b))]"

definition wf_body :: "block_body \<Rightarrow> bool" where
  "wf_body b \<longleftrightarrow> (\<forall>tx \<in> set (body_transactions b). wf_transaction tx) \<and> (\<forall>h \<in> set (body_ommers b). wf_block_header h)"

definition canonical_body :: "block_body \<Rightarrow> block_body" where
  "canonical_body b = b\<lparr>body_transactions := map canonical_transaction (body_transactions b)\<rparr>"

lemma emits_block_body [simp]:
  "wf_body b \<Longrightarrow> fits (RList (body_items b)) \<Longrightarrow> emits_item (encode_block_body b) (RList (body_items b))"
  unfolding encode_block_body_def body_items_def wf_body_def
  by (frule fits_RList_all, rule emits_item_list_of) simp_all

lemma decode_block_body_reads:
  assumes "wf_body b" "fits (RList (body_items b @ extra))"
  shows "decode_block_body \<lparr>view = rlp_encode (RList (body_items b @ extra)) @ rest\<rparr> =
    Inr (canonical_body b, \<lparr>view = rest\<rparr>)"
proof -
  note all = fits_RList_all [OF assms(2)]
  have "\<forall>t \<in> set extra. fits t" using all by (simp add: list_all_iff)
  with assms all show ?thesis unfolding body_items_def wf_body_def
    by (simp add: decode_block_body_def canonical_body_def ignore_items_reads)
qed

lemma list_target_bound: "list_target d = Inr (t, d1) \<Longrightarrow> t < length (view d)"
  using list_target_consumes [of d t d1] by (auto simp: list_target_def outcome_iffs Remaining_def)

lemma decode_block_body_consumes:
  "decode_block_body d = Inr (x, d') \<Longrightarrow> length (view d') < length (view d)"
  by (auto simp: decode_block_body_def outcome_iffs at_target_Inr dest!: list_target_bound)

function body_loop :: "nat \<Rightarrow> rlp_decoder \<Rightarrow> block_body list \<Rightarrow> decoding_error + (block_body list \<times> rlp_decoder)" where
  "body_loop target d acc =
     (if target < length (view d)
      then outcome_try (decode_block_body d) (\<lambda>(x, d'). body_loop target d' (acc @ [x]))
      else Inr (acc, d))"
  by pat_completeness auto
termination
  by (relation "measure (\<lambda>(_, d, _). length (view d))") (auto dest: decode_block_body_consumes)

declare body_loop.simps [simp del]

interpretation bodies: item_loop "\<lambda>b. RList (body_items b)" wf_body canonical_body decode_block_body body_loop
  by unfold_locales (subst body_loop.simps, use decode_block_body_reads [where extra = "[]"] in auto)

definition encode_bodies :: "block_body list \<Rightarrow> encoder_op" where
  "encode_bodies bs = list_of (map encode_block_body bs)"

definition decode_bodies :: "(block_body list) decoder_op" where
  "decode_bodies d =
     outcome_try (list_target d) (\<lambda>(target, d).
     outcome_try (body_loop target d []) (\<lambda>(bs, d).
     at_target target d (Inr (bs, d))))"

lemma emits_bodies [simp]:
  "\<forall>b \<in> set bs. wf_body b \<Longrightarrow> fits (RList (map (\<lambda>b. RList (body_items b)) bs)) \<Longrightarrow>
     emits_item (encode_bodies bs) (RList (map (\<lambda>b. RList (body_items b)) bs))"
  unfolding encode_bodies_def by (rule emits_item_map) simp_all

lemma decode_bodies_reads [simp]:
  "\<forall>b \<in> set bs. wf_body b \<Longrightarrow> fits (RList (map (\<lambda>b. RList (body_items b)) bs)) \<Longrightarrow>
     decode_bodies \<lparr>view = rlp_encode (RList (map (\<lambda>b. RList (body_items b)) bs)) @ rest\<rparr> =
       Inr (map canonical_body bs, \<lparr>view = rest\<rparr>)"
  by (simp add: decode_bodies_def bodies.loop_reads_list)

section \<open>The block header query\<close>

record get_block_headers_message =
  gbh_request_id :: "u64 option"
  start_hash :: "hash256 option"
  start_number :: "u64 option"
  max_headers :: u64
  skip :: u64
  reverse :: bool

definition encode_get_block_headers_payload :: "get_block_headers_message \<Rightarrow> encoder_op" where
  "encode_get_block_headers_payload m e =
     (if start_hash m \<noteq> None \<and> start_number m \<noteq> None then Inl kEmptyInput
      else list_of
        ((case start_hash m of
            Some h \<Rightarrow> [put (add_bytes h)]
          | None \<Rightarrow> (case start_number m of Some n \<Rightarrow> [put (add_u64 n)] | None \<Rightarrow> []))
         @ [put (add_u64 (max_headers m)), put (add_u64 (skip m)), put (add_bool (reverse m))]) e)"

definition decode_get_block_headers_payload ::
    "u64 option \<Rightarrow> get_block_headers_message decoder_op" where
  "decode_get_block_headers_payload rid d =
     outcome_try (PeekHeader d) (\<lambda>h.
     if list_h h then Inl kUnexpectedList
     else outcome_try
       (if payload_size_bytes h = 32
        then outcome_try (need_len (read_array 32) d) (\<lambda>(hash, d). Inr ((Some hash, None), d))
        else outcome_try (need read_integral d) (\<lambda>(num, d). Inr ((None, Some num), d)))
       (\<lambda>((sh, sn), d).
     outcome_try (need read_integral d) (\<lambda>(mx, d).
     outcome_try (need read_integral d) (\<lambda>(sk, d).
     outcome_try (need read_bool d) (\<lambda>(rev, d).
     Inr (\<lparr>gbh_request_id = rid, start_hash = sh, start_number = sn, max_headers = mx, skip = sk,
           reverse = rev\<rparr>, d))))))"

definition start_items :: "get_block_headers_message \<Rightarrow> rlp_item list" where
  "start_items m = (case start_hash m of Some h \<Rightarrow> [RStr h]
     | None \<Rightarrow> (case start_number m of Some n \<Rightarrow> [RUint (unat n)] | None \<Rightarrow> []))"

definition query_items :: "get_block_headers_message \<Rightarrow> rlp_item list" where
  "query_items m = start_items m @
     [RUint (unat (max_headers m)), RUint (unat (skip m)), RBool (reverse m)]"

definition wf_query :: "get_block_headers_message \<Rightarrow> bool" where
  "wf_query m \<longleftrightarrow> (start_hash m = None \<longleftrightarrow> start_number m \<noteq> None) \<and> (\<forall>h. start_hash m = Some h \<longrightarrow> length h = 32)"

lemma fits_u64 [simp]: "fits (RUint (unat (n :: u64)))" "fits (RUint (unat (w :: u256)))"
  using unat_less_exp [of n] unat_less_exp [of w] by (simp_all add: RUint_def [symmetric])

lemma length_query_items:
  assumes "\<And>h. start_hash m = Some h \<Longrightarrow> length h = 32"
  shows "length (rlp_encodes (query_items m)) \<le> 132"
proof -
  have u: "length (rlp_encode (RUint (unat (x :: u64)))) \<le> 33" for x
    using unat_less_exp [of x] by (intro length_RUint_le) simp
  have b: "length (rlp_encode (RBool (reverse m))) \<le> 33" unfolding RBool_def by (intro length_RUint_le) simp
  have h: "length h = 32 \<Longrightarrow> length (rlp_encode (RStr h)) \<le> 33" for h
    using length_rlp_str_le [of h] by (simp add: rlp_encode_simps)
  show ?thesis
    using assms u [of "max_headers m"] u [of "skip m"] b u [of "the (start_number m)"] h [of "the (start_hash m)"]
    by (cases "start_hash m"; cases "start_number m") (simp_all add: query_items_def start_items_def)
qed

lemma length_query: "wf_query m \<Longrightarrow> fits (RList (query_items m))"
  using length_query_items [of m] by (intro fits_RListI) (simp add: wf_query_def)

lemma emits_query [simp]:
  assumes "wf_query m"
  shows "emits_item (encode_get_block_headers_payload m) (RList (query_items m))"
proof -
  have "encode_get_block_headers_payload m = list_of
      ((case start_hash m of Some h \<Rightarrow> [put (add_bytes h)]
        | None \<Rightarrow> (case start_number m of Some n \<Rightarrow> [put (add_u64 n)] | None \<Rightarrow> []))
       @ [put (add_u64 (max_headers m)), put (add_u64 (skip m)), put (add_bool (reverse m))])"
    using assms by (auto simp: encode_get_block_headers_payload_def wf_query_def)
  moreover have "emits_item \<dots> (RList (query_items m))"
    by (rule emits_item_list_of [OF _ length_query [OF assms]])
       (use assms in \<open>auto simp: query_items_def start_items_def wf_query_def split: option.splits\<close>)
  ultimately show ?thesis by simp
qed

lemma decode_query_reads:
  assumes "wf_query m"
  shows "decode_get_block_headers_payload (gbh_request_id m) \<lparr>view = rlp_encodes (query_items m) @ rest\<rparr> =
    Inr (m, \<lparr>view = rest\<rparr>)"
proof (cases "start_hash m")
  case (Some h)
  with assms show ?thesis
    by (simp add: decode_get_block_headers_payload_def query_items_def start_items_def wf_query_def)
next
  case None
  with assms obtain n where n: "start_number m = Some n" by (auto simp: wf_query_def)
  have "length (nat_to_be (unat n)) \<le> 8" using unat_less_exp [of n] by (intro length_nat_to_be_u64) simp
  then have "PeekHeader \<lparr>view = rlp_encode (RUint (unat n)) @ r\<rparr> = Inr (item_header False (nat_to_be (unat n)))"
    "length (nat_to_be (unat n)) \<noteq> 32" for r
    unfolding RUint_def by simp_all
  with None n show ?thesis
    by (simp add: decode_get_block_headers_payload_def query_items_def start_items_def)
qed

lemma read_u64_hash_fails:
  "length h = 32 \<Longrightarrow> \<exists>err. (read_integral \<lparr>view = rlp_encode (RStr h) @ r\<rparr> :: decoding_error + (u64 \<times> rlp_decoder)) = Inl err"
  using compact_value_leading_zero [of h 64] compact_value_too_long [of h 64]
  by (cases "h ! 0 = 0") (auto simp: rlp_encode_item_bytes read_integral_item)

lemma query_request_id_absent:
  assumes "wf_query m"
  shows "consume_eth66_request_id \<lparr>view = rlp_encodes (query_items m)\<rparr> = (None, \<lparr>view = rlp_encodes (query_items m)\<rparr>)"
proof -
  have p: "PeekHeader \<lparr>view = rlp_encode (RUint (unat (x :: u64))) @ r\<rparr> = Inr (item_header False (nat_to_be (unat x)))" for x r
    using length_nat_to_be_u64 [of "unat x"] unat_less_exp [of x] unfolding RUint_def by simp
  show ?thesis
  proof (cases "start_hash m")
    case (Some a)
    with assms read_u64_hash_fails [of a "rlp_encodes (tl (query_items m))"] obtain err where
      "(read_integral \<lparr>view = rlp_encodes (query_items m)\<rparr> :: decoding_error + (u64 \<times> rlp_decoder)) = Inl err"
      by (auto simp: query_items_def start_items_def wf_query_def)
    then show ?thesis by (simp add: consume_eth66_request_id_def)
  next
    case None
    with assms obtain n where "start_number m = Some n" by (auto simp: wf_query_def)
    with None show ?thesis by (simp add: consume_eth66_request_id_def query_items_def start_items_def p)
  qed
qed

end
