(* ===== verification/Eth_Status.thy ===== *)
theory Eth_Status
  imports Eth_Payloads
begin

text \<open>
  The Status message of the eth protocol (include/eth/eth\_types.hpp and the status section of
  src/eth/messages.cpp): message schemas, the schema-driven decoder that tries one schema after the
  other, the encoder and the validation of a received status against the expected network.
\<close>

section \<open>Types\<close>

datatype eth_message_field_type =
    kUint8 | kUint16 | kUint32 | kUint64 | kUint256 | kHash32 | kHash4 | kForkId | kBytes | kBool
  | kHashOrNumber | kHashList | kUintList | kUint32List | kBytesList | kBlockHashEntries
  | kGetBlockHeadersQuery | kBlockHeaders | kBlockBodies | kBlock | kTransactions | kReceipts
  | kPooledTransactions

record eth_message_field_schema =
  fs_name :: string
  fs_type :: eth_message_field_type
  fs_size :: "nat option"
  fs_offset :: "nat option"

record eth_message_schema =
  ms_name :: string
  ms_message_id :: u8
  ms_protocol_version :: "u8 option"
  ms_fields :: "eth_message_field_schema list"

abbreviation (input) kEthProtocolVersion66 :: u8 where "kEthProtocolVersion66 \<equiv> 66"
abbreviation (input) kEthProtocolVersion67 :: u8 where "kEthProtocolVersion67 \<equiv> 67"
abbreviation (input) kEthProtocolVersion68 :: u8 where "kEthProtocolVersion68 \<equiv> 68"
abbreviation (input) kEthProtocolVersion69 :: u8 where "kEthProtocolVersion69 \<equiv> 69"
abbreviation (input) kStatusMessageId :: u8 where "kStatusMessageId \<equiv> 0x00"

record fork_id =
  fork_hash :: bytes
  next_fork :: u64

record status68 =
  s68_protocol_version :: u8
  s68_network_id :: u64
  s68_td :: u256
  s68_blockhash :: hash256
  s68_genesis_hash :: hash256
  s68_fork_id :: fork_id

record status69 =
  s69_protocol_version :: u8
  s69_network_id :: u64
  s69_genesis_hash :: hash256
  s69_fork_id :: fork_id
  s69_earliest_block :: u64
  s69_latest_block :: u64
  s69_latest_block_hash :: hash256

datatype status_message = Status68 status68 | Status69 status69

record common_status_fields =
  c_protocol_version :: u8
  c_network_id :: u64
  c_genesis_hash :: hash256
  c_fork_id :: fork_id

fun get_common_fields :: "status_message \<Rightarrow> common_status_fields" where
  "get_common_fields (Status68 m) = \<lparr>c_protocol_version = s68_protocol_version m,
     c_network_id = s68_network_id m, c_genesis_hash = s68_genesis_hash m, c_fork_id = s68_fork_id m\<rparr>"
| "get_common_fields (Status69 m) = \<lparr>c_protocol_version = s69_protocol_version m,
     c_network_id = s69_network_id m, c_genesis_hash = s69_genesis_hash m, c_fork_id = s69_fork_id m\<rparr>"

datatype status_validation_error =
    kProtocolVersionMismatch | kNetworkIDMismatch | kGenesisMismatch | kInvalidBlockRange

section \<open>Encoding\<close>

definition fork_id_op :: "fork_id \<Rightarrow> encoder_op" where
  "fork_id_op f = list_of [put (add_bytes (fork_hash f)), put (add_u64 (next_fork f))]"

fun status_ops :: "status_message \<Rightarrow> encoder_op" where
  "status_ops (Status68 m) = list_of
     [put (add_u8 (s68_protocol_version m)),
      put (add_u64 (s68_network_id m)),
      put (add_uint256 (s68_td m)),
      put (add_bytes (s68_blockhash m)),
      put (add_bytes (s68_genesis_hash m)),
      fork_id_op (s68_fork_id m)]"
| "status_ops (Status69 m) = list_of
     [put (add_u8 (s69_protocol_version m)),
      put (add_u64 (s69_network_id m)),
      put (add_bytes (s69_genesis_hash m)),
      fork_id_op (s69_fork_id m),
      put (add_u64 (s69_earliest_block m)),
      put (add_u64 (s69_latest_block m)),
      put (add_bytes (s69_latest_block_hash m))]"

definition encode_status :: "status_message \<Rightarrow> encoding_error + bytes" where
  "encode_status m = outcome_try (status_ops m new_encoder) finalize_encoding"

section \<open>Schema-driven decoding\<close>

record decoded_status_fields =
  d_protocol_version :: "u8 option"
  d_network_id :: "u64 option"
  d_td :: "u256 option"
  d_block_hash :: "hash256 option"
  d_genesis_hash :: "hash256 option"
  d_fork_id :: "fork_id option"
  d_earliest_block :: "u64 option"
  d_latest_block :: "u64 option"
  d_latest_block_hash :: "hash256 option"

definition no_status_fields :: decoded_status_fields where
  "no_status_fields = \<lparr>d_protocol_version = None, d_network_id = None, d_td = None, d_block_hash = None,
     d_genesis_hash = None, d_fork_id = None, d_earliest_block = None, d_latest_block = None,
     d_latest_block_hash = None\<rparr>"

definition field :: "string \<Rightarrow> eth_message_field_type \<Rightarrow> nat option \<Rightarrow> nat \<Rightarrow> eth_message_field_schema" where
  "field nm ty sz off = \<lparr>fs_name = nm, fs_type = ty, fs_size = sz, fs_offset = Some off\<rparr>"

definition legacy_schema :: "u8 \<Rightarrow> eth_message_schema" where
  "legacy_schema version = \<lparr>ms_name = ''Status'', ms_message_id = kStatusMessageId,
     ms_protocol_version = Some version,
     ms_fields = [field ''protocol_version'' kUint8 None 0,
                  field ''network_id'' kUint64 None 1,
                  field ''td'' kUint256 None 2,
                  field ''block_hash'' kHash32 (Some 32) 3,
                  field ''genesis_hash'' kHash32 (Some 32) 4,
                  field ''fork_id'' kForkId None 5]\<rparr>"

definition default_status_schemas :: "eth_message_schema list" where
  "default_status_schemas =
     [\<lparr>ms_name = ''Status'', ms_message_id = kStatusMessageId,
       ms_protocol_version = Some kEthProtocolVersion69,
       ms_fields = [field ''protocol_version'' kUint8 None 0,
                    field ''network_id'' kUint64 None 1,
                    field ''genesis_hash'' kHash32 (Some 32) 2,
                    field ''fork_id'' kForkId None 3,
                    field ''earliest_block'' kUint64 None 4,
                    field ''latest_block'' kUint64 None 5,
                    field ''latest_block_hash'' kHash32 (Some 32) 6]\<rparr>,
      legacy_schema kEthProtocolVersion68, legacy_schema kEthProtocolVersion67,
      legacy_schema kEthProtocolVersion66]"

definition read_fork_id_field :: "fork_id decoder_op" where
  "read_fork_id_field d =
     outcome_try (ReadListHeaderBytes d) (\<lambda>(list_payload_size, d).
     if length (Remaining d) < list_payload_size then Inl kInputTooShort else
     let target_remaining = length (Remaining d) - list_payload_size in
     outcome_try (need_len (read_array 4) d) (\<lambda>(fh, d).
     outcome_try (need read_integral d) (\<lambda>(nf, d).
     if length (Remaining d) \<noteq> target_remaining then Inl kInputTooLong
     else Inr (\<lparr>fork_hash = fh, next_fork = nf\<rparr>, d))))"

definition uint_type_exceeded :: "eth_message_field_type \<Rightarrow> u64 \<Rightarrow> bool" where
  "uint_type_exceeded ty v \<longleftrightarrow> ty = kUint8 \<and> 255 < unat v \<or> ty = kUint16 \<and> 65535 < unat v
     \<or> ty = kUint32 \<and> 4294967295 < unat v"

definition store_uint :: "string \<Rightarrow> u64 \<Rightarrow> decoded_status_fields \<Rightarrow> decoded_status_fields" where
  "store_uint nm v out =
     (if nm = ''protocol_version'' then out\<lparr>d_protocol_version := Some (ucast v)\<rparr>
      else if nm = ''network_id'' then out\<lparr>d_network_id := Some v\<rparr>
      else if nm = ''earliest_block'' then out\<lparr>d_earliest_block := Some v\<rparr>
      else if nm = ''latest_block'' then out\<lparr>d_latest_block := Some v\<rparr>
      else out)"

definition store_hash :: "string \<Rightarrow> hash256 \<Rightarrow> decoded_status_fields \<Rightarrow> decoded_status_fields" where
  "store_hash nm v out =
     (if nm = ''block_hash'' then out\<lparr>d_block_hash := Some v\<rparr>
      else if nm = ''genesis_hash'' then out\<lparr>d_genesis_hash := Some v\<rparr>
      else if nm = ''latest_block_hash'' then out\<lparr>d_latest_block_hash := Some v\<rparr>
      else out)"

definition read_schema_field :: "eth_message_field_schema \<Rightarrow> nat \<Rightarrow> decoded_status_fields \<Rightarrow>
    decoded_status_fields decoder_op" where
  "read_schema_field fs index out d =
     (if fs_offset fs \<noteq> None \<and> fs_offset fs \<noteq> Some index then Inl kListLengthMismatch
      else if fs_type fs \<in> {kUint8, kUint16, kUint32, kUint64} then
        outcome_try (need read_integral d) (\<lambda>(v, d).
        if uint_type_exceeded (fs_type fs) v then Inl kOverflow else Inr (store_uint (fs_name fs) v out, d))
      else if fs_type fs = kUint256 then
        outcome_try (need read_uint256 d) (\<lambda>(v, d).
        Inr (if fs_name fs = ''td'' then out\<lparr>d_td := Some v\<rparr> else out, d))
      else if fs_type fs = kHash32 then
        outcome_try (need_len (read_array 32) d) (\<lambda>(v, d). Inr (store_hash (fs_name fs) v out, d))
      else if fs_type fs = kHash4 then
        outcome_try (read_array 4 d) (\<lambda>(_, d). Inr (out, d))
      else if fs_type fs = kForkId then
        outcome_try (read_fork_id_field d) (\<lambda>(v, d).
        Inr (if fs_name fs = ''fork_id'' then out\<lparr>d_fork_id := Some v\<rparr> else out, d))
      else if fs_type fs = kBytes \<and> fs_size fs \<noteq> None then
        outcome_try (read_bytes d) (\<lambda>(bs, d).
        if Some (length bs) \<noteq> fs_size fs then Inl kUnexpectedLength else Inr (out, d))
      else outcome_try (SkipItem d) (\<lambda>d. Inr (out, d)))"

fun read_schema_fields :: "eth_message_field_schema list \<Rightarrow> nat \<Rightarrow> decoded_status_fields \<Rightarrow>
    decoded_status_fields decoder_op" where
  "read_schema_fields [] i out d = Inr (out, d)"
| "read_schema_fields (fs # fss) i out d =
     outcome_try (read_schema_field fs i out d) (\<lambda>(out, d). read_schema_fields fss (i + 1) out d)"

definition decode_status_fields_with_schema :: "bytes \<Rightarrow> eth_message_schema \<Rightarrow> decoding_error + decoded_status_fields" where
  "decode_status_fields_with_schema rlp_data schema =
     (if ms_name schema \<noteq> ''Status'' \<or> ms_message_id schema \<noteq> kStatusMessageId then Inl kUnexpectedString
      else outcome_try (ReadListHeaderBytes \<lparr>view = rlp_data\<rparr>) (\<lambda>(list_payload_size, d).
      if length (Remaining d) < list_payload_size then Inl kInputTooShort else
      let target_remaining = length (Remaining d) - list_payload_size in
      if target_remaining \<noteq> 0 then Inl kInputTooLong else
      outcome_try (read_schema_fields (ms_fields schema) 0 no_status_fields d) (\<lambda>(out, d).
      if length (Remaining d) \<noteq> target_remaining then Inl kInputTooLong
      else if ms_protocol_version schema \<noteq> None \<and> d_protocol_version out \<noteq> ms_protocol_version schema
      then Inl kUnexpectedString
      else Inr out)))"

definition make_status_message_from_fields :: "decoded_status_fields \<Rightarrow> decoding_error + status_message" where
  "make_status_message_from_fields flds =
     (case (d_protocol_version flds, d_network_id flds, d_genesis_hash flds, d_fork_id flds) of
        (Some pv, Some nid, Some gh, Some fid) \<Rightarrow>
          if pv = kEthProtocolVersion69 then
            (let msg69 = \<lparr>s69_protocol_version = pv, s69_network_id = nid, s69_genesis_hash = gh,
                          s69_fork_id = fid, s69_earliest_block = 0, s69_latest_block = 0,
                          s69_latest_block_hash = replicate 32 0\<rparr>
             in case (d_earliest_block flds, d_latest_block flds, d_latest_block_hash flds) of
                  (Some eb, Some lb, Some lbh) \<Rightarrow>
                    Inr (Status69 (msg69\<lparr>s69_earliest_block := eb, s69_latest_block := lb,
                                         s69_latest_block_hash := lbh\<rparr>))
                | _ \<Rightarrow> (case d_block_hash flds of
                          Some bh \<Rightarrow> Inr (Status69 (msg69\<lparr>s69_latest_block_hash := bh\<rparr>))
                        | None \<Rightarrow> Inl kInputTooShort))
          else if pv = kEthProtocolVersion68 \<or> pv = kEthProtocolVersion67 \<or> pv = kEthProtocolVersion66 then
            (case (d_td flds, d_block_hash flds) of
               (Some td, Some bh) \<Rightarrow>
                 Inr (Status68 \<lparr>s68_protocol_version = pv, s68_network_id = nid, s68_td = td,
                                s68_blockhash = bh, s68_genesis_hash = gh, s68_fork_id = fid\<rparr>)
             | _ \<Rightarrow> Inl kInputTooShort)
          else Inl kUnexpectedString
      | _ \<Rightarrow> Inl kInputTooShort)"

fun decode_status_loop :: "bytes \<Rightarrow> eth_message_schema list \<Rightarrow> decoding_error \<Rightarrow> decoding_error + status_message" where
  "decode_status_loop rlp_data [] last_error = Inl last_error"
| "decode_status_loop rlp_data (schema # schemas) last_error =
     (case decode_status_fields_with_schema rlp_data schema of
        Inl err \<Rightarrow> decode_status_loop rlp_data schemas err
      | Inr flds \<Rightarrow>
          (case make_status_message_from_fields flds of
             Inr status \<Rightarrow> Inr status
           | Inl err \<Rightarrow> decode_status_loop rlp_data schemas err))"

definition decode_status_with :: "bytes \<Rightarrow> eth_message_schema list \<Rightarrow> decoding_error + status_message" where
  "decode_status_with rlp_data schemas = decode_status_loop rlp_data schemas kUnexpectedString"

definition decode_status :: "bytes \<Rightarrow> decoding_error + status_message" where
  "decode_status rlp_data = decode_status_with rlp_data default_status_schemas"

section \<open>Validation\<close>

definition validate_status :: "status_message \<Rightarrow> u64 \<Rightarrow> hash256 \<Rightarrow> status_validation_error + unit" where
  "validate_status msg expected_network_id expected_genesis =
     (let common = get_common_fields msg in
      if c_network_id common \<noteq> expected_network_id then Inl kNetworkIDMismatch
      else if c_genesis_hash common \<noteq> expected_genesis then Inl kGenesisMismatch
      else case msg of
        Status69 m \<Rightarrow>
          if s69_latest_block m \<noteq> 0 \<and> s69_latest_block m < s69_earliest_block m
          then Inl kInvalidBlockRange else Inr ()
      | Status68 _ \<Rightarrow> Inr ())"

section \<open>Correctness\<close>

definition fork_id_item :: "fork_id \<Rightarrow> rlp_item" where
  "fork_id_item f = RList [RStr (fork_hash f), RUint (unat (next_fork f))]"

fun status_items :: "status_message \<Rightarrow> rlp_item list" where
  "status_items (Status68 m) = [RUint (unat (s68_protocol_version m)), RUint (unat (s68_network_id m)),
     RUint (unat (s68_td m)), RStr (s68_blockhash m), RStr (s68_genesis_hash m), fork_id_item (s68_fork_id m)]"
| "status_items (Status69 m) = [RUint (unat (s69_protocol_version m)), RUint (unat (s69_network_id m)),
     RStr (s69_genesis_hash m), fork_id_item (s69_fork_id m), RUint (unat (s69_earliest_block m)),
     RUint (unat (s69_latest_block m)), RStr (s69_latest_block_hash m)]"

fun wf_status :: "status_message \<Rightarrow> bool" where
  "wf_status (Status68 m) \<longleftrightarrow> length (s68_blockhash m) = 32 \<and> length (s68_genesis_hash m) = 32 \<and>
     length (fork_hash (s68_fork_id m)) = 4 \<and> s68_protocol_version m \<in> {66, 67, 68}"
| "wf_status (Status69 m) \<longleftrightarrow> length (s69_genesis_hash m) = 32 \<and> length (s69_latest_block_hash m) = 32 \<and>
     length (fork_hash (s69_fork_id m)) = 4 \<and> s69_protocol_version m = 69"

lemma length_uint_item:
  "length (rlp_encode (RUint (unat (a :: u8)))) \<le> 33" "length (rlp_encode (RUint (unat (b :: u64)))) \<le> 33"
  "length (rlp_encode (RUint (unat (c :: u256)))) \<le> 33"
  by (rule length_RUint_le, rule less_le_trans [OF unat_less_exp], simp)+

lemma length_short_item: "length bs \<le> 55 \<Longrightarrow> length (rlp_encode (RStr bs)) \<le> length bs + 1"
  using length_rlp_str_le [of bs] by (simp add: rlp_encode_simps)

lemma length_fork_id_item: "length (fork_hash f) = 4 \<Longrightarrow> length (rlp_encode (fork_id_item f)) \<le> 47"
  using length_short_item [of "fork_hash f"] length_uint_item(2) [of "next_fork f"]
  by (simp add: fork_id_item_def rlp_encode_simps(2) rlp_list_def rlp_prefix_def)

lemma fits_status: "wf_status m \<Longrightarrow> fits (RList (status_items m))"
proof (rule fits_RListI, cases m)
  assume w: "wf_status m"
  {
    fix x assume "m = Status68 x"
    with w length_uint_item(1) [of "s68_protocol_version x"] length_uint_item(2) [of "s68_network_id x"]
      length_uint_item(3) [of "s68_td x"] length_short_item [of "s68_blockhash x"]
      length_short_item [of "s68_genesis_hash x"] length_fork_id_item [of "s68_fork_id x"]
    show "length (rlp_encodes (status_items m)) < 2 ^ 63" by simp
  next
    fix x assume "m = Status69 x"
    with w length_uint_item(1) [of "s69_protocol_version x"] length_uint_item(2) [of "s69_network_id x"]
      length_uint_item(2) [of "s69_earliest_block x"] length_uint_item(2) [of "s69_latest_block x"]
      length_short_item [of "s69_genesis_hash x"] length_short_item [of "s69_latest_block_hash x"]
      length_fork_id_item [of "s69_fork_id x"]
    show "length (rlp_encodes (status_items m)) < 2 ^ 63" by simp
  }
qed

lemma fits_fork_id: "length (fork_hash f) = 4 \<Longrightarrow> fits (fork_id_item f)"
  using length_fork_id_item [of f] by (simp add: fits_def)

lemma emits_fork_id [simp]: "length (fork_hash f) = 4 \<Longrightarrow> emits_item (fork_id_op f) (fork_id_item f)"
  using fits_fork_id [of f] unfolding fork_id_op_def fork_id_item_def
  by (intro emits_item_list_of) simp_all

lemma encode_status_eq: "wf_status m \<Longrightarrow> encode_status m = Inr (rlp_encode (RList (status_items m)))"
proof -
  assume w: "wf_status m"
  then have "emits_item (status_ops m) (RList (status_items m))"
    using fits_status [OF w] emits_item_put [OF emits_item_ints(1) [of 69]]
    by (cases m) (auto intro!: emits_item_list_of)
  then show ?thesis by (simp add: encode_status_def emits_item_finalize)
qed

lemma read_fork_id_reads [simp]:
  assumes "length (fork_hash f) = 4"
  shows "read_fork_id_field \<lparr>view = rlp_encode (fork_id_item f) @ rest\<rparr> = Inr (f, \<lparr>view = rest\<rparr>)"
proof -
  note f = fits_fork_id [OF assms, unfolded fork_id_item_def]
  show ?thesis using assms f unfolding fork_id_item_def
    by (simp add: read_fork_id_field_def Remaining_def Let_def)
qed

lemma read_fork_id_reads_end [simp]:
  "length (fork_hash f) = 4 \<Longrightarrow> read_fork_id_field \<lparr>view = rlp_encode (fork_id_item f)\<rparr> = Inr (f, \<lparr>view = []\<rparr>)"
  using read_fork_id_reads [of f "[]"] by simp

lemma read_u8_as_u64 [simp]:
  "read_integral \<lparr>view = rlp_encode (RUint (unat (a :: u8))) @ rest\<rparr> = Inr (ucast a :: u64, \<lparr>view = rest\<rparr>)"
proof -
  have "unat a < 2 ^ 64" by (rule less_trans [OF unat_byte_less]) simp
  then show ?thesis by (simp add: read_integral_RUint)
qed

lemma unat_ucast_u8_u64 [simp]: "unat (ucast (a :: u8) :: u64) = unat a"
  by (rule unat_ucast_widen) simp

lemma ucast_u8_u64_u8 [simp]: "(ucast (ucast (a :: u8) :: u64) :: u8) = a"
  by (metis ucast_byte_of_nat unat_ucast_u8_u64 of_nat_unat ucast_id)

lemmas status_schema_defs =
  decode_status_fields_with_schema_def legacy_schema_def field_def read_schema_field_def no_status_fields_def
  uint_type_exceeded_def store_uint_def store_hash_def Remaining_def

lemma not_exceeded_u8 [simp]: "\<not> 255 < unat (a :: u8)"
  using unat_byte_less [of a] by linarith

lemma legacy_schema_reads:
  assumes "wf_status (Status68 m)"
  shows "decode_status_fields_with_schema (rlp_encode (RList (status_items (Status68 m)))) (legacy_schema v) =
    (if s68_protocol_version m = v then
       Inr \<lparr>d_protocol_version = Some v, d_network_id = Some (s68_network_id m), d_td = Some (s68_td m),
            d_block_hash = Some (s68_blockhash m), d_genesis_hash = Some (s68_genesis_hash m),
            d_fork_id = Some (s68_fork_id m), d_earliest_block = None, d_latest_block = None,
            d_latest_block_hash = None\<rparr>
     else Inl kUnexpectedString)"
  using assms fits_status [OF assms] by (simp add: status_schema_defs Let_def)

abbreviation schema69 :: eth_message_schema where
  "schema69 \<equiv> hd default_status_schemas"

lemma schema69_reads:
  assumes "wf_status (Status69 m)"
  shows "decode_status_fields_with_schema (rlp_encode (RList (status_items (Status69 m)))) schema69 =
     Inr \<lparr>d_protocol_version = Some 69, d_network_id = Some (s69_network_id m), d_td = None,
          d_block_hash = None, d_genesis_hash = Some (s69_genesis_hash m),
          d_fork_id = Some (s69_fork_id m), d_earliest_block = Some (s69_earliest_block m),
          d_latest_block = Some (s69_latest_block m), d_latest_block_hash = Some (s69_latest_block_hash m)\<rparr>"
proof -
  have v: "unat (69 :: u8) = 69" "(word_of_nat 69 :: u64) = 69" by simp_all
  show ?thesis
    using assms fits_status [OF assms] read_u8_as_u64 [of 69]
    by (simp add: default_status_schemas_def status_schema_defs Let_def)
qed

lemma hash_then_fork_id_fails:
  assumes "fits (RStr bs)"
  obtains err where "need_len (read_array 32) \<lparr>view = rlp_encode (RUint (unat (n :: u256))) @ rlp_encode (RStr bs) @ rest\<rparr> = Inl err"
  | v d err where "need_len (read_array 32) \<lparr>view = rlp_encode (RUint (unat n)) @ rlp_encode (RStr bs) @ rest\<rparr> = Inr (v, d)"
      "read_fork_id_field d = Inl err"
proof -
  have p: "length (nat_to_be (unat n)) < 2 ^ 64"
    using length_nat_to_be_u256 [of "unat n"] unat_less_exp [of n] by simp
  note r = read_array_item [OF p, of 32 False "rlp_encode (RStr bs) @ rest"]
  show ?thesis
  proof (cases "length (nat_to_be (unat n)) = 32")
    case True
    with r assms that(2) show ?thesis
      by (simp add: RUint_def rlp_encode_item_bytes(1) [of "nat_to_be (unat n)"] need_len_def read_fork_id_field_def)
  next
    case False
    with r that(1) show ?thesis
      by (simp add: RUint_def rlp_encode_item_bytes(1) [of "nat_to_be (unat n)"] need_len_def)
  qed
qed

lemma schema69_rejects_68:
  assumes "wf_status (Status68 m)"
  shows "\<exists>err. decode_status_fields_with_schema (rlp_encode (RList (status_items (Status68 m)))) schema69 = Inl err"
proof -
  let ?rest = "rlp_encode (RStr (s68_genesis_hash m)) @ rlp_encode (fork_id_item (s68_fork_id m))"
  have "fits (RStr (s68_blockhash m))" using assms by simp
  then show ?thesis
  proof (cases rule: hash_then_fork_id_fails [where n = "s68_td m" and rest = ?rest])
    case (1 err)
    with fits_status [OF assms] show ?thesis
      by (simp add: default_status_schemas_def status_schema_defs Let_def)
  next
    case (2 v d err)
    with fits_status [OF assms] show ?thesis
      by (simp add: default_status_schemas_def status_schema_defs Let_def)
  qed
qed

lemma decode_status_reads:
  assumes "wf_status m"
  shows "decode_status (rlp_encode (RList (status_items m))) = Inr m"
proof (cases m)
  case (Status68 x)
  with assms have w: "wf_status (Status68 x)" and v: "s68_protocol_version x \<in> {66, 67, 68}" by simp_all
  obtain err where e: "decode_status_fields_with_schema (rlp_encode (RList (status_items (Status68 x)))) schema69 = Inl err"
    using schema69_rejects_68 [OF w] by blast
  have s: "default_status_schemas = [schema69, legacy_schema 68, legacy_schema 67, legacy_schema 66]"
    by (simp add: default_status_schemas_def)
  have "decode_status_with (rlp_encode (RList (status_items (Status68 x))))
      [schema69, legacy_schema 68, legacy_schema 67, legacy_schema 66] = Inr (Status68 x)"
    using v e by (auto simp: decode_status_with_def legacy_schema_reads [OF w] make_status_message_from_fields_def
      simp del: status_items.simps)
  then show ?thesis by (simp only: Status68 decode_status_def s [symmetric])
next
  case (Status69 x)
  with assms have w: "wf_status (Status69 x)" by simp
  have s: "default_status_schemas = schema69 # tl default_status_schemas"
    by (simp add: default_status_schemas_def)
  show ?thesis
    unfolding Status69 decode_status_def decode_status_with_def
    using w by (subst s) (simp add: schema69_reads [OF w] make_status_message_from_fields_def del: status_items.simps)
qed

text \<open>
  A Status message of eth/66 to eth/69 is encoded to its field list, and the decoder, trying the
  built-in schemas in order, returns exactly the message that was encoded, in the right version.
\<close>

theorem status_round_trip:
  assumes "wf_status m"
  shows "encode_status m = Inr (rlp_encode (RList (status_items m))) \<and>
    decode_status (rlp_encode (RList (status_items m))) = Inr m"
  using encode_status_eq [OF assms] decode_status_reads [OF assms] by simp

theorem status_round_trip_witness:
  "decode_status (rlp_encode (RList (status_items (Status68 \<lparr>s68_protocol_version = 67, s68_network_id = 1,
      s68_td = 17, s68_blockhash = replicate 32 1, s68_genesis_hash = replicate 32 2,
      s68_fork_id = \<lparr>fork_hash = [1, 2, 3, 4], next_fork = 0\<rparr>\<rparr>)))) =
   Inr (Status68 \<lparr>s68_protocol_version = 67, s68_network_id = 1,
      s68_td = 17, s68_blockhash = replicate 32 1, s68_genesis_hash = replicate 32 2,
      s68_fork_id = \<lparr>fork_hash = [1, 2, 3, 4], next_fork = 0\<rparr>\<rparr>)"
  by (rule conjunct2 [OF status_round_trip]) simp

lemma make_status_version:
  "make_status_message_from_fields f = Inr m \<Longrightarrow>
     (case m of Status69 x \<Rightarrow> s69_protocol_version x = 69 | Status68 x \<Rightarrow> s68_protocol_version x \<in> {66, 67, 68})"
  by (auto simp: make_status_message_from_fields_def Let_def split: option.splits if_splits)

lemma decode_status_loop_version:
  "decode_status_loop data schemas err = Inr m \<Longrightarrow>
     (case m of Status69 x \<Rightarrow> s69_protocol_version x = 69 | Status68 x \<Rightarrow> s68_protocol_version x \<in> {66, 67, 68})"
  by (induction data schemas err rule: decode_status_loop.induct)
     (auto split: sum.splits dest: make_status_version)

text \<open>
  Whatever schemas are configured, a status the decoder accepts has a protocol version that
  belongs to the message form it was decoded to, and validation accepts it exactly when network id
  and genesis match and, for eth/69, the block range is not inverted.
\<close>

theorem decode_validate_status:
  assumes "decode_status_with data schemas = Inr m"
  shows "(case m of Status69 x \<Rightarrow> s69_protocol_version x = 69 | Status68 x \<Rightarrow> s68_protocol_version x \<in> {66, 67, 68}) \<and>
    (validate_status m nid gen = Inr () \<longleftrightarrow>
       c_network_id (get_common_fields m) = nid \<and> c_genesis_hash (get_common_fields m) = gen \<and>
       (\<forall>x. m = Status69 x \<longrightarrow> s69_latest_block x = 0 \<or> s69_earliest_block x \<le> s69_latest_block x))"
proof -
  have v: "case m of Status69 x \<Rightarrow> s69_protocol_version x = 69 | Status68 x \<Rightarrow> s68_protocol_version x \<in> {66, 67, 68}"
    using assms decode_status_loop_version unfolding decode_status_with_def by blast
  moreover have "validate_status m nid gen = Inr () \<longleftrightarrow>
       c_network_id (get_common_fields m) = nid \<and> c_genesis_hash (get_common_fields m) = gen \<and>
       (\<forall>x. m = Status69 x \<longrightarrow> s69_latest_block x = 0 \<or> s69_earliest_block x \<le> s69_latest_block x)"
    by (cases m) (auto simp: validate_status_def Let_def not_less)
  ultimately show ?thesis by blast
qed

theorem decode_validate_status_witness:
  "validate_status (Status69 \<lparr>s69_protocol_version = 69, s69_network_id = 1, s69_genesis_hash = replicate 32 2,
      s69_fork_id = \<lparr>fork_hash = [1, 2, 3, 4], next_fork = 0\<rparr>, s69_earliest_block = 5, s69_latest_block = 9,
      s69_latest_block_hash = replicate 32 3\<rparr>) 1 (replicate 32 2) = Inr ()"
proof -
  let ?m = "Status69 \<lparr>s69_protocol_version = 69, s69_network_id = 1, s69_genesis_hash = replicate 32 2,
      s69_fork_id = \<lparr>fork_hash = [1, 2, 3, 4], next_fork = 0\<rparr>, s69_earliest_block = 5, s69_latest_block = 9,
      s69_latest_block_hash = replicate 32 3\<rparr>"
  have "decode_status_with (rlp_encode (RList (status_items ?m))) default_status_schemas = Inr ?m"
    using decode_status_reads [of ?m] by (simp add: decode_status_def)
  from decode_validate_status [OF this, of 1 "replicate 32 2"] show ?thesis by simp
qed

end
