(* ===== verification/Eth_Messages.thy ===== *)
theory Eth_Messages
  imports Eth_Status
begin

text \<open>
  The message codecs of src/eth/messages.cpp after the Status section: announcements, block range
  updates, the request and response pairs with their eth/66 request ids, and full blocks. The
  requests and responses share one contract, the locale \<open>request_codec\<close>: a payload writer and a
  payload reader that fit together give a message round trip.
\<close>

section \<open>Messages with a request id\<close>

definition request_ops :: "u64 option \<Rightarrow> encoder_op \<Rightarrow> encoder_op" where
  "request_ops rid payload =
     (case rid of Some r \<Rightarrow> list_of [put (add_u64 r), payload] | None \<Rightarrow> payload)"

definition encode_request :: "u64 option \<Rightarrow> encoder_op \<Rightarrow> encoding_error + bytes" where
  "encode_request rid payload = outcome_try (request_ops rid payload new_encoder) finalize_encoding"

definition expect_end :: "rlp_decoder \<Rightarrow> 'a \<Rightarrow> decoding_error + 'a" where
  "expect_end d x = (if \<not> IsFinished d then Inl kInputTooLong else Inr x)"

definition decode_request :: "'a decoder_op \<Rightarrow> bytes \<Rightarrow> decoding_error + (u64 option \<times> 'a)" where
  "decode_request get_payload rlp_data =
     outcome_try (ReadListHeaderBytes \<lparr>view = rlp_data\<rparr>) (\<lambda>(_, d).
     case consume_eth66_request_id d of (rid, d) \<Rightarrow>
     outcome_try (get_payload d) (\<lambda>(x, d). expect_end d (rid, x)))"

lemma expect_end_simps [simp]: "expect_end \<lparr>view = []\<rparr> x = Inr x"
  by (simp add: expect_end_def IsFinished_def)

definition request_wire :: "u64 \<Rightarrow> rlp_item list \<Rightarrow> rlp_item" where
  "request_wire rid payload = RList [RUint (unat rid), RList payload]"

lemma fits_wire: "fits (request_wire rid ts) \<Longrightarrow> fits (RList ts)"
  by (auto simp: request_wire_def intro: fits_RList_elem)

locale request_codec =
  fixes put_payload :: "'x \<Rightarrow> encoder_op"
    and items :: "'x \<Rightarrow> rlp_item list"
    and wf :: "'x \<Rightarrow> bool"
    and out :: "'x \<Rightarrow> 'y"
    and get_payload :: "'y decoder_op"
  assumes writes: "wf x \<Longrightarrow> fits (RList (items x)) \<Longrightarrow> emits_item (put_payload x) (RList (items x))"
    and reads: "wf x \<Longrightarrow> fits (RList (items x)) \<Longrightarrow>
      get_payload \<lparr>view = rlp_encode (RList (items x)) @ rest\<rparr> = Inr (out x, \<lparr>view = rest\<rparr>)"
begin

lemma request_written:
  assumes "wf x" "fits (request_wire rid (items x))"
  shows "encode_request (Some rid) (put_payload x) = Inr (rlp_encode (request_wire rid (items x)))"
proof -
  have "emits_item (request_ops (Some rid) (put_payload x)) (request_wire rid (items x))"
    using assms writes [OF assms(1) fits_wire [OF assms(2)]] unfolding request_ops_def request_wire_def by simp
  then show ?thesis by (simp add: encode_request_def emits_item_finalize)
qed

lemma request_read:
  assumes "wf x" "fits (request_wire rid (items x))"
  shows "decode_request get_payload (rlp_encode (request_wire rid (items x))) = Inr (Some rid, out x)"
  using assms(2) fits_wire [OF assms(2)] reads [OF assms(1) fits_wire [OF assms(2)], of "[]"]
    request_id_found [OF fits_wire [OF assms(2)], of rid "[]"]
  unfolding request_wire_def by (simp add: decode_request_def)

end

section \<open>Headers, receipts, pooled transactions and bodies\<close>

record block_headers_message =
  bhm_request_id :: "u64 option"
  bhm_headers :: "block_header list"

record get_receipts_message =
  grm_request_id :: "u64 option"
  grm_block_hashes :: "hash256 list"

record receipts_message =
  rm_request_id :: "u64 option"
  rm_receipts :: "receipt list list"

record get_pooled_transactions_message =
  gpm_request_id :: "u64 option"
  gpm_transaction_hashes :: "hash256 list"

record pooled_transactions_message =
  pm_request_id :: "u64 option"
  pm_encoded_transactions :: "bytes list"

record get_block_bodies_message =
  gbm_request_id :: "u64 option"
  gbm_block_hashes :: "hash256 list"

record block_bodies_message =
  bbm_request_id :: "u64 option"
  bbm_bodies :: "block_body list"

definition encode_block_headers :: "block_headers_message \<Rightarrow> encoding_error + bytes" where
  "encode_block_headers m = encode_request (bhm_request_id m) (encode_block_headers_payload (bhm_headers m))"

definition decode_block_headers :: "bytes \<Rightarrow> decoding_error + block_headers_message" where
  "decode_block_headers rlp_data =
     outcome_try (decode_request decode_block_headers_payload rlp_data) (\<lambda>(rid, hs).
     Inr \<lparr>bhm_request_id = rid, bhm_headers = hs\<rparr>)"

definition encode_get_receipts :: "get_receipts_message \<Rightarrow> encoding_error + bytes" where
  "encode_get_receipts m = encode_request (grm_request_id m) (encode_hash_list (grm_block_hashes m))"

definition decode_get_receipts :: "bytes \<Rightarrow> decoding_error + get_receipts_message" where
  "decode_get_receipts rlp_data =
     outcome_try (decode_request decode_hash_list rlp_data) (\<lambda>(rid, hs).
     Inr \<lparr>grm_request_id = rid, grm_block_hashes = hs\<rparr>)"

definition encode_receipts :: "receipts_message \<Rightarrow> encoding_error + bytes" where
  "encode_receipts m = encode_request (rm_request_id m) (encode_receipts_payload (rm_receipts m))"

definition decode_receipts :: "bytes \<Rightarrow> decoding_error + receipts_message" where
  "decode_receipts rlp_data =
     outcome_try (decode_request decode_receipts_payload rlp_data) (\<lambda>(rid, rs).
     Inr \<lparr>rm_request_id = rid, rm_receipts = rs\<rparr>)"

definition encode_get_pooled_transactions :: "get_pooled_transactions_message \<Rightarrow> encoding_error + bytes" where
  "encode_get_pooled_transactions m =
     encode_request (gpm_request_id m) (encode_hash_list (gpm_transaction_hashes m))"

definition decode_get_pooled_transactions :: "bytes \<Rightarrow> decoding_error + get_pooled_transactions_message" where
  "decode_get_pooled_transactions rlp_data =
     outcome_try (decode_request decode_hash_list rlp_data) (\<lambda>(rid, hs).
     Inr \<lparr>gpm_request_id = rid, gpm_transaction_hashes = hs\<rparr>)"

definition encode_pooled_transactions :: "pooled_transactions_message \<Rightarrow> encoding_error + bytes" where
  "encode_pooled_transactions m =
     encode_request (pm_request_id m) (encode_pooled_transactions_payload (pm_encoded_transactions m))"

definition decode_pooled_transactions :: "bytes \<Rightarrow> decoding_error + pooled_transactions_message" where
  "decode_pooled_transactions rlp_data =
     outcome_try (decode_request decode_pooled_transactions_payload rlp_data) (\<lambda>(rid, txs).
     Inr \<lparr>pm_request_id = rid, pm_encoded_transactions = txs\<rparr>)"

definition encode_get_block_bodies :: "get_block_bodies_message \<Rightarrow> encoding_error + bytes" where
  "encode_get_block_bodies m = encode_request (gbm_request_id m) (encode_hash_list (gbm_block_hashes m))"

definition decode_get_block_bodies :: "bytes \<Rightarrow> decoding_error + get_block_bodies_message" where
  "decode_get_block_bodies rlp_data =
     outcome_try (decode_request decode_hash_list rlp_data) (\<lambda>(rid, hs).
     Inr \<lparr>gbm_request_id = rid, gbm_block_hashes = hs\<rparr>)"

definition encode_block_bodies :: "block_bodies_message \<Rightarrow> encoding_error + bytes" where
  "encode_block_bodies m = encode_request (bbm_request_id m) (encode_bodies (bbm_bodies m))"

definition decode_block_bodies :: "bytes \<Rightarrow> decoding_error + block_bodies_message" where
  "decode_block_bodies rlp_data =
     outcome_try (decode_request decode_bodies rlp_data) (\<lambda>(rid, bs).
     Inr \<lparr>bbm_request_id = rid, bbm_bodies = bs\<rparr>)"

interpretation header_msgs: request_codec encode_block_headers_payload "map header_item"
    "\<lambda>hs. \<forall>h \<in> set hs. wf_block_header h" "\<lambda>hs. hs" decode_block_headers_payload
  by unfold_locales simp_all

interpretation hash_msgs: request_codec encode_hash_list "map RStr" "\<lambda>hs. \<forall>h \<in> set hs. length h = 32"
    "\<lambda>hs. hs" decode_hash_list
  by unfold_locales simp_all

interpretation receipt_msgs: request_codec encode_receipts_payload "map (\<lambda>rs. RList (map receipt_item rs))"
    "\<lambda>bs. \<forall>rs \<in> set bs. \<forall>rc \<in> set rs. wf_receipt rc" "map (map canonical_receipt)" decode_receipts_payload
  by unfold_locales (simp_all flip: receipts_payload_item_def)

interpretation pooled_msgs: request_codec "\<lambda>ts. encode_pooled_transactions_payload (map rlp_encode ts)" "\<lambda>ts. ts"
    "\<lambda>_. True" "map rlp_encode" decode_pooled_transactions_payload
  by unfold_locales simp_all

interpretation body_msgs: request_codec encode_bodies "map (\<lambda>b. RList (body_items b))"
    "\<lambda>bs. \<forall>b \<in> set bs. wf_body b" "map canonical_body" decode_bodies
  by unfold_locales simp_all

section \<open>Schema variants\<close>

abbreviation (input) kGetReceiptsMessageId :: u8 where "kGetReceiptsMessageId \<equiv> 0x0f"
abbreviation (input) kReceiptsMessageId :: u8 where "kReceiptsMessageId \<equiv> 0x10"

definition schema_has_field :: "eth_message_schema list \<Rightarrow> u8 \<Rightarrow> string \<Rightarrow> bool" where
  "schema_has_field schemas mid nm \<longleftrightarrow>
     list_ex (\<lambda>s. ms_message_id s = mid \<and> list_ex (\<lambda>f. fs_name f = nm) (ms_fields s)) schemas"

definition decode_get_receipts_with :: "bytes \<Rightarrow> eth_message_schema list \<Rightarrow> decoding_error + get_receipts_message" where
  "decode_get_receipts_with rlp_data schemas =
     (if \<not> schema_has_field schemas kGetReceiptsMessageId ''first_block_receipt_index''
      then decode_get_receipts rlp_data
      else outcome_try (ReadListHeaderBytes \<lparr>view = rlp_data\<rparr>) (\<lambda>(_, d).
      outcome_try (need read_integral d) (\<lambda>(rid, d).
      outcome_try (need read_integral d) (\<lambda>(_ :: u64, d).
      outcome_try (decode_hash_list d) (\<lambda>(hs, d).
      expect_end d \<lparr>grm_request_id = Some rid, grm_block_hashes = hs\<rparr>)))))"

definition decode_receipts_with :: "bytes \<Rightarrow> eth_message_schema list \<Rightarrow> decoding_error + receipts_message" where
  "decode_receipts_with rlp_data schemas =
     (if \<not> schema_has_field schemas kReceiptsMessageId ''last_block_incomplete''
      then decode_receipts rlp_data
      else outcome_try (ReadListHeaderBytes \<lparr>view = rlp_data\<rparr>) (\<lambda>(_, d).
      outcome_try (need read_integral d) (\<lambda>(rid, d).
      outcome_try (need read_bool d) (\<lambda>(_, d).
      outcome_try (decode_receipts_payload d) (\<lambda>(rs, d).
      expect_end d \<lparr>rm_request_id = Some rid, rm_receipts = rs\<rparr>)))))"

definition decode_block_bodies_with :: "bytes \<Rightarrow> eth_message_schema list \<Rightarrow> decoding_error + block_bodies_message" where
  "decode_block_bodies_with rlp_data _ = decode_block_bodies rlp_data"

section \<open>Announcements and range updates\<close>

record new_block_hash_entry =
  nbh_hash :: hash256
  nbh_number :: u64

definition new_block_hashes_op :: "new_block_hash_entry list \<Rightarrow> encoder_op" where
  "new_block_hashes_op entries =
     list_of (map (\<lambda>en. list_of [put (add_bytes (nbh_hash en)), put (add_u64 (nbh_number en))]) entries)"

definition encode_new_block_hashes :: "new_block_hash_entry list \<Rightarrow> encoding_error + bytes" where
  "encode_new_block_hashes entries = outcome_try (new_block_hashes_op entries new_encoder) finalize_encoding"

definition read_block_hash_entry :: "new_block_hash_entry decoder_op" where
  "read_block_hash_entry d =
     outcome_try (ReadListHeaderBytes d) (\<lambda>(_, d).
     outcome_try (need_len (read_array 32) d) (\<lambda>(h, d).
     outcome_try (need read_integral d) (\<lambda>(n, d).
     Inr (\<lparr>nbh_hash = h, nbh_number = n\<rparr>, d))))"

lemma read_block_hash_entry_consumes:
  "read_block_hash_entry d = Inr (x, d') \<Longrightarrow> length (view d') < length (view d)"
  by (auto simp: read_block_hash_entry_def outcome_iffs need_iff dest!: consumes)

text \<open>\<open>while (!decoder.IsFinished())\<close>: the loop runs to the end of the input, whatever the list header said.\<close>

function block_hash_loop :: "nat \<Rightarrow> rlp_decoder \<Rightarrow> new_block_hash_entry list
    \<Rightarrow> decoding_error + (new_block_hash_entry list \<times> rlp_decoder)" where
  "block_hash_loop end_size d acc =
     (if end_size < length (view d)
      then outcome_try (read_block_hash_entry d) (\<lambda>(x, d'). block_hash_loop end_size d' (acc @ [x]))
      else Inr (acc, d))"
  by pat_completeness auto
termination
  by (relation "measure (\<lambda>(_, d, _). length (view d))") (auto dest: read_block_hash_entry_consumes)

declare block_hash_loop.simps [simp del]

definition decode_new_block_hashes :: "bytes \<Rightarrow> decoding_error + new_block_hash_entry list" where
  "decode_new_block_hashes rlp_data =
     outcome_try (ReadListHeaderBytes \<lparr>view = rlp_data\<rparr>) (\<lambda>(_, d).
     outcome_try (block_hash_loop 0 d []) (\<lambda>(es, _). Inr es))"

definition block_hash_item :: "new_block_hash_entry \<Rightarrow> rlp_item" where
  "block_hash_item en = RList [RStr (nbh_hash en), RUint (unat (nbh_number en))]"

lemma read_block_hash_entry_reads:
  "length (nbh_hash x) = 32 \<Longrightarrow> fits (block_hash_item x) \<Longrightarrow>
     read_block_hash_entry \<lparr>view = rlp_encode (block_hash_item x) @ rest\<rparr> = Inr (x, \<lparr>view = rest\<rparr>)"
  by (simp add: read_block_hash_entry_def block_hash_item_def)

interpretation block_hashes: item_loop block_hash_item "\<lambda>x. length (nbh_hash x) = 32" "\<lambda>x. x"
    read_block_hash_entry block_hash_loop
  by unfold_locales (subst block_hash_loop.simps, auto simp: read_block_hash_entry_reads)

record block_range_update_message =
  bru_earliest_block :: u64
  bru_latest_block :: u64
  bru_latest_block_hash :: hash256

definition encode_block_range_update :: "block_range_update_message \<Rightarrow> encoding_error + bytes" where
  "encode_block_range_update m =
     outcome_try (list_of
       [put (add_u64 (bru_earliest_block m)), put (add_u64 (bru_latest_block m)),
        put (add_bytes (bru_latest_block_hash m))] new_encoder) finalize_encoding"

definition decode_block_range_update :: "bytes \<Rightarrow> decoding_error + block_range_update_message" where
  "decode_block_range_update rlp_data =
     outcome_try (list_target \<lparr>view = rlp_data\<rparr>) (\<lambda>(target, d).
     outcome_try (need read_integral d) (\<lambda>(e, d).
     outcome_try (need read_integral d) (\<lambda>(l, d).
     outcome_try (need_len (read_array 32) d) (\<lambda>(h, d).
     at_target target d (
     Inr \<lparr>bru_earliest_block = e, bru_latest_block = l, bru_latest_block_hash = h\<rparr>)))))"

definition encode_upgrade_status :: "bool \<Rightarrow> encoding_error + bytes" where
  "encode_upgrade_status disable_peer_tx_broadcast =
     outcome_try (list_of [put (add_bool disable_peer_tx_broadcast)] new_encoder) finalize_encoding"

definition decode_upgrade_status :: "bytes \<Rightarrow> decoding_error + bool" where
  "decode_upgrade_status rlp_data =
     outcome_try (list_target \<lparr>view = rlp_data\<rparr>) (\<lambda>(target, d).
     outcome_try (need read_bool d) (\<lambda>(b, d).
     outcome_try (ignore_items target d) (\<lambda>d.
     at_target target d (Inr b))))"

record new_pooled_tx_hashes_message =
  np_types :: bytes
  np_sizes :: "u32 list"
  np_hashes :: "hash256 list"

definition encode_new_pooled_tx_hashes :: "new_pooled_tx_hashes_message \<Rightarrow> encoding_error + bytes" where
  "encode_new_pooled_tx_hashes m =
     (if length (np_types m) \<noteq> length (np_hashes m) \<or> length (np_sizes m) \<noteq> length (np_hashes m)
      then Inl kEmptyInput
      else outcome_try (list_of
             [put (add_bytes (np_types m)),
              put (encode_uint32_list (np_sizes m)),
              put (encode_hash_list (np_hashes m))] new_encoder) finalize_encoding)"

fun legacy_pooled_hashes :: "bytes list \<Rightarrow> decoding_error + hash256 list" where
  "legacy_pooled_hashes [] = Inr []"
| "legacy_pooled_hashes (item # items) =
     (case read_array 32 \<lparr>view = item\<rparr> of
        Inl _ \<Rightarrow> Inl kUnexpectedLength
      | Inr (h, d) \<Rightarrow>
          if \<not> IsFinished d then Inl kUnexpectedLength
          else outcome_try (legacy_pooled_hashes items) (\<lambda>hs. Inr (h # hs)))"

definition is_list_item :: "bytes \<Rightarrow> bool" where
  "is_list_item item = (case PeekHeader \<lparr>view = item\<rparr> of Inl _ \<Rightarrow> False | Inr h \<Rightarrow> list_h h)"

definition decode_new_pooled_tx_hashes :: "bytes \<Rightarrow> decoding_error + new_pooled_tx_hashes_message" where
  "decode_new_pooled_tx_hashes rlp_data =
     outcome_try (list_target \<lparr>view = rlp_data\<rparr>) (\<lambda>(target, d).
     outcome_try (pooled_loop target d []) (\<lambda>(items, d).
     at_target target d (
     if length items = 3 \<and> is_list_item (items ! 1) \<and> is_list_item (items ! 2) then
       (case read_bytes \<lparr>view = items ! 0\<rparr> of
          Inl _ \<Rightarrow> Inl kUnexpectedString
        | Inr (tys, types_decoder) \<Rightarrow>
            if \<not> IsFinished types_decoder then Inl kUnexpectedString
            else outcome_try (decode_uint32_list \<lparr>view = items ! 1\<rparr>) (\<lambda>(szs, _).
                 outcome_try (decode_hash_list \<lparr>view = items ! 2\<rparr>) (\<lambda>(hs, _).
                 if length tys \<noteq> length hs \<or> length szs \<noteq> length hs then Inl kUnexpectedLength
                 else Inr \<lparr>np_types = tys, np_sizes = szs, np_hashes = hs\<rparr>)))
     else outcome_try (legacy_pooled_hashes items) (\<lambda>hs.
            Inr \<lparr>np_types = [], np_sizes = [], np_hashes = hs\<rparr>))))"

section \<open>The header query and full blocks\<close>

definition encode_get_block_headers :: "get_block_headers_message \<Rightarrow> encoding_error + bytes" where
  "encode_get_block_headers m = encode_request (gbh_request_id m) (encode_get_block_headers_payload m)"

definition decode_get_block_headers :: "bytes \<Rightarrow> decoding_error + get_block_headers_message" where
  "decode_get_block_headers rlp_data =
     outcome_try (ReadListHeaderBytes \<lparr>view = rlp_data\<rparr>) (\<lambda>(_, d).
     case consume_eth66_request_id d of (rid, d) \<Rightarrow>
     outcome_try (if rid \<noteq> None then outcome_try (ReadListHeaderBytes d) (\<lambda>(_, d). Inr d) else Inr d) (\<lambda>d.
     outcome_try (decode_get_block_headers_payload rid d) (\<lambda>(m, d).
     expect_end d m)))"

record new_block_message =
  nb_header :: block_header
  nb_transactions :: "transaction list"
  nb_ommers :: "block_header list"
  nb_total_difficulty :: u256

definition encode_new_block :: "new_block_message \<Rightarrow> encoding_error + bytes" where
  "encode_new_block m =
     outcome_try (list_of
       [list_of
          [add_encoded (encode_block_header (nb_header m)),
           encode_transaction_list (nb_transactions m),
           encode_block_headers_payload (nb_ommers m)],
        put (add_uint256 (nb_total_difficulty m))] new_encoder) finalize_encoding"

definition decode_new_block :: "bytes \<Rightarrow> decoding_error + new_block_message" where
  "decode_new_block rlp_data =
     outcome_try (list_target \<lparr>view = rlp_data\<rparr>) (\<lambda>(outer_target, d).
     outcome_try (list_target d) (\<lambda>(inner_target, d).
     outcome_try (decode_item decode_block_header d) (\<lambda>(h, d).
     outcome_try (decode_transaction_list d) (\<lambda>(txs, d).
     outcome_try (decode_block_headers_payload d) (\<lambda>(oms, d).
     outcome_try (ignore_items inner_target d) (\<lambda>d.
     at_target inner_target d (
     outcome_try (need read_uint256 d) (\<lambda>(td, d).
     outcome_try (ignore_items outer_target d) (\<lambda>d.
     at_target outer_target d (
     expect_end d \<lparr>nb_header = h, nb_transactions = txs, nb_ommers = oms,
                   nb_total_difficulty = td\<rparr>))))))))))"

definition decode_new_block_with :: "bytes \<Rightarrow> eth_message_schema list \<Rightarrow> decoding_error + new_block_message" where
  "decode_new_block_with rlp_data _ = decode_new_block rlp_data"

definition new_block_items :: "new_block_message \<Rightarrow> rlp_item list" where
  "new_block_items m =
     [RList [header_item (nb_header m), RList (map transaction_wire (nb_transactions m)),
             RList (map header_item (nb_ommers m))],
      RUint (unat (nb_total_difficulty m))]"

definition wf_new_block :: "new_block_message \<Rightarrow> bool" where
  "wf_new_block m \<longleftrightarrow> wf_block_header (nb_header m) \<and> (\<forall>tx \<in> set (nb_transactions m). wf_transaction tx) \<and>
     (\<forall>h \<in> set (nb_ommers m). wf_block_header h) \<and> fits (RList (new_block_items m))"

lemma new_block_codec:
  assumes "wf_new_block m"
  shows "encode_new_block m = Inr (rlp_encode (RList (new_block_items m)))"
    and "decode_new_block (rlp_encode (RList (new_block_items m))) =
      Inr (m\<lparr>nb_transactions := map canonical_transaction (nb_transactions m)\<rparr>)"
proof -
  let ?inner = "[header_item (nb_header m), RList (map transaction_wire (nb_transactions m)),
             RList (map header_item (nb_ommers m))]"
  from assms have f: "fits (RList (new_block_items m))" and w: "wf_block_header (nb_header m)"
    "\<forall>tx \<in> set (nb_transactions m). wf_transaction tx" "\<forall>h \<in> set (nb_ommers m). wf_block_header h"
    by (simp_all add: wf_new_block_def)
  have fi: "fits (RList ?inner)" using fits_RList_all [OF f] by (simp add: new_block_items_def)
  note fs = fits_RList_all [OF fi]
  let ?ops = "[add_encoded (encode_block_header (nb_header m)), encode_transaction_list (nb_transactions m),
      encode_block_headers_payload (nb_ommers m)]"
  have "emits_item (list_of ?ops) (RList ?inner)"
    using w fs fi by (intro emits_item_list_of) (simp_all add: encode_block_header_eq)
  then have "emits_item (list_of [list_of ?ops, put (add_uint256 (nb_total_difficulty m))]) (RList (new_block_items m))"
    using f unfolding new_block_items_def by (intro emits_item_list_of) simp_all
  from emits_item_finalize [OF this] show "encode_new_block m = Inr (rlp_encode (RList (new_block_items m)))"
    by (simp add: encode_new_block_def)
  show "decode_new_block (rlp_encode (RList (new_block_items m))) =
      Inr (m\<lparr>nb_transactions := map canonical_transaction (nb_transactions m)\<rparr>)"
    using w f fi fs unfolding new_block_items_def
    by (simp add: decode_new_block_def decode_block_header_item)
qed

section \<open>Properties of the messages\<close>

text \<open>Requests that carry a list of hashes (GetReceipts, GetPooledTransactions, GetBlockBodies)
  are written as the list of the request id and the hash list, and their decoders give the message back.\<close>

theorem hash_requests_round_trip:
  assumes "\<forall>h \<in> set hs. length h = 32" "fits (request_wire rid (map RStr hs))"
  shows "encode_get_receipts \<lparr>grm_request_id = Some rid, grm_block_hashes = hs\<rparr> =
        Inr (rlp_encode (request_wire rid (map RStr hs))) \<and>
      decode_get_receipts (rlp_encode (request_wire rid (map RStr hs))) =
        Inr \<lparr>grm_request_id = Some rid, grm_block_hashes = hs\<rparr> \<and>
      encode_get_pooled_transactions \<lparr>gpm_request_id = Some rid, gpm_transaction_hashes = hs\<rparr> =
        Inr (rlp_encode (request_wire rid (map RStr hs))) \<and>
      decode_get_pooled_transactions (rlp_encode (request_wire rid (map RStr hs))) =
        Inr \<lparr>gpm_request_id = Some rid, gpm_transaction_hashes = hs\<rparr> \<and>
      encode_get_block_bodies \<lparr>gbm_request_id = Some rid, gbm_block_hashes = hs\<rparr> =
        Inr (rlp_encode (request_wire rid (map RStr hs))) \<and>
      decode_get_block_bodies (rlp_encode (request_wire rid (map RStr hs))) =
        Inr \<lparr>gbm_request_id = Some rid, gbm_block_hashes = hs\<rparr>"
  using hash_msgs.request_written [OF assms] hash_msgs.request_read [OF assms]
  by (simp add: encode_get_receipts_def decode_get_receipts_def encode_get_pooled_transactions_def
      decode_get_pooled_transactions_def encode_get_block_bodies_def decode_get_block_bodies_def)

theorem hash_requests_round_trip_witness:
  "decode_get_receipts (rlp_encode (request_wire 7 (map RStr [replicate 32 0xab]))) =
     Inr \<lparr>grm_request_id = Some 7, grm_block_hashes = [replicate 32 0xab]\<rparr>"
proof -
  have "\<forall>h \<in> set [replicate 32 (0xab :: u8)]. length h = 32" by simp
  moreover have "fits (request_wire 7 (map RStr [replicate 32 0xab]))"
    by (rule fits_bound) (simp add: request_wire_def RUint_def nat_to_be.simps)
  ultimately show ?thesis using hash_requests_round_trip by blast
qed

lemma PeekHeader_empty: "PeekHeader \<lparr>view = []\<rparr> = Inl kInputTooShort"
  by (simp add: PeekHeader_def decode_header_impl_def)

lemma hash_request_id_absent:
  assumes "length h = 32"
  shows "consume_eth66_request_id \<lparr>view = rlp_encode (RStr h) @ r\<rparr> = (None, \<lparr>view = rlp_encode (RStr h) @ r\<rparr>)"
  using read_u64_hash_fails [OF assms, of r] by (auto simp: consume_eth66_request_id_def)

text \<open>The encoding that the same writers choose for a request without an id is the bare hash list,
  and the decoder of the pair rejects it: it takes the list header for the outer message list and
  then asks for a second one.\<close>

theorem hash_request_without_id_rejected:
  assumes "\<forall>h \<in> set hs. length h = 32" "fits (RList (map RStr hs))"
  shows "encode_get_receipts \<lparr>grm_request_id = None, grm_block_hashes = hs\<rparr> = Inr (rlp_encode (RList (map RStr hs))) \<and>
    decode_get_receipts (rlp_encode (RList (map RStr hs))) =
      Inl (if hs = [] then kInputTooShort else kUnexpectedString)"
proof
  have "emits_item (encode_hash_list hs) (RList (map RStr hs))" using assms by simp
  then show "encode_get_receipts \<lparr>grm_request_id = None, grm_block_hashes = hs\<rparr> = Inr (rlp_encode (RList (map RStr hs)))"
    by (simp add: encode_get_receipts_def encode_request_def request_ops_def emits_item_finalize)
  have empty: "ReadListHeaderBytes \<lparr>view = []\<rparr> = Inl kInputTooShort"
    by (simp add: ReadListHeaderBytes_def PeekHeader_empty)
  have none: "consume_eth66_request_id \<lparr>view = []\<rparr> = (None, \<lparr>view = []\<rparr>)"
    by (simp add: consume_eth66_request_id_def read_integral_def PeekHeader_empty)
  show "decode_get_receipts (rlp_encode (RList (map RStr hs))) =
      Inl (if hs = [] then kInputTooShort else kUnexpectedString)"
    using assms fits_RList_all [OF assms(2)] none empty
    by (cases hs) (simp_all add: decode_get_receipts_def decode_request_def hash_request_id_absent
        decode_hash_list_def list_target_def)
qed

theorem hash_request_without_id_rejected_witness:
  "decode_get_receipts (rlp_encode (RList (map RStr [replicate 32 0xab]))) = Inl kUnexpectedString"
proof -
  have "\<forall>h \<in> set [replicate 32 (0xab :: u8)]. length h = 32" by simp
  moreover have "fits (RList (map RStr [replicate 32 0xab]))" by (rule fits_bound) simp
  ultimately show ?thesis using hash_request_without_id_rejected [of "[replicate 32 0xab]"] by simp
qed

lemma nat_to_be_two: "256 \<le> n \<Longrightarrow> n < 65536 \<Longrightarrow> nat_to_be n = [of_nat (n div 256), of_nat (n mod 256)]"
  by (subst nat_to_be.simps, subst nat_to_be.simps) (simp add: nat_to_be.simps)

text \<open>A typed receipt as the network sends it inside a Receipts message, the byte string of its
  type byte and its list (EIP-2718), is rejected: \<open>decode_receipt\<close> strips one byte of the three-byte
  string prefix and meets a length byte where it expects the list.\<close>

theorem typed_receipt_string_rejected:
  assumes "wf_receipt rc" "length (t # rlp_encode (receipt_item rc)) < 0x8000"
  shows "decode_receipt (rlp_encode (RStr (t # rlp_encode (receipt_item rc)))) = Inl kUnexpectedString"
proof -
  let ?p = "t # rlp_encode (receipt_item rc)" and ?n = "length (t # rlp_encode (receipt_item rc))"
  let ?hi = "of_nat (?n div 256) :: u8" and ?lo = "of_nat (?n mod 256) :: u8"
  have "256 \<le> length (rlp_encode (RStr (rc_bloom rc)))"
    using assms(1) by (simp add: wf_receipt_def rlp_encode_simps rlp_str_def)
  then have n: "256 \<le> ?n" unfolding receipt_item_def by (simp add: rlp_encode_simps rlp_list_def)
  have d: "?n div 256 < 128" "?n div 256 \<noteq> 0" using assms(2) n by (simp_all add: div_greater_zero_iff)
  have "nat_to_be ?n = [?hi, ?lo]"
    using n assms(2) by (intro nat_to_be_two) linarith+
  then have enc: "rlp_encode (RStr ?p) = 0xb9 # ?hi # ?lo # ?p"
    using n by (simp add: rlp_encode_simps rlp_str_def rlp_prefix_def)
  have hi: "unat ?hi = ?n div 256" using d(1) by (simp add: unat_of_nat)
  have "rlp_encode (RStr [?hi]) = [?hi]" using d(1) hi by (simp add: rlp_encode_simps rlp_str_def)
  then have "ReadListHeaderBytes \<lparr>view = [?hi] @ ?lo # ?p\<rparr> = Inl kUnexpectedString"
    using ReadListHeaderBytes_RStr [of "[?hi]" "?lo # ?p"] by (simp add: fits_def)
  then show ?thesis unfolding enc by (simp add: decode_receipt_def)
qed

theorem typed_receipt_string_rejected_witness:
  "decode_receipt (rlp_encode (RStr (2 # rlp_encode (receipt_item sample_receipt)))) = Inl kUnexpectedString"
proof (rule typed_receipt_string_rejected)
  have "rlp_bound (receipt_item sample_receipt) < 0x7000"
    by (simp add: receipt_item_def sample_receipt_def status_item_def log_item_def RUint_def nat_to_be.simps)
  then show "length (2 # rlp_encode (receipt_item sample_receipt)) < 0x8000"
    using length_rlp_encode_bound [of "receipt_item sample_receipt"] by simp
  then have "fits (receipt_item sample_receipt)" by (simp add: fits_def)
  then show "wf_receipt sample_receipt" by (simp add: wf_receipt_def sample_receipt_def wf_log_def)
qed

text \<open>The responses that carry block data, BlockHeaders, BlockBodies and Receipts, are written as the
  list of the request id and the payload list and are read back; what the wire drops of a transaction
  or a receipt is all that changes.\<close>

theorem block_responses_round_trip:
  assumes "\<forall>h \<in> set hs. wf_block_header h" "fits (request_wire rid (map header_item hs))"
    and "\<forall>b \<in> set bs. wf_body b" "fits (request_wire rid (map (\<lambda>b. RList (body_items b)) bs))"
    and "\<forall>rs \<in> set rss. \<forall>rc \<in> set rs. wf_receipt rc"
      "fits (request_wire rid (map (\<lambda>rs. RList (map receipt_item rs)) rss))"
  shows "encode_block_headers \<lparr>bhm_request_id = Some rid, bhm_headers = hs\<rparr> =
        Inr (rlp_encode (request_wire rid (map header_item hs))) \<and>
      decode_block_headers (rlp_encode (request_wire rid (map header_item hs))) =
        Inr \<lparr>bhm_request_id = Some rid, bhm_headers = hs\<rparr> \<and>
      encode_block_bodies \<lparr>bbm_request_id = Some rid, bbm_bodies = bs\<rparr> =
        Inr (rlp_encode (request_wire rid (map (\<lambda>b. RList (body_items b)) bs))) \<and>
      decode_block_bodies (rlp_encode (request_wire rid (map (\<lambda>b. RList (body_items b)) bs))) =
        Inr \<lparr>bbm_request_id = Some rid, bbm_bodies = map canonical_body bs\<rparr> \<and>
      encode_receipts \<lparr>rm_request_id = Some rid, rm_receipts = rss\<rparr> =
        Inr (rlp_encode (request_wire rid (map (\<lambda>rs. RList (map receipt_item rs)) rss))) \<and>
      decode_receipts (rlp_encode (request_wire rid (map (\<lambda>rs. RList (map receipt_item rs)) rss))) =
        Inr \<lparr>rm_request_id = Some rid, rm_receipts = map (map canonical_receipt) rss\<rparr>"
  by (simp add: encode_block_headers_def decode_block_headers_def encode_block_bodies_def decode_block_bodies_def
      encode_receipts_def decode_receipts_def
      header_msgs.request_written [OF assms(1, 2)] header_msgs.request_read [OF assms(1, 2)]
      body_msgs.request_written [OF assms(3, 4)] body_msgs.request_read [OF assms(3, 4)]
      receipt_msgs.request_written [OF assms(5, 6)] receipt_msgs.request_read [OF assms(5, 6)])

theorem block_responses_round_trip_witness:
  "decode_block_headers (rlp_encode (request_wire 5 [header_item sample_header])) =
     Inr \<lparr>bhm_request_id = Some 5, bhm_headers = [sample_header]\<rparr>"
proof -
  have "fits (request_wire 5 (map header_item [sample_header]))"
    by (rule fits_bound) (simp add: request_wire_def header_item_def header_items_def sample_header_def RUint_def
        nat_to_be.simps)
  moreover have "fits (request_wire 5 [])" by (rule fits_bound) (simp add: request_wire_def RUint_def nat_to_be.simps)
  ultimately show ?thesis
    using block_responses_round_trip [of "[sample_header]" 5 "[]" "[]"] sample_header_wf by simp
qed

definition query_wire :: "get_block_headers_message \<Rightarrow> rlp_item" where
  "query_wire m = (case gbh_request_id m of Some r \<Rightarrow> request_wire r (query_items m) | None \<Rightarrow> RList (query_items m))"

lemma fits_request_wire_short:
  assumes "length (rlp_encodes ts) \<le> 132"
  shows "fits (RList ts)" "fits (request_wire r ts)"
proof -
  show "fits (RList ts)" using assms by (intro fits_RListI) simp
  show "fits (request_wire r ts)" unfolding request_wire_def
    using assms length_RUint_le [of "unat r"] unat_less_exp [of r]
      length_rlp_prefix_le [of "length (rlp_encodes ts)" "0xC0"]
    by (intro fits_RListI) (simp add: rlp_encode_simps rlp_list_def)
qed

lemma query_encoded:
  assumes "emits_item (encode_get_block_headers_payload m) (RList (query_items m))"
    and "length (rlp_encodes (query_items m)) \<le> 132"
  shows "encode_get_block_headers m = Inr (rlp_encode (query_wire m))"
proof -
  have "emits_item (request_ops (gbh_request_id m) (encode_get_block_headers_payload m)) (query_wire m)"
    using assms(1) fits_request_wire_short [OF assms(2)]
    by (auto simp: request_ops_def query_wire_def request_wire_def split: option.splits)
  then show ?thesis by (simp add: encode_get_block_headers_def encode_request_def emits_item_finalize)
qed

text \<open>A GetBlockHeaders query that names its start by exactly one of hash and number survives
  encoding and decoding, with the eth/66 request id and without it: the decoder tells the two forms
  apart, whatever the 32 bytes of the start hash are.\<close>

theorem get_block_headers_round_trip:
  assumes "wf_query m"
  shows "encode_get_block_headers m = Inr (rlp_encode (query_wire m)) \<and>
    decode_get_block_headers (rlp_encode (query_wire m)) = Inr m"
proof
  have len: "length (rlp_encodes (query_items m)) \<le> 132"
    using assms by (intro length_query_items) (simp add: wf_query_def)
  show "encode_get_block_headers m = Inr (rlp_encode (query_wire m))"
    by (rule query_encoded [OF emits_query [OF assms] len])
  show "decode_get_block_headers (rlp_encode (query_wire m)) = Inr m"
    using fits_request_wire_short [OF len] decode_query_reads [OF assms, of "[]"] query_request_id_absent [OF assms]
      request_id_found [OF fits_request_wire_short(1) [OF len], where rest = "[]"]
    by (cases "gbh_request_id m") (simp_all add: decode_get_block_headers_def query_wire_def request_wire_def)
qed

definition sample_query :: get_block_headers_message where
  "sample_query = \<lparr>gbh_request_id = Some 9, start_hash = None, start_number = Some 1000, max_headers = 16,
     skip = 0, reverse = True\<rparr>"

theorem get_block_headers_round_trip_witness:
  "decode_get_block_headers (rlp_encode (query_wire sample_query)) = Inr sample_query"
  using get_block_headers_round_trip [of sample_query] by (simp add: wf_query_def sample_query_def)

text \<open>A query with neither a start hash nor a start number is encoded without an error, as a list of
  three items, and its own decoder refuses the result.\<close>

theorem get_block_headers_no_start:
  assumes "start_hash m = None" "start_number m = None"
  shows "encode_get_block_headers m = Inr (rlp_encode (query_wire m)) \<and>
    decode_get_block_headers (rlp_encode (query_wire m)) = Inl kUnexpectedString"
proof
  have len: "length (rlp_encodes (query_items m)) \<le> 132"
    using assms by (intro length_query_items) simp
  have q: "query_items m = [RUint (unat (max_headers m)), RUint (unat (skip m)), RBool (reverse m)]"
    using assms by (simp add: query_items_def start_items_def)
  have "emits_item (encode_get_block_headers_payload m) (RList (query_items m))"
    using assms fits_request_wire_short(1) [OF len]
    unfolding q by (simp add: encode_get_block_headers_payload_def [abs_def])
  from query_encoded [OF this len] show "encode_get_block_headers m = Inr (rlp_encode (query_wire m))" .
  have p: "PeekHeader \<lparr>view = rlp_encode (RUint (unat (x :: u64))) @ r\<rparr> = Inr (item_header False (nat_to_be (unat x)))"
    "length (nat_to_be (unat x)) \<noteq> 32" for x r
    using length_nat_to_be_u64 [of "unat x"] unat_less_exp [of x] unfolding RUint_def by simp_all
  have b: "need read_integral \<lparr>view = rlp_encode (RBool x)\<rparr> = Inr (if x then 1 else 0 :: u64, \<lparr>view = []\<rparr>)" for x
    using read_u_RUint(4) [of 0 "[]"] read_u_RUint(4) [of 1 "[]"] unfolding RBool_def by auto
  have e: "need read_bool \<lparr>view = []\<rparr> = Inl kUnexpectedString"
    by (simp add: read_bool_def PeekHeader_empty fail_as_def need_def)
  show "decode_get_block_headers (rlp_encode (query_wire m)) = Inl kUnexpectedString"
    using fits_request_wire_short [OF len] p b e
      request_id_found [OF fits_request_wire_short(1) [OF len], where rest = "[]"]
    by (cases "gbh_request_id m") (simp_all add: decode_get_block_headers_def query_wire_def request_wire_def q
      consume_eth66_request_id_def decode_get_block_headers_payload_def)
qed

theorem get_block_headers_no_start_witness:
  "decode_get_block_headers (rlp_encode (query_wire (sample_query\<lparr>start_number := None\<rparr>))) = Inl kUnexpectedString"
  using get_block_headers_no_start [of "sample_query\<lparr>start_number := None\<rparr>"] by (simp add: sample_query_def)

definition pooled_items :: "new_pooled_tx_hashes_message \<Rightarrow> rlp_item list" where
  "pooled_items m = [RStr (np_types m), RList (map (\<lambda>v. RUint (unat v)) (np_sizes m)), RList (map RStr (np_hashes m))]"

definition wf_pooled :: "new_pooled_tx_hashes_message \<Rightarrow> bool" where
  "wf_pooled m \<longleftrightarrow> length (np_types m) = length (np_hashes m) \<and> length (np_sizes m) = length (np_hashes m) \<and>
     (\<forall>h \<in> set (np_hashes m). length h = 32) \<and> fits (RList (pooled_items m))"

lemma is_list_item_simps [simp]:
  "fits (RList ts) \<Longrightarrow> is_list_item (rlp_encode (RList ts))"
  "fits (RStr p) \<Longrightarrow> \<not> is_list_item (rlp_encode (RStr p))"
  using PeekHeader_RList [of ts "[]"] by (simp_all add: is_list_item_def)

lemma legacy_pooled_reads:
  "\<forall>h \<in> set hs. length h = 32 \<Longrightarrow> legacy_pooled_hashes (map (\<lambda>h. rlp_encode (RStr h)) hs) = Inr hs"
  by (induction hs) (simp_all add: IsFinished_def)

lemma new_pooled_encoded:
  assumes "wf_pooled m"
  shows "encode_new_pooled_tx_hashes m = Inr (rlp_encode (RList (pooled_items m)))"
proof -
  from assms have f: "fits (RList (pooled_items m))" by (simp add: wf_pooled_def)
  note all = fits_RList_all [OF f [unfolded pooled_items_def]]
  have "emits_item (list_of [put (add_bytes (np_types m)), put (encode_uint32_list (np_sizes m)),
      put (encode_hash_list (np_hashes m))]) (RList (pooled_items m))"
    using f all unfolding pooled_items_def by (intro emits_item_list_of) simp_all
  from emits_item_finalize [OF this] assms show ?thesis
    by (simp add: encode_new_pooled_tx_hashes_def wf_pooled_def)
qed

lemma new_pooled_decoded:
  assumes "wf_pooled m"
  shows "decode_new_pooled_tx_hashes (rlp_encode (RList (pooled_items m))) = Inr m"
  using assms fits_RList_all [of "pooled_items m"] pooled.loop_reads_all [of "pooled_items m" "[]"]
    decode_uint32_list_reads [of "np_sizes m" "[]"] decode_hash_list_reads [of "np_hashes m" "[]"]
  by (simp add: decode_new_pooled_tx_hashes_def wf_pooled_def pooled_items_def IsFinished_def)

lemma legacy_pooled_decoded:
  assumes "\<forall>h \<in> set hs. length h = 32" "fits (RList (map RStr hs))"
  shows "decode_new_pooled_tx_hashes (rlp_encode (RList (map RStr hs))) =
    Inr \<lparr>np_types = [], np_sizes = [], np_hashes = hs\<rparr>"
proof -
  have "\<not> is_list_item (rlp_encode (RStr (hs ! Suc 0)))" if "length hs = 3"
    using that assms fits_RList_elem [of "map RStr hs" "RStr (hs ! Suc 0)"] by simp
  then show ?thesis
    using assms pooled.loop_reads_all [of "map RStr hs" "[]"] legacy_pooled_reads [OF assms(1)]
    by (cases "length hs = 3") (simp_all add: decode_new_pooled_tx_hashes_def comp_def)
qed

text \<open>An eth/68 transaction announcement is the list of a type string, a size list and a hash list; it
  decodes to itself. A plain list of hashes, the announcement of earlier versions, decodes to one without
  types and sizes, three hashes included. An announcement whose parts differ in length is not encoded.\<close>

theorem new_pooled_tx_hashes_round_trip:
  assumes "wf_pooled m" "\<forall>h \<in> set hs. length h = 32" "fits (RList (map RStr hs))"
    and "length ty \<noteq> length hs \<or> length sz \<noteq> length hs"
  shows "encode_new_pooled_tx_hashes m = Inr (rlp_encode (RList (pooled_items m))) \<and>
    decode_new_pooled_tx_hashes (rlp_encode (RList (pooled_items m))) = Inr m \<and>
    decode_new_pooled_tx_hashes (rlp_encode (RList (map RStr hs))) =
      Inr \<lparr>np_types = [], np_sizes = [], np_hashes = hs\<rparr> \<and>
    encode_new_pooled_tx_hashes \<lparr>np_types = ty, np_sizes = sz, np_hashes = hs\<rparr> = Inl kEmptyInput"
  using new_pooled_encoded [OF assms(1)] new_pooled_decoded [OF assms(1)] legacy_pooled_decoded [OF assms(2, 3)] assms(4)
  by (simp add: encode_new_pooled_tx_hashes_def)

theorem new_pooled_tx_hashes_round_trip_witness:
  "decode_new_pooled_tx_hashes (rlp_encode (RList (map RStr (replicate 3 (replicate 32 8))))) =
     Inr \<lparr>np_types = [], np_sizes = [], np_hashes = replicate 3 (replicate 32 8)\<rparr>"
proof -
  let ?m = "\<lparr>np_types = [2], np_sizes = [500], np_hashes = [replicate 32 8]\<rparr>"
  have "fits (RList (pooled_items ?m))"
    by (rule fits_bound) (simp add: pooled_items_def RUint_def nat_to_be.simps)
  then have "wf_pooled ?m" by (simp add: wf_pooled_def)
  moreover have "fits (RList (map RStr (replicate 3 (replicate 32 8))))"
    by (rule fits_bound) (simp add: sum_list_replicate)
  ultimately show ?thesis
    using new_pooled_tx_hashes_round_trip [of ?m "replicate 3 (replicate 32 8)" "[]" "[]"] by simp
qed

text \<open>A NewBlock message, the list of a full block and its total difficulty, decodes to what was
  encoded, up to the transaction fields the wire does not carry.\<close>

theorem new_block_round_trip:
  assumes "wf_new_block m"
  shows "encode_new_block m = Inr (rlp_encode (RList (new_block_items m))) \<and>
    decode_new_block (rlp_encode (RList (new_block_items m))) =
      Inr (m\<lparr>nb_transactions := map canonical_transaction (nb_transactions m)\<rparr>)"
  using new_block_codec [OF assms] by simp

theorem new_block_round_trip_witness:
  "decode_new_block (rlp_encode (RList (new_block_items
       \<lparr>nb_header = sample_header, nb_transactions = [], nb_ommers = [sample_header], nb_total_difficulty = 17\<rparr>))) =
     Inr \<lparr>nb_header = sample_header, nb_transactions = [], nb_ommers = [sample_header], nb_total_difficulty = 17\<rparr>"
proof -
  let ?m = "\<lparr>nb_header = sample_header, nb_transactions = [], nb_ommers = [sample_header], nb_total_difficulty = 17\<rparr>"
  have "fits (RList (new_block_items ?m))"
    by (rule fits_bound) (simp add: new_block_items_def header_item_def header_items_def sample_header_def RUint_def
        nat_to_be.simps)
  then have "wf_new_block ?m" using sample_header_wf by (simp add: wf_new_block_def)
  from new_block_round_trip [OF this] show ?thesis by simp
qed

lemma new_block_hashes_written:
  assumes "fits (RList (map block_hash_item es))"
  shows "encode_new_block_hashes es = Inr (rlp_encode (RList (map block_hash_item es)))"
proof -
  have "emits_item (list_of [put (add_bytes (nbh_hash x)), put (add_u64 (nbh_number x))]) (block_hash_item x)"
    if "fits (block_hash_item x)" for x
    using that fits_RList_all [OF that [unfolded block_hash_item_def]]
    unfolding block_hash_item_def by (intro emits_item_list_of) simp_all
  then have "emits_item (new_block_hashes_op es) (RList (map block_hash_item es))"
    unfolding new_block_hashes_op_def using assms by (intro emits_item_map) auto
  from emits_item_finalize [OF this] show ?thesis by (simp add: encode_new_block_hashes_def)
qed

text \<open>NewBlockHashes announcements are decoded to the entries that were encoded. The decoder reads
  entries to the end of its input and not to the end of the list: entries that follow a list already
  closed are returned with those of the list.\<close>

theorem new_block_hashes_round_trip:
  assumes "\<forall>x \<in> set es. length (nbh_hash x) = 32" "fits (RList (map block_hash_item es))"
    and "\<forall>x \<in> set more_entries. length (nbh_hash x) = 32" "fits (RList (map block_hash_item more_entries))"
  shows "encode_new_block_hashes es = Inr (rlp_encode (RList (map block_hash_item es))) \<and>
    decode_new_block_hashes (rlp_encode (RList (map block_hash_item es))) = Inr es \<and>
    decode_new_block_hashes (rlp_encode (RList (map block_hash_item es)) @ rlp_encodes (map block_hash_item more_entries)) =
      Inr (es @ more_entries)"
proof -
  have all: "\<forall>x \<in> set (es @ more_entries). length (nbh_hash x) = 32 \<and> fits (block_hash_item x)"
    using assms fits_RList_elem [of "map block_hash_item es"] fits_RList_elem [of "map block_hash_item more_entries"] by auto
  show ?thesis
    using assms new_block_hashes_written [OF assms(2)] block_hashes.loop_reads_all [OF assms(1, 2), of "[]"]
      block_hashes.loop_reads [OF all, of "[]" "[]"]
    by (simp add: decode_new_block_hashes_def)
qed

theorem new_block_hashes_round_trip_witness:
  "decode_new_block_hashes (rlp_encode (RList (map block_hash_item [])) @
       rlp_encodes (map block_hash_item [\<lparr>nbh_hash = replicate 32 4, nbh_number = 5\<rparr>])) =
     Inr [\<lparr>nbh_hash = replicate 32 4, nbh_number = 5\<rparr>]"
proof -
  have "fits (RList (map block_hash_item [\<lparr>nbh_hash = replicate 32 4, nbh_number = 5\<rparr>]))" "fits (RList [])"
    by (rule fits_bound, simp add: block_hash_item_def RUint_def nat_to_be.simps)+
  then show ?thesis
    using new_block_hashes_round_trip [of "[]" "[\<lparr>nbh_hash = replicate 32 4, nbh_number = 5\<rparr>]"] by simp
qed

definition range_items :: "block_range_update_message \<Rightarrow> rlp_item list" where
  "range_items m = [RUint (unat (bru_earliest_block m)), RUint (unat (bru_latest_block m)), RStr (bru_latest_block_hash m)]"

lemma status_updates_round_trip:
  assumes "length (bru_latest_block_hash m) = 32"
  shows "encode_block_range_update m = Inr (rlp_encode (RList (range_items m))) \<and>
    decode_block_range_update (rlp_encode (RList (range_items m))) = Inr m \<and>
    encode_upgrade_status b = Inr (rlp_encode (RList [RBool b])) \<and>
    decode_upgrade_status (rlp_encode (RList [RBool b])) = Inr b"
proof -
  have u: "length (rlp_encode (RUint (unat (x :: u64)))) \<le> 33" for x
    using unat_less_exp [of x] by (intro length_RUint_le) simp
  have fr: "fits (RList (range_items m))" unfolding range_items_def
    using u [of "bru_earliest_block m"] u [of "bru_latest_block m"] length_rlp_str_le [of "bru_latest_block_hash m"] assms
    by (intro fits_RListI) (simp add: rlp_encode_simps)
  have fb: "fits (RList [RBool b])" by (rule fits_bound) (simp add: RBool_def RUint_def nat_to_be.simps)
  have "emits_item (list_of [put (add_u64 (bru_earliest_block m)), put (add_u64 (bru_latest_block m)),
      put (add_bytes (bru_latest_block_hash m))]) (RList (range_items m))"
    using fr fits_RList_all [OF fr [unfolded range_items_def]] unfolding range_items_def
    by (intro emits_item_list_of) simp_all
  moreover have "emits_item (list_of [put (add_bool b)]) (RList [RBool b])"
    using fb by (intro emits_item_list_of) simp_all
  ultimately show ?thesis
    using assms fr fb unfolding range_items_def
    by (simp add: encode_block_range_update_def decode_block_range_update_def encode_upgrade_status_def
        decode_upgrade_status_def emits_item_finalize)
qed

end
