(* ===== verification/Chain_Tracker.thy ===== *)
theory Chain_Tracker
  imports Eth_Objects
begin

text \<open>
  The block deduplication window of src/eth/chain_tracker.cpp: a set of seen hashes, a ring buffer
  that remembers their order of insertion, and the chain tip. The ring refines a first-in first-out
  window held as a list; the locale \<open>fifo_window\<close> is that contract and what a client may conclude from it.
\<close>

section \<open>The tracker\<close>

abbreviation (input) kDefaultWindowSize :: nat where "kDefaultWindowSize \<equiv> 1024"

record chain_tracker =
  window_size :: nat
  tip_number :: u64
  tip_hash :: "hash256 option"
  seen_set :: "hash256 set"
  eviction_queue :: "hash256 list"
  eviction_head :: nat

definition new_tracker :: "nat \<Rightarrow> chain_tracker" where
  "new_tracker window =
     (let w = if window = 0 then kDefaultWindowSize else window in
      \<lparr>window_size = w, tip_number = 0, tip_hash = None, seen_set = {},
       eviction_queue = replicate w (replicate 32 0), eviction_head = 0\<rparr>)"

definition record_block :: "hash256 \<Rightarrow> chain_tracker \<Rightarrow> chain_tracker" where
  "record_block block_hash t =
     (if window_size t \<le> card (seen_set t)
      then t\<lparr>seen_set := insert block_hash (seen_set t - {eviction_queue t ! eviction_head t}),
             eviction_queue := (eviction_queue t)[eviction_head t := block_hash],
             eviction_head := (eviction_head t + 1) mod window_size t\<rparr>
      else t\<lparr>seen_set := insert block_hash (seen_set t),
             eviction_queue := (eviction_queue t)[card (seen_set t) := block_hash]\<rparr>)"

definition advance_tip :: "hash256 \<Rightarrow> u64 \<Rightarrow> chain_tracker \<Rightarrow> chain_tracker" where
  "advance_tip block_hash block_number t =
     (if tip_number t < block_number then t\<lparr>tip_number := block_number, tip_hash := Some block_hash\<rparr> else t)"

definition mark_seen :: "hash256 \<Rightarrow> u64 \<Rightarrow> chain_tracker \<Rightarrow> bool \<times> chain_tracker" where
  "mark_seen block_hash block_number t =
     (if block_hash \<in> seen_set t then (False, t)
      else (True, advance_tip block_hash block_number (record_block block_hash t)))"

definition is_seen :: "hash256 \<Rightarrow> chain_tracker \<Rightarrow> bool" where
  "is_seen block_hash t \<longleftrightarrow> block_hash \<in> seen_set t"

definition tip :: "chain_tracker \<Rightarrow> u64" where
  "tip t = tip_number t"

definition seen_count :: "chain_tracker \<Rightarrow> nat" where
  "seen_count t = card (seen_set t)"

definition reset :: "chain_tracker \<Rightarrow> chain_tracker" where
  "reset t = t\<lparr>tip_number := 0, tip_hash := None, seen_set := {},
     eviction_queue := replicate (length (eviction_queue t)) (replicate 32 0), eviction_head := 0\<rparr>"

section \<open>The window it implements\<close>

text \<open>The hashes of the window, oldest first: the filled part of the queue, read from the head.\<close>

definition window :: "chain_tracker \<Rightarrow> hash256 list" where
  "window t = rotate (eviction_head t) (take (card (seen_set t)) (eviction_queue t))"

definition tracker_inv :: "chain_tracker \<Rightarrow> bool" where
  "tracker_inv t \<longleftrightarrow> 0 < window_size t \<and> length (eviction_queue t) = window_size t \<and>
     card (seen_set t) \<le> window_size t \<and> eviction_head t < window_size t \<and>
     (card (seen_set t) < window_size t \<longrightarrow> eviction_head t = 0) \<and>
     finite (seen_set t) \<and> set (take (card (seen_set t)) (eviction_queue t)) = seen_set t"

definition push_window :: "nat \<Rightarrow> 'a \<Rightarrow> 'a list \<Rightarrow> 'a list" where
  "push_window w x xs = (if w \<le> length xs then tl xs else xs) @ [x]"

locale fifo_window =
  fixes inv :: "'s \<Rightarrow> bool" and win :: "'s \<Rightarrow> 'a list" and cap :: "'s \<Rightarrow> nat"
    and mark :: "'a \<Rightarrow> 'i \<Rightarrow> 's \<Rightarrow> bool \<times> 's"
  assumes distinct_win: "inv s \<Longrightarrow> distinct (win s)"
    and bounded: "inv s \<Longrightarrow> length (win s) \<le> cap s"
    and mark_old: "inv s \<Longrightarrow> x \<in> set (win s) \<Longrightarrow> mark x i s = (False, s)"
    and mark_new: "inv s \<Longrightarrow> x \<notin> set (win s) \<Longrightarrow>
      \<exists>s'. mark x i s = (True, s') \<and> inv s' \<and> cap s' = cap s \<and> win s' = push_window (cap s) x (win s)"
begin

abbreviation marks :: "('a \<times> 'i) list \<Rightarrow> 's \<Rightarrow> 's" where
  "marks bs s \<equiv> fold (\<lambda>(x, i) s. snd (mark x i s)) bs s"

lemma mark_inv: "inv s \<Longrightarrow> inv (snd (mark x i s)) \<and> cap (snd (mark x i s)) = cap s"
  using mark_old [of s x i] mark_new [of s x i] by (cases "x \<in> set (win s)") auto

lemma marks_inv: "inv s \<Longrightarrow> inv (marks bs s) \<and> cap (marks bs s) = cap s"
  by (induction bs arbitrary: s) (use mark_inv in \<open>auto split: prod.splits\<close>)

lemma mark_win:
  "inv s \<Longrightarrow> win (snd (mark x i s)) = (if x \<in> set (win s) then win s else push_window (cap s) x (win s))"
  using mark_old [of s x i] mark_new [of s x i] by auto

lemma mark_result: "inv s \<Longrightarrow> fst (mark x i s) \<longleftrightarrow> x \<notin> set (win s)"
  using mark_old [of s x i] mark_new [of s x i] by auto

text \<open>An entry with \<open>zs\<close> after it stays while the entries that follow it leave room.\<close>

lemma marks_keep:
  "inv s \<Longrightarrow> win s = ys @ x # zs \<Longrightarrow> length zs + length bs < cap s \<Longrightarrow> x \<in> set (win (marks bs s))"
proof (induction bs arbitrary: s ys zs)
  case (Cons b bs)
  obtain y i where b: "b = (y, i)" by (cases b)
  let ?s = "snd (mark y i s)"
  have inv: "inv ?s" "cap ?s = cap s" using mark_inv [OF Cons.prems(1)] by auto
  show ?case
  proof (cases "y \<in> set (win s)")
    case True
    with Cons mark_old [of s y i] b show ?thesis by auto
  next
    case False
    then have "win ?s = (if cap s \<le> length (win s) then tl (win s) else win s) @ [y]"
      using mark_win [OF Cons.prems(1), of y i] by (simp add: push_window_def)
    moreover have "ys \<noteq> [] \<or> length (win s) < cap s" using Cons.prems by auto
    ultimately have "win ?s = (if cap s \<le> length (win s) then tl ys else ys) @ x # (zs @ [y])"
      using Cons.prems(2) by (cases ys) auto
    then show ?thesis using Cons.IH [OF inv(1), of _ "zs @ [y]"] Cons.prems inv b by auto
  qed
qed simp

lemma marked_once:
  assumes "inv s" "fst (mark x i s)" "length bs < cap s"
  shows "\<not> fst (mark x j (marks bs (snd (mark x i s))))"
proof -
  let ?s = "snd (mark x i s)"
  have inv: "inv ?s" "cap ?s = cap s" using mark_inv [OF assms(1)] by auto
  have "win ?s = push_window (cap s) x (win s)"
    using mark_win [OF assms(1)] mark_result [OF assms(1)] assms(2) by metis
  then have "x \<in> set (win (marks bs ?s))"
    using marks_keep [OF inv(1), of _ x "[]" bs] assms(3) inv(2) unfolding push_window_def by simp
  then show ?thesis using mark_result marks_inv [OF inv(1)] by blast
qed

text \<open>Distinct new entries leave the last \<open>cap\<close> of them in the window.\<close>

lemma marks_new:
  "inv s \<Longrightarrow> distinct (map fst bs) \<Longrightarrow> set (map fst bs) \<inter> set (win s) = {} \<Longrightarrow> 0 < cap s \<Longrightarrow>
     win (marks bs s) = drop (length (win s) + length bs - cap s) (win s @ map fst bs)"
proof (induction bs arbitrary: s)
  case Nil
  then show ?case using bounded [of s] by simp
next
  case (Cons b bs)
  obtain y i where b: "b = (y, i)" by (cases b)
  let ?s = "snd (mark y i s)"
  have inv: "inv ?s" "cap ?s = cap s" using mark_inv [OF Cons.prems(1)] by auto
  have w: "win ?s = push_window (cap s) y (win s)" using mark_win [OF Cons.prems(1)] Cons.prems(3) b by simp
  then have "set (win ?s) \<subseteq> insert y (set (win s))" by (cases "win s") (auto simp: push_window_def)
  then have "set (map fst bs) \<inter> set (win ?s) = {}" using Cons.prems(2, 3) b by auto
  then have "win (marks bs ?s) = drop (length (win ?s) + length bs - cap s) (win ?s @ map fst bs)"
    using Cons.IH [OF inv(1)] Cons.prems inv(2) by simp
  also have "\<dots> = drop (length (win s) + length (b # bs) - cap s) (win s @ map fst (b # bs))"
  proof (cases "cap s \<le> length (win s)")
    case True
    then have "length (win s) = cap s" using bounded [OF Cons.prems(1)] by simp
    with True w b Cons.prems(4) show ?thesis by (cases "win s") (auto simp: push_window_def)
  next
    case False
    with w b show ?thesis by (simp add: push_window_def)
  qed
  finally show ?case using b by simp
qed

end

section \<open>The ring refines the window\<close>

lemma rotate_less: "k \<le> length xs \<Longrightarrow> rotate k xs = drop k xs @ take k xs"
  by (cases "k = length xs") (simp_all add: rotate_drop_take)

lemma rotate_replace_head:
  assumes "k < length q"
  shows "rotate ((k + 1) mod length q) (q[k := x]) = tl (rotate k q) @ [x]"
proof -
  have "rotate (k + 1) (q[k := x]) = drop (Suc k) q @ take k q @ [x]"
    using assms rotate_less [of "k + 1" "q[k := x]"] by (simp del: rotate_Suc add: take_Suc_conv_app_nth)
  then show ?thesis using assms rotate_conv_mod [of "k + 1" "q[k := x]"]
    by (simp del: rotate_Suc add: rotate_less tl_drop drop_Suc)
qed

lemma set_window: "tracker_inv t \<Longrightarrow> set (window t) = seen_set t"
  by (simp add: window_def tracker_inv_def)

lemma length_window: "tracker_inv t \<Longrightarrow> length (window t) = card (seen_set t)"
  by (simp add: window_def tracker_inv_def)

lemma distinct_window: "tracker_inv t \<Longrightarrow> distinct (window t)"
  using set_window [of t] length_window [of t] card_distinct [of "window t"] by simp

lemma advance_tip_sel [simp]:
  "window_size (advance_tip h n t) = window_size t" "seen_set (advance_tip h n t) = seen_set t"
  "eviction_queue (advance_tip h n t) = eviction_queue t" "eviction_head (advance_tip h n t) = eviction_head t"
  by (simp_all add: advance_tip_def)

lemma advance_tip_inv [simp]:
  "tracker_inv (advance_tip h n t) = tracker_inv t" "window (advance_tip h n t) = window t"
  by (simp_all add: tracker_inv_def window_def)

lemma record_block_refines:
  assumes inv: "tracker_inv t" and new: "h \<notin> seen_set t"
  shows "tracker_inv (record_block h t) \<and> window (record_block h t) = push_window (window_size t) h (window t)"
proof (cases "window_size t \<le> card (seen_set t)")
  case True
  let ?q = "eviction_queue t" and ?k = "eviction_head t"
  let ?t = "record_block h t"
  have q: "length ?q = window_size t" and k: "?k < length ?q" and c: "card (seen_set t) = window_size t"
    using inv True unfolding tracker_inv_def by linarith+
  have s: "set ?q = seen_set t" "finite (seen_set t)"
    using inv unfolding tracker_inv_def c q [symmetric] by simp_all
  have old: "?q ! ?k \<in> seen_set t" using nth_mem [OF k] s(1) by simp
  have card: "card (seen_set ?t) = window_size t"
    using True new s old c card_Suc_Diff1 [OF s(2) old] by (simp add: record_block_def)
  have w: "window ?t = tl (window t) @ [h]"
    using True c card q k rotate_replace_head [OF k, of h] by (simp add: window_def record_block_def)
  have d: "distinct (window t)" "set (window t) = seen_set t" "window t \<noteq> []" "hd (window t) = ?q ! ?k"
    using distinct_window [OF inv] set_window [OF inv] c q k
    by (auto simp: window_def rotate_less hd_drop_conv_nth)
  have "set (tl (window t)) = seen_set t - {?q ! ?k}"
    using d by (cases "window t") auto
  then have "set (window ?t) = seen_set ?t" using w True by (simp add: record_block_def)
  then have "set (take (card (seen_set ?t)) (eviction_queue ?t)) = seen_set ?t" by (simp add: window_def)
  then show ?thesis using inv True card w c k length_window [OF inv] s
    by (simp add: tracker_inv_def push_window_def) (simp add: record_block_def)
next
  case False
  then have "eviction_head t = 0" "card (seen_set t) < length (eviction_queue t)" "finite (seen_set t)"
    using inv by (simp_all add: tracker_inv_def)
  with False new inv length_window [OF inv] show ?thesis
    by (simp add: record_block_def tracker_inv_def window_def push_window_def take_Suc_conv_app_nth)
qed

interpretation tracker: fifo_window tracker_inv window window_size mark_seen
proof unfold_locales
  fix t x i
  assume inv: "tracker_inv t"
  show "distinct (window t)" by (rule distinct_window [OF inv])
  show "length (window t) \<le> window_size t" using inv length_window [OF inv] by (simp add: tracker_inv_def)
  show "mark_seen x i t = (False, t)" if "x \<in> set (window t)"
    using that set_window [OF inv] by (simp add: mark_seen_def)
  show "\<exists>s'. mark_seen x i t = (True, s') \<and> tracker_inv s' \<and> window_size s' = window_size t \<and>
      window s' = push_window (window_size t) x (window t)" if "x \<notin> set (window t)"
    using that set_window [OF inv] record_block_refines [OF inv, of x]
    by (simp add: mark_seen_def) (simp add: record_block_def)
qed

section \<open>Histories\<close>

definition mark_all :: "(hash256 \<times> u64) list \<Rightarrow> chain_tracker \<Rightarrow> chain_tracker" where
  "mark_all bs t = fold (\<lambda>(h, n) t. snd (mark_seen h n t)) bs t"

lemma new_tracker_inv [simp]: "tracker_inv (new_tracker w)" "window (new_tracker w) = []"
  by (simp_all add: new_tracker_def tracker_inv_def window_def Let_def)

lemma reset_inv: "tracker_inv t \<Longrightarrow> tracker_inv (reset t) \<and> window (reset t) = []"
  by (simp add: reset_def tracker_inv_def window_def)

lemma mark_all_inv: "tracker_inv t \<Longrightarrow> tracker_inv (mark_all bs t) \<and> window_size (mark_all bs t) = window_size t"
  unfolding mark_all_def by (rule tracker.marks_inv)

text \<open>In every state the tracker can be in, \<open>mark_seen\<close> accepts a block exactly when its hash is not among
  those in the window; an accepted hash becomes the youngest entry and, once the window is full, pushes
  out the oldest. The tip is raised to the number of an accepted block and never lowered.\<close>

theorem mark_seen_refines_fifo:
  assumes "tracker_inv t"
  shows "(fst (mark_seen h n t) \<longleftrightarrow> h \<notin> set (window t)) \<and> tracker_inv (snd (mark_seen h n t)) \<and>
    window (snd (mark_seen h n t)) = (if h \<in> set (window t) then window t else push_window (window_size t) h (window t)) \<and>
    seen_count (snd (mark_seen h n t)) \<le> window_size t \<and>
    tip (snd (mark_seen h n t)) = (if h \<in> set (window t) then tip t else max (tip t) n)"
proof -
  have "tip (snd (mark_seen h n t)) = (if h \<in> set (window t) then tip t else max (tip t) n)"
    using set_window [OF assms] by (auto simp: mark_seen_def tip_def advance_tip_def record_block_def max_def)
  moreover have "seen_count (snd (mark_seen h n t)) \<le> window_size t"
    using tracker.mark_inv [OF assms, of h n] by (auto simp: seen_count_def tracker_inv_def)
  ultimately show ?thesis
    using tracker.mark_result [OF assms] tracker.mark_win [OF assms] tracker.mark_inv [OF assms] by blast
qed

theorem mark_seen_refines_fifo_witness:
  "window (snd (mark_seen (replicate 32 1) 7 (new_tracker 2))) = [replicate 32 1] \<and>
   tip (snd (mark_seen (replicate 32 1) 7 (new_tracker 2))) = 7"
  using mark_seen_refines_fifo [OF new_tracker_inv(1), of "replicate 32 1" 7 2]
  by (simp add: push_window_def) (simp add: new_tracker_def tip_def)

text \<open>C38. A block that was accepted is refused a second time as long as fewer blocks than the window holds
  have been marked in between, whatever they are. After blocks with pairwise distinct hashes, which were not in the
  window, the tracker remembers exactly the last ones, as many as the window holds, of the blocks it remembered before and these.\<close>

theorem mark_seen_once:
  assumes "tracker_inv t" "fst (mark_seen h n t)" "length bs < window_size t"
    and "distinct (map fst ds)" "set (map fst ds) \<inter> set (window t) = {}"
  shows "\<not> fst (mark_seen h m (mark_all bs (snd (mark_seen h n t)))) \<and>
    (is_seen k (mark_all ds t) \<longleftrightarrow> k \<in> set (drop (seen_count t + length ds - window_size t) (window t @ map fst ds)))"
proof
  show "\<not> fst (mark_seen h m (mark_all bs (snd (mark_seen h n t))))"
    unfolding mark_all_def by (rule tracker.marked_once [OF assms(1-3)])
  have "0 < window_size t" using assms(1) by (simp add: tracker_inv_def)
  with tracker.marks_new [OF assms(1, 4, 5)]
  have "window (mark_all ds t) = drop (seen_count t + length ds - window_size t) (window t @ map fst ds)"
    by (simp add: mark_all_def seen_count_def length_window [OF assms(1)])
  then show "is_seen k (mark_all ds t) \<longleftrightarrow>
      k \<in> set (drop (seen_count t + length ds - window_size t) (window t @ map fst ds))"
    using set_window mark_all_inv [OF assms(1)] by (metis is_seen_def)
qed

theorem mark_seen_once_witness:
  "\<not> is_seen (replicate 32 1) (mark_all [(replicate 32 1, 1), (replicate 32 2, 2), (replicate 32 3, 3)] (new_tracker 2))"
proof -
  let ?ds = "[(replicate 32 1, 1), (replicate 32 2, 2), (replicate 32 3, 3)] :: (hash256 \<times> u64) list"
  have "fst (mark_seen (replicate 32 1) 1 (new_tracker 2))" by (simp add: mark_seen_def new_tracker_def)
  moreover have "length ([] :: (hash256 \<times> u64) list) < window_size (new_tracker 2)" by (simp add: new_tracker_def)
  moreover have "distinct (map fst ?ds)" "set (map fst ?ds) \<inter> set (window (new_tracker 2)) = {}"
    by simp_all
  ultimately show ?thesis
    using mark_seen_once [OF new_tracker_inv(1), of "replicate 32 1" 1 2 "[]" ?ds 0 "replicate 32 1"]
    by simp (simp add: new_tracker_def seen_count_def)
qed

text \<open>A tracker that has only been shown a block with number 0 has seen the block but reports no tip hash:
  the tip is replaced only by a strictly greater number, and it starts at 0.\<close>

theorem genesis_has_no_tip_hash:
  "fst (mark_seen h 0 (new_tracker w)) \<and> is_seen h (snd (mark_seen h 0 (new_tracker w))) \<and>
   tip_hash (snd (mark_seen h 0 (new_tracker w))) = None"
  by (simp add: mark_seen_def advance_tip_def record_block_def is_seen_def new_tracker_def Let_def)

end
