(* ===== verification/Abi_Decoder.thy ===== *)
theory Abi_Decoder
  imports Eth_Objects
begin

unbundle bit_operations_syntax

text \<open>
  The event parameter decoder of src/eth/abi_decoder.cpp. Offsets and lengths are \<open>size_t\<close> values and
  wrap at 64 bits. A copy out of the data buffer goes through \<open>copy_from\<close>, which is \<open>None\<close> when the
  range leaves the buffer: the result \<open>None\<close> of a decoder stands for the undefined behaviour of such a
  read. Keccak-256 comes from a library and is the parameter \<open>keccak256\<close>.
\<close>

section \<open>Words\<close>

abbreviation (input) kAbiWordSize :: nat where "kAbiWordSize \<equiv> 32"
abbreviation (input) kAbiAddressPadding :: nat where "kAbiAddressPadding \<equiv> 12"
abbreviation (input) kAbiBoolByteIndex :: nat where "kAbiBoolByteIndex \<equiv> 31"

definition read64be :: "bytes \<Rightarrow> u64" where
  "read64be p =
     push_bit 56 (ucast (p ! 0)) OR push_bit 48 (ucast (p ! 1)) OR push_bit 40 (ucast (p ! 2)) OR
     push_bit 32 (ucast (p ! 3)) OR push_bit 24 (ucast (p ! 4)) OR push_bit 16 (ucast (p ! 5)) OR
     push_bit 8 (ucast (p ! 6)) OR ucast (p ! 7)"

definition uint256_of_words :: "u64 \<Rightarrow> u64 \<Rightarrow> u64 \<Rightarrow> u64 \<Rightarrow> u256" where
  "uint256_of_words w0 w1 w2 w3 =
     push_bit 192 (ucast w3) OR push_bit 128 (ucast w2) OR push_bit 64 (ucast w1) OR ucast w0"

definition read_uint256_be :: "bytes \<Rightarrow> u256" where
  "read_uint256_be data =
     uint256_of_words (read64be (drop 24 data)) (read64be (drop 16 data)) (read64be (drop 8 data)) (read64be data)"

section \<open>Values and parameters\<close>

datatype abi_value =
    AbiAddress address
  | AbiUint u256
  | AbiHash hash256
  | AbiBool bool
  | AbiBytes bytes
  | AbiString bytes

datatype abi_param_kind = kAddress | kUint | kInt | kBytes32 | kBool | kBytes | kString

record abi_param =
  ap_kind :: abi_param_kind
  ap_indexed :: bool
  ap_name :: string

definition is_dynamic :: "abi_param_kind \<Rightarrow> bool" where
  "is_dynamic k \<longleftrightarrow> k = kBytes \<or> k = kString"

fun decode_abi_word :: "hash256 \<Rightarrow> abi_param_kind \<Rightarrow> decoding_error + abi_value" where
  "decode_abi_word w kAddress = Inr (AbiAddress (drop kAbiAddressPadding w))"
| "decode_abi_word w kUint = Inr (AbiUint (read_uint256_be w))"
| "decode_abi_word w kInt = Inr (AbiUint (read_uint256_be w))"
| "decode_abi_word w kBytes32 = Inr (AbiHash w)"
| "decode_abi_word w kBool = Inr (AbiBool (w ! kAbiBoolByteIndex \<noteq> 0))"
| "decode_abi_word w kBytes = Inr (AbiBytes [])"
| "decode_abi_word w kString = Inr (AbiString [])"

definition decode_indexed_param :: "hash256 \<Rightarrow> abi_param \<Rightarrow> decoding_error + abi_value" where
  "decode_indexed_param topic param = decode_abi_word topic (ap_kind param)"

section \<open>The data field\<close>

type_synonym 'a checked = "(decoding_error + 'a) option"

definition copy_from :: "bytes \<Rightarrow> nat \<Rightarrow> nat \<Rightarrow> bytes option" where
  "copy_from data off len = (if off + len \<le> length data then Some (take len (drop off data)) else None)"

definition size_of :: "bytes \<Rightarrow> u64" where
  "size_of data = of_nat (length data)"

definition checked_try :: "'a checked \<Rightarrow> ('a \<Rightarrow> 'b checked) \<Rightarrow> 'b checked" where
  "checked_try r f = (case r of None \<Rightarrow> None | Some (Inl err) \<Rightarrow> Some (Inl err) | Some (Inr x) \<Rightarrow> f x)"

definition decode_dynamic :: "bytes \<Rightarrow> abi_param_kind \<Rightarrow> bytes \<Rightarrow> abi_value checked" where
  "decode_dynamic data kind offset_word =
     (let raw_offset = read_uint256_be offset_word in
      if 2 ^ 64 - 1 < raw_offset then Some (Inl kOverflow)
      else let tail_offset = ucast raw_offset :: u64 in
      if size_of data < tail_offset + 32 then Some (Inl kInputTooShort)
      else Option.bind (copy_from data (unat tail_offset) kAbiWordSize) (\<lambda>len_word.
      let raw_len = read_uint256_be len_word in
      if 2 ^ 64 - 1 < raw_len then Some (Inl kOverflow)
      else let content_len = ucast raw_len :: u64; content_offset = tail_offset + 32 in
      if size_of data < content_offset + content_len then Some (Inl kInputTooShort)
      else Option.bind (copy_from data (unat content_offset) (unat content_len)) (\<lambda>content.
      Some (Inr (if kind = kBytes then AbiBytes content else AbiString content)))))"

fun decode_params :: "bytes \<Rightarrow> nat \<Rightarrow> abi_param list \<Rightarrow> abi_value list checked" where
  "decode_params data i [] = Some (Inr [])"
| "decode_params data i (p # ps) =
     Option.bind (copy_from data (i * kAbiWordSize) kAbiWordSize) (\<lambda>w.
     checked_try (if is_dynamic (ap_kind p) then decode_dynamic data (ap_kind p) w
                  else Some (decode_abi_word w (ap_kind p))) (\<lambda>v.
     checked_try (decode_params data (i + 1) ps) (\<lambda>vs. Some (Inr (v # vs)))))"

definition decode_log_data :: "bytes \<Rightarrow> abi_param list \<Rightarrow> abi_value list checked" where
  "decode_log_data data params =
     (if params = [] then Some (Inr [])
      else if length data < length params * kAbiWordSize then Some (Inl kInputTooShort)
      else decode_params data 0 params)"

section \<open>Whole logs\<close>

fun decode_topics :: "hash256 list \<Rightarrow> nat \<Rightarrow> abi_param list \<Rightarrow> decoding_error + (abi_value list \<times> abi_param list)" where
  "decode_topics ts i [] = Inr ([], [])"
| "decode_topics ts i (p # ps) =
     (if ap_indexed p
      then if length ts \<le> i then Inl kInputTooShort
        else outcome_try (decode_indexed_param (ts ! i) p) (\<lambda>v.
             outcome_try (decode_topics ts (i + 1) ps) (\<lambda>(vs, data_params). Inr (v # vs, data_params)))
      else outcome_try (decode_topics ts i ps) (\<lambda>(vs, data_params). Inr (vs, p # data_params)))"

definition event_signature_hash :: "(bytes \<Rightarrow> hash256) \<Rightarrow> string \<Rightarrow> hash256" where
  "event_signature_hash keccak256 signature = keccak256 (map of_char signature)"

definition decode_log :: "(bytes \<Rightarrow> hash256) \<Rightarrow> log_entry \<Rightarrow> string \<Rightarrow> abi_param list \<Rightarrow> abi_value list checked" where
  "decode_log keccak256 lg signature params =
     (if log_topics lg = [] then Some (Inl kInputTooShort)
      else if log_topics lg ! 0 \<noteq> event_signature_hash keccak256 signature then Some (Inl kUnexpectedString)
      else checked_try (Some (decode_topics (log_topics lg) 1 params)) (\<lambda>(results, data_params).
           checked_try (decode_log_data (log_data lg) data_params) (\<lambda>vs. Some (Inr (results @ vs)))))"

section \<open>Reading words\<close>

lemma checked_try_simps [simp]:
  "checked_try None f = None" "checked_try (Some (Inl err)) f = Some (Inl err)" "checked_try (Some (Inr x)) f = f x"
  by (simp_all add: checked_try_def)

lemma unat_push_or:
  fixes x :: "'b::len word" and y :: "'a::len word"
  assumes y: "unat y < 2 ^ k" and k: "k + LENGTH('b) \<le> LENGTH('a)"
  shows "unat (push_bit k (ucast x) OR y) = unat x * 2 ^ k + unat y" "unat x * 2 ^ k + unat y < 2 ^ (k + LENGTH('b))"
proof -
  have "unat x * 2 ^ k + unat y < (unat x + 1) * 2 ^ k" using y by simp
  also have "\<dots> \<le> 2 ^ LENGTH('b) * 2 ^ k" using unat_less_exp [of x] by (intro mult_right_mono Suc_leI) (simp_all add: Suc_le_eq)
  finally show b: "unat x * 2 ^ k + unat y < 2 ^ (k + LENGTH('b))" by (simp add: power_add mult.commute)
  also have "\<dots> \<le> 2 ^ LENGTH('a)" using k by simp
  finally have lt: "unat x * 2 ^ k + unat y < 2 ^ LENGTH('a)" .
  have "y = of_nat (unat y)" by simp
  then have "take_bit k y = y" using y by (metis unsigned_take_bit_eq word_unat_eq_iff take_bit_nat_eq_self)
  then have "\<not> bit y n" if "k \<le> n" for n using that by (metis bit_take_bit_iff not_less)
  then have "push_bit k (ucast x) OR y = push_bit k (ucast x) + y"
    by (intro disjunctive_add [symmetric]) (auto simp: bit_push_bit_iff not_le)
  also have "\<dots> = of_nat (unat x * 2 ^ k + unat y)"
    by (simp add: push_bit_eq_mult)
  finally show "unat (push_bit k (ucast x) OR y) = unat x * 2 ^ k + unat y"
    using lt by (simp add: unat_of_nat del: of_nat_add of_nat_mult)
qed

lemma unat_push_or_less:
  fixes x :: "'b::len word" and y :: "'a::len word"
  shows "unat y < 2 ^ k \<Longrightarrow> k + LENGTH('b) \<le> LENGTH('a) \<Longrightarrow> unat (push_bit k (ucast x) OR y) < 2 ^ (k + LENGTH('b))"
  using unat_push_or [of y k x] by simp

lemma unat_read64be:
  assumes "8 \<le> length p"
  shows "unat (read64be p) = be_val (take 8 p)"
proof -
  obtain a b c d e f g h r where p: "p = a # b # c # d # e # f # g # h # r"
    using assms by (auto simp: numeral_eq_Suc Suc_le_length_iff)
  have h: "unat (ucast h :: u64) = unat h" and 0: "unat (ucast h :: u64) < 2 ^ 8"
    using unat_less_exp [of h] by (simp_all add: unat_ucast_widen)
  have 1: "unat (push_bit 8 (ucast g) OR ucast h :: u64) < 2 ^ 16" using unat_push_or_less [OF 0, of g] by simp
  have 2: "unat (push_bit 16 (ucast f) OR push_bit 8 (ucast g) OR ucast h :: u64) < 2 ^ 24"
    using unat_push_or_less [OF 1, of f] by simp
  have 3: "unat (push_bit 24 (ucast e) OR push_bit 16 (ucast f) OR push_bit 8 (ucast g) OR ucast h :: u64) < 2 ^ 32"
    using unat_push_or_less [OF 2, of e] by simp
  let ?l = "push_bit 24 (ucast e) OR push_bit 16 (ucast f) OR push_bit 8 (ucast g) OR ucast h :: u64"
  have 4: "unat (push_bit 32 (ucast d) OR ?l) < 2 ^ 40" using unat_push_or_less [OF 3, of d] by simp
  have 5: "unat (push_bit 40 (ucast c) OR push_bit 32 (ucast d) OR ?l) < 2 ^ 48"
    using unat_push_or_less [OF 4, of c] by simp
  have 6: "unat (push_bit 48 (ucast b) OR push_bit 40 (ucast c) OR push_bit 32 (ucast d) OR ?l) < 2 ^ 56"
    using unat_push_or_less [OF 5, of b] by simp
  note [simp] = unat_push_or(1) [OF 0] unat_push_or(1) [OF 1] unat_push_or(1) [OF 2] unat_push_or(1) [OF 3]
    unat_push_or(1) [OF 4] unat_push_or(1) [OF 5] unat_push_or(1) [OF 6]
  show ?thesis unfolding read64be_def p by (simp add: be_val_Cons h)
qed

lemma unat_uint256_of_words:
  "unat (uint256_of_words w0 w1 w2 w3) =
     unat w3 * 2 ^ 192 + (unat w2 * 2 ^ 128 + (unat w1 * 2 ^ 64 + unat w0))"
proof -
  have w: "unat (ucast w0 :: u256) = unat w0" and 0: "unat (ucast w0 :: u256) < 2 ^ 64"
    using unat_less_exp [of w0] by (simp_all add: unat_ucast_widen)
  have 1: "unat (push_bit 64 (ucast w1) OR ucast w0 :: u256) < 2 ^ 128" using unat_push_or_less [OF 0, of w1] by simp
  have 2: "unat (push_bit 128 (ucast w2) OR push_bit 64 (ucast w1) OR ucast w0 :: u256) < 2 ^ 192"
    using unat_push_or_less [OF 1, of w2] by simp
  show ?thesis unfolding uint256_of_words_def
    by (simp add: unat_push_or(1) [OF 0] unat_push_or(1) [OF 1] unat_push_or(1) [OF 2] w)
qed

lemma be_val_split: "n \<le> length p \<Longrightarrow> be_val p = be_val (take n p) * 2 ^ (8 * (length p - n)) + be_val (drop n p)"
  using be_val_append [of "take n p" "drop n p"] by (simp add: power_mult)

lemma unat_read_uint256_be:
  assumes "length w = 32"
  shows "unat (read_uint256_be w) = be_val w"
  using assms be_val_split [of 8 w] be_val_split [of 8 "drop 8 w"] be_val_split [of 8 "drop 16 w"]
  by (simp add: read_uint256_be_def unat_uint256_of_words unat_read64be)

section \<open>The ABI encoding\<close>

text \<open>The Solidity head and tail encoding of a parameter list, as the specification of the decoder.\<close>

definition abi_word :: "nat \<Rightarrow> bytes" where
  "abi_word n = replicate (32 - length (nat_to_be n)) 0 @ nat_to_be n"

fun static_word :: "abi_value \<Rightarrow> bytes" where
  "static_word (AbiAddress a) = replicate 12 0 @ a"
| "static_word (AbiUint n) = abi_word (unat n)"
| "static_word (AbiHash h) = h"
| "static_word (AbiBool b) = abi_word (if b then 1 else 0)"
| "static_word _ = []"

fun abi_content :: "abi_value \<Rightarrow> bytes option" where
  "abi_content (AbiBytes b) = Some b"
| "abi_content (AbiString b) = Some b"
| "abi_content _ = None"

definition abi_tail :: "abi_value \<Rightarrow> bytes" where
  "abi_tail v = (case abi_content v of None \<Rightarrow> [] | Some b \<Rightarrow> abi_word (length b) @ b @ replicate ((32 - length b mod 32) mod 32) 0)"

fun abi_heads :: "nat \<Rightarrow> abi_value list \<Rightarrow> bytes" where
  "abi_heads off [] = []"
| "abi_heads off (v # vs) =
     (if abi_content v = None then static_word v else abi_word off) @ abi_heads (off + length (abi_tail v)) vs"

definition abi_encode :: "abi_value list \<Rightarrow> bytes" where
  "abi_encode vs = abi_heads (32 * length vs) vs @ concat (map abi_tail vs)"

fun has_kind :: "abi_value \<Rightarrow> abi_param_kind \<Rightarrow> bool" where
  "has_kind (AbiAddress a) k \<longleftrightarrow> k = kAddress \<and> length a = 20"
| "has_kind (AbiUint n) k \<longleftrightarrow> k = kUint \<or> k = kInt"
| "has_kind (AbiHash h) k \<longleftrightarrow> k = kBytes32 \<and> length h = 32"
| "has_kind (AbiBool b) k \<longleftrightarrow> k = kBool"
| "has_kind (AbiBytes b) k \<longleftrightarrow> k = kBytes"
| "has_kind (AbiString b) k \<longleftrightarrow> k = kString"

lemma length_abi_word [simp]: "n < 2 ^ 256 \<Longrightarrow> length (abi_word n) = 32"
  using length_nat_to_be_u256 [of n] by (simp add: abi_word_def)

lemma be_val_abi_word [simp]: "be_val (abi_word n) = n"
  by (simp add: abi_word_def be_val_append)

lemma unat_read_abi_word [simp]: "n < 2 ^ 256 \<Longrightarrow> unat (read_uint256_be (abi_word n)) = n"
  by (simp add: unat_read_uint256_be)

lemma has_kind_dynamic: "has_kind v k \<Longrightarrow> is_dynamic k \<longleftrightarrow> abi_content v \<noteq> None"
  by (cases v) (auto simp: is_dynamic_def)

lemma abi_word_bits: "abi_word 0 = replicate 32 0" "abi_word 1 = replicate 31 0 @ [1]" "abi_word (Suc 0) = replicate 31 0 @ [1]"
  by (simp_all add: abi_word_def nat_to_be.simps)

lemma read_abi_word_unat [simp]: "read_uint256_be (abi_word (unat n)) = n"
  using unat_read_abi_word [of "unat n"] unat_less_exp [of n] by (simp add: word_unat_eq_iff)

lemma length_abi_word_unat [simp]: "length (abi_word (unat (n :: u256))) = 32"
  using length_abi_word [of "unat n"] unat_less_exp [of n] by simp

lemma length_static_word: "has_kind v k \<Longrightarrow> abi_content v = None \<Longrightarrow> length (static_word v) = 32"
  by (cases v) (auto simp: abi_word_bits)

lemma decode_static_word: "has_kind v k \<Longrightarrow> abi_content v = None \<Longrightarrow> decode_abi_word (static_word v) k = Inr v"
  by (cases v) (auto simp: abi_word_bits nth_append)

lemma size_of_less: "length data < 2 ^ 63 \<Longrightarrow> size_of data < n \<longleftrightarrow> length data < unat n"
  by (simp add: size_of_def word_less_nat_alt unat_of_nat)

lemma copy_from_append [simp]: "copy_from (pre @ xs @ post) (length pre) (length xs) = Some xs"
  by (simp add: copy_from_def)

lemma decode_dynamic_reads:
  assumes v: "has_kind v k" "abi_content v = Some b" and data: "length data < 2 ^ 63" "data = pre @ abi_tail v @ post"
  shows "decode_dynamic data k (abi_word (length pre)) = Some (Inr v)"
proof -
  obtain rest where d: "data = pre @ abi_word (length b) @ b @ rest"
    using data v by (auto simp: abi_tail_def)
  have small: "length pre < 2 ^ 63" "length b < 2 ^ 63" "length pre < 2 ^ 256" "length b < 2 ^ 256"
    using data(1) unfolding d by simp_all
  then have w: "length (abi_word (length b)) = 32" by simp
  then have len: "length pre + 32 + length b \<le> length data" unfolding d by simp
  let ?o = "ucast (read_uint256_be (abi_word (length pre))) :: u64"
  let ?n = "ucast (read_uint256_be (abi_word (length b))) :: u64"
  have u: "unat ?o = length pre" "unat ?n = length b"
    using small by (simp_all add: unsigned_ucast_eq take_bit_nat_eq_self)
  have r: "\<not> 2 ^ 64 - 1 < read_uint256_be (abi_word (length pre))" "\<not> 2 ^ 64 - 1 < read_uint256_be (abi_word (length b))"
    using small by (simp_all add: word_less_nat_alt)
  have o: "unat (?o + 32) = length pre + 32" "unat (?o + 32 + ?n) = length pre + 32 + length b"
    using u len data(1) by (simp_all add: unat_word_ariths)
  have c: "copy_from data (length pre) 32 = Some (abi_word (length b))"
    "copy_from data (length pre + 32) (length b) = Some b"
    using w copy_from_append [of pre "abi_word (length b)" "b @ rest"] copy_from_append [of "pre @ abi_word (length b)" b rest]
    unfolding d by simp_all
  show ?thesis
    using v r o u c len data(1) by (cases v) (simp_all add: decode_dynamic_def Let_def size_of_less)
qed

lemma decode_params_reads:
  assumes "list_all2 (\<lambda>p v. has_kind v (ap_kind p)) ps vs"
    and "data = hs @ abi_heads off vs @ ts @ concat (map abi_tail vs)" "length hs = i * 32"
    and "off = length (hs @ abi_heads off vs @ ts)" "length data < 2 ^ 63"
  shows "decode_params data i ps = Some (Inr vs)"
  using assms
proof (induction arbitrary: hs off ts i rule: list_all2_induct)
  case (Cons p ps v vs)
  let ?w = "if abi_content v = None then static_word v else abi_word off"
  have "off < 2 ^ 256" using Cons.prems(3, 4) unfolding Cons.prems(1) by simp
  then have w: "length ?w = 32" using length_static_word [OF Cons.hyps(1)] by simp
  have d: "data = hs @ ?w @ abi_heads (off + length (abi_tail v)) vs @ ts @ abi_tail v @ concat (map abi_tail vs)"
    using Cons.prems(1) by simp
  have c: "copy_from data (i * 32) 32 = Some ?w"
    using copy_from_append [of hs ?w] w Cons.prems(2) unfolding d by simp
  have "decode_dynamic data (ap_kind p) (abi_word off) = Some (Inr v)" if "abi_content v = Some b" for b
    using decode_dynamic_reads [OF Cons.hyps(1) that Cons.prems(4),
        of "hs @ ?w @ abi_heads (off + length (abi_tail v)) vs @ ts" "concat (map abi_tail vs)"]
      Cons.prems(3) d w by simp
  then have "(if is_dynamic (ap_kind p) then decode_dynamic data (ap_kind p) ?w
      else Some (decode_abi_word ?w (ap_kind p))) = Some (Inr v)"
    using has_kind_dynamic [OF Cons.hyps(1)] decode_static_word [OF Cons.hyps(1)] by auto
  moreover have "decode_params data (i + 1) ps = Some (Inr vs)"
    using Cons.IH [of "hs @ ?w" "off + length (abi_tail v)" "ts @ abi_tail v" "i + 1"] d w Cons.prems by simp
  ultimately show ?case using c by simp
qed simp

lemma length_abi_heads:
  "list_all2 (\<lambda>p v. has_kind v (ap_kind p)) ps vs \<Longrightarrow> off + length (concat (map abi_tail vs)) < 2 ^ 256 \<Longrightarrow>
     length (abi_heads off vs) = 32 * length vs"
  by (induction arbitrary: off rule: list_all2_induct) (auto simp: length_static_word)

lemma decode_log_data_reads:
  assumes "list_all2 (\<lambda>p v. has_kind v (ap_kind p)) ps vs" "length (abi_encode vs) < 2 ^ 63" "32 * length vs < 2 ^ 63"
  shows "decode_log_data (abi_encode vs) ps = Some (Inr vs)"
proof -
  have "32 * length vs + length (concat (map abi_tail vs)) < 2 ^ 256"
    using assms(2, 3) by (simp add: abi_encode_def)
  then have h: "length (abi_heads (32 * length vs) vs) = 32 * length vs" by (rule length_abi_heads [OF assms(1)])
  then have "decode_params (abi_encode vs) 0 ps = Some (Inr vs)"
    using decode_params_reads [OF assms(1), of "abi_encode vs" "[]" "32 * length vs" "[]" 0] assms(2)
    by (simp add: abi_encode_def)
  moreover have "length ps * 32 \<le> length (abi_encode vs)"
    using list_all2_lengthD [OF assms(1)] h by (simp add: abi_encode_def)
  ultimately show ?thesis using assms(1) by (auto simp: decode_log_data_def)
qed

section \<open>Topics\<close>

definition topic_of :: "(bytes \<Rightarrow> hash256) \<Rightarrow> abi_value \<Rightarrow> hash256" where
  "topic_of keccak256 v = (case abi_content v of None \<Rightarrow> static_word v | Some b \<Rightarrow> keccak256 b)"

fun indexed_view :: "abi_value \<Rightarrow> abi_value" where
  "indexed_view (AbiBytes b) = AbiBytes []"
| "indexed_view (AbiString b) = AbiString []"
| "indexed_view v = v"

definition indexed_values :: "abi_param list \<Rightarrow> abi_value list \<Rightarrow> abi_value list" where
  "indexed_values ps vs = map snd (filter (ap_indexed \<circ> fst) (zip ps vs))"

definition data_values :: "abi_param list \<Rightarrow> abi_value list \<Rightarrow> abi_value list" where
  "data_values ps vs = map snd (filter (Not \<circ> ap_indexed \<circ> fst) (zip ps vs))"

lemma decode_indexed_reads: "has_kind v k \<Longrightarrow> decode_abi_word (topic_of kec v) k = Inr (indexed_view v)"
  using decode_static_word [of v k] by (cases v) (auto simp: topic_of_def)

lemma decode_topics_reads:
  assumes "list_all2 (\<lambda>p v. has_kind v (ap_kind p)) ps vs"
    and "ts = pre @ map (topic_of kec) (indexed_values ps vs) @ post" "i = length pre"
  shows "decode_topics ts i ps = Inr (map indexed_view (indexed_values ps vs), filter (Not \<circ> ap_indexed) ps)"
  using assms
proof (induction arbitrary: pre i rule: list_all2_induct)
  case (Cons p ps v vs)
  then show ?case
    using Cons.IH [of "pre @ [topic_of kec v]" "i + 1"] Cons.IH [of pre i] decode_indexed_reads [OF Cons.hyps(1), of kec]
    by (auto simp: indexed_values_def decode_indexed_param_def nth_append)
qed (simp add: indexed_values_def)

lemma data_values_kinds:
  "list_all2 (\<lambda>p v. has_kind v (ap_kind p)) ps vs \<Longrightarrow>
     list_all2 (\<lambda>p v. has_kind v (ap_kind p)) (filter (Not \<circ> ap_indexed) ps) (data_values ps vs)"
  by (induction rule: list_all2_induct) (simp_all add: data_values_def)

section \<open>Properties of the decoder\<close>

text \<open>C35. A log that a contract emits for an event, with the signature hash and the indexed parameters in
  its topics and the other parameters ABI-encoded in its data, decodes to the indexed values followed by the data
  values. Indexed strings and byte arrays, of which a topic holds only the hash, come back empty.\<close>

theorem decode_log_round_trip:
  assumes "list_all2 (\<lambda>p v. has_kind v (ap_kind p)) ps vs"
    and "length (abi_encode (data_values ps vs)) < 2 ^ 63" "32 * length vs < 2 ^ 63"
    and "log_topics lg = event_signature_hash keccak sig # map (topic_of keccak) (indexed_values ps vs)"
    and "log_data lg = abi_encode (data_values ps vs)"
  shows "decode_log keccak lg sig ps = Some (Inr (map indexed_view (indexed_values ps vs) @ data_values ps vs))"
proof -
  have "decode_topics (log_topics lg) 1 ps =
      Inr (map indexed_view (indexed_values ps vs), filter (Not \<circ> ap_indexed) ps)"
    using assms(4) by (intro decode_topics_reads [OF assms(1), where pre = "[event_signature_hash keccak sig]"
          and post = "[]" and kec = keccak]) simp_all
  moreover have "length (data_values ps vs) \<le> length vs"
    using list_all2_lengthD [OF assms(1)] unfolding data_values_def
    by (metis length_filter_le length_map length_zip min.idem)
  then have "decode_log_data (log_data lg) (filter (Not \<circ> ap_indexed) ps) = Some (Inr (data_values ps vs))"
    using decode_log_data_reads [OF data_values_kinds [OF assms(1)] assms(2)] assms(3, 5) by simp
  ultimately show ?thesis using assms(4) by (simp add: decode_log_def)
qed

definition transfer_params :: "abi_param list" where
  "transfer_params = [\<lparr>ap_kind = kAddress, ap_indexed = True, ap_name = ''from''\<rparr>,
     \<lparr>ap_kind = kAddress, ap_indexed = True, ap_name = ''to''\<rparr>,
     \<lparr>ap_kind = kUint, ap_indexed = False, ap_name = ''value''\<rparr>]"

theorem decode_log_round_trip_witness:
  "decode_log (\<lambda>_. replicate 32 9)
     \<lparr>log_address = replicate 20 0,
      log_topics = [replicate 32 9, replicate 12 0 @ replicate 20 1, replicate 12 0 @ replicate 20 2],
      log_data = abi_word 500\<rparr> ''Transfer(address,address,uint256)'' transfer_params =
   Some (Inr [AbiAddress (replicate 20 1), AbiAddress (replicate 20 2), AbiUint 500])"
  using decode_log_round_trip [of transfer_params "[AbiAddress (replicate 20 1), AbiAddress (replicate 20 2), AbiUint 500]"
    "\<lparr>log_address = replicate 20 0,
      log_topics = [replicate 32 9, replicate 12 0 @ replicate 20 1, replicate 12 0 @ replicate 20 2],
      log_data = abi_word 500\<rparr>" "\<lambda>_. replicate 32 9" "''Transfer(address,address,uint256)''"]
  by (simp add: transfer_params_def indexed_values_def data_values_def abi_encode_def topic_of_def
      event_signature_hash_def abi_tail_def)

lemma less_max64: "2 ^ 64 - 1 < (x :: u256) \<longleftrightarrow> 2 ^ 64 \<le> unat x"
  by (simp add: word_less_nat_alt less_eq_Suc_le)

lemma unat_add_u64: "unat (a + b :: u64) = (if unat a + unat b < 2 ^ 64 then unat a + unat b else unat a + unat b - 2 ^ 64)"
  using unat_less_exp [of a] unat_less_exp [of b] by (auto simp: unat_word_ariths mod_if)

text \<open>What \<open>decode_dynamic\<close> does, in terms of unbounded numbers: \<open>off\<close> is the offset in the head, \<open>len\<close>
  the length stored there.\<close>

lemma decode_dynamic_eq:
  assumes "length w = 32" "32 \<le> length data" "length data < 2 ^ 63"
  defines "off \<equiv> be_val w" and "len \<equiv> be_val (take 32 (drop (be_val w) data))"
  shows "decode_dynamic data k w =
    (if 2 ^ 64 \<le> off then Some (Inl kOverflow)
     else if 2 ^ 64 \<le> off + 32 then None
     else if length data < off + 32 then Some (Inl kInputTooShort)
     else if 2 ^ 64 \<le> len then Some (Inl kOverflow)
     else if 2 ^ 64 \<le> off + 32 + len then None
     else if length data < off + 32 + len then Some (Inl kInputTooShort)
     else let content = take len (drop (off + 32) data) in
       Some (Inr (if k = kBytes then AbiBytes content else AbiString content)))"
proof -
  let ?o = "ucast (read_uint256_be w) :: u64" and ?lw = "take 32 (drop off data)"
  let ?n = "ucast (read_uint256_be ?lw) :: u64"
  have o: "unat (read_uint256_be w) = off" unfolding off_def by (rule unat_read_uint256_be [OF assms(1)])
  have uo: "unat ?o = off" if "off < 2 ^ 64" using that o by (simp add: unsigned_ucast_eq take_bit_nat_eq_self)
  have n: "unat (read_uint256_be ?lw) = len" if "off + 32 \<le> length data"
    using that unat_read_uint256_be [of ?lw] by (simp add: len_def off_def)
  have un: "unat ?n = len" if "off + 32 \<le> length data" "len < 2 ^ 64"
    using that n by (simp add: unsigned_ucast_eq take_bit_nat_eq_self)
  consider "2 ^ 64 \<le> off" | "off < 2 ^ 64" "2 ^ 64 \<le> off + 32" | "off + 32 < 2 ^ 64" "length data < off + 32"
    | "off + 32 \<le> length data" by linarith
  then show ?thesis
  proof cases
    case 4
    then show ?thesis using o uo n un assms(3)
      by (cases "len < 2 ^ 64") (auto simp: decode_dynamic_def Let_def less_max64 [simplified] size_of_less unat_add_u64 copy_from_def)
  qed (use o uo assms in \<open>simp_all add: decode_dynamic_def Let_def less_max64 [simplified] size_of_less unat_add_u64 copy_from_def\<close>)
qed

text \<open>C36. Reading a dynamic parameter stays inside the data field except in two cases, and there it always leaves it:
  the offset in the head lies in the last 32 values of \<open>size_t\<close>, so that adding the word size wraps, or the
  stored length is so large that the end of the content wraps. Both pass the bounds checks.\<close>

theorem decode_dynamic_out_of_bounds:
  assumes "length w = 32" "32 \<le> length data" "length data < 2 ^ 63"
  shows "decode_dynamic data k w = None \<longleftrightarrow>
    2 ^ 64 - 32 \<le> be_val w \<and> be_val w < 2 ^ 64 \<or>
    be_val w + 32 \<le> length data \<and> be_val (take 32 (drop (be_val w) data)) < 2 ^ 64 \<and>
      2 ^ 64 \<le> be_val w + 32 + be_val (take 32 (drop (be_val w) data))"
  using assms by (auto simp: decode_dynamic_eq Let_def)

theorem decode_dynamic_out_of_bounds_witness:
  "decode_dynamic (abi_word (2 ^ 64 - 32)) kBytes (abi_word (2 ^ 64 - 32)) = None"
  using decode_dynamic_out_of_bounds [of "abi_word (2 ^ 64 - 32)" "abi_word (2 ^ 64 - 32)" kBytes] by simp

end
