(* ===== verification/Event_Filter.thy ===== *)
theory Event_Filter
  imports Eth_Objects
begin

text \<open>
  Log filters and the event watcher of src/eth/event_filter.cpp. A callback is a value of the type
  \<open>'c\<close>; running one appends the pair of callback and event to the list of calls that the processing
  functions return. Callbacks do not change the watcher while it iterates over its subscriptions.
\<close>

section \<open>Filters\<close>

record event_filter =
  ef_addresses :: "address list"
  ef_topics :: "hash256 option list"
  ef_from_block :: "u64 option"
  ef_to_block :: "u64 option"

fun topics_match :: "hash256 option list \<Rightarrow> nat \<Rightarrow> hash256 list \<Rightarrow> bool" where
  "topics_match [] i log_tops = True"
| "topics_match (None # ts) i log_tops = topics_match ts (i + 1) log_tops"
| "topics_match (Some h # ts) i log_tops =
     (if length log_tops \<le> i then False
      else if log_tops ! i \<noteq> h then False
      else topics_match ts (i + 1) log_tops)"

definition filter_matches :: "event_filter \<Rightarrow> log_entry \<Rightarrow> u64 \<Rightarrow> bool" where
  "filter_matches f lg block =
     (if (case ef_from_block f of Some b \<Rightarrow> block < b | None \<Rightarrow> False) then False
      else if (case ef_to_block f of Some b \<Rightarrow> b < block | None \<Rightarrow> False) then False
      else if ef_addresses f \<noteq> [] \<and> log_address lg \<notin> set (ef_addresses f) then False
      else topics_match (ef_topics f) 0 (log_topics lg))"

section \<open>The watcher\<close>

record matched_event =
  me_log :: log_entry
  me_block_number :: u64
  me_block_hash :: hash256
  me_tx_hash :: hash256
  me_log_index :: u32

record 'c subscription =
  sub_id :: u32
  sub_filter :: event_filter
  sub_callback :: 'c

record 'c event_watcher =
  subscriptions :: "'c subscription list"
  next_id :: u32

definition new_watcher :: "'c event_watcher" where
  "new_watcher = \<lparr>subscriptions = [], next_id = 1\<rparr>"

definition watch :: "event_filter \<Rightarrow> 'c \<Rightarrow> 'c event_watcher \<Rightarrow> u32 \<times> 'c event_watcher" where
  "watch f cb w =
     (next_id w, w\<lparr>subscriptions := subscriptions w @ [\<lparr>sub_id = next_id w, sub_filter = f, sub_callback = cb\<rparr>],
                   next_id := next_id w + 1\<rparr>)"

definition unwatch :: "u32 \<Rightarrow> 'c event_watcher \<Rightarrow> 'c event_watcher" where
  "unwatch i w = w\<lparr>subscriptions := filter (\<lambda>s. \<not> sub_id s = i) (subscriptions w)\<rparr>"

definition subscription_count :: "'c event_watcher \<Rightarrow> nat" where
  "subscription_count w = length (subscriptions w)"

type_synonym 'c calls = "('c \<times> matched_event) list"

fun dispatch_log :: "'c subscription list \<Rightarrow> matched_event \<Rightarrow> bool \<times> 'c calls" where
  "dispatch_log [] event = (False, [])"
| "dispatch_log (sub # subs) event =
     (case dispatch_log subs event of (matched, calls) \<Rightarrow>
      if filter_matches (sub_filter sub) (me_log event) (me_block_number event)
      then (True, (sub_callback sub, event) # calls) else (matched, calls))"

fun process_logs :: "'c event_watcher \<Rightarrow> log_entry list \<Rightarrow> u64 \<Rightarrow> hash256 \<Rightarrow> hash256 \<Rightarrow> u32 \<Rightarrow> nat \<times> 'c calls" where
  "process_logs w [] block_number block_hash tx_hash log_index = (0, [])"
| "process_logs w (lg # logs) block_number block_hash tx_hash log_index =
     (case dispatch_log (subscriptions w) \<lparr>me_log = lg, me_block_number = block_number, me_block_hash = block_hash,
             me_tx_hash = tx_hash, me_log_index = log_index\<rparr> of (matched, calls) \<Rightarrow>
      case process_logs w logs block_number block_hash tx_hash (log_index + 1) of (matched_logs, calls') \<Rightarrow>
      (if matched then matched_logs + 1 else matched_logs, calls @ calls'))"

definition process_block_logs :: "'c event_watcher \<Rightarrow> log_entry list \<Rightarrow> u64 \<Rightarrow> hash256 \<Rightarrow> nat \<times> 'c calls" where
  "process_block_logs w logs block_number block_hash =
     process_logs w logs block_number block_hash (replicate 32 0) 0"

definition process_receipt :: "'c event_watcher \<Rightarrow> receipt \<Rightarrow> hash256 \<Rightarrow> u64 \<Rightarrow> hash256 \<Rightarrow> u32 \<Rightarrow> nat \<times> 'c calls" where
  "process_receipt w rc tx_hash block_number block_hash first_log_index =
     process_logs w (rc_logs rc) block_number block_hash tx_hash first_log_index"

section \<open>What a filter accepts\<close>

lemma topics_match_iff:
  "topics_match ts i tops \<longleftrightarrow> (\<forall>j h. j < length ts \<longrightarrow> ts ! j = Some h \<longrightarrow> i + j < length tops \<and> tops ! (i + j) = h)"
proof (induction ts i tops rule: topics_match.induct)
  case (2 ts i tops)
  then show ?case by (auto simp: nth_Cons' less_Suc_eq_0_disj)
next
  case (3 h ts i tops)
  then show ?case by (auto simp: less_Suc_eq_0_disj not_le)
qed simp

definition watcher_calls :: "'c event_watcher \<Rightarrow> matched_event \<Rightarrow> 'c calls" where
  "watcher_calls w ev = map (\<lambda>s. (sub_callback s, ev))
     (filter (\<lambda>s. filter_matches (sub_filter s) (me_log ev) (me_block_number ev)) (subscriptions w))"

lemma dispatch_log_eq:
  "dispatch_log subs ev = (\<exists>s \<in> set subs. filter_matches (sub_filter s) (me_log ev) (me_block_number ev),
     map (\<lambda>s. (sub_callback s, ev)) (filter (\<lambda>s. filter_matches (sub_filter s) (me_log ev) (me_block_number ev)) subs))"
  by (induction subs) auto

definition log_events :: "log_entry list \<Rightarrow> u64 \<Rightarrow> hash256 \<Rightarrow> hash256 \<Rightarrow> u32 \<Rightarrow> matched_event list" where
  "log_events logs n bh th k = map (\<lambda>j. \<lparr>me_log = logs ! j, me_block_number = n, me_block_hash = bh, me_tx_hash = th,
     me_log_index = k + of_nat j\<rparr>) [0..<length logs]"

lemma log_events_simps [simp]:
  "log_events [] n bh th k = []"
  "log_events (l # ls) n bh th k = \<lparr>me_log = l, me_block_number = n, me_block_hash = bh, me_tx_hash = th,
     me_log_index = k\<rparr> # log_events ls n bh th (k + 1)"
  by (simp_all add: log_events_def upt_conv_Cons map_Suc_upt [symmetric] del: upt_Suc) 

lemma process_logs_eq:
  "process_logs w logs n bh th k =
     (length (filter (\<lambda>ev. watcher_calls w ev \<noteq> []) (log_events logs n bh th k)),
      concat (map (watcher_calls w) (log_events logs n bh th k)))"
  by (induction logs arbitrary: k) (auto simp: dispatch_log_eq watcher_calls_def filter_empty_conv)

text \<open>A filter accepts a log exactly when the block lies in its range, the emitter is among its addresses or it
  names none, and each topic it fixes is present in the log at the same position with the same value.\<close>

theorem filter_matches_iff:
  "filter_matches f lg block \<longleftrightarrow>
     (\<forall>b. ef_from_block f = Some b \<longrightarrow> b \<le> block) \<and> (\<forall>b. ef_to_block f = Some b \<longrightarrow> block \<le> b) \<and>
     (ef_addresses f = [] \<or> log_address lg \<in> set (ef_addresses f)) \<and>
     (\<forall>j h. j < length (ef_topics f) \<longrightarrow> ef_topics f ! j = Some h \<longrightarrow>
        j < length (log_topics lg) \<and> log_topics lg ! j = h)"
  by (auto simp: filter_matches_def topics_match_iff not_less split: option.splits)

theorem filter_matches_iff_witness:
  "filter_matches \<lparr>ef_addresses = [], ef_topics = [None, Some (replicate 32 5)], ef_from_block = Some 10, ef_to_block = None\<rparr>
     \<lparr>log_address = replicate 20 1, log_topics = [replicate 32 4, replicate 32 5], log_data = []\<rparr> 10"
  unfolding filter_matches_iff by (auto simp: nth_Cons' less_Suc_eq)

text \<open>Processing a receipt calls, for every log in order and every subscription in order of registration whose
  filter accepts the log, the callback once, with the transaction hash and the position of the log counted from the
  index the caller passes; the result counts the logs with at least one call. The block form counts from
  zero and leaves the transaction hash zero.\<close>

theorem process_receipt_dispatch:
  "process_receipt w rc tx n bh k =
     (length (filter (\<lambda>ev. watcher_calls w ev \<noteq> []) (log_events (rc_logs rc) n bh tx k)),
      concat (map (watcher_calls w) (log_events (rc_logs rc) n bh tx k))) \<and>
   process_block_logs w logs n bh =
     (length (filter (\<lambda>ev. watcher_calls w ev \<noteq> []) (log_events logs n bh (replicate 32 0) 0)),
      concat (map (watcher_calls w) (log_events logs n bh (replicate 32 0) 0)))"
  by (simp add: process_receipt_def process_block_logs_def process_logs_eq)

section \<open>Subscription ids\<close>

text \<open>The states a watcher can reach, with the number of subscriptions ever registered.\<close>

inductive watcher_run :: "nat \<Rightarrow> 'c event_watcher \<Rightarrow> bool" where
  run_new: "watcher_run 0 new_watcher"
| run_watch: "watcher_run n w \<Longrightarrow> watcher_run (Suc n) (snd (watch f cb w))"
| run_unwatch: "watcher_run n w \<Longrightarrow> watcher_run n (unwatch i w)"

lemma run_next_id: "watcher_run n w \<Longrightarrow> next_id w = of_nat (n + 1)"
  by (induction rule: watcher_run.induct) (simp_all add: new_watcher_def watch_def unwatch_def)

lemma run_ids: "watcher_run n w \<Longrightarrow> sub_id ` set (subscriptions w) \<subseteq> of_nat ` {1..n}"
proof (induction rule: watcher_run.induct)
  case (run_watch n w f cb)
  have "next_id w \<in> of_nat ` {1..Suc n}" using run_next_id [OF run_watch.hyps] by (intro image_eqI [of _ _ "n + 1"]) simp_all
  with run_watch.IH show ?case by (auto simp: watch_def)
qed (auto simp: new_watcher_def unwatch_def)

lemma of_nat_u32_inj: "a < 2 ^ 32 \<Longrightarrow> b < 2 ^ 32 \<Longrightarrow> (of_nat a :: u32) = of_nat b \<longleftrightarrow> a = b"
  by (simp add: word_unat_eq_iff unat_of_nat)

lemma run_fresh:
  assumes "watcher_run n w" "n < 2 ^ 32 - 1"
  shows "next_id w \<notin> sub_id ` set (subscriptions w)"
proof
  assume "next_id w \<in> sub_id ` set (subscriptions w)"
  then obtain j where j: "j \<in> {1..n}" "next_id w = of_nat j" using run_ids [OF assms(1)] by blast
  then have "(of_nat (n + 1) :: u32) = of_nat j" using run_next_id [OF assms(1)] by simp
  with assms(2) j(1) show False by (subst (asm) of_nat_u32_inj) auto
qed

text \<open>As long as fewer than \<open>2 ^ 32 - 1\<close> filters were registered, ids are never reused: \<open>watch\<close> returns an id
  that no current subscription has and that is not 0, and \<open>unwatch\<close> with that id removes exactly the new subscription.\<close>

theorem watch_unwatch:
  assumes "watcher_run n w" "n < 2 ^ 32 - 1"
  shows "fst (watch f cb w) = of_nat (n + 1) \<and> fst (watch f cb w) \<noteq> 0 \<and>
    fst (watch f cb w) \<notin> sub_id ` set (subscriptions w) \<and>
    subscriptions (unwatch (fst (watch f cb w)) (snd (watch f cb w))) = subscriptions w \<and>
    subscription_count (snd (watch f cb w)) = subscription_count w + 1"
proof -
  have "filter (\<lambda>s. \<not> sub_id s = next_id w) (subscriptions w) = subscriptions w"
    using run_fresh [OF assms] by (intro filter_True) (auto intro: rev_image_eqI)
  moreover have "(of_nat (n + 1) :: u32) \<noteq> of_nat 0" using assms(2) by (subst of_nat_u32_inj) simp_all
  ultimately show ?thesis
    using run_fresh [OF assms] run_next_id [OF assms(1)]
    by (simp add: watch_def unwatch_def subscription_count_def)
qed

theorem watch_unwatch_witness:
  "fst (watch \<lparr>ef_addresses = [], ef_topics = [], ef_from_block = None, ef_to_block = None\<rparr> () new_watcher) = 1"
  using watch_unwatch [OF run_new, of "\<lparr>ef_addresses = [], ef_topics = [], ef_from_block = None, ef_to_block = None\<rparr>" "()"]
  by simp

end
