(* ===== verification/Byte_Encoding.thy ===== *)
theory Byte_Encoding
  imports Eth_Objects
begin

unbundle bit_operations_syntax

text \<open>
  The fixed-width byte encodings of include/base/byte_encoding.hpp and the \<open>PayloadReader\<close> of
  src/eth/bridge_observation.cpp that reads them back. The locale \<open>payload_field\<close> is the contract of a pair of
  writer and reader: the reader accepts exactly what the writer emits, so that encodings are unambiguous.
\<close>

section \<open>Writers\<close>

definition append_u32_be :: "bytes \<Rightarrow> u32 \<Rightarrow> bytes" where
  "append_u32_be out v = out @ map (\<lambda>shift. ucast (drop_bit shift v AND 0xFF)) [24, 16, 8, 0]"

definition append_u64_be :: "bytes \<Rightarrow> u64 \<Rightarrow> bytes" where
  "append_u64_be out v = out @ map (\<lambda>shift. ucast (drop_bit shift v AND 0xFF)) [56, 48, 40, 32, 24, 16, 8, 0]"

definition append_uint256_be :: "bytes \<Rightarrow> u256 \<Rightarrow> bytes" where
  "append_uint256_be out v = out @ map (\<lambda>byte. ucast (drop_bit (byte * 8) v AND 0xFF)) (rev [0..<32])"

definition append_array :: "bytes \<Rightarrow> bytes \<Rightarrow> bytes" where
  "append_array out v = out @ v"

definition append_length_prefixed_bytes :: "bytes \<Rightarrow> bytes \<Rightarrow> bytes" where
  "append_length_prefixed_bytes out v = append_u64_be out (of_nat (length v)) @ v"

definition append_length_prefixed_arrays :: "bytes \<Rightarrow> bytes list \<Rightarrow> bytes" where
  "append_length_prefixed_arrays out vs = foldl append_array (append_u64_be out (of_nat (length vs))) vs"

section \<open>The reader\<close>

record payload_reader =
  pr_data :: bytes
  pr_offset :: nat

definition remaining :: "payload_reader \<Rightarrow> nat" where
  "remaining r = length (pr_data r) - pr_offset r"

definition advance :: "nat \<Rightarrow> payload_reader \<Rightarrow> bytes \<times> payload_reader" where
  "advance n r = (take n (drop (pr_offset r) (pr_data r)), r\<lparr>pr_offset := pr_offset r + n\<rparr>)"

definition shift_in :: "bytes \<Rightarrow> 'a::len word" where
  "shift_in bs = foldl (\<lambda>v b. push_bit 8 v OR ucast b) 0 bs"

definition read_domain :: "bytes \<Rightarrow> payload_reader \<Rightarrow> payload_reader option" where
  "read_domain domain r =
     (if remaining r < length domain then None
      else case advance (length domain) r of (actual, r') \<Rightarrow> if actual \<noteq> domain then None else Some r')"

definition read_u32 :: "payload_reader \<Rightarrow> (u32 \<times> payload_reader) option" where
  "read_u32 r = (if remaining r < 4 then None else case advance 4 r of (bs, r') \<Rightarrow> Some (shift_in bs, r'))"

definition read_u64 :: "payload_reader \<Rightarrow> (u64 \<times> payload_reader) option" where
  "read_u64 r = (if remaining r < 8 then None else case advance 8 r of (bs, r') \<Rightarrow> Some (shift_in bs, r'))"

definition payload_read_array :: "nat \<Rightarrow> payload_reader \<Rightarrow> (bytes \<times> payload_reader) option" where
  "payload_read_array n r = (if remaining r < n then None else Some (advance n r))"

definition payload_read_uint256 :: "payload_reader \<Rightarrow> (u256 \<times> payload_reader) option" where
  "payload_read_uint256 r = (if remaining r < 32 then None else case advance 32 r of (bs, r') \<Rightarrow> Some (shift_in bs, r'))"

fun read_arrays :: "nat \<Rightarrow> nat \<Rightarrow> payload_reader \<Rightarrow> (bytes list \<times> payload_reader) option" where
  "read_arrays 0 n r = Some ([], r)"
| "read_arrays (Suc count) n r =
     Option.bind (payload_read_array n r) (\<lambda>(v, r').
     Option.bind (read_arrays count n r') (\<lambda>(vs, r''). Some (v # vs, r'')))"

definition read_length_prefixed_arrays :: "nat \<Rightarrow> payload_reader \<Rightarrow> (bytes list \<times> payload_reader) option" where
  "read_length_prefixed_arrays n r =
     Option.bind (read_u64 r) (\<lambda>(count, r').
     if remaining r' div n < unat count then None else read_arrays (unat count) n r')"

definition read_length_prefixed_bytes :: "payload_reader \<Rightarrow> (bytes \<times> payload_reader) option" where
  "read_length_prefixed_bytes r =
     Option.bind (read_u64 r) (\<lambda>(len, r').
     if remaining r' < unat len then None else Some (advance (unat len) r'))"

definition reader_finished :: "payload_reader \<Rightarrow> bool" where
  "reader_finished r \<longleftrightarrow> pr_offset r = length (pr_data r)"

section \<open>Fixed-width numbers\<close>

definition be_bytes :: "nat \<Rightarrow> 'a::len word \<Rightarrow> bytes" where
  "be_bytes n v = map (\<lambda>i. ucast (drop_bit (8 * i) v)) (rev [0..<n])"

lemma length_be_bytes [simp]: "length (be_bytes n v) = n"
  by (simp add: be_bytes_def)

lemma be_val_be_bytes: "be_val (be_bytes n v) = unat v mod 256 ^ n"
proof (induction n)
  case (Suc n)
  have d: "unat (ucast (drop_bit (8 * n) v) :: u8) = unat v div 256 ^ n mod 256"
  proof -
    have "unat (drop_bit (8 * n) v) = unat v div 256 ^ n"
      unfolding unat_drop_bit_eq by (simp add: drop_bit_eq_div power_mult)
    then show ?thesis by (simp add: unsigned_ucast_eq take_bit_eq_mod)
  qed
  have "be_bytes (Suc n) v = ucast (drop_bit (8 * n) v) # be_bytes n v" by (simp add: be_bytes_def)
  then have "be_val (be_bytes (Suc n) v) = unat v div 256 ^ n mod 256 * 256 ^ n + unat v mod 256 ^ n"
    using Suc d by (simp add: be_val_Cons)
  also have "\<dots> = unat v mod 256 ^ Suc n"
    using mod_mult2_eq [of "unat v" "256 ^ n" 256] by (simp add: mult.commute)
  finally show ?case .
qed (simp add: be_bytes_def)

lemma be_val_inj: "length xs = length ys \<Longrightarrow> be_val xs = be_val ys \<Longrightarrow> xs = ys"
proof (induction xs arbitrary: ys rule: rev_induct)
  case (snoc x xs)
  then obtain y zs where ys: "ys = zs @ [y]" by (cases ys rule: rev_cases) auto
  with snoc.prems have e: "be_val xs * 256 + unat x = be_val zs * 256 + unat y" by simp
  have "unat x = unat y" using arg_cong [OF e, of "\<lambda>n. n mod 256"] by simp
  moreover have "be_val xs = be_val zs" using e calculation by simp
  ultimately show ?case using snoc ys by (simp add: word_unat_eq_iff)
qed simp

lemma shift_in_eq: "(shift_in bs :: 'a::len word) = of_nat (be_val bs)"
proof (induction bs rule: rev_induct)
  case (snoc b bs)
  have "push_bit 8 v OR ucast b = push_bit 8 v + (ucast b :: 'a word)" for v
    by (rule disjunctive_add [symmetric]) (auto simp: bit_simps dest: bit_imp_le_length)
  with snoc show ?case by (simp add: shift_in_def push_bit_eq_mult mult.commute)
qed (simp add: shift_in_def)

lemma shift_in_be_bytes: "LENGTH('a) = 8 * n \<Longrightarrow> shift_in (be_bytes n v) = (v :: 'a::len word)"
proof -
  assume "LENGTH('a) = 8 * n"
  then have "unat v < 256 ^ n" using unat_less_exp [of v] by (simp add: power_mult)
  then show ?thesis by (simp add: shift_in_eq be_val_be_bytes)
qed

lemma be_bytes_shift_in: "LENGTH('a) = 8 * length bs \<Longrightarrow> be_bytes (length bs) (shift_in bs :: 'a::len word) = bs"
proof (rule be_val_inj)
  assume l: "LENGTH('a) = 8 * length bs"
  have "be_val bs < 2 ^ LENGTH('a)" using be_val_less [of bs] unfolding l by (simp add: power_mult)
  then have "unat (shift_in bs :: 'a word) = be_val bs" by (simp add: shift_in_eq unat_of_nat)
  then show "be_val (be_bytes (length bs) (shift_in bs :: 'a word)) = be_val bs"
    using be_val_less [of bs] by (simp add: be_val_be_bytes)
qed simp

section \<open>The contract of a field\<close>

text \<open>A reader whose next bytes are \<open>xs\<close>, after \<open>pre\<close> has been consumed.\<close>

definition reader_at :: "bytes \<Rightarrow> bytes \<Rightarrow> payload_reader" where
  "reader_at pre xs = \<lparr>pr_data = pre @ xs, pr_offset = length pre\<rparr>"

lemma reader_at_inj [simp]: "reader_at p xs = reader_at q ys \<longleftrightarrow> p = q \<and> xs = ys"
  by (auto simp: reader_at_def)

locale payload_field =
  fixes put :: "'a \<Rightarrow> bytes" and get :: "payload_reader \<Rightarrow> ('a \<times> payload_reader) option" and wf :: "'a \<Rightarrow> bool"
  assumes get_iff: "get (reader_at pre xs) = Some (x, r) \<longleftrightarrow>
    wf x \<and> (\<exists>rest. xs = put x @ rest \<and> r = reader_at (pre @ put x) rest)"
begin

lemma get_put [simp]: "wf x \<Longrightarrow> get (reader_at pre (put x @ rest)) = Some (x, reader_at (pre @ put x) rest)"
  by (simp add: get_iff)

lemma put_inj: "wf x \<Longrightarrow> wf y \<Longrightarrow> put x @ r = put y @ s \<longleftrightarrow> x = y \<and> r = s"
proof
  assume "wf x" "wf y" "put x @ r = put y @ s"
  then have "Some (x, reader_at (put x) r) = Some (y, reader_at (put y) s)"
    using get_put [of x "[]" r] get_put [of y "[]" s] by (metis append_Nil)
  then show "x = y \<and> r = s" by simp
qed simp

end

lemma remaining_reader_at [simp]: "remaining (reader_at pre xs) = length xs"
  by (simp add: remaining_def reader_at_def)

lemma advance_reader_at: "n \<le> length xs \<Longrightarrow> advance n (reader_at pre xs) = (take n xs, reader_at (pre @ take n xs) (drop n xs))"
  by (simp add: advance_def reader_at_def)

lemma finished_reader_at [simp]: "reader_finished (reader_at pre xs) \<longleftrightarrow> xs = []"
  by (simp add: reader_finished_def reader_at_def)

lemma split_at: "(\<exists>rest. xs = ys @ rest \<and> P rest) \<longleftrightarrow> length ys \<le> length xs \<and> take (length ys) xs = ys \<and> P (drop (length ys) xs)"
  by (metis append_eq_conv_conj append_take_drop_id le_add1 length_append)

lemma shift_field:
  assumes "LENGTH('a) = 8 * n"
  shows "(if length xs < n then None else case advance n (reader_at pre xs) of (bs, r') \<Rightarrow> Some (shift_in bs :: 'a::len word, r')) = Some (x, r) \<longleftrightarrow>
    (\<exists>rest. xs = be_bytes n x @ rest \<and> r = reader_at (pre @ be_bytes n x) rest)"
proof (cases "length xs < n")
  case False
  have "be_bytes n (shift_in (take n xs) :: 'a word) = take n xs"
    using be_bytes_shift_in [where 'a = 'a and bs = "take n xs"] False assms by simp
  moreover have "take n xs = be_bytes n x \<Longrightarrow> shift_in (take n xs) = x" using shift_in_be_bytes [OF assms] by simp
  ultimately show ?thesis using False unfolding split_at by (auto simp: advance_reader_at)
qed (auto simp: split_at)

lemma writers_eq:
  "append_u32_be out a = out @ be_bytes 4 a" "append_u64_be out b = out @ be_bytes 8 b"
  "append_uint256_be out c = out @ be_bytes 32 c"
  by (simp_all add: append_u32_be_def append_u64_be_def append_uint256_be_def be_bytes_def ucast_byte_and_mask mult.commute
      upt_rec)

interpretation u32_field: payload_field "be_bytes 4" read_u32 "\<lambda>_. True"
  by unfold_locales (simp add: read_u32_def shift_field)

interpretation u64_field: payload_field "be_bytes 8" read_u64 "\<lambda>_. True"
  by unfold_locales (simp add: read_u64_def shift_field)

interpretation u256_field: payload_field "be_bytes 32" payload_read_uint256 "\<lambda>_. True"
  by unfold_locales (simp add: payload_read_uint256_def shift_field)

lemma payload_read_array_iff:
  "payload_read_array n (reader_at pre xs) = Some (x, r) \<longleftrightarrow>
     length x = n \<and> (\<exists>rest. xs = x @ rest \<and> r = reader_at (pre @ x) rest)"
  unfolding split_at by (auto simp: payload_read_array_def advance_reader_at)

interpretation address_field: payload_field "\<lambda>x. x" "payload_read_array 20" "\<lambda>x. length x = 20"
  by unfold_locales (rule payload_read_array_iff)

interpretation hash_field: payload_field "\<lambda>x. x" "payload_read_array 32" "\<lambda>x. length x = 32"
  by unfold_locales (rule payload_read_array_iff)

lemma read_arrays_iff:
  "read_arrays k n (reader_at pre xs) = Some (vs, r) \<longleftrightarrow>
     length vs = k \<and> (\<forall>v \<in> set vs. length v = n) \<and> (\<exists>rest. xs = concat vs @ rest \<and> r = reader_at (pre @ concat vs) rest)"
proof (induction k arbitrary: n pre xs vs r)
  case (Suc k)
  have "read_arrays (Suc k) n (reader_at pre xs) = Some (vs, r) \<longleftrightarrow> (\<exists>v vs' rest. vs = v # vs' \<and> length v = n \<and>
      xs = v @ rest \<and> read_arrays k n (reader_at (pre @ v) rest) = Some (vs', r))"
    by (auto simp: bind_eq_Some_conv payload_read_array_iff)
  then show ?case by (cases vs) (auto simp: Suc)
qed auto

definition arrays_bytes :: "bytes list \<Rightarrow> bytes" where
  "arrays_bytes vs = be_bytes 8 (of_nat (length vs) :: u64) @ concat vs"

definition prefixed_bytes :: "bytes \<Rightarrow> bytes" where
  "prefixed_bytes v = be_bytes 8 (of_nat (length v) :: u64) @ v"

lemma unat_of_nat_u64: "n < 2 ^ 64 \<Longrightarrow> unat (of_nat n :: u64) = n"
  by (simp add: unat_of_nat)

lemma length_u64: "unat (c :: u64) = length xs \<Longrightarrow> length xs < 2 ^ 64"
  using unat_less_exp [of c] by simp

lemma of_nat_length_u64: "unat (c :: u64) = length xs \<Longrightarrow> of_nat (length xs) = c"
  by (metis of_nat_unat ucast_id)

lemma length_concat_const: "\<forall>v \<in> set vs. length v = n \<Longrightarrow> length (concat vs) = length vs * n"
  by (induction vs) auto

interpretation arrays_field: payload_field arrays_bytes "read_length_prefixed_arrays 32"
    "\<lambda>vs. length vs < 2 ^ 64 \<and> (\<forall>v \<in> set vs. length v = 32)"
proof
  fix pre xs vs r
  have "read_length_prefixed_arrays 32 (reader_at pre xs) = Some (vs, r) \<longleftrightarrow>
      (\<exists>(c :: u64) rest. xs = be_bytes 8 c @ rest \<and> unat c \<le> length rest div 32 \<and>
        read_arrays (unat c) 32 (reader_at (pre @ be_bytes 8 c) rest) = Some (vs, r))"
    (is "?a = ?b")
  proof
    assume ?a then show ?b
      by (auto simp: read_length_prefixed_arrays_def bind_eq_Some_conv u64_field.get_iff not_less split: if_splits)
  qed (auto simp: read_length_prefixed_arrays_def)
  also have "\<dots> \<longleftrightarrow> (length vs < 2 ^ 64 \<and> (\<forall>v \<in> set vs. length v = 32)) \<and>
      (\<exists>rest. xs = arrays_bytes vs @ rest \<and> r = reader_at (pre @ arrays_bytes vs) rest)"
    (is "?l = ?r")
  proof
    assume ?l then show ?r
      using length_u64 [OF sym, of vs] of_nat_length_u64 [OF sym, of vs] by (auto simp: read_arrays_iff arrays_bytes_def)
  next
    assume r: ?r
    then have "length (concat vs) = length vs * 32" using length_concat_const [of vs 32] by blast
    with r show ?l
      by (auto simp: read_arrays_iff arrays_bytes_def unat_of_nat_u64 intro!: exI [of _ "of_nat (length vs)"])
  qed
  finally show "read_length_prefixed_arrays 32 (reader_at pre xs) = Some (vs, r) \<longleftrightarrow>
      (length vs < 2 ^ 64 \<and> (\<forall>v \<in> set vs. length v = 32)) \<and>
      (\<exists>rest. xs = arrays_bytes vs @ rest \<and> r = reader_at (pre @ arrays_bytes vs) rest)" .
qed

interpretation bytes_field: payload_field prefixed_bytes read_length_prefixed_bytes "\<lambda>v. length v < 2 ^ 64"
proof
  fix pre xs v r
  have "read_length_prefixed_bytes (reader_at pre xs) = Some (v, r) \<longleftrightarrow>
      (\<exists>(c :: u64) rest. xs = be_bytes 8 c @ v @ rest \<and> unat c = length v \<and> r = reader_at (pre @ be_bytes 8 c @ v) rest)"
    (is "?a = ?b")
  proof
    assume ?a
    then obtain c :: u64 and rest where "xs = be_bytes 8 c @ rest" "unat c \<le> length rest"
      "advance (unat c) (reader_at (pre @ be_bytes 8 c) rest) = (v, r)"
      by (auto simp: read_length_prefixed_bytes_def bind_eq_Some_conv u64_field.get_iff not_less split: if_splits)
    then show ?b
      by (intro exI [of _ c] exI [of _ "drop (unat c) rest"]) (auto simp: advance_reader_at)
  qed (auto simp: read_length_prefixed_bytes_def advance_reader_at)
  also have "\<dots> \<longleftrightarrow> length v < 2 ^ 64 \<and> (\<exists>rest. xs = prefixed_bytes v @ rest \<and> r = reader_at (pre @ prefixed_bytes v) rest)"
    (is "?b = ?c")
  proof
    assume ?b then show ?c by (auto simp: prefixed_bytes_def of_nat_length_u64 dest: length_u64)
  next
    assume ?c then show ?b
      by (auto simp: prefixed_bytes_def unat_of_nat_u64 intro!: exI [of _ "of_nat (length v)"])
  qed
  finally show "read_length_prefixed_bytes (reader_at pre xs) = Some (v, r) \<longleftrightarrow>
      length v < 2 ^ 64 \<and> (\<exists>rest. xs = prefixed_bytes v @ rest \<and> r = reader_at (pre @ prefixed_bytes v) rest)" .
qed

lemma prefixed_writers_eq:
  "append_length_prefixed_bytes out v = out @ prefixed_bytes v"
  "append_length_prefixed_arrays out vs = out @ arrays_bytes vs"
proof -
  have "foldl append_array acc vs = acc @ concat vs" for acc
    by (induction vs arbitrary: acc) (simp_all add: append_array_def)
  then show "append_length_prefixed_arrays out vs = out @ arrays_bytes vs"
    by (simp add: append_length_prefixed_arrays_def arrays_bytes_def writers_eq)
qed (simp add: append_length_prefixed_bytes_def prefixed_bytes_def writers_eq)

lemma read_domain_iff:
  "read_domain domain (reader_at pre xs) = Some r \<longleftrightarrow> (\<exists>rest. xs = domain @ rest \<and> r = reader_at (pre @ domain) rest)"
  unfolding split_at by (auto simp: read_domain_def advance_reader_at)

end
