(* ===== verification/Bridge_Event.thy ===== *)
theory Bridge_Event
  imports Byte_Encoding
begin

text \<open>
  Bridge events of src/eth/bridge_event.cpp: the claim a watcher makes about a log, its deduplication key
  with the order that \<open>std::set\<close> uses, the message identifier, and the check of a claim against a
  receipt. Keccak-256 is the parameter \<open>keccak256\<close>.
\<close>

section \<open>Claims and keys\<close>

record receipt_result =
  rr_receipt :: receipt
  rr_tx_hash :: hash256
  rr_block_number :: u64
  rr_block_hash :: hash256
  rr_log_indices :: "u32 list"

record bridge_event_claim =
  src_chain_id :: u64
  dest_chain_id :: u64
  cl_block_number :: u64
  cl_block_hash :: hash256
  cl_tx_hash :: hash256
  cl_log_index :: u32
  bridge_contract :: address
  event_topic0 :: hash256
  cl_topics :: "hash256 list"
  cl_data :: bytes
  cl_sender :: address
  token_id_or_nonce :: u256
  amount :: u256
  recipient :: address
  observed_at :: u64
  finality_depth :: u64

datatype bridge_event_key = BridgeEventKey (key_chain: u64) (key_tx: hash256) (key_log: u32)

definition claim_key :: "bridge_event_claim \<Rightarrow> bridge_event_key" where
  "claim_key c = BridgeEventKey (src_chain_id c) (cl_tx_hash c) (cl_log_index c)"

fun lexicographical_compare :: "bytes \<Rightarrow> bytes \<Rightarrow> bool" where
  "lexicographical_compare xs [] = False"
| "lexicographical_compare [] (y # ys) = True"
| "lexicographical_compare (x # xs) (y # ys) =
     (if x < y then True else if y < x then False else lexicographical_compare xs ys)"

definition key_less :: "bridge_event_key \<Rightarrow> bridge_event_key \<Rightarrow> bool" where
  "key_less a b =
     (if key_chain a \<noteq> key_chain b then key_chain a < key_chain b
      else if key_tx a \<noteq> key_tx b then lexicographical_compare (key_tx a) (key_tx b)
      else key_log a < key_log b)"

lemma lex_irrefl: "\<not> lexicographical_compare xs xs"
  by (induction xs) auto

lemma lex_trans: "lexicographical_compare xs ys \<Longrightarrow> lexicographical_compare ys zs \<Longrightarrow> lexicographical_compare xs zs"
proof (induction xs ys arbitrary: zs rule: lexicographical_compare.induct)
  case (2 y ys)
  then show ?case by (cases zs) auto
next
  case (3 x xs y ys)
  then show ?case by (cases zs) (auto split: if_splits)
qed auto

lemma lex_total: "xs \<noteq> ys \<Longrightarrow> lexicographical_compare xs ys \<or> lexicographical_compare ys xs"
  by (induction xs ys rule: lexicographical_compare.induct) (auto simp: neq_Nil_conv)

lemma lex_asym: "lexicographical_compare xs ys \<Longrightarrow> \<not> lexicographical_compare ys xs"
  using lex_trans lex_irrefl by blast

text \<open>The order of the keys is a linear order: two keys that neither precedes are equal, as \<open>std::set\<close> requires.\<close>

instantiation bridge_event_key :: linorder
begin

definition less_bridge_event_key :: "bridge_event_key \<Rightarrow> bridge_event_key \<Rightarrow> bool" where
  "less_bridge_event_key a b = key_less a b"

definition less_eq_bridge_event_key :: "bridge_event_key \<Rightarrow> bridge_event_key \<Rightarrow> bool" where
  "less_eq_bridge_event_key a b \<longleftrightarrow> a = b \<or> key_less a b"

instance
proof
  fix a b c :: bridge_event_key
  have asym: "key_less a b \<Longrightarrow> \<not> key_less b a" for a b
    by (auto simp: key_less_def lex_asym split: if_splits)
  have trans: "key_less a b \<Longrightarrow> key_less b c \<Longrightarrow> key_less a c"
    by (auto simp: key_less_def lex_irrefl dest: lex_trans lex_asym split: if_splits)
  show "a < b \<longleftrightarrow> a \<le> b \<and> \<not> b \<le> a"
    using asym [of a b] by (auto simp: less_bridge_event_key_def less_eq_bridge_event_key_def key_less_def lex_irrefl)
  show "a \<le> a" by (simp add: less_eq_bridge_event_key_def)
  show "a \<le> b \<Longrightarrow> b \<le> c \<Longrightarrow> a \<le> c" using trans by (auto simp: less_eq_bridge_event_key_def)
  show "a \<le> b \<Longrightarrow> b \<le> a \<Longrightarrow> a = b" using asym by (auto simp: less_eq_bridge_event_key_def)
  show "a \<le> b \<or> b \<le> a"
    using lex_total by (cases a; cases b) (auto simp: less_eq_bridge_event_key_def key_less_def)
qed

end

section \<open>The deduper\<close>

record event_deduper =
  seen :: "bridge_event_key set"

definition deduper_contains :: "event_deduper \<Rightarrow> bridge_event_key \<Rightarrow> bool" where
  "deduper_contains d k \<longleftrightarrow> k \<in> seen d"

definition deduper_mark_seen :: "event_deduper \<Rightarrow> bridge_event_key \<Rightarrow> bool \<times> event_deduper" where
  "deduper_mark_seen d k = (k \<notin> seen d, d\<lparr>seen := insert k (seen d)\<rparr>)"

definition deduper_size :: "event_deduper \<Rightarrow> nat" where
  "deduper_size d = card (seen d)"

definition deduper_clear :: "event_deduper \<Rightarrow> event_deduper" where
  "deduper_clear d = d\<lparr>seen := {}\<rparr>"

section \<open>Checking a claim against a receipt\<close>

datatype receipt_log_verification_error =
    kNone | kMissingReceiptStatus | kReceiptFailed | kBlockHashMismatch | kTxHashMismatch | kLogIndexOutOfRange
  | kContractMismatch | kTopic0Mismatch | kTopicsMismatch | kDataMismatch

fun find_index :: "u32 \<Rightarrow> u32 list \<Rightarrow> nat option" where
  "find_index x [] = None"
| "find_index x (y # ys) = (if y = x then Some 0 else map_option Suc (find_index x ys))"

definition receipt_log_index :: "u32 list \<Rightarrow> u32 \<Rightarrow> nat option" where
  "receipt_log_index indices i = (if indices \<noteq> [] then find_index i indices else Some (unat i))"

definition verify_log :: "log_entry \<Rightarrow> bridge_event_claim \<Rightarrow> receipt_log_verification_error" where
  "verify_log lg c =
     (if log_address lg \<noteq> bridge_contract c then kContractMismatch
      else if log_topics lg = [] \<or> hd (log_topics lg) \<noteq> event_topic0 c then kTopic0Mismatch
      else if cl_topics c \<noteq> [] \<and> log_topics lg \<noteq> cl_topics c then kTopicsMismatch
      else if log_data lg \<noteq> cl_data c then kDataMismatch
      else kNone)"

definition verify_receipt_log :: "receipt_result \<Rightarrow> bridge_event_claim \<Rightarrow> receipt_log_verification_error" where
  "verify_receipt_log r c =
     (case rc_status (rr_receipt r) of
        None \<Rightarrow> kMissingReceiptStatus
      | Some status \<Rightarrow>
          if \<not> status then kReceiptFailed
          else if rr_block_hash r \<noteq> cl_block_hash c then kBlockHashMismatch
          else if rr_tx_hash r \<noteq> cl_tx_hash c then kTxHashMismatch
          else (case receipt_log_index (rr_log_indices r) (cl_log_index c) of
                  None \<Rightarrow> kLogIndexOutOfRange
                | Some i \<Rightarrow>
                    if length (rc_logs (rr_receipt r)) \<le> i then kLogIndexOutOfRange
                    else verify_log (rc_logs (rr_receipt r) ! i) c))"

section \<open>The message identifier\<close>

definition bridge_message_preimage :: "u64 \<Rightarrow> address \<Rightarrow> hash256 \<Rightarrow> u32 \<Rightarrow> bytes" where
  "bridge_message_preimage chain contract tx i =
     append_u32_be (append_array (append_array (append_u64_be [] chain) contract) tx) i"

definition compute_bridge_message_id ::
    "(bytes \<Rightarrow> hash256) \<Rightarrow> u64 \<Rightarrow> address \<Rightarrow> hash256 \<Rightarrow> u32 \<Rightarrow> hash256" where
  "compute_bridge_message_id keccak256 chain contract tx i = keccak256 (bridge_message_preimage chain contract tx i)"

definition bridge_message_id :: "(bytes \<Rightarrow> hash256) \<Rightarrow> bridge_event_claim \<Rightarrow> hash256" where
  "bridge_message_id keccak256 c =
     compute_bridge_message_id keccak256 (src_chain_id c) (bridge_contract c) (cl_tx_hash c) (cl_log_index c)"

section \<open>Properties\<close>

lemma find_index_Some: "find_index x ys = Some i \<longleftrightarrow> i < length ys \<and> ys ! i = x \<and> x \<notin> set (take i ys)"
proof (induction ys arbitrary: i)
  case (Cons y ys)
  then show ?case by (cases i) auto
qed simp

text \<open>C27. A claim passes the check against a receipt exactly when the receipt reports success for the same
  block and transaction and there is a log at the position the claim points at whose emitter, first topic, data and, where the claim
  lists any, all topics agree. The position is that of the first recorded log index equal to the one of the claim; when the receipt records
  none, the log index of the claim is the position itself. The check does not look at the block number, the chain ids, the amount
  or the parties of the claim.\<close>

theorem verify_receipt_log_iff:
  "verify_receipt_log r c = kNone \<longleftrightarrow>
     rc_status (rr_receipt r) = Some True \<and> rr_block_hash r = cl_block_hash c \<and> rr_tx_hash r = cl_tx_hash c \<and>
     (\<exists>i ts. i < length (rc_logs (rr_receipt r)) \<and>
        (if rr_log_indices r = [] then i = unat (cl_log_index c)
         else i < length (rr_log_indices r) \<and> rr_log_indices r ! i = cl_log_index c \<and> cl_log_index c \<notin> set (take i (rr_log_indices r))) \<and>
        log_address (rc_logs (rr_receipt r) ! i) = bridge_contract c \<and> log_data (rc_logs (rr_receipt r) ! i) = cl_data c \<and>
        log_topics (rc_logs (rr_receipt r) ! i) = event_topic0 c # ts \<and> (cl_topics c = [] \<or> cl_topics c = event_topic0 c # ts))"
proof -
  have log: "verify_log lg c = kNone \<longleftrightarrow> log_address lg = bridge_contract c \<and> log_data lg = cl_data c \<and>
      (\<exists>ts. log_topics lg = event_topic0 c # ts \<and> (cl_topics c = [] \<or> cl_topics c = event_topic0 c # ts))" for lg
    by (cases "log_topics lg") (auto simp: verify_log_def)
  have pos: "receipt_log_index (rr_log_indices r) (cl_log_index c) = Some i \<longleftrightarrow>
      (if rr_log_indices r = [] then i = unat (cl_log_index c)
       else i < length (rr_log_indices r) \<and> rr_log_indices r ! i = cl_log_index c \<and> cl_log_index c \<notin> set (take i (rr_log_indices r)))" for i
    by (auto simp: receipt_log_index_def find_index_Some)
  have "verify_receipt_log r c = kNone \<longleftrightarrow>
     rc_status (rr_receipt r) = Some True \<and> rr_block_hash r = cl_block_hash c \<and> rr_tx_hash r = cl_tx_hash c \<and>
     (\<exists>i. receipt_log_index (rr_log_indices r) (cl_log_index c) = Some i \<and> i < length (rc_logs (rr_receipt r)) \<and>
        verify_log (rc_logs (rr_receipt r) ! i) c = kNone)"
    by (auto simp: verify_receipt_log_def split: option.splits)
  then show ?thesis unfolding log pos by blast
qed

primrec mark_keys :: "bridge_event_key list \<Rightarrow> event_deduper \<Rightarrow> bool list \<times> event_deduper" where
  "mark_keys [] d = ([], d)"
| "mark_keys (k # ks) d =
     (case deduper_mark_seen d k of (b, d') \<Rightarrow> case mark_keys ks d' of (bs, d'') \<Rightarrow> (b # bs, d''))"

text \<open>Over any sequence of keys, the deduper accepts each key exactly at its first occurrence, so that an event is
  handled once.\<close>

theorem deduper_first_occurrence:
  "fst (mark_keys ks d) = map (\<lambda>i. ks ! i \<notin> seen d \<and> ks ! i \<notin> set (take i ks)) [0..<length ks] \<and>
   seen (snd (mark_keys ks d)) = seen d \<union> set ks"
proof (induction ks arbitrary: d)
  case (Cons k ks)
  have "[0..<length (k # ks)] = 0 # map Suc [0..<length ks]" by (simp add: upt_conv_Cons map_Suc_upt del: upt_Suc)
  with Cons show ?case by (auto simp: deduper_mark_seen_def split_beta)
qed simp

lemma preimage_eq: "bridge_message_preimage chain contract tx i = be_bytes 8 chain @ contract @ tx @ be_bytes 4 i"
  by (simp add: bridge_message_preimage_def append_array_def writers_eq)

lemma preimage_inj:
  assumes "length a = 20" "length a' = 20" "length t = 32" "length t' = 32"
  shows "bridge_message_preimage c a t i = bridge_message_preimage c' a' t' i' \<longleftrightarrow> c = c' \<and> a = a' \<and> t = t' \<and> i = i'"
  using assms u64_field.put_inj [where x = c and y = c' and r = "[]" and s = "[]"] u32_field.put_inj [where x = i and y = i' and r = "[]" and s = "[]"] by (simp add: preimage_eq)

text \<open>The message identifier separates events: two events with the same identifier agree in source chain, contract,
  transaction and log index, and hence in their deduplication key, or they exhibit two different 64-byte inputs on
  which the hash function collides.\<close>

theorem message_id_separates:
  assumes "length (bridge_contract c) = 20" "length (bridge_contract c') = 20"
    and "length (cl_tx_hash c) = 32" "length (cl_tx_hash c') = 32"
    and "bridge_message_id keccak c = bridge_message_id keccak c'"
  shows "claim_key c = claim_key c' \<and> bridge_contract c = bridge_contract c' \<or>
    (\<exists>x y. x \<noteq> y \<and> length x = 64 \<and> length y = 64 \<and> keccak x = keccak y)"
proof (cases "bridge_message_preimage (src_chain_id c) (bridge_contract c) (cl_tx_hash c) (cl_log_index c) =
    bridge_message_preimage (src_chain_id c') (bridge_contract c') (cl_tx_hash c') (cl_log_index c')")
  case True
  then show ?thesis using preimage_inj [OF assms(1-4)] by (simp add: claim_key_def)
next
  case False
  then show ?thesis using assms unfolding bridge_message_id_def compute_bridge_message_id_def
    by (metis (no_types, lifting) preimage_eq length_append length_be_bytes numeral_plus_numeral add_num_simps)
qed

definition sample_claim :: bridge_event_claim where
  "sample_claim = \<lparr>src_chain_id = 1, dest_chain_id = 137, cl_block_number = 100, cl_block_hash = replicate 32 1,
     cl_tx_hash = replicate 32 2, cl_log_index = 3, bridge_contract = replicate 20 4, event_topic0 = replicate 32 5,
     cl_topics = [], cl_data = [], cl_sender = replicate 20 6, token_id_or_nonce = 7, amount = 8,
     recipient = replicate 20 9, observed_at = 10, finality_depth = 64\<rparr>"

theorem message_id_separates_witness:
  "claim_key sample_claim = claim_key (sample_claim\<lparr>amount := 9\<rparr>) \<and>
   bridge_contract sample_claim = bridge_contract (sample_claim\<lparr>amount := 9\<rparr>)"
  using message_id_separates [of sample_claim "sample_claim\<lparr>amount := 9\<rparr>" "\<lambda>x. x"]
  by (simp add: sample_claim_def bridge_message_id_def)

end
