(* ===== verification/Bridge_Observation.thy ===== *)
theory Bridge_Observation
  imports Bridge_Event
begin

text \<open>
  Signed bridge observations: src/eth/secp256k1_utility.cpp and src/eth/bridge_observation.cpp. The functions of
  libsecp256k1 are the fields of the record \<open>secp256k1_lib\<close>, a parameter of the definitions that call them;
  \<open>secp256k1_laws\<close> is what the library documents of them.
\<close>

section \<open>Signatures\<close>

record ('pk, 'sg) secp256k1_lib =
  context_create :: bool
  ec_seckey_verify :: "bytes \<Rightarrow> bool"
  ec_pubkey_create :: "bytes \<Rightarrow> 'pk option"
  ec_pubkey_serialize :: "'pk \<Rightarrow> bytes option"
  ecdsa_sign_recoverable :: "hash256 \<Rightarrow> bytes \<Rightarrow> 'sg option"
  signature_serialize_compact :: "'sg \<Rightarrow> bytes \<times> nat"
  signature_parse_compact :: "bytes \<Rightarrow> nat \<Rightarrow> 'sg option"
  ecdsa_recover :: "'sg \<Rightarrow> hash256 \<Rightarrow> 'pk option"

definition address_from_uncompressed_public_key :: "(bytes \<Rightarrow> hash256) \<Rightarrow> bytes \<Rightarrow> address" where
  "address_from_uncompressed_public_key keccak256 public_key =
     (let hash = keccak256 (drop 1 public_key) in drop (length hash - 20) hash)"

definition address_from_public_key ::
    "('pk, 'sg) secp256k1_lib \<Rightarrow> (bytes \<Rightarrow> hash256) \<Rightarrow> 'pk \<Rightarrow> address option" where
  "address_from_public_key lib keccak256 public_key =
     Option.bind (ec_pubkey_serialize lib public_key) (\<lambda>public_key_bytes.
     if length public_key_bytes \<noteq> 65 \<or> hd public_key_bytes \<noteq> 0x04 then None
     else Some (address_from_uncompressed_public_key keccak256 public_key_bytes))"

definition secp256k1_address_from_private_key ::
    "('pk, 'sg) secp256k1_lib \<Rightarrow> (bytes \<Rightarrow> hash256) \<Rightarrow> bytes \<Rightarrow> address option" where
  "secp256k1_address_from_private_key lib keccak256 private_key =
     (if \<not> context_create lib then None
      else if \<not> ec_seckey_verify lib private_key then None
      else Option.bind (ec_pubkey_create lib private_key) (address_from_public_key lib keccak256))"

definition secp256k1_recover_address ::
    "('pk, 'sg) secp256k1_lib \<Rightarrow> (bytes \<Rightarrow> hash256) \<Rightarrow> hash256 \<Rightarrow> bytes \<Rightarrow> address option" where
  "secp256k1_recover_address lib keccak256 message_hash recoverable_signature =
     (if length recoverable_signature \<noteq> 65 then None
      else let recovery_id = unat (recoverable_signature ! 64) in
      if 3 < recovery_id then None
      else if \<not> context_create lib then None
      else Option.bind (signature_parse_compact lib (take 64 recoverable_signature) recovery_id) (\<lambda>signature.
           Option.bind (ecdsa_recover lib signature message_hash) (address_from_public_key lib keccak256)))"

definition secp256k1_sign_recoverable ::
    "('pk, 'sg) secp256k1_lib \<Rightarrow> hash256 \<Rightarrow> bytes \<Rightarrow> bytes option" where
  "secp256k1_sign_recoverable lib message_hash private_key =
     (if \<not> context_create lib then None
      else if \<not> ec_seckey_verify lib private_key then None
      else Option.bind (ecdsa_sign_recoverable lib message_hash private_key) (\<lambda>signature.
           case signature_serialize_compact lib signature of (compact, recovery_id) \<Rightarrow>
           Some (compact @ [of_nat recovery_id])))"

section \<open>Observations\<close>

record bridge_event_observation =
  ob_claim :: bridge_event_claim
  ob_observer :: address
  ob_signature :: bytes

definition kBridgeEventDomain :: bytes where
  "kBridgeEventDomain = map of_char ''GNUS_BRIDGE_EVENT_V1''"

definition bridge_event_claim_payload :: "bridge_event_claim \<Rightarrow> bytes" where
  "bridge_event_claim_payload c =
     (let out = kBridgeEventDomain;
          out = append_u64_be out (src_chain_id c);
          out = append_u64_be out (dest_chain_id c);
          out = append_array out (bridge_contract c);
          out = append_u64_be out (cl_block_number c);
          out = append_array out (cl_block_hash c);
          out = append_array out (cl_tx_hash c);
          out = append_u32_be out (cl_log_index c);
          out = append_array out (event_topic0 c);
          out = append_length_prefixed_arrays out (cl_topics c);
          out = append_length_prefixed_bytes out (cl_data c);
          out = append_array out (cl_sender c);
          out = append_uint256_be out (token_id_or_nonce c);
          out = append_uint256_be out (amount c);
          out = append_array out (recipient c);
          out = append_u64_be out (observed_at c)
      in append_u64_be out (finality_depth c))"

definition decode_bridge_event_claim_payload :: "bytes \<Rightarrow> bridge_event_claim option" where
  "decode_bridge_event_claim_payload payload =
     Option.bind (read_domain kBridgeEventDomain \<lparr>pr_data = payload, pr_offset = 0\<rparr>) (\<lambda>r.
     Option.bind (read_u64 r) (\<lambda>(src, r).
     Option.bind (read_u64 r) (\<lambda>(dest, r).
     Option.bind (payload_read_array 20 r) (\<lambda>(contract, r).
     Option.bind (read_u64 r) (\<lambda>(number, r).
     Option.bind (payload_read_array 32 r) (\<lambda>(block, r).
     Option.bind (payload_read_array 32 r) (\<lambda>(tx, r).
     Option.bind (read_u32 r) (\<lambda>(idx, r).
     Option.bind (payload_read_array 32 r) (\<lambda>(topic0, r).
     Option.bind (read_length_prefixed_arrays 32 r) (\<lambda>(tops, r).
     Option.bind (read_length_prefixed_bytes r) (\<lambda>(data, r).
     Option.bind (payload_read_array 20 r) (\<lambda>(sender, r).
     Option.bind (payload_read_uint256 r) (\<lambda>(token, r).
     Option.bind (payload_read_uint256 r) (\<lambda>(amt, r).
     Option.bind (payload_read_array 20 r) (\<lambda>(recip, r).
     Option.bind (read_u64 r) (\<lambda>(observed, r).
     Option.bind (read_u64 r) (\<lambda>(depth, r).
     if \<not> reader_finished r then None
     else Some \<lparr>src_chain_id = src, dest_chain_id = dest, cl_block_number = number, cl_block_hash = block,
       cl_tx_hash = tx, cl_log_index = idx, bridge_contract = contract, event_topic0 = topic0, cl_topics = tops,
       cl_data = data, cl_sender = sender, token_id_or_nonce = token, amount = amt, recipient = recip,
       observed_at = observed, finality_depth = depth\<rparr>)))))))))))))))))"

definition bridge_event_domain_separator :: "(bytes \<Rightarrow> hash256) \<Rightarrow> u64 \<Rightarrow> u64 \<Rightarrow> address \<Rightarrow> hash256" where
  "bridge_event_domain_separator keccak256 src dest contract =
     keccak256 (append_array (append_u64_be (append_u64_be kBridgeEventDomain src) dest) contract)"

definition bridge_event_claim_hash :: "(bytes \<Rightarrow> hash256) \<Rightarrow> bridge_event_claim \<Rightarrow> hash256" where
  "bridge_event_claim_hash keccak256 c = keccak256 (bridge_event_claim_payload c)"

definition observer_address_from_private_key ::
    "('pk, 'sg) secp256k1_lib \<Rightarrow> (bytes \<Rightarrow> hash256) \<Rightarrow> bytes \<Rightarrow> address option" where
  "observer_address_from_private_key lib keccak256 private_key = secp256k1_address_from_private_key lib keccak256 private_key"

definition sign_bridge_event_claim ::
    "('pk, 'sg) secp256k1_lib \<Rightarrow> (bytes \<Rightarrow> hash256) \<Rightarrow> bridge_event_claim \<Rightarrow> bytes \<Rightarrow> bridge_event_observation option" where
  "sign_bridge_event_claim lib keccak256 c private_key =
     Option.bind (observer_address_from_private_key lib keccak256 private_key) (\<lambda>observer.
     Option.bind (secp256k1_sign_recoverable lib (bridge_event_claim_hash keccak256 c) private_key) (\<lambda>signature_bytes.
     Some \<lparr>ob_claim = c, ob_observer = observer, ob_signature = signature_bytes\<rparr>))"

definition verify_bridge_event_observation ::
    "('pk, 'sg) secp256k1_lib \<Rightarrow> (bytes \<Rightarrow> hash256) \<Rightarrow> bridge_event_observation \<Rightarrow> bool" where
  "verify_bridge_event_observation lib keccak256 ob =
     (case secp256k1_recover_address lib keccak256 (bridge_event_claim_hash keccak256 (ob_claim ob)) (ob_signature ob) of
        None \<Rightarrow> False
      | Some recovered \<Rightarrow> recovered = ob_observer ob)"

section \<open>The payload is canonical\<close>

definition wf_claim :: "bridge_event_claim \<Rightarrow> bool" where
  "wf_claim c \<longleftrightarrow> length (bridge_contract c) = 20 \<and> length (cl_block_hash c) = 32 \<and> length (cl_tx_hash c) = 32 \<and>
     length (event_topic0 c) = 32 \<and> length (cl_sender c) = 20 \<and> length (recipient c) = 20 \<and>
     length (cl_topics c) < 2 ^ 64 \<and> (\<forall>t \<in> set (cl_topics c). length t = 32) \<and> length (cl_data c) < 2 ^ 64"

lemma payload_eq:
  "bridge_event_claim_payload c = kBridgeEventDomain @ be_bytes 8 (src_chain_id c) @ be_bytes 8 (dest_chain_id c) @
     bridge_contract c @ be_bytes 8 (cl_block_number c) @ cl_block_hash c @ cl_tx_hash c @ be_bytes 4 (cl_log_index c) @
     event_topic0 c @ arrays_bytes (cl_topics c) @ prefixed_bytes (cl_data c) @ cl_sender c @
     be_bytes 32 (token_id_or_nonce c) @ be_bytes 32 (amount c) @ recipient c @ be_bytes 8 (observed_at c) @
     be_bytes 8 (finality_depth c)"
  by (simp add: bridge_event_claim_payload_def Let_def writers_eq prefixed_writers_eq append_array_def)

lemma initial_reader: "\<lparr>pr_data = payload, pr_offset = 0\<rparr> = reader_at [] payload"
  by (simp add: reader_at_def)

lemmas field_iffs = read_domain_iff u64_field.get_iff u32_field.get_iff u256_field.get_iff payload_read_array_iff
  arrays_field.get_iff bytes_field.get_iff

lemma read_array_put: "length x = n \<Longrightarrow> payload_read_array n (reader_at pre (x @ rest)) = Some (x, reader_at (pre @ x) rest)"
  by (simp add: payload_read_array_iff)

lemma read_domain_put: "read_domain d (reader_at pre (d @ rest)) = Some (reader_at (pre @ d) rest)"
  by (simp add: read_domain_iff)

lemma last_field: "be_bytes 8 (x :: u64) = be_bytes 8 x @ []" by simp

lemma decode_payload:
  assumes "wf_claim c"
  shows "decode_bridge_event_claim_payload (bridge_event_claim_payload c) = Some c"
  using assms u64_field.get_put [where x = "finality_depth c" and rest = "[]"]
  unfolding decode_bridge_event_claim_payload_def initial_reader payload_eq wf_claim_def
  by (simp add: read_array_put read_domain_put)

lemma decode_payload_exact:
  assumes "decode_bridge_event_claim_payload p = Some c"
  shows "wf_claim c \<and> p = bridge_event_claim_payload c"
  using assms unfolding decode_bridge_event_claim_payload_def initial_reader payload_eq wf_claim_def
  by (clarsimp simp: bind_eq_Some_conv field_iffs split: if_splits)

text \<open>C26. The payload that watchers sign and exchange is canonical: the decoder accepts a byte string exactly when it is the
  payload of a claim with fields of the right sizes, and returns that claim. In particular different claims have
  different payloads, and every trailing, missing or altered length byte is rejected.\<close>

theorem decode_claim_payload_exact:
  "decode_bridge_event_claim_payload p = Some c \<longleftrightarrow> wf_claim c \<and> p = bridge_event_claim_payload c"
  using decode_payload decode_payload_exact by blast

section \<open>Signing and verifying\<close>

text \<open>What libsecp256k1 documents: a valid secret key has a public key and signs every 32-byte hash; the compact form of a
  signature has 64 bytes and a recovery id below 4 and is parsed back; recovery from a signature and the signed
  hash gives the public key of the signer; the uncompressed form of a public key has 65 bytes and starts with 4.\<close>

definition secp256k1_laws :: "('pk, 'sg) secp256k1_lib \<Rightarrow> bool" where
  "secp256k1_laws lib \<longleftrightarrow>
     (\<forall>sk. ec_seckey_verify lib sk \<longrightarrow> ec_pubkey_create lib sk \<noteq> None) \<and>
     (\<forall>sk h. ec_seckey_verify lib sk \<longrightarrow> ecdsa_sign_recoverable lib h sk \<noteq> None) \<and>
     (\<forall>sk h sg. ec_seckey_verify lib sk \<longrightarrow> ecdsa_sign_recoverable lib h sk = Some sg \<longrightarrow>
        (\<exists>compact i. signature_serialize_compact lib sg = (compact, i) \<and> length compact = 64 \<and> i < 4 \<and>
           signature_parse_compact lib compact i = Some sg) \<and>
        ecdsa_recover lib sg h = ec_pubkey_create lib sk) \<and>
     (\<forall>pk. \<exists>bs. ec_pubkey_serialize lib pk = Some (0x04 # bs) \<and> length bs = 64)"

lemma unat_of_nat_recid: "n < 4 \<Longrightarrow> unat (of_nat n :: u8) = n"
  by (simp add: unat_of_nat)

lemma recover_signed:
  assumes "secp256k1_laws lib" "context_create lib" "ec_seckey_verify lib sk"
  obtains sig addr where "secp256k1_sign_recoverable lib h sk = Some sig"
    "secp256k1_address_from_private_key lib kec sk = Some addr" "secp256k1_recover_address lib kec h sig = Some addr"
proof -
  from assms obtain pk sg where pk: "ec_pubkey_create lib sk = Some pk" and sg: "ecdsa_sign_recoverable lib h sk = Some sg"
    unfolding secp256k1_laws_def by blast
  then obtain compact i where c: "signature_serialize_compact lib sg = (compact, i)"
    and l: "length compact = 64" "i < 4" "signature_parse_compact lib compact i = Some sg"
    and r: "ecdsa_recover lib sg h = Some pk"
    using assms unfolding secp256k1_laws_def by metis
  obtain bs where bs: "ec_pubkey_serialize lib pk = Some (0x04 # bs)" "length bs = 64"
    using assms(1) unfolding secp256k1_laws_def by blast
  have a: "address_from_public_key lib kec pk = Some (address_from_uncompressed_public_key kec (0x04 # bs))"
    using bs by (simp add: address_from_public_key_def)
  show ?thesis
    using assms pk sg c l r a
    by (intro that [of "compact @ [of_nat i]"])
       (simp_all add: secp256k1_sign_recoverable_def secp256k1_address_from_private_key_def
         secp256k1_recover_address_def unat_of_nat_recid nth_append)
qed

text \<open>C28. An observation signed with a valid private key verifies, and it carries the address of that key.\<close>

theorem sign_verify_observation:
  assumes "secp256k1_laws lib" "context_create lib" "ec_seckey_verify lib sk"
  shows "\<exists>ob. sign_bridge_event_claim lib kec c sk = Some ob \<and> ob_claim ob = c \<and>
    Some (ob_observer ob) = observer_address_from_private_key lib kec sk \<and> length (ob_signature ob) = 65 \<and>
    verify_bridge_event_observation lib kec ob"
proof -
  obtain sig addr where s: "secp256k1_sign_recoverable lib (bridge_event_claim_hash kec c) sk = Some sig"
    "secp256k1_address_from_private_key lib kec sk = Some addr"
    "secp256k1_recover_address lib kec (bridge_event_claim_hash kec c) sig = Some addr"
    by (rule recover_signed [OF assms])
  then have "length sig = 65" by (auto simp: secp256k1_recover_address_def split: if_splits)
  with s show ?thesis
    by (simp add: sign_bridge_event_claim_def observer_address_from_private_key_def verify_bridge_event_observation_def)
qed

definition sample_lib :: "(u256, u256) secp256k1_lib" where
  "sample_lib = \<lparr>context_create = True, ec_seckey_verify = (\<lambda>sk. length sk = 32),
     ec_pubkey_create = (\<lambda>sk. Some (shift_in sk)), ec_pubkey_serialize = (\<lambda>pk. Some (0x04 # be_bytes 32 pk @ replicate 32 0)),
     ecdsa_sign_recoverable = (\<lambda>h sk. Some (shift_in sk)),
     signature_serialize_compact = (\<lambda>sg. (be_bytes 32 sg @ replicate 32 0, 1)),
     signature_parse_compact = (\<lambda>bs i. Some (shift_in (take 32 bs))), ecdsa_recover = (\<lambda>sg h. Some sg)\<rparr>"

lemma sample_lib_laws: "secp256k1_laws sample_lib"
  by (simp add: secp256k1_laws_def sample_lib_def shift_in_be_bytes)

theorem sign_verify_observation_witness:
  "\<exists>ob. sign_bridge_event_claim sample_lib (\<lambda>bs. take 32 (bs @ replicate 32 0)) sample_claim (replicate 32 7) = Some ob \<and>
     ob_claim ob = sample_claim \<and> verify_bridge_event_observation sample_lib (\<lambda>bs. take 32 (bs @ replicate 32 0)) ob"
proof -
  have "context_create sample_lib" "ec_seckey_verify sample_lib (replicate 32 7)" by (simp_all add: sample_lib_def)
  from sign_verify_observation [OF sample_lib_laws this] show ?thesis by blast
qed

end
