(* ===== verification/Finality_Policy.thy ===== *)
theory Finality_Policy
  imports Evm_Prelude
begin

text \<open>The finality rules of src/eth/finality_policy.cpp: which head of a chain decides that a block is final.\<close>

datatype finality_head_kind = kUnavailable | kFinalized | kSafe | kConfirmedLatest

record finality_policy =
  prefer_finalized :: bool
  prefer_safe :: bool
  confirmation_depth :: u64

record chain_head_snapshot =
  finalized_number :: "u64 option"
  safe_number :: "u64 option"
  latest_number :: "u64 option"

record finality_decision =
  fd_kind :: finality_head_kind
  fd_block_number :: u64
  fd_confirmation_depth :: u64

definition confirmed_head :: "u64 option \<Rightarrow> u64 \<Rightarrow> u64 option" where
  "confirmed_head latest depth =
     (case latest of None \<Rightarrow> None | Some l \<Rightarrow> if depth = 0 \<or> l < depth then None else Some (l - depth))"

definition finality_policy_for_chain_id :: "u64 \<Rightarrow> finality_policy" where
  "finality_policy_for_chain_id chain =
     (if chain = 1 \<or> chain = 11155111 \<or> chain = 17000
      then \<lparr>prefer_finalized = True, prefer_safe = True, confirmation_depth = 64\<rparr>
      else if chain = 8453 \<or> chain = 84532
      then \<lparr>prefer_finalized = True, prefer_safe = True, confirmation_depth = 900\<rparr>
      else if chain = 137 \<or> chain = 80002
      then \<lparr>prefer_finalized = False, prefer_safe = False, confirmation_depth = 256\<rparr>
      else if chain = 56 \<or> chain = 97
      then \<lparr>prefer_finalized = False, prefer_safe = False, confirmation_depth = 30\<rparr>
      else \<lparr>prefer_finalized = True, prefer_safe = True, confirmation_depth = 64\<rparr>)"

definition choose_finality_head :: "finality_policy \<Rightarrow> chain_head_snapshot \<Rightarrow> finality_decision" where
  "choose_finality_head p heads =
     (if prefer_finalized p \<and> finalized_number heads \<noteq> None
      then \<lparr>fd_kind = kFinalized, fd_block_number = the (finalized_number heads), fd_confirmation_depth = 0\<rparr>
      else if prefer_safe p \<and> safe_number heads \<noteq> None
      then \<lparr>fd_kind = kSafe, fd_block_number = the (safe_number heads), fd_confirmation_depth = 0\<rparr>
      else case confirmed_head (latest_number heads) (confirmation_depth p) of
        None \<Rightarrow> \<lparr>fd_kind = kUnavailable, fd_block_number = 0, fd_confirmation_depth = 0\<rparr>
      | Some confirmed \<Rightarrow> \<lparr>fd_kind = kConfirmedLatest, fd_block_number = confirmed,
                          fd_confirmation_depth = confirmation_depth p\<rparr>)"

definition is_final_under_policy :: "u64 \<Rightarrow> finality_policy \<Rightarrow> chain_head_snapshot \<Rightarrow> bool" where
  "is_final_under_policy block_number p heads \<longleftrightarrow>
     (let decision = choose_finality_head p heads in
      fd_kind decision \<noteq> kUnavailable \<and> block_number \<le> fd_block_number decision)"

lemma confirmed_head_le:
  "(\<exists>c. confirmed_head latest depth = Some c \<and> b \<le> c) \<longleftrightarrow>
     (\<exists>l. latest = Some l \<and> depth \<noteq> 0 \<and> unat b + unat depth \<le> unat l)"
proof (cases latest)
  case (Some l)
  have "b \<le> l - depth \<longleftrightarrow> unat b + unat depth \<le> unat l" if "depth \<le> l"
    using that unat_sub [OF that] by (auto simp: word_le_nat_alt)
  moreover have "unat b + unat depth \<le> unat l \<Longrightarrow> depth \<le> l" by (simp add: word_le_nat_alt)
  ultimately show ?thesis using Some by (auto simp: confirmed_head_def not_less)
qed (simp add: confirmed_head_def)

lemma final_cases:
  "is_final_under_policy b p heads \<longleftrightarrow>
     (if prefer_finalized p \<and> finalized_number heads \<noteq> None then b \<le> the (finalized_number heads)
      else if prefer_safe p \<and> safe_number heads \<noteq> None then b \<le> the (safe_number heads)
      else \<exists>l. latest_number heads = Some l \<and> confirmation_depth p \<noteq> 0 \<and>
             unat b + unat (confirmation_depth p) \<le> unat l)"
  unfolding confirmed_head_le [symmetric]
  by (auto simp: is_final_under_policy_def choose_finality_head_def Let_def split: option.splits)

text \<open>A block counts as final exactly when the first head the policy prefers and the chain reports, finalized before safe,
  is at or above it, or, when neither decides, when the block lies at least the confirmation depth below the latest
  head. The subtraction never wraps: with a latest head below the depth nothing is final. Every supported
  chain has a positive depth, so a latest head alone is never taken as final.\<close>

theorem is_final_iff:
  "(is_final_under_policy b p heads \<longleftrightarrow>
     (if prefer_finalized p \<and> finalized_number heads \<noteq> None then b \<le> the (finalized_number heads)
      else if prefer_safe p \<and> safe_number heads \<noteq> None then b \<le> the (safe_number heads)
      else \<exists>l. latest_number heads = Some l \<and> confirmation_depth p \<noteq> 0 \<and>
             unat b + unat (confirmation_depth p) \<le> unat l)) \<and>
   confirmation_depth (finality_policy_for_chain_id chain) \<noteq> 0"
  by (simp add: final_cases finality_policy_for_chain_id_def)

text \<open>Finality is kept while the heads grow and the chain keeps reporting the same kinds of heads.\<close>

definition head_grows :: "u64 option \<Rightarrow> u64 option \<Rightarrow> bool" where
  "head_grows a b \<longleftrightarrow> (a = None \<and> b = None) \<or> (\<exists>x y. a = Some x \<and> b = Some y \<and> x \<le> y)"

lemma is_final_mono:
  assumes "is_final_under_policy n p h" "head_grows (finalized_number h) (finalized_number h')"
    and "head_grows (safe_number h) (safe_number h')" "head_grows (latest_number h) (latest_number h')"
  shows "is_final_under_policy n p h'"
  using assms unfolding final_cases
  by (auto simp: head_grows_def word_le_nat_alt split: if_splits)

end
