(* ===== verification/Watch_Service.thy ===== *)
theory Watch_Service
  imports Eth_Messages Chain_Tracker Abi_Decoder Event_Filter
begin

text \<open>
  The message path of src/eth/eth_watch_service.cpp: block announcements lead to receipt requests, receipt responses are
  correlated with them and their logs are dispatched to the decoded-event callbacks. A service call returns the new state
  and the list of its effects: messages handed to the send callback, user callbacks run with decoded values, and
  \<open>Undefined\<close> where the ABI decoder would read outside the log data. User callbacks do not call the service back.
\<close>

section \<open>State\<close>

abbreviation (input) kNewBlockHashesMessageId :: u8 where "kNewBlockHashesMessageId \<equiv> 0x01"
abbreviation (input) kNewBlockMessageId :: u8 where "kNewBlockMessageId \<equiv> 0x07"

record pending_request =
  pr_block_hash :: hash256
  pr_block_number :: u64

record 'c watch_subscription =
  wsub_id :: u32
  event_signature :: string
  wsub_params :: "abi_param list"
  wsub_callback :: 'c

record watch_stats =
  eth_messages_seen :: u64
  new_block_hashes_messages :: u64
  new_block_messages :: u64
  receipts_messages :: u64
  decode_failures :: u64
  receipts_requested :: u64
  receipts_processed :: u64
  logs_seen :: u64
  matched_logs :: u64
  discarded_logs :: u64

record 'c watch_service =
  send_cb :: bool
  tracker :: chain_tracker
  watcher :: "u32 event_watcher"
  ws_subscriptions :: "'c watch_subscription list"
  ws_next_id :: u32
  next_req_id :: u64
  ws_stats :: watch_stats
  ws_schemas :: "eth_message_schema list"
  pending_requests :: "u64 \<rightharpoonup> pending_request"

datatype 'c effect =
    Send u8 bytes
  | Callback 'c matched_event "abi_value list"
  | Undefined

definition zero_stats :: watch_stats where
  "zero_stats = \<lparr>eth_messages_seen = 0, new_block_hashes_messages = 0, new_block_messages = 0, receipts_messages = 0,
     decode_failures = 0, receipts_requested = 0, receipts_processed = 0, logs_seen = 0, matched_logs = 0,
     discarded_logs = 0\<rparr>"

definition new_service :: "'c watch_service" where
  "new_service = \<lparr>send_cb = False, tracker = new_tracker 1024, watcher = new_watcher, ws_subscriptions = [],
     ws_next_id = 1, next_req_id = 1, ws_stats = zero_stats, ws_schemas = [], pending_requests = Map.empty\<rparr>"

section \<open>Subscriptions\<close>

definition set_send_callback :: "bool \<Rightarrow> 'c watch_service \<Rightarrow> 'c watch_service" where
  "set_send_callback cb s = s\<lparr>send_cb := cb\<rparr>"

definition set_eth_message_schemas :: "eth_message_schema list \<Rightarrow> 'c watch_service \<Rightarrow> 'c watch_service" where
  "set_eth_message_schemas schemas s = s\<lparr>ws_schemas := schemas\<rparr>"

definition make_event_filter ::
    "(bytes \<Rightarrow> hash256) \<Rightarrow> address \<Rightarrow> string \<Rightarrow> u64 option \<Rightarrow> u64 option \<Rightarrow> event_filter" where
  "make_event_filter keccak256 contract signature from_block to_block =
     \<lparr>ef_addresses = (if contract \<noteq> replicate 20 0 then [contract] else []),
      ef_topics = [Some (event_signature_hash keccak256 signature)],
      ef_from_block = from_block, ef_to_block = to_block\<rparr>"

definition watch_event :: "(bytes \<Rightarrow> hash256) \<Rightarrow> address \<Rightarrow> string \<Rightarrow> abi_param list \<Rightarrow> 'c \<Rightarrow> u64 option \<Rightarrow> u64 option
    \<Rightarrow> 'c watch_service \<Rightarrow> u32 \<times> 'c watch_service" where
  "watch_event keccak256 contract signature params callback from_block to_block s =
     (let i = ws_next_id s;
          f = make_event_filter keccak256 contract signature from_block to_block
      in (i, s\<lparr>ws_next_id := ws_next_id s + 1,
               ws_subscriptions := ws_subscriptions s @ [\<lparr>wsub_id = i, event_signature = signature, wsub_params = params,
                 wsub_callback = callback\<rparr>],
               watcher := snd (watch f i (watcher s))\<rparr>))"

definition service_unwatch :: "u32 \<Rightarrow> 'c watch_service \<Rightarrow> 'c watch_service" where
  "service_unwatch i s =
     s\<lparr>ws_subscriptions := filter (\<lambda>sub. \<not> wsub_id sub = i) (ws_subscriptions s), watcher := unwatch i (watcher s)\<rparr>"

definition run_callback :: "(bytes \<Rightarrow> hash256) \<Rightarrow> 'c watch_subscription list \<Rightarrow> u32 \<times> matched_event \<Rightarrow> 'c effect list" where
  "run_callback keccak256 subs call =
     (case find (\<lambda>sub. wsub_id sub = fst call) subs of
        None \<Rightarrow> []
      | Some sub \<Rightarrow>
          (case decode_log keccak256 (me_log (snd call)) (event_signature sub) (wsub_params sub) of
             None \<Rightarrow> [Undefined]
           | Some (Inl _) \<Rightarrow> []
           | Some (Inr vals) \<Rightarrow> [Callback (wsub_callback sub) (snd call) vals]))"

section \<open>Receipts\<close>

definition request_receipts :: "hash256 \<Rightarrow> u64 \<Rightarrow> 'c watch_service \<Rightarrow> 'c watch_service \<times> 'c effect list" where
  "request_receipts block_hash block_number s =
     (if \<not> send_cb s then (s, [])
      else let (fresh, t) = mark_seen block_hash block_number (tracker s); s = s\<lparr>tracker := t\<rparr> in
      if \<not> fresh then (s, [])
      else let req_id = next_req_id s; s = s\<lparr>next_req_id := next_req_id s + 1\<rparr> in
      (case encode_get_receipts \<lparr>grm_request_id = Some req_id, grm_block_hashes = [block_hash]\<rparr> of
         Inl _ \<Rightarrow> (s, [])
       | Inr encoded \<Rightarrow>
           (s\<lparr>pending_requests := (pending_requests s)(req_id \<mapsto> \<lparr>pr_block_hash = block_hash, pr_block_number = block_number\<rparr>),
              ws_stats := (ws_stats s)\<lparr>receipts_requested := receipts_requested (ws_stats s) + 1\<rparr>\<rparr>,
            [Send kGetReceiptsMessageId encoded])))"

fun request_all :: "new_block_hash_entry list \<Rightarrow> 'c watch_service \<Rightarrow> 'c watch_service \<times> 'c effect list" where
  "request_all [] s = (s, [])"
| "request_all (entry # entries) s =
     (case request_receipts (nbh_hash entry) (nbh_number entry) s of (s', es) \<Rightarrow>
      case request_all entries s' of (s'', es') \<Rightarrow> (s'', es @ es'))"

definition process_one_receipt ::
    "(bytes \<Rightarrow> hash256) \<Rightarrow> receipt \<Rightarrow> hash256 \<Rightarrow> u64 \<Rightarrow> hash256 \<Rightarrow> u32 \<Rightarrow> 'c watch_service \<Rightarrow> 'c watch_service \<times> 'c effect list" where
  "process_one_receipt keccak256 rc tx_hash block_number block_hash first_log_index s =
     (case process_receipt (watcher s) rc tx_hash block_number block_hash first_log_index of (matched, calls) \<Rightarrow>
      let log_count = length (rc_logs rc) in
      (s\<lparr>ws_stats := (ws_stats s)\<lparr>logs_seen := logs_seen (ws_stats s) + of_nat log_count,
           matched_logs := matched_logs (ws_stats s) + of_nat matched,
           discarded_logs := discarded_logs (ws_stats s) + of_nat (log_count - matched)\<rparr>\<rparr>,
       concat (map (run_callback keccak256 (ws_subscriptions s)) calls)))"

fun receipts_loop :: "(bytes \<Rightarrow> hash256) \<Rightarrow> (receipt \<times> hash256) list \<Rightarrow> nat \<Rightarrow> u64 \<Rightarrow> hash256 \<Rightarrow> u32 list list \<Rightarrow> u32
    \<Rightarrow> 'c watch_service \<Rightarrow> 'c watch_service \<times> 'c effect list" where
  "receipts_loop keccak256 [] i block_number block_hash log_indices next_log_index s = (s, [])"
| "receipts_loop keccak256 ((rc, tx) # rest) i block_number block_hash log_indices next_log_index s =
     (let first_log_index = (if i < length log_indices \<and> log_indices ! i \<noteq> [] then hd (log_indices ! i) else next_log_index) in
      case process_one_receipt keccak256 rc tx block_number block_hash first_log_index s of (s', es) \<Rightarrow>
      case receipts_loop keccak256 rest (i + 1) block_number block_hash log_indices
             (next_log_index + of_nat (length (rc_logs rc))) s' of (s'', es') \<Rightarrow> (s'', es @ es'))"

definition process_receipts :: "(bytes \<Rightarrow> hash256) \<Rightarrow> receipt list \<Rightarrow> hash256 list \<Rightarrow> u64 \<Rightarrow> hash256 \<Rightarrow> u32 list list
    \<Rightarrow> 'c watch_service \<Rightarrow> 'c watch_service \<times> 'c effect list" where
  "process_receipts keccak256 rcs txs block_number block_hash log_indices s =
     (let count = min (length rcs) (length txs) in
      receipts_loop keccak256 (zip rcs txs) 0 block_number block_hash log_indices 0
        (s\<lparr>ws_stats := (ws_stats s)\<lparr>receipts_processed := receipts_processed (ws_stats s) + of_nat count\<rparr>\<rparr>))"

definition process_new_block :: "new_block_message \<Rightarrow> hash256 \<Rightarrow> 'c watch_service \<Rightarrow> 'c watch_service \<times> 'c effect list" where
  "process_new_block m block_hash s = request_receipts block_hash (bh_number (nb_header m)) s"

section \<open>Messages\<close>

definition correlate :: "u64 option \<Rightarrow> nat \<Rightarrow> 'c watch_service \<Rightarrow> pending_request \<times> 'c watch_service" where
  "correlate request_id block_idx s =
     (let unknown = \<lparr>pr_block_hash = replicate 32 0, pr_block_number = 0\<rparr> in
      case request_id of
        Some r \<Rightarrow> if block_idx = 0
          then (case pending_requests s r of
                  Some p \<Rightarrow> (p, s\<lparr>pending_requests := (pending_requests s)(r := None)\<rparr>)
                | None \<Rightarrow> (unknown, s))
          else (unknown, s)
      | None \<Rightarrow> (unknown, s))"

fun process_blocks :: "(bytes \<Rightarrow> hash256) \<Rightarrow> u64 option \<Rightarrow> nat \<Rightarrow> receipt list list \<Rightarrow> 'c watch_service
    \<Rightarrow> 'c watch_service \<times> 'c effect list" where
  "process_blocks keccak256 rid i [] s = (s, [])"
| "process_blocks keccak256 rid i (block_receipts # blocks) s =
     (case correlate rid i s of (p, s') \<Rightarrow>
      case process_receipts keccak256 block_receipts (replicate (length block_receipts) (replicate 32 0))
             (pr_block_number p) (pr_block_hash p) [] s' of (s'', es) \<Rightarrow>
      case process_blocks keccak256 rid (i + 1) blocks s'' of (s''', es') \<Rightarrow> (s''', es @ es'))"

definition decode_failure :: "'c watch_service \<Rightarrow> 'c watch_service \<times> 'c effect list" where
  "decode_failure s = (s\<lparr>ws_stats := (ws_stats s)\<lparr>decode_failures := decode_failures (ws_stats s) + 1\<rparr>\<rparr>, [])"

definition process_message :: "(bytes \<Rightarrow> hash256) \<Rightarrow> u8 \<Rightarrow> bytes \<Rightarrow> 'c watch_service \<Rightarrow> 'c watch_service \<times> 'c effect list" where
  "process_message keccak256 eth_msg_id payload s0 =
     (let s = s0\<lparr>ws_stats := (ws_stats s0)\<lparr>eth_messages_seen := eth_messages_seen (ws_stats s0) + 1\<rparr>\<rparr> in
      if eth_msg_id = kNewBlockHashesMessageId then
        (let s = s\<lparr>ws_stats := (ws_stats s)\<lparr>new_block_hashes_messages := new_block_hashes_messages (ws_stats s) + 1\<rparr>\<rparr> in
         case decode_new_block_hashes payload of Inl _ \<Rightarrow> decode_failure s | Inr entries \<Rightarrow> request_all entries s)
      else if eth_msg_id = kNewBlockMessageId then
        (let s = s\<lparr>ws_stats := (ws_stats s)\<lparr>new_block_messages := new_block_messages (ws_stats s) + 1\<rparr>\<rparr> in
         case (if ws_schemas s = [] then decode_new_block payload else decode_new_block_with payload (ws_schemas s)) of
           Inl _ \<Rightarrow> decode_failure s
         | Inr m \<Rightarrow> process_new_block m (replicate 32 0) s)
      else if eth_msg_id = kReceiptsMessageId then
        (let s = s\<lparr>ws_stats := (ws_stats s)\<lparr>receipts_messages := receipts_messages (ws_stats s) + 1\<rparr>\<rparr> in
         case (if ws_schemas s = [] then decode_receipts payload else decode_receipts_with payload (ws_schemas s)) of
           Inl _ \<Rightarrow> decode_failure s
         | Inr m \<Rightarrow> process_blocks keccak256 (rm_request_id m) 0 (rm_receipts m) s)
      else (s, []))"

section \<open>What the message path leaves alone\<close>

definition same_watches :: "'c watch_service \<Rightarrow> 'c watch_service \<Rightarrow> bool" where
  "same_watches s s' \<longleftrightarrow> watcher s' = watcher s \<and> ws_subscriptions s' = ws_subscriptions s \<and> ws_next_id s' = ws_next_id s \<and>
     send_cb s' = send_cb s \<and> ws_schemas s' = ws_schemas s \<and>
     (tracker_inv (tracker s) \<longrightarrow> tracker_inv (tracker s')) \<and>
     (logs_seen (ws_stats s) = matched_logs (ws_stats s) + discarded_logs (ws_stats s) \<longrightarrow>
      logs_seen (ws_stats s') = matched_logs (ws_stats s') + discarded_logs (ws_stats s'))"

lemma same_watches_refl [simp]: "same_watches s s"
  by (simp add: same_watches_def)

lemma same_watches_trans: "same_watches s t \<Longrightarrow> same_watches t u \<Longrightarrow> same_watches s u"
  by (simp add: same_watches_def)

lemma request_receipts_frame: "same_watches s (fst (request_receipts h n s))"
  using tracker.mark_inv [of "tracker s" h n]
  by (auto simp: same_watches_def request_receipts_def Let_def split: prod.splits sum.splits)

lemma request_all_frame: "same_watches s (fst (request_all es s))"
proof (induction es arbitrary: s)
  case (Cons e es)
  show ?case
    using same_watches_trans [OF request_receipts_frame Cons.IH]
    by (simp add: split_beta)
qed simp

lemma matched_le: "fst (process_receipt w rc tx n bh k) \<le> length (rc_logs rc)"
proof -
  have "length (log_events (rc_logs rc) n bh tx k) = length (rc_logs rc)" by (simp add: log_events_def)
  then show ?thesis by (metis fst_conv length_filter_le process_logs_eq process_receipt_def)
qed

lemma process_one_receipt_frame: "same_watches s (fst (process_one_receipt kec rc tx n bh k s))"
proof -
  have "(of_nat m + of_nat (l - m) :: u64) = of_nat l" if "m \<le> l" for m l
    using that by (metis le_add_diff_inverse of_nat_add)
  with matched_le [of "watcher s" rc tx n bh k] show ?thesis
    by (auto simp: same_watches_def process_one_receipt_def Let_def algebra_simps split: prod.splits)
qed

lemma receipts_loop_frame: "same_watches s (fst (receipts_loop kec rts i n bh ix k s))"
proof (induction rts arbitrary: i k s)
  case (Cons p rts)
  obtain rc tx where p: "p = (rc, tx)" by (cases p)
  show ?case unfolding p
    using same_watches_trans [OF process_one_receipt_frame Cons.IH] by (simp add: Let_def split_beta)
qed simp

lemma process_receipts_frame: "same_watches s (fst (process_receipts kec rcs txs n bh ix s))"
proof -
  have "same_watches s (s\<lparr>ws_stats := (ws_stats s)\<lparr>receipts_processed := c\<rparr>\<rparr>)" for c by (simp add: same_watches_def)
  from same_watches_trans [OF this receipts_loop_frame] show ?thesis by (simp add: process_receipts_def Let_def)
qed

lemma correlate_frame: "same_watches s (snd (correlate rid i s))"
  by (simp add: correlate_def same_watches_def Let_def split: option.splits)

lemma process_blocks_frame: "same_watches s (fst (process_blocks kec rid i bs s))"
proof (induction bs arbitrary: i s)
  case (Cons b bs)
  show ?case
    using same_watches_trans [OF correlate_frame same_watches_trans [OF process_receipts_frame Cons.IH]]
    by (simp add: split_beta)
qed simp

lemmas frame_steps = request_receipts_frame [THEN same_watches_trans [rotated]] request_all_frame [THEN same_watches_trans [rotated]]
  process_blocks_frame [THEN same_watches_trans [rotated]]

lemma same_watches_stats:
  "logs_seen st = logs_seen (ws_stats s) \<Longrightarrow> matched_logs st = matched_logs (ws_stats s) \<Longrightarrow>
   discarded_logs st = discarded_logs (ws_stats s) \<Longrightarrow> same_watches s (s\<lparr>ws_stats := st\<rparr>)"
  by (simp add: same_watches_def)

lemma process_message_frame: "same_watches s (fst (process_message kec mid payload s))"
  by (auto simp: process_message_def Let_def decode_failure_def process_new_block_def
      intro!: frame_steps same_watches_stats split: sum.splits)

section \<open>Reachable services\<close>

text \<open>The states a service can reach, with the number of watches ever registered.\<close>

inductive service_run :: "(bytes \<Rightarrow> hash256) \<Rightarrow> nat \<Rightarrow> 'c watch_service \<Rightarrow> bool" for kec where
  run_new_service: "service_run kec 0 new_service"
| run_send_callback: "service_run kec n s \<Longrightarrow> service_run kec n (set_send_callback b s)"
| run_schemas: "service_run kec n s \<Longrightarrow> service_run kec n (set_eth_message_schemas sch s)"
| run_watch_event: "service_run kec n s \<Longrightarrow> service_run kec (Suc n) (snd (watch_event kec a sig ps cb from_b to_b s))"
| run_service_unwatch: "service_run kec n s \<Longrightarrow> service_run kec n (service_unwatch i s)"
| run_request: "service_run kec n s \<Longrightarrow> service_run kec n (fst (request_receipts h k s))"
| run_receipts: "service_run kec n s \<Longrightarrow> service_run kec n (fst (process_receipts kec rcs txs k h ix s))"
| run_message: "service_run kec n s \<Longrightarrow> service_run kec n (fst (process_message kec mid payload s))"

definition service_inv :: "nat \<Rightarrow> 'c watch_service \<Rightarrow> bool" where
  "service_inv n s \<longleftrightarrow> watcher_run n (watcher s) \<and> ws_next_id s = next_id (watcher s) \<and>
     map (\<lambda>sub. (sub_id sub, sub_callback sub)) (subscriptions (watcher s)) =
       map (\<lambda>sub. (wsub_id sub, wsub_id sub)) (ws_subscriptions s) \<and>
     tracker_inv (tracker s) \<and>
     logs_seen (ws_stats s) = matched_logs (ws_stats s) + discarded_logs (ws_stats s)"

lemma service_inv_frame: "service_inv n s \<Longrightarrow> same_watches s s' \<Longrightarrow> service_inv n s'"
  by (simp add: service_inv_def same_watches_def)

lemma filter_ids_agree:
  "map (\<lambda>x. (f x, g x)) xs = map (\<lambda>y. (h y, h y)) ys \<Longrightarrow>
     map (\<lambda>x. (f x, g x)) (filter (\<lambda>x. \<not> f x = i) xs) = map (\<lambda>y. (h y, h y)) (filter (\<lambda>y. \<not> h y = i) ys)"
proof (induction xs arbitrary: ys)
  case (Cons x xs)
  then show ?case by (cases ys) auto
qed simp

lemma service_run_inv: "service_run kec n s \<Longrightarrow> service_inv n s"
proof (induction rule: service_run.induct)
  case run_new_service
  show ?case by (simp add: service_inv_def new_service_def new_watcher_def zero_stats_def run_new [unfolded new_watcher_def])
next
  case (run_watch_event n s a sig ps cb from_b to_b)
  then show ?case
    by (simp add: service_inv_def watch_event_def Let_def run_watch) (simp add: watch_def)
next
  case (run_service_unwatch n s i)
  then have "map (\<lambda>sub. (sub_id sub, sub_callback sub)) (filter (\<lambda>sub. \<not> sub_id sub = i) (subscriptions (watcher s))) =
      map (\<lambda>sub. (wsub_id sub, wsub_id sub)) (filter (\<lambda>sub. \<not> wsub_id sub = i) (ws_subscriptions s))"
    by (intro filter_ids_agree) (simp add: service_inv_def)
  with run_service_unwatch show ?case
    by (simp add: service_inv_def service_unwatch_def run_unwatch) (simp add: unwatch_def)
qed (simp_all add: service_inv_frame [OF _ request_receipts_frame] service_inv_frame [OF _ process_receipts_frame]
    service_inv_frame [OF _ process_message_frame],
    simp_all add: set_send_callback_def set_eth_message_schemas_def service_inv_def)

section \<open>Delivery\<close>

definition deliver :: "(bytes \<Rightarrow> hash256) \<Rightarrow> 'c watch_subscription \<Rightarrow> matched_event \<Rightarrow> 'c effect list" where
  "deliver kec sub ev = (case decode_log kec (me_log ev) (event_signature sub) (wsub_params sub) of
       None \<Rightarrow> [Undefined] | Some (Inl _) \<Rightarrow> [] | Some (Inr vals) \<Rightarrow> [Callback (wsub_callback sub) ev vals])"

definition deliveries :: "(bytes \<Rightarrow> hash256) \<Rightarrow> 'c watch_service \<Rightarrow> matched_event \<Rightarrow> 'c effect list" where
  "deliveries kec s ev = concat (map (\<lambda>(w, sub). if filter_matches (sub_filter sub) (me_log ev) (me_block_number ev)
       then deliver kec w ev else []) (zip (ws_subscriptions s) (subscriptions (watcher s))))"

fun block_events :: "(receipt \<times> hash256) list \<Rightarrow> u64 \<Rightarrow> hash256 \<Rightarrow> u32 \<Rightarrow> matched_event list" where
  "block_events [] n bh k = []"
| "block_events ((rc, tx) # rest) n bh k =
     log_events (rc_logs rc) n bh tx k @ block_events rest n bh (k + of_nat (length (rc_logs rc)))"

lemma run_distinct: "watcher_run n w \<Longrightarrow> n < 2 ^ 32 \<Longrightarrow> distinct (map sub_id (subscriptions w))"
proof (induction rule: watcher_run.induct)
  case (run_watch n w f cb)
  then show ?case using run_fresh [OF run_watch.hyps] by (simp add: watch_def)
next
  case (run_unwatch n w i)
  then show ?case by (simp add: unwatch_def distinct_map_filter)
qed (simp add: new_watcher_def)

lemma find_by_id: "distinct (map f xs) \<Longrightarrow> x \<in> set xs \<Longrightarrow> find (\<lambda>y. f y = f x) xs = Some x"
  by (induction xs) (auto simp: rev_image_eqI)

lemma service_inv_distinct:
  assumes "service_inv n s" "n < 2 ^ 32"
  shows "distinct (map wsub_id (ws_subscriptions s))"
proof -
  have "map fst (map (\<lambda>sub. (sub_id sub, sub_callback sub)) (subscriptions (watcher s))) =
      map fst (map (\<lambda>sub. (wsub_id sub, wsub_id sub)) (ws_subscriptions s))"
    using assms(1) by (simp add: service_inv_def)
  then have "map sub_id (subscriptions (watcher s)) = map wsub_id (ws_subscriptions s)" by (simp add: comp_def)
  then show ?thesis using assms run_distinct [of n "watcher s"] by (simp add: service_inv_def)
qed

lemma run_callback_own:
  "service_inv n s \<Longrightarrow> n < 2 ^ 32 \<Longrightarrow> w \<in> set (ws_subscriptions s) \<Longrightarrow>
     run_callback kec (ws_subscriptions s) (wsub_id w, ev) = deliver kec w ev"
  using find_by_id [OF service_inv_distinct, of n s w]
  by (simp add: run_callback_def deliver_def split: option.splits sum.splits)

lemma calls_delivered:
  assumes "map (\<lambda>sub. (sub_id sub, sub_callback sub)) subs = map (\<lambda>sub. (wsub_id sub, wsub_id sub)) wsubs"
    and "\<And>w. w \<in> set wsubs \<Longrightarrow> rc (wsub_id w, ev) = deliver kec w ev"
  shows "concat (map rc (map (\<lambda>sub. (sub_callback sub, ev)) (filter P subs))) =
    concat (map (\<lambda>(w, sub). if P sub then deliver kec w ev else []) (zip wsubs subs))"
  using assms
proof (induction subs arbitrary: wsubs)
  case (Cons sub subs)
  then obtain w ws where "wsubs = w # ws" by (cases wsubs) auto
  with Cons show ?case by auto
qed simp

lemma deliveries_eq:
  "service_inv n s \<Longrightarrow> n < 2 ^ 32 \<Longrightarrow>
     concat (map (run_callback kec (ws_subscriptions s)) (watcher_calls (watcher s) ev)) = deliveries kec s ev"
  unfolding watcher_calls_def deliveries_def
  by (rule calls_delivered) (simp add: service_inv_def, rule run_callback_own)

lemma concat_map_concat: "concat (map f (concat xss)) = concat (map (\<lambda>xs. concat (map f xs)) xss)"
  by (induction xss) simp_all

lemma process_one_receipt_effects:
  assumes "service_inv n s" "n < 2 ^ 32"
  shows "snd (process_one_receipt kec rc tx bn bh k s) = concat (map (deliveries kec s) (log_events (rc_logs rc) bn bh tx k))"
  using deliveries_eq [OF assms, of kec]
  by (simp add: process_one_receipt_def process_receipt_def process_logs_eq Let_def concat_map_concat comp_def)

lemma deliveries_frame: "same_watches s s' \<Longrightarrow> deliveries kec s' = deliveries kec s"
  by (simp add: same_watches_def deliveries_def fun_eq_iff)

lemma receipts_loop_effects:
  "service_inv n s \<Longrightarrow> n < 2 ^ 32 \<Longrightarrow>
     snd (receipts_loop kec rts i bn bh [] k s) = concat (map (deliveries kec s) (block_events rts bn bh k))"
proof (induction rts arbitrary: i k s)
  case (Cons p rts)
  obtain rc tx where p: "p = (rc, tx)" by (cases p)
  let ?s = "fst (process_one_receipt kec rc tx bn bh k s)"
  have f: "same_watches s ?s" by (rule process_one_receipt_frame)
  have "snd (receipts_loop kec rts (i + 1) bn bh [] (k + of_nat (length (rc_logs rc))) ?s) =
      concat (map (deliveries kec ?s) (block_events rts bn bh (k + of_nat (length (rc_logs rc)))))"
    by (rule Cons.IH [OF service_inv_frame [OF Cons.prems(1) f] Cons.prems(2)])
  then show ?case unfolding p
    using process_one_receipt_effects [OF Cons.prems, of kec rc tx bn bh k] deliveries_frame [OF f, of kec]
    by (simp add: Let_def split_beta)
qed simp

lemma process_receipts_effects:
  assumes "service_inv n s" "n < 2 ^ 32"
  shows "snd (process_receipts kec rcs txs bn bh [] s) = concat (map (deliveries kec s) (block_events (zip rcs txs) bn bh 0))"
proof -
  let ?s = "s\<lparr>ws_stats := (ws_stats s)\<lparr>receipts_processed := receipts_processed (ws_stats s) + of_nat (min (length rcs) (length txs))\<rparr>\<rparr>"
  have f: "same_watches s ?s" by (simp add: same_watches_def)
  show ?thesis
    using receipts_loop_effects [OF service_inv_frame [OF assms(1) f] assms(2), of kec "zip rcs txs" 0 bn bh 0]
      deliveries_frame [OF f, of kec] by (simp add: process_receipts_def Let_def)
qed

section \<open>Requests and responses\<close>

lemma request_wire_fits: "length h = 32 \<Longrightarrow> fits (request_wire r (map RStr [h]))"
  using length_rlp_str_le [of h] by (intro fits_request_wire_short(2)) (simp add: rlp_encode_simps)

lemma encode_one_hash:
  assumes "length h = 32"
  shows "encode_get_receipts \<lparr>grm_request_id = Some r, grm_block_hashes = [h]\<rparr> = Inr (rlp_encode (request_wire r [RStr h]))"
    and "decode_get_receipts (rlp_encode (request_wire r [RStr h])) = Inr \<lparr>grm_request_id = Some r, grm_block_hashes = [h]\<rparr>"
  using hash_msgs.request_written [of "[h]" r] hash_msgs.request_read [of "[h]" r] request_wire_fits [of h r] assms
  by (simp_all add: encode_get_receipts_def decode_get_receipts_def)

lemma request_duplicate:
  "tracker_inv (tracker s) \<Longrightarrow> h \<in> set (window (tracker s)) \<Longrightarrow> request_receipts h n s = (s, [])"
  using tracker.mark_old [of "tracker s" h n] by (simp add: request_receipts_def)

lemma request_fresh:
  assumes "tracker_inv (tracker s)" "send_cb s" "length h = 32" "h \<notin> set (window (tracker s))"
  shows "request_receipts h n s =
    (s\<lparr>tracker := snd (mark_seen h n (tracker s)), next_req_id := next_req_id s + 1,
       pending_requests := (pending_requests s)(next_req_id s \<mapsto> \<lparr>pr_block_hash = h, pr_block_number = n\<rparr>),
       ws_stats := (ws_stats s)\<lparr>receipts_requested := receipts_requested (ws_stats s) + 1\<rparr>\<rparr>,
     [Send kGetReceiptsMessageId (rlp_encode (request_wire (next_req_id s) [RStr h]))])"
  using assms tracker.mark_new [OF assms(1, 4), of n]
  by (auto simp: request_receipts_def encode_one_hash Let_def)

lemma seen_after_request:
  "send_cb s \<Longrightarrow> tracker_inv (tracker s) \<Longrightarrow> h \<in> set (window (tracker (fst (request_receipts h n s))))"
  using tracker.mark_win [of "tracker s" h n] tracker.mark_inv [of "tracker s" h n]
  by (auto simp: request_receipts_def Let_def push_window_def split: prod.splits sum.splits if_splits)

lemma loop_pending: "pending_requests (fst (receipts_loop kec rts i bn bh ix k s)) = pending_requests s"
proof (induction rts arbitrary: i k s)
  case (Cons p rts)
  then show ?case by (cases p) (simp add: Let_def split_beta process_one_receipt_def)
qed simp

lemma process_receipts_pending: "pending_requests (fst (process_receipts kec rcs txs bn bh ix s)) = pending_requests s"
  by (simp add: process_receipts_def loop_pending Let_def)

lemma canonical_logs [simp]: "rc_logs (canonical_receipt rc) = rc_logs rc"
  by (simp add: canonical_receipt_def)

lemma block_events_canonical: "block_events (zip (map canonical_receipt rcs) txs) n h k = block_events (zip rcs txs) n h k"
proof (induction rcs arbitrary: txs k)
  case (Cons rc rcs)
  then show ?case by (cases txs) simp_all
qed simp

definition response_wire :: "u64 \<Rightarrow> receipt list \<Rightarrow> rlp_item" where
  "response_wire r rcs = request_wire r [RList (map receipt_item rcs)]"

lemma decode_response:
  assumes "\<forall>rc \<in> set rcs. wf_receipt rc" "fits (response_wire r rcs)"
  shows "decode_receipts (rlp_encode (response_wire r rcs)) = Inr \<lparr>rm_request_id = Some r, rm_receipts = [map canonical_receipt rcs]\<rparr>"
  using receipt_msgs.request_read [of "[rcs]" r] assms by (simp add: decode_receipts_def response_wire_def)

lemma process_response:
  assumes "service_inv k s" "k < 2 ^ 32" "ws_schemas s = []"
    and "\<forall>rc \<in> set rcs. wf_receipt rc" "fits (response_wire r rcs)"
  defines "p \<equiv> (case pending_requests s r of Some p \<Rightarrow> p | None \<Rightarrow> \<lparr>pr_block_hash = replicate 32 0, pr_block_number = 0\<rparr>)"
  shows "snd (process_message kec kReceiptsMessageId (rlp_encode (response_wire r rcs)) s) =
      concat (map (deliveries kec s) (block_events (zip rcs (replicate (length rcs) (replicate 32 0))) (pr_block_number p) (pr_block_hash p) 0))"
    and "pending_requests (fst (process_message kec kReceiptsMessageId (rlp_encode (response_wire r rcs)) s)) = (pending_requests s)(r := None)"
proof -
  let ?s = "s\<lparr>ws_stats := (ws_stats s)\<lparr>eth_messages_seen := eth_messages_seen (ws_stats s) + 1,
      receipts_messages := receipts_messages (ws_stats s) + 1\<rparr>\<rparr>"
  let ?c = "correlate (Some r) 0 ?s"
  have f: "same_watches s (snd ?c)"
    by (rule same_watches_trans [OF _ correlate_frame]) (simp add: same_watches_def)
  have c: "fst ?c = p" "pending_requests (snd ?c) = (pending_requests s)(r := None)"
    by (auto simp: correlate_def p_def Let_def split: option.splits)
  have m: "process_message kec kReceiptsMessageId (rlp_encode (response_wire r rcs)) s =
      process_blocks kec (Some r) 0 [map canonical_receipt rcs] ?s"
    using assms(3) decode_response [OF assms(4, 5)] by (simp add: process_message_def Let_def)
  show "snd (process_message kec kReceiptsMessageId (rlp_encode (response_wire r rcs)) s) =
      concat (map (deliveries kec s) (block_events (zip rcs (replicate (length rcs) (replicate 32 0))) (pr_block_number p) (pr_block_hash p) 0))"
    using process_receipts_effects [OF service_inv_frame [OF assms(1) f] assms(2)] deliveries_frame [OF f] c
    unfolding m by (simp add: split_beta block_events_canonical)
  show "pending_requests (fst (process_message kec kReceiptsMessageId (rlp_encode (response_wire r rcs)) s)) = (pending_requests s)(r := None)"
    using c unfolding m by (simp add: split_beta process_receipts_pending)
qed

section \<open>Properties\<close>

text \<open>C15. In every state a service reaches, its own subscriptions and those of its event watcher carry the same ids in the same
  order and the two id counters agree, so that unwatching removes both halves of a watch; the block window is
  well formed; and every log counted as seen is counted as matched or as discarded.\<close>

theorem service_reachable_inv:
  assumes "service_run kec n s"
  shows "map sub_id (subscriptions (watcher s)) = map wsub_id (ws_subscriptions s) \<and> ws_next_id s = next_id (watcher s) \<and>
    map sub_id (subscriptions (watcher (service_unwatch i s))) = map wsub_id (ws_subscriptions (service_unwatch i s)) \<and>
    tracker_inv (tracker s) \<and> logs_seen (ws_stats s) = matched_logs (ws_stats s) + discarded_logs (ws_stats s)"
proof -
  have ids: "map sub_id (subscriptions (watcher s)) = map wsub_id (ws_subscriptions s)" if "service_inv n s" for n and s :: "'c watch_service"
  proof -
    have "map fst (map (\<lambda>sub. (sub_id sub, sub_callback sub)) (subscriptions (watcher s))) =
        map fst (map (\<lambda>sub. (wsub_id sub, wsub_id sub)) (ws_subscriptions s))"
      using that unfolding service_inv_def by metis
    then show ?thesis by (simp add: comp_def)
  qed
  show ?thesis
    using service_run_inv [OF assms] service_run_inv [OF run_service_unwatch [OF assms, of i]] ids
    by (auto simp: service_inv_def)
qed

definition sample_service :: "unit watch_service" where
  "sample_service = set_send_callback True (snd (watch_event (\<lambda>_. replicate 32 2) (replicate 20 0) ''E()'' [] () None None new_service))"

lemma sample_service_run: "service_run (\<lambda>_. replicate 32 2) 1 sample_service"
  unfolding sample_service_def using run_send_callback [OF run_watch_event [OF run_new_service]] by simp

theorem service_reachable_inv_witness:
  "map sub_id (subscriptions (watcher sample_service)) = map wsub_id (ws_subscriptions sample_service)"
  using service_reachable_inv [OF sample_service_run] by blast

text \<open>C16. A service with a send callback asks for the receipts of a block once: for a hash in its window nothing happens, for any
  other hash it sends one GetReceipts message that decodes to a request for exactly this block under the next request
  id, remembers the block under that id, and a second request for the block right after does nothing.\<close>

theorem request_receipts_once:
  assumes "tracker_inv (tracker s)" "send_cb s" "length h = 32"
  shows "(h \<in> set (window (tracker s)) \<longrightarrow> request_receipts h n s = (s, [])) \<and>
    (h \<notin> set (window (tracker s)) \<longrightarrow>
      (\<exists>payload. snd (request_receipts h n s) = [Send kGetReceiptsMessageId payload] \<and>
         decode_get_receipts payload = Inr \<lparr>grm_request_id = Some (next_req_id s), grm_block_hashes = [h]\<rparr>) \<and>
      pending_requests (fst (request_receipts h n s)) (next_req_id s) = Some \<lparr>pr_block_hash = h, pr_block_number = n\<rparr> \<and>
      next_req_id (fst (request_receipts h n s)) = next_req_id s + 1) \<and>
    snd (request_receipts h m (fst (request_receipts h n s))) = []"
proof -
  have "tracker_inv (tracker (fst (request_receipts h n s)))"
    using request_receipts_frame [of s h n] assms(1) by (simp add: same_watches_def)
  then have "snd (request_receipts h m (fst (request_receipts h n s))) = []"
    using request_duplicate [OF _ seen_after_request [OF assms(2, 1)]] by simp
  moreover have "h \<notin> set (window (tracker s)) \<Longrightarrow> \<exists>payload. snd (request_receipts h n s) = [Send kGetReceiptsMessageId payload] \<and>
         decode_get_receipts payload = Inr \<lparr>grm_request_id = Some (next_req_id s), grm_block_hashes = [h]\<rparr>"
    using request_fresh [OF assms] encode_one_hash(2) [OF assms(3)] by simp
  ultimately show ?thesis
    using request_duplicate [OF assms(1), of h n] request_fresh [OF assms, of n] by simp
qed

lemma sample_service_simps:
  "tracker_inv (tracker sample_service)" "send_cb sample_service" "window (tracker sample_service) = []"
  "ws_schemas sample_service = []" "next_req_id sample_service = 1"
  "pending_requests sample_service = Map.empty"
  by (simp_all add: sample_service_def set_send_callback_def watch_event_def new_service_def Let_def)

theorem request_receipts_once_witness:
  "pending_requests (fst (request_receipts (replicate 32 7) 5 sample_service)) 1 =
     Some \<lparr>pr_block_hash = replicate 32 7, pr_block_number = 5\<rparr>"
  using request_receipts_once [OF sample_service_simps(1, 2), of "replicate 32 7" 5 0] by (simp add: sample_service_simps)

text \<open>A block announced to the service ends in the callbacks of the watches that its logs match: after the request for a new
  block, the response with its receipts under the request id runs, for every log in order and every watch in
  order of registration whose filter accepts the log, the decoder and the callback of that watch, with the hash and number of
  the requested block and the position of the log in the block; and the request is no longer pending.\<close>

theorem receipts_end_to_end:
  fixes n :: u64
  assumes "service_run kec k s" "k < 2 ^ 32" "send_cb s" "ws_schemas s = []"
    and "length h = 32" "h \<notin> set (window (tracker s))"
    and "\<forall>rc \<in> set rcs. wf_receipt rc" "fits (response_wire (next_req_id s) rcs)"
  defines "s1 \<equiv> fst (request_receipts h n s)"
  defines "answer \<equiv> process_message kec kReceiptsMessageId (rlp_encode (response_wire (next_req_id s) rcs)) s1"
  shows "snd answer = concat (map (deliveries kec s) (block_events (zip rcs (replicate (length rcs) (replicate 32 0))) n h 0)) \<and>
    pending_requests (fst answer) (next_req_id s) = None"
proof -
  have inv: "service_inv k s" by (rule service_run_inv [OF assms(1)])
  then have t: "tracker_inv (tracker s)" by (simp add: service_inv_def)
  have f: "same_watches s s1" unfolding s1_def by (rule request_receipts_frame)
  have p: "pending_requests s1 (next_req_id s) = Some \<lparr>pr_block_hash = h, pr_block_number = n\<rparr>"
    using request_fresh [OF t assms(3, 5, 6), of n] by (simp add: s1_def)
  have sch: "ws_schemas s1 = []" using f assms(4) by (simp add: same_watches_def)
  show ?thesis
    using process_response [OF service_inv_frame [OF inv f] assms(2) sch assms(7, 8), of kec] p deliveries_frame [OF f, of kec]
    by (simp add: answer_def)
qed

lemma sample_receipt_fits:
  "fits (receipt_item sample_receipt)" "fits (response_wire 1 [sample_receipt])" "wf_receipt sample_receipt"
proof -
  show f: "fits (receipt_item sample_receipt)" "fits (response_wire 1 [sample_receipt])"
    by (rule fits_bound; simp add: receipt_item_def sample_receipt_def status_item_def log_item_def response_wire_def
      request_wire_def RUint_def nat_to_be.simps)+
  show "wf_receipt sample_receipt" using f(1) by (simp add: wf_receipt_def sample_receipt_def wf_log_def)
qed

lemma sample_logs:
  "log_events (rc_logs sample_receipt) n bh tx k =
     [\<lparr>me_log = rc_logs sample_receipt ! 0, me_block_number = n, me_block_hash = bh, me_tx_hash = tx, me_log_index = k\<rparr>]"
  by (simp add: sample_receipt_def)

lemma sample_deliveries:
  "me_log ev = rc_logs sample_receipt ! 0 \<Longrightarrow> deliveries (\<lambda>_. replicate 32 2) sample_service ev = [Callback () ev []]"
  by (simp add: sample_service_def sample_receipt_def deliveries_def deliver_def set_send_callback_def watch_event_def new_service_def
      make_event_filter_def event_signature_hash_def filter_matches_def decode_log_def decode_log_data_def watch_def new_watcher_def Let_def)

theorem receipts_end_to_end_witness:
  "snd (process_message (\<lambda>_. replicate 32 2) kReceiptsMessageId (rlp_encode (response_wire 1 [sample_receipt]))
      (fst (request_receipts (replicate 32 7) 5 sample_service))) =
    [Callback () \<lparr>me_log = rc_logs sample_receipt ! 0, me_block_number = 5, me_block_hash = replicate 32 7,
       me_tx_hash = replicate 32 0, me_log_index = 0\<rparr> []]"
  using receipts_end_to_end [OF sample_service_run, of "replicate 32 7" "[sample_receipt]" 5] sample_receipt_fits
  by (simp add: sample_service_simps sample_logs sample_deliveries)

lemma new_block_ignored:
  assumes "tracker_inv (tracker s)" "replicate 32 0 \<in> set (window (tracker s))"
  shows "snd (process_message kec kNewBlockMessageId p s) = [] \<and> tracker (fst (process_message kec kNewBlockMessageId p s)) = tracker s"
  using assms request_duplicate [of "s\<lparr>ws_stats := _\<rparr>" "replicate 32 0"]
  by (simp add: process_message_def process_new_block_def decode_failure_def Let_def split: sum.splits)

text \<open>C29. A NewBlock message asks for the receipts of the all-zero hash, whatever block it carries: one that decodes while the zero hash is not in the
  window of recent blocks sends that request and puts the zero hash into the window. While it is there, NewBlock messages, however many
  and whatever they carry, send nothing and move neither the tip nor the window.\<close>

theorem new_block_stalls:
  assumes "tracker_inv (tracker s)" "send_cb s" "ws_schemas s = []"
  shows "(replicate 32 0 \<notin> set (window (tracker s)) \<and> decode_new_block p1 = Inr m \<longrightarrow>
      snd (process_message kec kNewBlockMessageId p1 s) =
        [Send kGetReceiptsMessageId (rlp_encode (request_wire (next_req_id s) [RStr (replicate 32 0)]))] \<and>
      replicate 32 0 \<in> set (window (tracker (fst (process_message kec kNewBlockMessageId p1 s))))) \<and>
    (replicate 32 0 \<in> set (window (tracker s)) \<longrightarrow>
      tracker (fold (\<lambda>p s. fst (process_message kec kNewBlockMessageId p s)) ps s) = tracker s \<and>
      snd (process_message kec kNewBlockMessageId p (fold (\<lambda>p s. fst (process_message kec kNewBlockMessageId p s)) ps s)) = [])"
proof (intro conjI impI)
  let ?z = "replicate 32 0 :: bytes"
  let ?s = "s\<lparr>ws_stats := (ws_stats s)\<lparr>eth_messages_seen := eth_messages_seen (ws_stats s) + 1,
      new_block_messages := new_block_messages (ws_stats s) + 1\<rparr>\<rparr>"
  assume a: "?z \<notin> set (window (tracker s)) \<and> decode_new_block p1 = Inr m"
  then have m: "process_message kec kNewBlockMessageId p1 s = request_receipts ?z (bh_number (nb_header m)) ?s"
    using assms by (simp add: process_message_def process_new_block_def Let_def)
  show "snd (process_message kec kNewBlockMessageId p1 s) = [Send kGetReceiptsMessageId (rlp_encode (request_wire (next_req_id s) [RStr ?z]))]"
    unfolding m using request_fresh [of ?s ?z] assms a by simp
  show "?z \<in> set (window (tracker (fst (process_message kec kNewBlockMessageId p1 s))))"
    unfolding m by (rule seen_after_request) (use assms in simp_all)
next
  let ?run = "\<lambda>ps s. fold (\<lambda>p s. fst (process_message kec kNewBlockMessageId p s)) ps s"
  assume z: "replicate 32 0 \<in> set (window (tracker s))"
  show same: "tracker (?run ps s) = tracker s"
    using assms(1) z
  proof (induction ps arbitrary: s)
    case (Cons p ps)
    then show ?case using new_block_ignored [OF Cons.prems, of kec p] Cons.IH [of "fst (process_message kec kNewBlockMessageId p s)"] by simp
  qed simp
  show "snd (process_message kec kNewBlockMessageId p (?run ps s)) = []"
    using new_block_ignored [of "?run ps s" kec p] same assms(1) z by simp
qed

definition sample_new_block :: bytes where
  "sample_new_block = rlp_encode (RList (new_block_items \<lparr>nb_header = sample_header, nb_transactions = [], nb_ommers = [], nb_total_difficulty = 17\<rparr>))"

theorem new_block_stalls_witness:
  "let s = fst (process_message (\<lambda>_. []) kNewBlockMessageId sample_new_block sample_service) in
     snd (process_message (\<lambda>_. []) kNewBlockMessageId sample_new_block sample_service) =
       [Send kGetReceiptsMessageId (rlp_encode (request_wire 1 [RStr (replicate 32 0)]))] \<and>
     snd (process_message (\<lambda>_. []) kNewBlockMessageId sample_new_block
       (fold (\<lambda>p s. fst (process_message (\<lambda>_. []) kNewBlockMessageId p s)) [[], sample_new_block] s)) = []"
proof -
  let ?m = "\<lparr>nb_header = sample_header, nb_transactions = [], nb_ommers = [], nb_total_difficulty = 17\<rparr>"
  let ?s = "fst (process_message (\<lambda>_. []) kNewBlockMessageId sample_new_block sample_service)"
  have "fits (RList (new_block_items ?m))"
    by (rule fits_bound) (simp add: new_block_items_def header_item_def header_items_def sample_header_def RUint_def
        nat_to_be.simps)
  then have "wf_new_block ?m" using sample_header_wf by (simp add: wf_new_block_def)
  from new_block_codec(2) [OF this] have d: "decode_new_block sample_new_block = Inr ?m" by (simp add: sample_new_block_def)
  have 1: "snd (process_message (\<lambda>_. []) kNewBlockMessageId sample_new_block sample_service) =
      [Send kGetReceiptsMessageId (rlp_encode (request_wire 1 [RStr (replicate 32 0)]))]" "replicate 32 0 \<in> set (window (tracker ?s))"
    using new_block_stalls [OF sample_service_simps(1, 2, 4), of sample_new_block ?m "\<lambda>_. []"] d by (simp_all add: sample_service_simps)
  have "tracker_inv (tracker ?s) \<and> send_cb ?s \<and> ws_schemas ?s = []"
    using request_receipts_frame [of "sample_service\<lparr>ws_stats := _\<rparr>" "replicate 32 0"] d sample_service_simps(1, 2, 4)
    by (simp add: process_message_def process_new_block_def Let_def same_watches_def)
  then show ?thesis using new_block_stalls [of ?s sample_new_block ?m "\<lambda>_. []" "[[], sample_new_block]" sample_new_block] 1 by (simp add: Let_def)
qed

text \<open>A Receipts message is dispatched whether it was asked for or not: under a request id that is not pending its logs
  run the same callbacks, with block number zero and the all-zero block hash.\<close>

theorem unsolicited_receipts_dispatched:
  assumes "service_run kec k s" "k < 2 ^ 32" "ws_schemas s = []" "pending_requests s r = None"
    and "\<forall>rc \<in> set rcs. wf_receipt rc" "fits (response_wire r rcs)"
  shows "snd (process_message kec kReceiptsMessageId (rlp_encode (response_wire r rcs)) s) =
    concat (map (deliveries kec s) (block_events (zip rcs (replicate (length rcs) (replicate 32 0))) 0 (replicate 32 0) 0))"
  using process_response(1) [OF service_run_inv [OF assms(1)] assms(2, 3, 5, 6), of kec] assms(4) by simp

theorem unsolicited_receipts_dispatched_witness:
  "snd (process_message (\<lambda>_. replicate 32 2) kReceiptsMessageId (rlp_encode (response_wire 1 [sample_receipt])) sample_service) =
    [Callback () \<lparr>me_log = rc_logs sample_receipt ! 0, me_block_number = 0, me_block_hash = replicate 32 0,
       me_tx_hash = replicate 32 0, me_log_index = 0\<rparr> []]"
  using unsolicited_receipts_dispatched [OF sample_service_run, of 1 "[sample_receipt]"] sample_receipt_fits
  by (simp add: sample_service_simps sample_logs sample_deliveries)

end
