(* ===== verification/Dial_Scheduler.thy ===== *)
theory Dial_Scheduler
  imports Evm_Prelude
begin

text \<open>
  The dial scheduler of include/discv4/dial_scheduler.hpp and its history (include/discv4/dial_history.hpp). Every chain has a
  scheduler; all of them share a pool that limits the number of connections. A dial is a coroutine outside the
  model: the scheduler keeps the list of running dials, and the environment reports that one is connected or done.
  \<open>Clock::now()\<close> is an argument, one reading for each call. \<open>dialed\<close> records every dial that was started.
\<close>

section \<open>Peers\<close>

type_synonym node_id = bytes
type_synonym time = int

record enr_fork_id =
  enr_fork_hash :: bytes
  enr_fork_next :: u64

record discovered_peer =
  node_id :: node_id
  ip :: string
  udp_port :: u16
  tcp_port :: u16
  last_seen :: time
  eth_fork_id :: "enr_fork_id option"

record validated_peer =
  vp_peer :: discovered_peer
  pubkey :: bytes

abbreviation (input) vp_node :: "validated_peer \<Rightarrow> node_id" where "vp_node vp \<equiv> node_id (vp_peer vp)"

section \<open>Dial history\<close>

record dial_history =
  entries :: "node_id \<rightharpoonup> time"
  expiry :: time

definition new_history :: "time \<Rightarrow> dial_history" where
  "new_history ex = \<lparr>entries = Map.empty, expiry = ex\<rparr>"

definition history_add :: "time \<Rightarrow> node_id \<Rightarrow> dial_history \<Rightarrow> dial_history" where
  "history_add now n h = h\<lparr>entries := (entries h)(n \<mapsto> now + expiry h)\<rparr>"

definition history_contains :: "time \<Rightarrow> node_id \<Rightarrow> dial_history \<Rightarrow> bool" where
  "history_contains now n h = (case entries h n of None \<Rightarrow> False | Some t \<Rightarrow> now < t)"

definition history_expire :: "time \<Rightarrow> dial_history \<Rightarrow> dial_history" where
  "history_expire now h = h\<lparr>entries := (\<lambda>n. case entries h n of None \<Rightarrow> None | Some t \<Rightarrow> if now \<ge> t then None else Some t)\<rparr>"

definition history_size :: "dial_history \<Rightarrow> nat" where
  "history_size h = card (dom (entries h))"

section \<open>The scheduler\<close>

record watcher_pool =
  max_total :: int
  max_per_chain :: int
  active_total :: int

record dial =
  dl_peer :: validated_peer
  was_validated :: bool
  reported :: bool

record dial_scheduler =
  filter_fn :: "(discovered_peer \<Rightarrow> bool) option"
  history :: dial_history
  active :: int
  validated_count :: int
  total_validated :: int
  stopping :: bool
  queue :: "validated_peer list"
  active_sessions :: "nat list"
  running :: "dial list"
  dialed :: "(time \<times> node_id) list"

definition new_scheduler :: "(discovered_peer \<Rightarrow> bool) option \<Rightarrow> time \<Rightarrow> dial_scheduler" where
  "new_scheduler f ex = \<lparr>filter_fn = f, history = new_history ex, active = 0, validated_count = 0, total_validated = 0,
     stopping = False, queue = [], active_sessions = [], running = [], dialed = []\<rparr>"

definition has_slot :: "watcher_pool \<Rightarrow> dial_scheduler \<Rightarrow> bool" where
  "has_slot p s \<longleftrightarrow> active s < max_per_chain p \<and> active_total p < max_total p"

definition spawn_dial :: "time \<Rightarrow> validated_peer \<Rightarrow> dial_scheduler \<Rightarrow> dial_scheduler" where
  "spawn_dial now vp s = s\<lparr>running := running s @ [\<lparr>dl_peer = vp, was_validated = False, reported = False\<rparr>],
     dialed := dialed s @ [(now, vp_node vp)]\<rparr>"

definition start_dial :: "time \<Rightarrow> validated_peer \<Rightarrow> watcher_pool \<times> dial_scheduler \<Rightarrow> watcher_pool \<times> dial_scheduler" where
  "start_dial now vp ps = (case ps of (p, s) \<Rightarrow>
     (p\<lparr>active_total := active_total p + 1\<rparr>,
      spawn_dial now vp (s\<lparr>active := active s + 1, history := history_add now (vp_node vp) (history s)\<rparr>)))"

definition enqueue :: "time \<Rightarrow> validated_peer \<Rightarrow> watcher_pool \<times> dial_scheduler \<Rightarrow> watcher_pool \<times> dial_scheduler" where
  "enqueue now vp ps = (case ps of (p, s) \<Rightarrow>
     if stopping s then (p, s)
     else if (case filter_fn s of None \<Rightarrow> False | Some f \<Rightarrow> \<not> f (vp_peer vp)) then (p, s)
     else let s = s\<lparr>history := history_expire now (history s)\<rparr> in
       if history_contains now (vp_node vp) (history s) then (p, s)
       else if has_slot p s then start_dial now vp (p, s)
       else (p, s\<lparr>queue := queue s @ [vp]\<rparr>))"

text \<open>The loop of \<open>release\<close>.\<close>

function drain :: "time \<Rightarrow> watcher_pool \<times> dial_scheduler \<Rightarrow> watcher_pool \<times> dial_scheduler" where
  "drain now (p, s) =
     (if \<not> has_slot p s then (p, s)
      else case queue s of
        [] \<Rightarrow> (p, s)
      | vp # q \<Rightarrow>
          if history_contains now (vp_node vp) (history s) then drain now (p, s\<lparr>queue := q\<rparr>)
          else drain now (start_dial now vp (p, s\<lparr>queue := q\<rparr>)))"
  by pat_completeness auto
termination
  by (relation "measure (\<lambda>(now, p, s). length (queue s))") (auto simp: start_dial_def spawn_dial_def)

declare drain.simps [simp del]

text \<open>A relation that holds along both kinds of iteration, under an invariant, holds for the loop.\<close>

lemma drain_relates:
  assumes refl: "\<And>ps. R ps ps" and trans: "\<And>a b c. R a b \<Longrightarrow> R b c \<Longrightarrow> R a c"
    and skip: "\<And>p s vp q. I s \<Longrightarrow> queue s = vp # q \<Longrightarrow> history_contains now (vp_node vp) (history s) \<Longrightarrow>
      R (p, s) (p, s\<lparr>queue := q\<rparr>) \<and> I (s\<lparr>queue := q\<rparr>)"
    and start: "\<And>p s vp q. I s \<Longrightarrow> queue s = vp # q \<Longrightarrow> \<not> history_contains now (vp_node vp) (history s) \<Longrightarrow> has_slot p s \<Longrightarrow>
      R (p, s) (start_dial now vp (p, s\<lparr>queue := q\<rparr>)) \<and> I (snd (start_dial now vp (p, s\<lparr>queue := q\<rparr>)))"
  shows "I s \<Longrightarrow> R (p, s) (drain now (p, s)) \<and> I (snd (drain now (p, s)))"
proof (induction "length (queue s)" arbitrary: p s rule: less_induct)
  case less
  show ?case
  proof (cases "\<not> has_slot p s \<or> queue s = []")
    case True
    then show ?thesis using refl less.prems by (auto simp: drain.simps [of now p s])
  next
    case False
    then obtain vp q where q: "queue s = vp # q" by (cases "queue s") auto
    obtain p2 s2 where st: "start_dial now vp (p, s\<lparr>queue := q\<rparr>) = (p2, s2)" by (cases "start_dial now vp (p, s\<lparr>queue := q\<rparr>)")
    then have "queue s2 = q" by (auto simp: start_dial_def spawn_dial_def)
    then show ?thesis
      using False q st less.hyps [of s2 p2] less.hyps [of "s\<lparr>queue := q\<rparr>" p] skip [OF less.prems q, of p] start [OF less.prems q, of p]
        trans [of "(p, s)" "(p2, s2)" "drain now (p2, s2)"] trans [of "(p, s)" "(p, s\<lparr>queue := q\<rparr>)" "drain now (p, s\<lparr>queue := q\<rparr>)"]
      by (auto simp: drain.simps [of now p s])
  qed
qed

definition release :: "time \<Rightarrow> watcher_pool \<times> dial_scheduler \<Rightarrow> watcher_pool \<times> dial_scheduler" where
  "release now ps = (case ps of (p, s) \<Rightarrow>
     let s = s\<lparr>active := active s - 1\<rparr>; p = p\<lparr>active_total := active_total p - 1\<rparr> in
     if stopping s then (p, s) else drain now (p, s\<lparr>history := history_expire now (history s)\<rparr>))"

definition stop_scheduler :: "dial_scheduler \<Rightarrow> nat list \<times> dial_scheduler" where
  "stop_scheduler s = (active_sessions s, s\<lparr>stopping := True, queue := [], active_sessions := []\<rparr>)"

text \<open>The two callbacks that a dial is given. The feedback to the owner of the scheduler is in the theory of the peer queue.\<close>

definition on_connected :: "nat \<Rightarrow> nat \<Rightarrow> dial_scheduler \<Rightarrow> dial_scheduler" where
  "on_connected j session s =
     s\<lparr>running := (running s)[j := (running s ! j)\<lparr>was_validated := True\<rparr>], validated_count := validated_count s + 1,
       total_validated := total_validated s + 1, active_sessions := active_sessions s @ [session]\<rparr>"

definition mark_reported :: "nat \<Rightarrow> dial_scheduler \<Rightarrow> dial_scheduler" where
  "mark_reported j s = s\<lparr>running := (running s)[j := (running s ! j)\<lparr>reported := True\<rparr>]\<rparr>"

definition finish_dial :: "time \<Rightarrow> nat \<Rightarrow> watcher_pool \<times> dial_scheduler \<Rightarrow> watcher_pool \<times> dial_scheduler" where
  "finish_dial now j ps = (case ps of (p, s) \<Rightarrow>
     release now (p, s\<lparr>running := take j (running s) @ drop (Suc j) (running s),
       validated_count := (if was_validated (running s ! j) then validated_count s - 1 else validated_count s)\<rparr>))"

definition make_fork_id_filter :: "bytes \<Rightarrow> discovered_peer \<Rightarrow> bool" where
  "make_fork_id_filter expected_hash peer =
     (case eth_fork_id peer of None \<Rightarrow> False | Some f \<Rightarrow> enr_fork_hash f = expected_hash)"

section \<open>Chains that share a pool\<close>

record world =
  pool :: watcher_pool
  chains :: "dial_scheduler list"

text \<open>What can happen to one scheduler. A dial reports that it is connected at most once, and that it is done once.\<close>

inductive sched_step :: "time \<Rightarrow> watcher_pool \<times> dial_scheduler \<Rightarrow> watcher_pool \<times> dial_scheduler \<Rightarrow> bool" where
  step_enqueue: "sched_step now ps (enqueue now vp ps)"
| step_connected: "j < length (running s) \<Longrightarrow> \<not> was_validated (running s ! j) \<Longrightarrow> sched_step now (p, s) (p, on_connected j session s)"
| step_reported: "j < length (running s) \<Longrightarrow> sched_step now (p, s) (p, mark_reported j s)"
| step_done: "j < length (running s) \<Longrightarrow> sched_step now (p, s) (finish_dial now j (p, s))"
| step_stop: "sched_step now (p, s) (p, snd (stop_scheduler s))"

inductive world_run :: "time \<Rightarrow> world \<Rightarrow> bool" where
  run_start: "active_total p = 0 \<Longrightarrow> world_run t \<lparr>pool = p, chains = map (\<lambda>(f, ex). new_scheduler f ex) cfg\<rparr>"
| run_step: "world_run t w \<Longrightarrow> t \<le> now \<Longrightarrow> i < length (chains w) \<Longrightarrow> sched_step now (pool w, chains w ! i) (p', s') \<Longrightarrow>
    world_run now (w\<lparr>pool := p', chains := (chains w)[i := s']\<rparr>)"

section \<open>Counting\<close>

abbreviation (input) validated_dials :: "dial_scheduler \<Rightarrow> int" where
  "validated_dials s \<equiv> int (length (filter was_validated (running s)))"

text \<open>Every operation keeps the limits, moves both counters by the same amount as the list of running dials, and passes a
  limit with none of them.\<close>

definition keeps :: "watcher_pool \<times> dial_scheduler \<Rightarrow> watcher_pool \<times> dial_scheduler \<Rightarrow> bool" where
  "keeps ps ps' \<longleftrightarrow> (case (ps, ps') of ((p, s), (p', s')) \<Rightarrow>
     max_total p' = max_total p \<and> max_per_chain p' = max_per_chain p \<and>
     active_total p' - active_total p = active s' - active s \<and>
     active s' - active s = int (length (running s')) - int (length (running s)) \<and>
     active_total p' \<le> max (active_total p) (max_total p) \<and> active s' \<le> max (active s) (max_per_chain p) \<and>
     validated_count s' - validated_count s = validated_dials s' - validated_dials s \<and>
     total_validated s \<le> total_validated s' \<and> (total_validated s' - total_validated s \<ge> validated_dials s' - validated_dials s) \<and>
     ((stopping s \<longrightarrow> queue s = []) \<longrightarrow> stopping s' \<longrightarrow> queue s' = []))"

lemma keeps_refl [simp]: "keeps ps ps"
  by (cases ps) (simp add: keeps_def)

lemma keeps_trans: "keeps a b \<Longrightarrow> keeps b c \<Longrightarrow> keeps a c"
  by (cases a; cases b; cases c) (auto simp: keeps_def)

lemma keeps_start: "has_slot p s \<Longrightarrow> \<not> stopping s \<Longrightarrow> keeps (p, s) (start_dial now vp (p, s))"
  by (simp add: keeps_def start_dial_def spawn_dial_def has_slot_def)

lemma start_dial_stopping [simp]: "stopping (snd (start_dial now vp (p, s))) = stopping s"
  by (simp add: start_dial_def spawn_dial_def)

lemma has_slot_queue [simp]: "has_slot p (s\<lparr>queue := q\<rparr>) = has_slot p s" "has_slot p (s\<lparr>history := h\<rparr>) = has_slot p s"
  by (simp_all add: has_slot_def)

lemma keeps_drain: "\<not> stopping s \<Longrightarrow> keeps (p, s) (drain now (p, s))"
proof -
  have q: "\<not> stopping s \<Longrightarrow> keeps (p, s) (p, s\<lparr>queue := q\<rparr>)" for p s q by (simp add: keeps_def)
  show "\<not> stopping s \<Longrightarrow> keeps (p, s) (drain now (p, s))"
    using drain_relates [where R = keeps and I = "\<lambda>s. \<not> stopping s" and now = now and p = p and s = s]
      keeps_trans q keeps_trans [OF q keeps_start] by auto
qed

lemma keeps_history: "keeps ps (p, s) \<Longrightarrow> keeps ps (p, s\<lparr>history := h\<rparr>)"
  by (cases ps) (simp add: keeps_def)

lemma keeps_enqueue: "keeps ps (enqueue now vp ps)"
proof -
  obtain p s where ps: "ps = (p, s)" by (cases ps)
  let ?s = "s\<lparr>history := history_expire now (history s)\<rparr>"
  have h: "keeps (p, s) (p, ?s)" by (rule keeps_history) simp
  show ?thesis
    using h keeps_trans [OF h keeps_start [of p ?s now vp]]
    by (auto simp: ps enqueue_def Let_def keeps_def split: option.splits)
qed

lemma length_filter_remove:
  "j < length xs \<Longrightarrow> int (length (filter P (take j xs @ drop (Suc j) xs))) = int (length (filter P xs)) - (if P (xs ! j) then 1 else 0)"
  using arg_cong [OF id_take_nth_drop [of j xs], of "\<lambda>ys. int (length (filter P ys))"] by auto

lemma keeps_finish:
  assumes "j < length (running s)"
  shows "keeps (p, s) (finish_dial now j (p, s))"
proof -
  let ?r = "take j (running s) @ drop (Suc j) (running s)"
  let ?s = "s\<lparr>running := ?r, validated_count := (if was_validated (running s ! j) then validated_count s - 1 else validated_count s),
    active := active s - 1\<rparr>"
  let ?p = "p\<lparr>active_total := active_total p - 1\<rparr>"
  have "keeps (p, s) (?p, ?s)"
    using assms length_filter_remove [OF assms, of was_validated] by (simp add: keeps_def max_def)
  from keeps_trans [OF keeps_history [OF this] keeps_drain] this
  show ?thesis by (auto simp: finish_dial_def release_def Let_def)
qed

lemma keeps_step: "sched_step now ps ps' \<Longrightarrow> keeps ps ps'"
proof (induction rule: sched_step.induct)
  case (step_connected j s now p session)
  have "length (filter was_validated ((running s)[j := (running s ! j)\<lparr>was_validated := True\<rparr>])) =
      Suc (length (filter was_validated (running s)))"
    using step_connected by (subst (2) id_take_nth_drop [of j]) (auto simp: upd_conv_take_nth_drop)
  then show ?case by (simp add: keeps_def on_connected_def)
next
  case (step_reported j s now p)
  have "length (filter was_validated ((running s)[j := (running s ! j)\<lparr>reported := True\<rparr>])) = length (filter was_validated (running s))"
    using step_reported by (subst (3) id_take_nth_drop [of j]) (auto simp: upd_conv_take_nth_drop)
  then show ?case by (simp add: keeps_def mark_reported_def)
next
  case (step_stop now p s)
  then show ?case by (simp add: keeps_def stop_scheduler_def)
qed (use keeps_enqueue keeps_finish in auto)

definition chain_ok :: "watcher_pool \<Rightarrow> dial_scheduler \<Rightarrow> bool" where
  "chain_ok p s \<longleftrightarrow> active s = int (length (running s)) \<and> active s \<le> max 0 (max_per_chain p) \<and>
     validated_count s = validated_dials s \<and> validated_count s \<le> total_validated s \<and> (stopping s \<longrightarrow> queue s = [])"

definition counts_ok :: "world \<Rightarrow> bool" where
  "counts_ok w \<longleftrightarrow> active_total (pool w) = (\<Sum>s \<leftarrow> chains w. active s) \<and> active_total (pool w) \<le> max 0 (max_total (pool w)) \<and>
     list_all (chain_ok (pool w)) (chains w)"

lemma chain_keeps: "chain_ok p s \<Longrightarrow> keeps (p, s) (p', s') \<Longrightarrow> chain_ok p' s'"
proof -
  assume a: "chain_ok p s" "keeps (p, s) (p', s')"
  then have "active s' \<le> max (active s) (max_per_chain p)" "active s \<le> max 0 (max_per_chain p)"
    "max_per_chain p' = max_per_chain p" by (simp_all add: chain_ok_def keeps_def)
  then have "active s' \<le> max 0 (max_per_chain p')" by linarith
  with a show "chain_ok p' s'" by (auto simp: chain_ok_def keeps_def)
qed

lemma sum_list_update_int: "i < length xs \<Longrightarrow> (\<Sum>x \<leftarrow> xs[i := y]. f x) = (\<Sum>x \<leftarrow> xs. f x) - f (xs ! i) + (f y :: int)"
  by (induction xs arbitrary: i) (auto split: nat.splits)

lemma counts_step:
  assumes "counts_ok w" "i < length (chains w)" "keeps (pool w, chains w ! i) (p', s')"
  shows "counts_ok (w\<lparr>pool := p', chains := (chains w)[i := s']\<rparr>)"
proof -
  have ok: "chain_ok (pool w) s" if "s \<in> set (chains w)" for s
    using assms(1) that by (simp add: counts_ok_def list_all_iff)
  have "chain_ok p' = chain_ok (pool w)" using assms(3) by (simp add: chain_ok_def keeps_def fun_eq_iff)
  moreover have "chain_ok p' s'" using chain_keeps [OF ok assms(3)] assms(2) by simp
  ultimately have "list_all (chain_ok p') ((chains w)[i := s'])"
    using ok set_update_subset_insert [of "chains w" i s'] by (auto simp: list_all_iff)
  then show ?thesis using assms by (auto simp: counts_ok_def keeps_def sum_list_update_int max_def split: if_splits)
qed

lemma world_run_counts: "world_run t w \<Longrightarrow> counts_ok w"
proof (induction rule: world_run.induct)
  case (run_start p t cfg)
  have "(\<Sum>s \<leftarrow> map (\<lambda>(f, ex). new_scheduler f ex) cfg. active s) = 0"
    by (induction cfg) (auto simp: new_scheduler_def)
  then show ?case using run_start by (auto simp: counts_ok_def chain_ok_def list_all_iff new_scheduler_def)
qed (auto intro: counts_step keeps_step)

section \<open>Spacing of dials\<close>

definition spaced :: "time \<Rightarrow> (time \<times> node_id) list \<Rightarrow> bool" where
  "spaced ex = sorted_wrt (\<lambda>(u, m) (v, n). m = n \<longrightarrow> u + ex \<le> v)"

definition remembered :: "time \<Rightarrow> dial_history \<Rightarrow> time \<times> node_id \<Rightarrow> bool" where
  "remembered t h = (\<lambda>(u, n). u + expiry h \<le> t \<or> (\<exists>e. entries h n = Some e \<and> u + expiry h \<le> e))"

definition spacing_inv :: "time \<Rightarrow> dial_scheduler \<Rightarrow> bool" where
  "spacing_inv t s \<longleftrightarrow> spaced (expiry (history s)) (dialed s) \<and> list_all (remembered t (history s)) (dialed s)"

lemma remembered_mono: "t \<le> now \<Longrightarrow> remembered t h d \<Longrightarrow> remembered now h d"
  by (auto simp: remembered_def)

lemma remembered_expire: "remembered now h d \<Longrightarrow> remembered now (history_expire now h) d"
  by (auto simp: remembered_def history_expire_def)

lemma spacing_mono: "t \<le> now \<Longrightarrow> spacing_inv t s \<Longrightarrow> spacing_inv now s"
  using remembered_mono by (fastforce simp: spacing_inv_def list_all_iff)

lemma spacing_expire: "spacing_inv now s \<Longrightarrow> spacing_inv now (s\<lparr>history := history_expire now (history s)\<rparr>)"
  using remembered_expire by (fastforce simp: spacing_inv_def list_all_iff history_expire_def)

lemma spacing_start:
  assumes "spacing_inv now s" "\<not> history_contains now (vp_node vp) (history s)"
  shows "spacing_inv now (snd (start_dial now vp (p, s)))"
proof -
  let ?n = "vp_node vp"
  have old: "u + expiry (history s) \<le> now" if "(u, ?n) \<in> set (dialed s)" for u
    using assms that
    by (fastforce simp: spacing_inv_def list_all_iff remembered_def history_contains_def split: option.splits)
  have "remembered now (history_add now ?n (history s)) d" if "d \<in> set (dialed s)" for d
    using assms(1) that old
    by (cases d) (fastforce simp: spacing_inv_def list_all_iff remembered_def history_add_def)
  moreover have "remembered now (history_add now ?n (history s)) (now, ?n)"
    by (simp add: remembered_def history_add_def)
  ultimately show ?thesis
    using assms(1) old
    by (auto simp: spacing_inv_def list_all_iff start_dial_def spawn_dial_def spaced_def sorted_wrt_append history_add_def)
qed

lemma spacing_frame:
  "spacing_inv t s \<Longrightarrow> history s' = history s \<Longrightarrow> dialed s' = dialed s \<Longrightarrow> spacing_inv t s'"
  by (simp add: spacing_inv_def)

lemma spacing_drain: "spacing_inv now s \<Longrightarrow> spacing_inv now (snd (drain now (p, s)))"
proof -
  have q: "spacing_inv now s \<Longrightarrow> spacing_inv now (s\<lparr>queue := q\<rparr>)" for s q by (erule spacing_frame) simp_all
  show "spacing_inv now s \<Longrightarrow> spacing_inv now (snd (drain now (p, s)))"
    using drain_relates [where R = "\<lambda>_ _. True" and I = "spacing_inv now" and now = now and p = p and s = s]
      q spacing_start [OF q] by auto
qed

lemma spacing_enqueue: "spacing_inv now s \<Longrightarrow> spacing_inv now (snd (enqueue now vp (p, s)))"
  using spacing_expire [of now s] spacing_start [OF spacing_expire, of now s vp p]
    spacing_frame [OF spacing_expire, of now s "s\<lparr>history := history_expire now (history s), queue := queue s @ [vp]\<rparr>"]
  by (simp add: enqueue_def Let_def split: option.splits)

lemma spacing_finish: "spacing_inv now s \<Longrightarrow> spacing_inv now (snd (finish_dial now j (p, s)))"
  unfolding finish_dial_def release_def Let_def prod.case
  by (auto intro!: spacing_drain intro: spacing_frame [OF spacing_expire] spacing_frame)

lemma spacing_step: "sched_step now ps ps' \<Longrightarrow> spacing_inv now (snd ps) \<Longrightarrow> spacing_inv now (snd ps')"
proof (induction rule: sched_step.induct)
  case (step_enqueue now ps vp)
  then show ?case using spacing_enqueue by (cases ps) simp
qed (auto simp: spacing_finish on_connected_def mark_reported_def stop_scheduler_def intro: spacing_frame)

lemma world_run_spacing: "world_run t w \<Longrightarrow> list_all (spacing_inv t) (chains w)"
proof (induction rule: world_run.induct)
  case (run_step t w now i p' s')
  have "list_all (spacing_inv now) (chains w)"
    using run_step.IH spacing_mono [OF run_step.hyps(2)] by (simp add: list_all_iff)
  moreover have "spacing_inv now s'"
    using spacing_step [OF run_step.hyps(4)] calculation run_step.hyps(3) by (simp add: list_all_iff)
  ultimately show ?case
    using set_update_subset_insert [of "chains w" i s'] by (auto simp: list_all_iff)
qed (auto simp: list_all_iff new_scheduler_def spacing_inv_def spaced_def)

section \<open>Progress of the queue\<close>

text \<open>The history holds dialed nodes only, and a queued peer leaves the queue of a running scheduler only for a dial.\<close>

definition known :: "dial_scheduler \<Rightarrow> bool" where
  "known s \<longleftrightarrow> dom (entries (history s)) \<subseteq> snd ` set (dialed s)"

definition serves :: "dial_scheduler \<Rightarrow> dial_scheduler \<Rightarrow> bool" where
  "serves s s' \<longleftrightarrow> known s' \<and> set (dialed s) \<subseteq> set (dialed s') \<and> stopping s' = stopping s \<and>
     (\<forall>vp \<in> set (queue s). vp \<in> set (queue s') \<or> vp_node vp \<in> snd ` set (dialed s'))"

lemma serves_refl: "known s \<Longrightarrow> serves s s"
  by (simp add: serves_def)

lemma serves_trans: "serves a b \<Longrightarrow> serves b c \<Longrightarrow> serves a c"
  unfolding serves_def by (meson image_mono subset_iff subset_trans)

lemma known_expire: "known s \<Longrightarrow> known (s\<lparr>history := history_expire now (history s)\<rparr>)"
  by (auto simp: known_def history_expire_def dom_def split: option.splits if_splits)

lemma serves_start:
  "known s \<Longrightarrow> queue s = vp # q \<Longrightarrow> serves s (snd (start_dial now vp (p, s\<lparr>queue := q\<rparr>)))"
  by (auto simp: serves_def known_def start_dial_def spawn_dial_def history_add_def)

lemma serves_skip:
  "known s \<Longrightarrow> queue s = vp # q \<Longrightarrow> history_contains now (vp_node vp) (history s) \<Longrightarrow> serves s (s\<lparr>queue := q\<rparr>)"
  by (auto simp: serves_def known_def history_contains_def dom_def split: option.splits)

lemma serves_drain:
  assumes "known s"
  shows "serves s (snd (drain now (p, s)))"
proof -
  let ?R = "\<lambda>a b. known (snd a) \<longrightarrow> serves (snd a) (snd b)"
  have "?R (p, s) (drain now (p, s)) \<and> known (snd (drain now (p, s)))"
  proof (rule drain_relates [where R = ?R and I = known])
    show "?R a c" if "?R a b" "?R b c" for a b c :: "watcher_pool \<times> dial_scheduler"
      using that serves_trans [of "snd a" "snd b" "snd c"] by (auto simp: serves_def [of _ "snd b"])
    show "?R (p, s) (p, s\<lparr>queue := q\<rparr>) \<and> known (s\<lparr>queue := q\<rparr>)"
      if "known s" "queue s = vp # q" "history_contains now (vp_node vp) (history s)" for p :: watcher_pool and s vp q
      using that serves_skip [OF that] by (simp add: known_def)
    show "?R (p, s) (start_dial now vp (p, s\<lparr>queue := q\<rparr>)) \<and> known (snd (start_dial now vp (p, s\<lparr>queue := q\<rparr>)))"
      if "known s" "queue s = vp # q" for p s vp q
      using serves_start [OF that, of now p] by (simp add: serves_def [of s])
  qed (simp_all add: serves_refl assms)
  then show ?thesis using assms by simp
qed

lemma drain_stops:
  "drain now (p, s) = (p', s') \<Longrightarrow> (queue s' = [] \<or> \<not> has_slot p' s') \<and> length (queue s') \<le> length (queue s) - (if has_slot p s then 1 else 0)"
proof (induction now "(p, s)" arbitrary: p s rule: drain.induct)
  case (1 now p s)
  show ?case
  proof (cases "queue s")
    case Nil
    then show ?thesis using 1 by (auto simp: drain.simps [of now p s] split: if_splits)
  next
    case (Cons vp q)
    obtain p2 s2 where st: "start_dial now vp (p, s\<lparr>queue := q\<rparr>) = (p2, s2)" by (cases "start_dial now vp (p, s\<lparr>queue := q\<rparr>)")
    then have "queue s2 = q" by (auto simp: start_dial_def spawn_dial_def)
    then show ?thesis
      using 1 Cons st by (fastforce simp: drain.simps [of now p s] split: if_splits)
  qed
qed

definition lone_inv :: "watcher_pool \<times> dial_scheduler \<Rightarrow> bool" where
  "lone_inv ps \<longleftrightarrow> (case ps of (p, s) \<Rightarrow> chain_ok p s \<and> active_total p = active s \<and> active s \<le> max 0 (max_total p) \<and> known s \<and>
     (queue s \<noteq> [] \<longrightarrow> \<not> has_slot p s))"

lemma known_frame: "known s \<Longrightarrow> history s' = history s \<Longrightarrow> dialed s' = dialed s \<Longrightarrow> known s'"
  by (simp add: known_def)

lemma serves_frame:
  "known s' \<Longrightarrow> dialed s' = dialed s \<Longrightarrow> queue s' = queue s \<Longrightarrow> stopping s' = stopping s \<Longrightarrow> serves s s'"
  by (simp add: serves_def)

lemma serves_finish:
  assumes "known s"
  shows "serves s (snd (finish_dial now j (p, s)))"
proof -
  define s1 where "s1 = s\<lparr>running := take j (running s) @ drop (Suc j) (running s),
    validated_count := (if was_validated (running s ! j) then validated_count s - 1 else validated_count s), active := active s - 1\<rparr>"
  define s2 where "s2 = s1\<lparr>history := history_expire now (history s1)\<rparr>"
  have k: "known s1" using assms by (rule known_frame) (simp_all add: s1_def)
  then have k2: "known s2" unfolding s2_def by (rule known_expire)
  have "serves s s1" "serves s s2"
    using k k2 by (auto intro: serves_frame simp: s1_def s2_def)
  moreover have "snd (finish_dial now j (p, s)) = (if stopping s then s1 else snd (drain now (p\<lparr>active_total := active_total p - 1\<rparr>, s2)))"
    by (simp add: finish_dial_def release_def Let_def s1_def s2_def)
  ultimately show ?thesis using serves_trans serves_drain [OF k2] by auto
qed

lemma known_enqueue: "known s \<Longrightarrow> known (snd (enqueue now vp (p, s)))"
  using known_expire [of s now]
  by (auto simp: enqueue_def Let_def start_dial_def spawn_dial_def history_add_def known_def split: option.splits)

lemma lone_keeps:
  assumes "lone_inv (p, s)" "keeps (p, s) (p', s')" "known s'" "queue s' \<noteq> [] \<longrightarrow> \<not> has_slot p' s'"
  shows "lone_inv (p', s')"
proof -
  have "active_total p' \<le> max (active_total p) (max_total p)" "active_total p \<le> max 0 (max_total p)" "max_total p' = max_total p"
    using assms by (simp_all add: lone_inv_def keeps_def)
  then have "active_total p' \<le> max 0 (max_total p')" by linarith
  then show ?thesis using assms chain_keeps [of p s p' s'] by (simp add: lone_inv_def keeps_def)
qed

lemma lone_finish:
  assumes "lone_inv (p, s)" "j < length (running s)" "finish_dial now j (p, s) = (p', s')"
  shows "lone_inv (p', s')"
proof (rule lone_keeps [OF assms(1)])
  show "keeps (p, s) (p', s')" using keeps_finish [OF assms(2), of p now] assms(3) by simp
  show "known s'" using serves_finish [of s now j p] assms by (simp add: serves_def lone_inv_def)
  show "queue s' \<noteq> [] \<longrightarrow> \<not> has_slot p' s'"
    using assms(1, 3) by (auto simp: finish_dial_def release_def Let_def lone_inv_def chain_ok_def dest: drain_stops split: if_splits)
qed

lemma lone_step:
  assumes "sched_step now ps ps'" "lone_inv ps"
  shows "lone_inv ps'"
  using assms
proof (induction rule: sched_step.induct)
  case (step_enqueue now ps vp)
  obtain p s p' s' where ps: "ps = (p, s)" "enqueue now vp ps = (p', s')" by (cases ps; cases "enqueue now vp ps")
  have "queue s' \<noteq> [] \<longrightarrow> \<not> has_slot p' s'"
    using step_enqueue ps
    by (auto simp: enqueue_def Let_def lone_inv_def start_dial_def spawn_dial_def has_slot_def split: option.splits if_splits)
  then show ?case
    using lone_keeps [of p s p' s'] keeps_enqueue [of ps now vp] known_enqueue [of s now vp p] step_enqueue ps
    by (simp add: lone_inv_def)
next
  case (step_connected j s now p session)
  then show ?case
    using lone_keeps [OF _ keeps_step [OF sched_step.step_connected]]
    by (auto simp: on_connected_def lone_inv_def known_def has_slot_def)
next
  case (step_reported j s now p)
  then show ?case
    using lone_keeps [OF _ keeps_step [OF sched_step.step_reported]]
    by (auto simp: mark_reported_def lone_inv_def known_def has_slot_def)
next
  case (step_done j s now p)
  then show ?case using lone_finish by (cases "finish_dial now j (p, s)") auto
next
  case (step_stop now p s)
  then show ?case
    using lone_keeps [OF _ keeps_step [OF sched_step.step_stop]] by (auto simp: stop_scheduler_def lone_inv_def known_def)
qed

lemma world_run_lone: "world_run t w \<Longrightarrow> chains w = [s] \<Longrightarrow> lone_inv (pool w, s)"
proof (induction arbitrary: s rule: world_run.induct)
  case (run_start p t cfg)
  then show ?case
    by (cases cfg) (auto simp: lone_inv_def chain_ok_def new_scheduler_def known_def new_history_def)
next
  case (run_step t w now i p' s')
  have "length (chains w) = 1" using arg_cong [OF run_step.prems, of length] by simp
  then obtain s0 where "chains w = [s0]" by (cases "chains w") auto
  then show ?case using run_step lone_step [OF run_step.hyps(4)] by auto
qed

text \<open>Completions of dials: \<open>k\<close> of them, whatever the order and the times.\<close>

inductive completes :: "watcher_pool \<times> dial_scheduler \<Rightarrow> nat \<Rightarrow> watcher_pool \<times> dial_scheduler \<Rightarrow> bool" for ps where
  complete_none: "completes ps 0 ps"
| complete_dial: "completes ps k (p, s) \<Longrightarrow> j < length (running s) \<Longrightarrow> completes ps (Suc k) (finish_dial now j (p, s))"

lemma finish_shortens:
  assumes "lone_inv (p, s)" "\<not> stopping s" "0 < max_per_chain p" "0 < max_total p" "finish_dial now j (p, s) = (p', s')"
  shows "length (queue s') \<le> length (queue s) - 1"
proof -
  let ?p = "p\<lparr>active_total := active_total p - 1\<rparr>"
  have "has_slot ?p (s\<lparr>running := r, validated_count := v, active := active s - 1, history := h\<rparr>)" for r v h
    using assms by (auto simp: has_slot_def lone_inv_def chain_ok_def)
  then show ?thesis
    using assms(2, 5) drain_stops by (fastforce simp: finish_dial_def release_def Let_def)
qed

lemma completes_progress:
  assumes "completes (p, s) k ps'" "lone_inv (p, s)" "\<not> stopping s" "0 < max_per_chain p" "0 < max_total p"
  shows "lone_inv ps' \<and> serves s (snd ps') \<and> max_per_chain (fst ps') = max_per_chain p \<and> max_total (fst ps') = max_total p \<and>
    length (queue (snd ps')) \<le> length (queue s) - k"
  using assms
proof (induction rule: completes.induct)
  case complete_none
  then show ?case by (simp add: serves_refl lone_inv_def)
next
  case (complete_dial k p1 s1 j now)
  obtain p2 s2 where f: "finish_dial now j (p1, s1) = (p2, s2)" by (cases "finish_dial now j (p1, s1)")
  from complete_dial have i: "lone_inv (p1, s1)" "serves s s1" "max_per_chain p1 = max_per_chain p" "max_total p1 = max_total p"
    "length (queue s1) \<le> length (queue s) - k" by auto
  have "serves s s2" using serves_trans [OF i(2)] serves_finish [of s1 now j p1] i(1) f by (simp add: lone_inv_def)
  moreover have "lone_inv (p2, s2)" using lone_finish [OF i(1) complete_dial.hyps(2) f] .
  moreover have "length (queue s2) \<le> length (queue s1) - 1"
    using finish_shortens [OF i(1) _ _ _ f] i complete_dial.prems by (simp add: serves_def)
  moreover have "max_per_chain p2 = max_per_chain p1" "max_total p2 = max_total p1"
    using keeps_finish [OF complete_dial.hyps(2), of p1 now] f by (simp_all add: keeps_def)
  ultimately show ?case using f i by simp
qed

section \<open>Properties\<close>

text \<open>C12. Whatever the chains do, the connection limits hold: on every chain the active counter is the number of running dials and at
  most the limit per chain, the pool counter is their sum and at most the total limit, the validated counter is
  the number of running dials that are connected, and a stopped scheduler holds no queued peer.\<close>

theorem scheduler_limits:
  assumes "world_run t w" "s \<in> set (chains w)"
  shows "active s = int (length (running s)) \<and> active s \<le> max 0 (max_per_chain (pool w)) \<and>
    active_total (pool w) = (\<Sum>c \<leftarrow> chains w. int (length (running c))) \<and> active_total (pool w) \<le> max 0 (max_total (pool w)) \<and>
    validated_count s = int (length (filter was_validated (running s))) \<and> validated_count s \<le> total_validated s \<and>
    (stopping s \<longrightarrow> queue s = [])"
proof -
  have ok: "counts_ok w" by (rule world_run_counts [OF assms(1)])
  then have "map active (chains w) = map (\<lambda>c. int (length (running c))) (chains w)"
    by (auto simp: counts_ok_def list_all_iff chain_ok_def)
  with ok assms(2) show ?thesis by (auto simp: counts_ok_def list_all_iff chain_ok_def)
qed

definition sample_peer :: "byte \<Rightarrow> validated_peer" where
  "sample_peer b = \<lparr>vp_peer = \<lparr>node_id = replicate 64 b, ip = ''10.0.0.1'', udp_port = 30303, tcp_port = 30303, last_seen = 0,
     eth_fork_id = None\<rparr>, pubkey = replicate 64 b\<rparr>"

definition small_pool :: watcher_pool where
  "small_pool = \<lparr>max_total = 1, max_per_chain = 1, active_total = 0\<rparr>"

definition world_event :: "nat \<Rightarrow> (watcher_pool \<times> dial_scheduler \<Rightarrow> watcher_pool \<times> dial_scheduler) \<Rightarrow> world \<Rightarrow> world" where
  "world_event i f w = (case f (pool w, chains w ! i) of (p, s) \<Rightarrow> w\<lparr>pool := p, chains := (chains w)[i := s]\<rparr>)"

lemma run_event:
  assumes "world_run t w" "t \<le> now" "i < length (chains w)" "sched_step now (pool w, chains w ! i) (f (pool w, chains w ! i))"
  shows "world_run now (world_event i f w)"
proof -
  obtain p s where "f (pool w, chains w ! i) = (p, s)" by (cases "f (pool w, chains w ! i)")
  then show ?thesis using run_step [OF assms(1-3), of p s] assms(4) by (simp add: world_event_def)
qed

lemma enqueue_event: "world_run t w \<Longrightarrow> t \<le> now \<Longrightarrow> i < length (chains w) \<Longrightarrow> world_run now (world_event i (enqueue now vp) w)"
  by (rule run_event) (auto intro: step_enqueue)

lemma done_event:
  "world_run t w \<Longrightarrow> t \<le> now \<Longrightarrow> i < length (chains w) \<Longrightarrow> j < length (running (chains w ! i)) \<Longrightarrow>
   world_run now (world_event i (finish_dial now j) w)"
  by (rule run_event) (auto intro: step_done)

lemma length_world_event [simp]: "length (chains (world_event i f w)) = length (chains w)"
  by (simp add: world_event_def split: prod.splits)

definition one_chain :: world where
  "one_chain = \<lparr>pool = small_pool, chains = [new_scheduler None 35]\<rparr>"

definition one_busy :: world where
  "one_busy = world_event 0 (enqueue 0 (sample_peer 2)) (world_event 0 (enqueue 0 (sample_peer 1)) one_chain)"

lemma one_chain_run: "world_run 0 one_chain"
  using run_start [of small_pool 0 "[(None, 35)]"] by (simp add: one_chain_def small_pool_def)

lemma one_busy_run: "world_run 0 one_busy"
  unfolding one_busy_def
  by (rule enqueue_event [OF enqueue_event [OF one_chain_run]]) (simp_all add: one_chain_def del: length_greater_0_conv)

lemma one_busy_simps:
  "chains one_busy = [chains one_busy ! 0]" "running (chains one_busy ! 0) = [\<lparr>dl_peer = sample_peer 1, was_validated = False, reported = False\<rparr>]"
  "queue (chains one_busy ! 0) = [sample_peer 2]" "max_total (pool one_busy) = 1" "max_per_chain (pool one_busy) = 1"
  "stopping (chains one_busy ! 0) = False" "dialed (chains one_busy ! 0) = [(0, replicate 64 1)]" "expiry (history (chains one_busy ! 0)) = 35"
  by (simp_all add: one_busy_def one_chain_def world_event_def enqueue_def new_scheduler_def new_history_def history_expire_def
      history_contains_def history_add_def has_slot_def small_pool_def start_dial_def spawn_dial_def sample_peer_def Let_def)

theorem scheduler_limits_witness: "active (chains one_busy ! 0) = 1"
  using scheduler_limits [OF one_busy_run, of "chains one_busy ! 0"] one_busy_simps(1, 2)
  by (metis One_nat_def length_Cons list.set_intros(1) list.size(3) of_nat_1)

text \<open>C14. A chain does not dial a node again before the expiry of the dial history: of two dials of one node, the later one
  starts at least the expiry after the earlier one, however the peer came back into the queue.\<close>

theorem dials_are_spaced:
  assumes "world_run t w" "s \<in> set (chains w)" "a < b" "b < length (dialed s)" "snd (dialed s ! a) = snd (dialed s ! b)"
  shows "fst (dialed s ! a) + expiry (history s) \<le> fst (dialed s ! b)"
proof -
  have "spaced (expiry (history s)) (dialed s)"
    using world_run_spacing [OF assms(1)] assms(2) by (simp add: list_all_iff spacing_inv_def)
  from sorted_wrt_nth_less [OF this [unfolded spaced_def] assms(3, 4)] assms(5) show ?thesis
    by (simp add: split_beta)
qed

definition one_redialed :: world where
  "one_redialed = world_event 0 (enqueue 40 (sample_peer 1)) (world_event 0 (finish_dial 5 0) (world_event 0 (enqueue 0 (sample_peer 1)) one_chain))"

lemmas sample_world_simps = one_chain_def world_event_def enqueue_def new_scheduler_def new_history_def history_expire_def
  history_contains_def history_add_def has_slot_def small_pool_def start_dial_def spawn_dial_def sample_peer_def finish_dial_def release_def
  drain.simps Let_def

lemma one_redialed_run: "world_run 40 one_redialed"
  unfolding one_redialed_def
  by (rule enqueue_event [OF done_event [OF enqueue_event [OF one_chain_run]]]) (simp_all add: sample_world_simps)

theorem dials_are_spaced_witness:
  "dialed (chains one_redialed ! 0) = [(0, replicate 64 1), (40, replicate 64 1)] \<and>
   fst (dialed (chains one_redialed ! 0) ! 0) + 35 \<le> fst (dialed (chains one_redialed ! 0) ! 1)"
proof -
  have d: "dialed (chains one_redialed ! 0) = [(0, replicate 64 1), (40, replicate 64 1)]" "expiry (history (chains one_redialed ! 0)) = 35"
    "length (chains one_redialed) = 1"
    by (simp_all add: one_redialed_def sample_world_simps)
  then show ?thesis
    using dials_are_spaced [OF one_redialed_run, of "chains one_redialed ! 0" 0 1] by simp
qed

text \<open>C17. With a pool of its own, a scheduler serves its queue: while peers wait a dial is running, and when as many dials
  have completed as peers were waiting, the queue is empty and every node that waited has been dialed.\<close>

theorem queue_is_served:
  assumes "world_run t \<lparr>pool = p, chains = [s]\<rparr>" "\<not> stopping s" "0 < max_per_chain p" "0 < max_total p"
    and "completes (p, s) k (p', s')" "length (queue s) \<le> k"
  shows "(queue s \<noteq> [] \<longrightarrow> running s \<noteq> []) \<and> queue s' = [] \<and> vp_node ` set (queue s) \<subseteq> snd ` set (dialed s')"
proof -
  have inv: "lone_inv (p, s)" using world_run_lone [OF assms(1)] by simp
  from completes_progress [OF assms(5) inv assms(2-4)] assms(6)
  have "serves s s'" "queue s' = []" by simp_all
  moreover have "queue s \<noteq> [] \<longrightarrow> running s \<noteq> []"
    using inv assms(3, 4) by (auto simp: lone_inv_def chain_ok_def has_slot_def)
  ultimately show ?thesis by (auto simp: serves_def)
qed

theorem queue_is_served_witness:
  "queue (chains one_busy ! 0) \<noteq> [] \<and> queue (snd (finish_dial 1 0 (pool one_busy, chains one_busy ! 0))) = []"
proof -
  obtain p' s' where f: "finish_dial 1 0 (pool one_busy, chains one_busy ! 0) = (p', s')"
    by (cases "finish_dial 1 0 (pool one_busy, chains one_busy ! 0)")
  have "completes (pool one_busy, chains one_busy ! 0) 1 (p', s')"
    using complete_dial [OF complete_none, of 0 "chains one_busy ! 0" "pool one_busy" 1] one_busy_simps(2) by (simp add: f)
  moreover have "world_run 0 \<lparr>pool = pool one_busy, chains = [chains one_busy ! 0]\<rparr>"
    using one_busy_run one_busy_simps(1) by (cases one_busy) (metis world.simps(1, 2))
  ultimately show ?thesis
    using queue_is_served [of 0 "pool one_busy" "chains one_busy ! 0" 1 p' s'] one_busy_simps by (simp add: f)
qed

end
