(* ===== verification/Rlpx_Types.thy ===== *)
theory Rlpx_Types
  imports Evm_Prelude
begin

text \<open>Types of include/rlpx/rlpx_types.hpp and include/rlpx/rlpx_error.hpp that several components share.\<close>

text \<open>\<open>DisconnectReason\<close> has the underlying type \<open>uint8_t\<close>: a cast from a byte gives a named reason or, for the other bytes, a value
  without a name.\<close>

datatype disconnect_reason =
  kRequested | kTcpError | kProtocolError | kUselessPeer | kTooManyPeers | kAlreadyConnected | kIncompatibleVersion |
  kInvalidIdentity | kClientQuitting | kUnexpectedIdentity | kSelfConnection | kTimeout | kSubprotocolError | kUnnamed u8

definition named_reasons :: "(u8 \<times> disconnect_reason) list" where
  "named_reasons = [(0x00, kRequested), (0x01, kTcpError), (0x02, kProtocolError), (0x03, kUselessPeer), (0x04, kTooManyPeers),
     (0x05, kAlreadyConnected), (0x06, kIncompatibleVersion), (0x07, kInvalidIdentity), (0x08, kClientQuitting),
     (0x09, kUnexpectedIdentity), (0x0A, kSelfConnection), (0x0B, kTimeout), (0x10, kSubprotocolError)]"

definition byte_to_reason :: "u8 \<Rightarrow> disconnect_reason" where
  "byte_to_reason b = (case map_of named_reasons b of Some r \<Rightarrow> r | None \<Rightarrow> kUnnamed b)"

fun reason_to_byte :: "disconnect_reason \<Rightarrow> u8" where
  "reason_to_byte kRequested = 0x00"
| "reason_to_byte kTcpError = 0x01"
| "reason_to_byte kProtocolError = 0x02"
| "reason_to_byte kUselessPeer = 0x03"
| "reason_to_byte kTooManyPeers = 0x04"
| "reason_to_byte kAlreadyConnected = 0x05"
| "reason_to_byte kIncompatibleVersion = 0x06"
| "reason_to_byte kInvalidIdentity = 0x07"
| "reason_to_byte kClientQuitting = 0x08"
| "reason_to_byte kUnexpectedIdentity = 0x09"
| "reason_to_byte kSelfConnection = 0x0A"
| "reason_to_byte kTimeout = 0x0B"
| "reason_to_byte kSubprotocolError = 0x10"
| "reason_to_byte (kUnnamed b) = b"

lemma reason_byte_reason [simp]: "reason_to_byte (byte_to_reason b) = b"
proof (cases "map_of named_reasons b")
  case (Some r)
  then have "(b, r) \<in> set named_reasons" by (rule map_of_SomeD)
  then show ?thesis using Some by (auto simp: byte_to_reason_def) (auto simp: named_reasons_def)
qed (simp add: byte_to_reason_def)

text \<open>\<open>SessionError\<close>.\<close>

datatype session_error =
  kNetworkFailure | kAuthenticationFailed | kHandshakeFailed | kInvalidState | kPeerDisconnected | kSessionTimeout | kCompressionError |
  kEncryptionError | kDecryptionError | kInvalidMessage | kInvalidFrameSize | kBufferOverflow | kConnectionFailed | kNotConnected | kDisconnected

end
