(* ===== verification/Peer_Queue.thy ===== *)
theory Peer_Queue
  imports Dial_Scheduler Rlpx_Types "HOL-Library.Multiset"
begin

text \<open>
  The bounded producer queue of src/eth/eth_peer_queue.cpp. It decides which candidates reach the dial scheduler and reacts to
  the feedback of ended dials. \<open>size_t\<close> counters are natural numbers. The scheduler is part of the state of
  the queue that owns it; the pool is passed beside it because other chains share it.
\<close>

unbundle bit_operations_syntax

section \<open>State\<close>

record peer_queue_config =
  max_pending_peers :: nat
  max_disconnect_requeues :: nat
  too_many_peers_backoff :: time
  cache_peer_start_offset :: nat

record queue_stats =
  cached_peer_count :: nat
  discovered_peer_count :: nat
  requeued_peer_count :: nat
  duplicate_peer_drop_count :: nat
  capacity_drop_count :: nat
  flaky_peer_drop_count :: nat
  too_many_peers_backoff_count :: nat
  backoff_drop_count :: nat
  disconnect_feedback_count :: nat
  disconnected_before_connected_count :: nat
  disconnected_after_connected_count :: nat
  too_many_peers_before_connected_count :: nat
  too_many_peers_after_connected_count :: nat
  tcp_failure_count :: nat
  timeout_count :: nat
  subprotocol_error_count :: nat

record peer_queue =
  scheduler :: "dial_scheduler option"
  pq_config :: peer_queue_config
  discovery_bootnodes :: "validated_peer list"
  seen_node_ids :: "string set"
  disconnect_counts :: "string \<Rightarrow> nat"
  backoff_until :: "string \<rightharpoonup> time"
  pq_stats :: queue_stats

definition zero_queue_stats :: queue_stats where
  "zero_queue_stats = \<lparr>cached_peer_count = 0, discovered_peer_count = 0, requeued_peer_count = 0, duplicate_peer_drop_count = 0,
     capacity_drop_count = 0, flaky_peer_drop_count = 0, too_many_peers_backoff_count = 0, backoff_drop_count = 0,
     disconnect_feedback_count = 0, disconnected_before_connected_count = 0, disconnected_after_connected_count = 0,
     too_many_peers_before_connected_count = 0, too_many_peers_after_connected_count = 0, tcp_failure_count = 0,
     timeout_count = 0, subprotocol_error_count = 0\<rparr>"

definition new_queue :: "dial_scheduler option \<Rightarrow> peer_queue_config \<Rightarrow> peer_queue" where
  "new_queue sched config = \<lparr>scheduler = sched, pq_config = config, discovery_bootnodes = [], seen_node_ids = {},
     disconnect_counts = (\<lambda>_. 0), backoff_until = Map.empty, pq_stats = zero_queue_stats\<rparr>"

definition bump :: "(queue_stats \<Rightarrow> queue_stats) \<Rightarrow> peer_queue \<Rightarrow> peer_queue" where
  "bump f q = q\<lparr>pq_stats := f (pq_stats q)\<rparr>"

definition node_key :: "node_id \<Rightarrow> string" where
  "node_key n = concat (map (\<lambda>b. [''0123456789abcdef'' ! unat (drop_bit 4 b AND 0xF), ''0123456789abcdef'' ! unat (b AND 0xF)]) n)"

section \<open>Candidates\<close>

definition enqueue_candidate ::
    "time \<Rightarrow> validated_peer \<Rightarrow> bool \<Rightarrow> watcher_pool \<times> peer_queue \<Rightarrow> bool \<times> watcher_pool \<times> peer_queue" where
  "enqueue_candidate now peer allow_known_peer pq = (case pq of (p, q) \<Rightarrow>
     let key = node_key (vp_node peer) in
     if (case backoff_until q key of None \<Rightarrow> False | Some t \<Rightarrow> now < t)
     then (False, p, bump (\<lambda>st. st\<lparr>backoff_drop_count := backoff_drop_count st + 1\<rparr>) q)
     else let q = q\<lparr>backoff_until := (backoff_until q)(key := None)\<rparr>;
              inserted = (key \<notin> seen_node_ids q);
              q = q\<lparr>seen_node_ids := insert key (seen_node_ids q)\<rparr> in
       if \<not> inserted \<and> \<not> allow_known_peer
       then (False, p, bump (\<lambda>st. st\<lparr>duplicate_peer_drop_count := duplicate_peer_drop_count st + 1\<rparr>) q)
       else (case scheduler q of
           None \<Rightarrow> (True, p, q)
         | Some s \<Rightarrow>
             if \<not> has_slot p s \<and> max_pending_peers (pq_config q) \<le> length (queue s)
             then (False, p, bump (\<lambda>st. st\<lparr>capacity_drop_count := capacity_drop_count st + 1\<rparr>)
                     (if inserted then q\<lparr>seen_node_ids := seen_node_ids q - {key}\<rparr> else q))
             else (case enqueue now peer (p, s) of (p', s') \<Rightarrow> (True, p', q\<lparr>scheduler := Some s'\<rparr>))))"

definition make_candidate :: "discovered_peer \<Rightarrow> validated_peer" where
  "make_candidate peer = \<lparr>vp_peer = peer, pubkey = node_id peer\<rparr>"

definition enqueue_discovered_peer :: "time \<Rightarrow> discovered_peer \<Rightarrow> watcher_pool \<times> peer_queue \<Rightarrow> bool \<times> watcher_pool \<times> peer_queue" where
  "enqueue_discovered_peer now peer pq =
     (case enqueue_candidate now (make_candidate peer) False pq of (ok, p, q) \<Rightarrow>
      if ok then (True, p, bump (\<lambda>st. st\<lparr>discovered_peer_count := discovered_peer_count st + 1\<rparr>) q) else (False, p, q))"

text \<open>\<open>discovery::ValidatedPeer\<close> has the fields of \<open>DiscoveredPeer\<close>; they are copied one by one.\<close>

definition discovery_candidate :: "discovered_peer \<Rightarrow> validated_peer" where
  "discovery_candidate peer =
     \<lparr>vp_peer = \<lparr>node_id = node_id peer, ip = ip peer, udp_port = udp_port peer, tcp_port = tcp_port peer, last_seen = last_seen peer,
        eth_fork_id = (case eth_fork_id peer of None \<Rightarrow> None
          | Some f \<Rightarrow> Some \<lparr>enr_fork_hash = enr_fork_hash f, enr_fork_next = enr_fork_next f\<rparr>)\<rparr>,
      pubkey = node_id peer\<rparr>"

definition enqueue_validated_discovery_peer ::
    "time \<Rightarrow> discovered_peer \<Rightarrow> watcher_pool \<times> peer_queue \<Rightarrow> bool \<times> watcher_pool \<times> peer_queue" where
  "enqueue_validated_discovery_peer now peer pq =
     (case enqueue_candidate now (discovery_candidate peer) False pq of (ok, p, q) \<Rightarrow>
      if ok then (True, p, bump (\<lambda>st. st\<lparr>discovered_peer_count := discovered_peer_count st + 1\<rparr>) q) else (False, p, q))"

lemma enqueue_validated_eq: "enqueue_validated_discovery_peer = enqueue_discovered_peer"
proof -
  have "discovery_candidate peer = make_candidate peer" for peer
    by (simp add: discovery_candidate_def make_candidate_def split: option.split)
  then show ?thesis by (simp add: fun_eq_iff enqueue_validated_discovery_peer_def enqueue_discovered_peer_def)
qed

section \<open>Cached peers\<close>

definition rotate_cached_peers :: "nat \<Rightarrow> 'a list \<Rightarrow> 'a list" where
  "rotate_cached_peers start peers =
     (if length peers \<le> 1 \<or> start = 0 then peers
      else let offset = start mod length peers in
        if offset = 0 then peers else drop offset peers @ take offset peers)"

definition band_row :: "'a list \<Rightarrow> nat \<Rightarrow> nat \<Rightarrow> 'a list" where
  "band_row peers band_count offset = concat (map (\<lambda>band.
     let first = (length peers * band) div band_count; last = (length peers * (band + 1)) div band_count; index = first + offset in
     if index < last then [peers ! index] else []) [0..<band_count])"

partial_function (option) spread_loop :: "'a list \<Rightarrow> nat \<Rightarrow> nat \<Rightarrow> 'a list \<Rightarrow> 'a list option" where
  "spread_loop peers band_count offset spread =
     (if length spread < length peers
      then spread_loop peers band_count (offset + 1) (spread @ band_row peers band_count offset)
      else Some spread)"

definition spread_cached_peers_for_dial_slots :: "watcher_pool \<Rightarrow> bool \<Rightarrow> 'a list \<Rightarrow> 'a list option" where
  "spread_cached_peers_for_dial_slots p has_scheduler peers =
     (if \<not> has_scheduler \<or> length peers \<le> 1 then Some peers
      else if max_per_chain p \<le> 1 then Some peers
      else let band_count = min (length peers) (nat (max_per_chain p)) in
        if band_count \<le> 1 then Some peers else spread_loop peers band_count 0 [])"

fun preload_loop :: "time \<Rightarrow> validated_peer list \<Rightarrow> watcher_pool \<times> peer_queue \<Rightarrow> watcher_pool \<times> peer_queue" where
  "preload_loop now [] pq = pq"
| "preload_loop now (peer # peers) pq =
     (case enqueue_candidate now peer False pq of (ok, p, q) \<Rightarrow>
      preload_loop now peers (p, if ok then bump (\<lambda>st. st\<lparr>cached_peer_count := cached_peer_count st + 1\<rparr>) q else q))"

definition preload_cached_peers :: "time \<Rightarrow> validated_peer list \<Rightarrow> watcher_pool \<times> peer_queue \<Rightarrow> (watcher_pool \<times> peer_queue) option" where
  "preload_cached_peers now peers pq = (case pq of (p, q) \<Rightarrow>
     (case spread_cached_peers_for_dial_slots p (scheduler q \<noteq> None)
             (rotate_cached_peers (cache_peer_start_offset (pq_config q)) peers) of
        None \<Rightarrow> None
      | Some spread \<Rightarrow> Some (preload_loop now spread (p, q))))"

definition set_discovery_bootnodes :: "validated_peer list \<Rightarrow> peer_queue \<Rightarrow> peer_queue" where
  "set_discovery_bootnodes bootnodes q = q\<lparr>discovery_bootnodes := bootnodes\<rparr>"

definition needs_discovery :: "peer_queue \<Rightarrow> bool" where
  "needs_discovery q \<longleftrightarrow> cached_peer_count (pq_stats q) = 0 \<and> discovery_bootnodes q \<noteq> []"

definition make_eth_peer_queue ::
    "time \<Rightarrow> dial_scheduler option \<Rightarrow> validated_peer list \<Rightarrow> validated_peer list \<Rightarrow> peer_queue_config \<Rightarrow> bool \<Rightarrow> watcher_pool
      \<Rightarrow> (watcher_pool \<times> peer_queue) option" where
  "make_eth_peer_queue now sched nodes bootnodes config preload p =
     (let q = set_discovery_bootnodes bootnodes (new_queue sched config) in
      if preload then preload_cached_peers now nodes (p, q) else Some (p, q))"

section \<open>Feedback\<close>

definition is_requeueable_disconnect :: "disconnect_reason \<Rightarrow> bool \<Rightarrow> bool" where
  "is_requeueable_disconnect reason was_connected = (case reason of kTcpError \<Rightarrow> was_connected | kTimeout \<Rightarrow> was_connected | _ \<Rightarrow> False)"

definition count_feedback :: "disconnect_reason \<Rightarrow> bool \<Rightarrow> queue_stats \<Rightarrow> queue_stats" where
  "count_feedback reason was_connected st =
     (let st = st\<lparr>disconnect_feedback_count := disconnect_feedback_count st + 1\<rparr>;
          st = (if was_connected then st\<lparr>disconnected_after_connected_count := disconnected_after_connected_count st + 1\<rparr>
                else st\<lparr>disconnected_before_connected_count := disconnected_before_connected_count st + 1\<rparr>)
      in case reason of
        kTooManyPeers \<Rightarrow> if was_connected then st\<lparr>too_many_peers_after_connected_count := too_many_peers_after_connected_count st + 1\<rparr>
          else st\<lparr>too_many_peers_before_connected_count := too_many_peers_before_connected_count st + 1\<rparr>
      | kTcpError \<Rightarrow> st\<lparr>tcp_failure_count := tcp_failure_count st + 1\<rparr>
      | kTimeout \<Rightarrow> st\<lparr>timeout_count := timeout_count st + 1\<rparr>
      | kSubprotocolError \<Rightarrow> st\<lparr>subprotocol_error_count := subprotocol_error_count st + 1\<rparr>
      | _ \<Rightarrow> st)"

definition report_peer_disconnected ::
    "time \<Rightarrow> validated_peer \<Rightarrow> disconnect_reason \<Rightarrow> bool \<Rightarrow> watcher_pool \<times> peer_queue \<Rightarrow> bool \<times> watcher_pool \<times> peer_queue" where
  "report_peer_disconnected now peer reason was_connected pq = (case pq of (p, q) \<Rightarrow>
     let key = node_key (vp_node peer); q = bump (count_feedback reason was_connected) q in
     if reason = kTooManyPeers
     then (False, p, bump (\<lambda>st. st\<lparr>too_many_peers_backoff_count := too_many_peers_backoff_count st + 1\<rparr>)
             (q\<lparr>backoff_until := (backoff_until q)(key \<mapsto> now + too_many_peers_backoff (pq_config q))\<rparr>))
     else if \<not> is_requeueable_disconnect reason was_connected then (False, p, q)
     else if max_disconnect_requeues (pq_config q) \<le> disconnect_counts q key
     then (False, p, bump (\<lambda>st. st\<lparr>flaky_peer_drop_count := flaky_peer_drop_count st + 1\<rparr>) q)
     else let q = q\<lparr>disconnect_counts := (disconnect_counts q)(key := disconnect_counts q key + 1)\<rparr> in
       case enqueue_candidate now peer True (p, q) of (ok, p, q) \<Rightarrow>
       if ok then (True, p, bump (\<lambda>st. st\<lparr>requeued_peer_count := requeued_peer_count st + 1\<rparr>) q) else (False, p, q))"

text \<open>The callbacks of a dial of the scheduler that the queue owns: a disconnect message of a connected session, and the end of
  the dial. The feedback function is set from the constructor of the queue on.\<close>

definition on_disconnect_message :: "time \<Rightarrow> nat \<Rightarrow> disconnect_reason \<Rightarrow> watcher_pool \<times> peer_queue \<Rightarrow> watcher_pool \<times> peer_queue" where
  "on_disconnect_message now j reason pq = (case pq of (p, q) \<Rightarrow>
     (case scheduler q of None \<Rightarrow> (p, q)
      | Some s \<Rightarrow> snd (report_peer_disconnected now (dl_peer (running s ! j)) reason True
          (p, q\<lparr>scheduler := Some (mark_reported j s)\<rparr>))))"

definition done_feedback :: "time \<Rightarrow> nat \<Rightarrow> disconnect_reason \<Rightarrow> watcher_pool \<times> peer_queue \<Rightarrow> watcher_pool \<times> peer_queue" where
  "done_feedback now j reason pq = (case pq of (p, q) \<Rightarrow>
     (case scheduler q of None \<Rightarrow> (p, q)
      | Some s \<Rightarrow> if reported (running s ! j) then (p, q)
          else snd (report_peer_disconnected now (dl_peer (running s ! j)) reason (was_validated (running s ! j))
                 (p, q\<lparr>scheduler := Some (mark_reported j s)\<rparr>))))"

definition done_release :: "time \<Rightarrow> nat \<Rightarrow> watcher_pool \<times> peer_queue \<Rightarrow> watcher_pool \<times> peer_queue" where
  "done_release now j pq = (case pq of (p, q) \<Rightarrow>
     (case scheduler q of None \<Rightarrow> (p, q)
      | Some s \<Rightarrow> (case finish_dial now j (p, s) of (p', s') \<Rightarrow> (p', q\<lparr>scheduler := Some s'\<rparr>))))"

definition on_done :: "time \<Rightarrow> nat \<Rightarrow> disconnect_reason \<Rightarrow> watcher_pool \<times> peer_queue \<Rightarrow> watcher_pool \<times> peer_queue" where
  "on_done now j reason pq = done_release now j (done_feedback now j reason pq)"

section \<open>Spreading over the dial slots\<close>

abbreviation (input) band_start :: "nat \<Rightarrow> nat \<Rightarrow> nat \<Rightarrow> nat" where
  "band_start n bands k \<equiv> (n * k) div bands"

text \<open>The indices of the first \<open>off\<close> rounds, as a multiset: of every band its first \<open>off\<close> entries.\<close>

definition picked :: "nat \<Rightarrow> nat \<Rightarrow> nat \<Rightarrow> nat multiset" where
  "picked n bands off = (\<Sum>k<bands. mset [band_start n bands k..<min (band_start n bands (k + 1)) (band_start n bands k + off)])"

lemma band_mono: "band_start n bands k \<le> band_start n bands (k + 1)"
  by (rule div_le_mono) simp

lemma bands_partition: "(\<Sum>k<m. mset [band_start n bands k..<band_start n bands (k + 1)]) = mset [0..<band_start n bands m]"
proof (induction m)
  case (Suc m)
  have "[0..<band_start n bands m] @ [band_start n bands m..<band_start n bands (Suc m)] = [0..<band_start n bands (Suc m)]"
    using upt_add_eq_append [of 0 "band_start n bands m" "band_start n bands (Suc m) - band_start n bands m"] band_mono [of n m bands]
    by simp
  then have "mset [0..<band_start n bands m] + mset [band_start n bands m..<band_start n bands (Suc m)] = mset [0..<band_start n bands (Suc m)]"
    by (metis mset_append)
  then show ?case using Suc by simp
qed simp

lemma sum_subset_mset: "(\<And>k. f k \<subseteq># g k) \<Longrightarrow> (\<Sum>k<(m::nat). f k) \<subseteq># (\<Sum>k<m. g k)"
  by (induction m) (simp_all add: subset_mset.add_mono)

lemma picked_subset: "0 < bands \<Longrightarrow> picked n bands off \<subseteq># mset [0..<n]"
proof -
  assume "0 < bands"
  have "mset [a..<min b (a + off)] \<subseteq># mset [a..<b]" for a b :: nat
    unfolding mset_upt by (rule subset_imp_msubset_mset_set) auto
  then have "picked n bands off \<subseteq># (\<Sum>k<bands. mset [band_start n bands k..<band_start n bands (k + 1)])"
    unfolding picked_def by (intro sum_subset_mset)
  from this [unfolded bands_partition] \<open>0 < bands\<close> show ?thesis by simp
qed

lemma picked_all: "0 < bands \<Longrightarrow> n \<le> off \<Longrightarrow> picked n bands off = mset [0..<n]"
proof -
  assume a: "0 < bands" "n \<le> off"
  have "band_start n bands (k + 1) \<le> n" if "k < bands" for k
    using that div_le_mono [OF mult_le_mono2 [of "k + 1" bands n], of bands] a(1) by simp
  then have "min (band_start n bands (k + 1)) (band_start n bands k + off) = band_start n bands (k + 1)" if "k < bands" for k
    using that a(2) by (intro min_absorb1) (meson le_add2 le_trans)
  then have "picked n bands off = (\<Sum>k<bands. mset [band_start n bands k..<band_start n bands (k + 1)])"
    unfolding picked_def by (intro sum.cong) simp_all
  from this [unfolded bands_partition] a show ?thesis by simp
qed

definition row_indices :: "nat \<Rightarrow> nat \<Rightarrow> nat \<Rightarrow> nat list" where
  "row_indices n bands off = concat (map (\<lambda>k.
     if band_start n bands k + off < band_start n bands (k + 1) then [band_start n bands k + off] else []) [0..<bands])"

lemma mset_concat_upt: "mset (concat (map f [0..<m])) = (\<Sum>k<m. mset (f k))"
  by (induction m) simp_all

lemma picked_Suc: "picked n bands (Suc off) = picked n bands off + mset (row_indices n bands off)"
proof -
  have "mset [a..<min b (a + Suc off)] = mset [a..<min b (a + off)] + mset (if a + off < b then [a + off] else [])" if "a \<le> b" for a b :: nat
    using that upt_Suc_append [of a "a + off"] by (cases "a + off < b") (auto simp: min_absorb1 min_absorb2 simp del: mset_upt upt_Suc)
  then show ?thesis
    unfolding picked_def row_indices_def using band_mono
    by (simp add: mset_concat_upt sum.distrib [symmetric] del: upt_Suc)
qed

lemma band_row_indices: "band_row peers bands off = map ((!) peers) (row_indices (length peers) bands off)"
  by (simp add: band_row_def row_indices_def map_concat Let_def comp_def if_distrib [of "map _"] cong: if_cong)

lemma nth_picked: "image_mset ((!) xs) (mset [0..<length xs]) = mset xs"
  by (metis map_nth mset_map)

lemma spread_loop_result:
  assumes "0 < bands" "mset ixs = picked (length peers) bands off"
  shows "\<exists>ys. spread_loop peers bands off (map ((!) peers) ixs) = Some (map ((!) peers) ixs @ ys) \<and> mset (map ((!) peers) ixs @ ys) = mset peers"
  using assms
proof (induction "length peers - off" arbitrary: off ixs rule: less_induct)
  case less
  let ?xs = "map ((!) peers) ixs"
  have sub: "mset ixs \<subseteq># mset [0..<length peers]" using picked_subset [OF less.prems(1)] less.prems(2) by simp
  show ?case
  proof (cases "length ixs < length peers")
    case False
    then have "mset ixs = mset [0..<length peers]"
      using sub mset_subset_size [of "mset ixs" "mset [0..<length peers]"] by (auto simp: subset_mset.le_less simp del: mset_upt)
    then have "mset ?xs = mset peers" using nth_picked [of peers] by (metis mset_map)
    with False show ?thesis by (simp add: spread_loop.simps [of peers bands off])
  next
    case True
    then have "off < length peers" using picked_all [OF less.prems(1)] less.prems(2) by (metis diff_zero length_upt not_le size_mset nat_less_le)
    moreover have "mset (ixs @ row_indices (length peers) bands off) = picked (length peers) bands (off + 1)"
      using less.prems(2) by (simp add: picked_Suc)
    ultimately obtain ys where "spread_loop peers bands (off + 1) (map ((!) peers) (ixs @ row_indices (length peers) bands off)) =
          Some (map ((!) peers) (ixs @ row_indices (length peers) bands off) @ ys)"
        "mset (map ((!) peers) (ixs @ row_indices (length peers) bands off) @ ys) = mset peers"
      using less.hyps [of "off + 1"] less.prems(1) by (metis Suc_eq_plus1 diff_less_mono2 lessI)
    then show ?thesis
      using True by (intro exI [of _ "map ((!) peers) (row_indices (length peers) bands off) @ ys"])
        (simp add: spread_loop.simps [of peers bands off] band_row_indices)
  qed
qed

lemma mset_rotate_cached: "mset (rotate_cached_peers start peers) = mset peers"
proof -
  have "mset (drop k peers @ take k peers) = mset peers" for k
    by (metis append_take_drop_id mset_append union_commute)
  then show ?thesis by (simp add: rotate_cached_peers_def Let_def)
qed

lemma first_row:
  assumes "0 < bands" "bands \<le> n"
  shows "row_indices n bands 0 = map (\<lambda>k. band_start n bands k) [0..<bands]"
proof -
  have "band_start n bands k < band_start n bands (k + 1)" for k
  proof -
    have "n * k + bands \<le> n * (k + 1)" using assms by simp
    from div_le_mono [OF this, of bands] show ?thesis using assms by (simp add: div_add_self2)
  qed
  then show ?thesis by (simp add: row_indices_def)
qed

lemma spread_loop_total:
  assumes "0 < bands" "bands \<le> length peers"
  shows "\<exists>ys. spread_loop peers bands 0 [] = Some (map (\<lambda>k. peers ! band_start (length peers) bands k) [0..<bands] @ ys) \<and>
    mset (map (\<lambda>k. peers ! band_start (length peers) bands k) [0..<bands] @ ys) = mset peers"
proof -
  have r: "map ((!) peers) (row_indices (length peers) bands 0) = map (\<lambda>k. peers ! band_start (length peers) bands k) [0..<bands]"
    using first_row [OF assms] by (simp add: comp_def)
  have "mset (row_indices (length peers) bands 0) = picked (length peers) bands (0 + 1)"
    using picked_Suc [of "length peers" bands 0] by (simp add: picked_def)
  from spread_loop_result [OF assms(1) this] r show ?thesis
    using assms by (auto simp: spread_loop.simps [of peers bands 0] band_row_indices)
qed

text \<open>C18. Preloading cached peers ends for every list of peers and every limit on connections, although its loop stops only when
  the output has the length of the input: the peers it enqueues are the cached peers, each once, and where the limit is
  between two and the number of peers, the first of them are the first peers of equally long bands of the rotated list.\<close>

theorem spread_is_permutation:
  "\<exists>ys. spread_cached_peers_for_dial_slots p sched (rotate_cached_peers start peers) = Some ys \<and> mset ys = mset peers \<and>
     (sched \<and> 2 \<le> max_per_chain p \<and> max_per_chain p \<le> int (length peers) \<longrightarrow>
        take (nat (max_per_chain p)) ys =
          map (\<lambda>k. rotate_cached_peers start peers ! ((length peers * k) div nat (max_per_chain p))) [0..<nat (max_per_chain p)])"
proof -
  let ?r = "rotate_cached_peers start peers" and ?m = "nat (max_per_chain p)"
  let ?b = "min (length peers) ?m"
  have m: "mset ?r = mset peers" by (rule mset_rotate_cached)
  then have l: "length ?r = length peers" by (metis size_mset)
  show ?thesis
  proof (cases "\<not> sched \<or> length peers \<le> 1 \<or> max_per_chain p \<le> 1 \<or> ?b \<le> 1")
    case True
    then have "spread_cached_peers_for_dial_slots p sched ?r = Some ?r"
      by (auto simp: spread_cached_peers_for_dial_slots_def l Let_def)
    moreover have "\<not> (sched \<and> 2 \<le> max_per_chain p \<and> max_per_chain p \<le> int (length peers))" using True by auto
    ultimately show ?thesis using m by auto
  next
    case False
    then have eq: "spread_cached_peers_for_dial_slots p sched ?r = spread_loop ?r ?b 0 []"
      by (simp add: spread_cached_peers_for_dial_slots_def l Let_def)
    have b: "0 < ?b" "?b \<le> length ?r" using False l by auto
    from spread_loop_total [OF b] obtain ys where ys:
      "spread_loop ?r ?b 0 [] = Some (map (\<lambda>k. ?r ! band_start (length ?r) ?b k) [0..<?b] @ ys)"
      "mset (map (\<lambda>k. ?r ! band_start (length ?r) ?b k) [0..<?b] @ ys) = mset ?r" by blast
    show ?thesis using ys eq l m by (intro exI [of _ "map (\<lambda>k. ?r ! band_start (length ?r) ?b k) [0..<?b] @ ys"]) (simp add: min_absorb2 nat_le_iff)
  qed
qed

theorem spread_is_permutation_witness:
  "\<exists>ys. spread_cached_peers_for_dial_slots \<lparr>max_total = 24, max_per_chain = 2, active_total = 0\<rparr> True
      (rotate_cached_peers 1 [10, 20, 30, 40, 50 :: nat]) = Some ys \<and> mset ys = mset [10, 20, 30, 40, 50] \<and> take 2 ys = [20, 40]"
  using spread_is_permutation [of "\<lparr>max_total = 24, max_per_chain = 2, active_total = 0\<rparr>" True 1 "[10, 20, 30, 40, 50 :: nat]"]
  by (auto simp: rotate_cached_peers_def upt_rec)

section \<open>What a candidate can meet\<close>

definition backed_off :: "time \<Rightarrow> string \<Rightarrow> peer_queue \<Rightarrow> bool" where
  "backed_off now key q \<longleftrightarrow> (case backoff_until q key of None \<Rightarrow> False | Some t \<Rightarrow> now < t)"

definition room :: "watcher_pool \<Rightarrow> peer_queue \<Rightarrow> bool" where
  "room p q \<longleftrightarrow> (case scheduler q of None \<Rightarrow> True | Some s \<Rightarrow> has_slot p s \<or> length (queue s) < max_pending_peers (pq_config q))"

text \<open>The nodes a scheduler knows of.\<close>

definition sched_nodes :: "dial_scheduler \<Rightarrow> node_id set" where
  "sched_nodes s = vp_node ` set (queue s) \<union> snd ` set (dialed s)"

definition queue_ok :: "peer_queue \<Rightarrow> bool" where
  "queue_ok q \<longleftrightarrow> (\<forall>k. disconnect_counts q k \<le> max_disconnect_requeues (pq_config q)) \<and>
     (case scheduler q of None \<Rightarrow> True
      | Some s \<Rightarrow> length (queue s) \<le> max_pending_peers (pq_config q) \<and> node_key ` sched_nodes s \<subseteq> seen_node_ids q)"

definition extends :: "time \<Rightarrow> watcher_pool \<times> peer_queue \<Rightarrow> watcher_pool \<times> peer_queue \<Rightarrow> bool" where
  "extends now pq pq' \<longleftrightarrow> pq_config (snd pq') = pq_config (snd pq) \<and>
     (case (scheduler (snd pq), scheduler (snd pq')) of
        (None, None) \<Rightarrow> fst pq' = fst pq
      | (Some s, Some s') \<Rightarrow> (sched_step now)\<^sup>*\<^sup>* (fst pq, s) (fst pq', s')
      | _ \<Rightarrow> False)"

lemma extends_refl [simp]: "extends now pq pq"
  by (auto simp: extends_def split: option.splits)

lemma extends_trans: "extends now a b \<Longrightarrow> extends now b c \<Longrightarrow> extends now a c"
  by (auto simp: extends_def split: option.splits)

lemma bump_simps [simp]:
  "scheduler (bump f q) = scheduler q" "pq_config (bump f q) = pq_config q" "seen_node_ids (bump f q) = seen_node_ids q"
  "disconnect_counts (bump f q) = disconnect_counts q" "backoff_until (bump f q) = backoff_until q" "pq_stats (bump f q) = f (pq_stats q)"
  "discovery_bootnodes (bump f q) = discovery_bootnodes q"
  by (simp_all add: bump_def)

lemma queue_ok_frame:
  "queue_ok q \<Longrightarrow> scheduler q' = scheduler q \<Longrightarrow> pq_config q' = pq_config q \<Longrightarrow> disconnect_counts q' = disconnect_counts q \<Longrightarrow>
   seen_node_ids q \<subseteq> seen_node_ids q' \<Longrightarrow> queue_ok q'"
  by (auto simp: queue_ok_def split: option.splits)

lemma queue_ok_bump [simp]: "queue_ok (bump f q) = queue_ok q"
  by (simp add: queue_ok_def split: option.split)

lemma extends_frame: "scheduler q' = scheduler q \<Longrightarrow> pq_config q' = pq_config q \<Longrightarrow> extends now pq (p, q') = extends now pq (p, q)"
  by (simp add: extends_def split: option.split)

lemma extends_bump [simp]: "extends now pq (p, bump f q) = extends now pq (p, q)"
  by (rule extends_frame) simp_all

lemma enqueue_nodes:
  assumes "enqueue now vp (p, s) = (p', s')"
  shows "sched_nodes s' \<subseteq> insert (vp_node vp) (sched_nodes s)"
    and "queue s' = queue s \<or> \<not> has_slot p s \<and> queue s' = queue s @ [vp]"
  using assms by (auto simp: enqueue_def Let_def start_dial_def spawn_dial_def sched_nodes_def split: option.splits if_splits)

lemma drain_nodes: "sched_nodes (snd (drain now (p, s))) \<subseteq> sched_nodes s \<and> length (queue (snd (drain now (p, s)))) \<le> length (queue s)"
proof -
  let ?R = "\<lambda>a b. sched_nodes (snd b) \<subseteq> sched_nodes (snd a) \<and> length (queue (snd b)) \<le> length (queue (snd a))"
  have "?R (p, s) (drain now (p, s)) \<and> True"
  proof (rule drain_relates [where R = ?R and I = "\<lambda>_. True"])
    show "?R (p, s) (p, s\<lparr>queue := q\<rparr>) \<and> True" if "queue s = vp # q" for p :: watcher_pool and s vp q
      using that by (auto simp: sched_nodes_def)
    show "?R (p, s) (start_dial now vp (p, s\<lparr>queue := q\<rparr>)) \<and> True" if "queue s = vp # q" for p s vp q
      using that by (auto simp: sched_nodes_def start_dial_def spawn_dial_def)
  qed auto
  then show ?thesis by simp
qed

lemma finish_nodes:
  "sched_nodes (snd (finish_dial now j (p, s))) \<subseteq> sched_nodes s \<and> length (queue (snd (finish_dial now j (p, s)))) \<le> length (queue s)"
proof -
  have "sched_nodes (s\<lparr>running := r, validated_count := v, active := a, history := h\<rparr>) = sched_nodes s" for r v a h
    by (simp add: sched_nodes_def)
  then show ?thesis
    using drain_nodes [of now "p\<lparr>active_total := active_total p - 1\<rparr>"
        "s\<lparr>running := take j (running s) @ drop (Suc j) (running s),
           validated_count := (if was_validated (running s ! j) then validated_count s - 1 else validated_count s),
           active := active s - 1, history := history_expire now (history s)\<rparr>"]
    by (auto simp: finish_dial_def release_def Let_def sched_nodes_def)
qed

lemma candidate_drop:
  assumes "enqueue_candidate now vp allow (p, q) = (False, p', q')"
  shows "p' = p \<and> scheduler q' = scheduler q \<and> pq_config q' = pq_config q \<and> disconnect_counts q' = disconnect_counts q \<and>
    seen_node_ids q' = seen_node_ids q"
  using assms by (auto simp: enqueue_candidate_def Let_def insert_absorb split: option.splits if_splits prod.splits)

lemma candidate_accept:
  assumes "enqueue_candidate now vp allow (p, q) = (True, p', q')"
  shows "pq_config q' = pq_config q \<and> disconnect_counts q' = disconnect_counts q \<and>
    seen_node_ids q' = insert (node_key (vp_node vp)) (seen_node_ids q) \<and>
    (case scheduler q of None \<Rightarrow> p' = p \<and> scheduler q' = None
     | Some s \<Rightarrow> (\<exists>s'. enqueue now vp (p, s) = (p', s') \<and> scheduler q' = Some s') \<and>
         (has_slot p s \<or> length (queue s) < max_pending_peers (pq_config q)))"
  using assms by (auto simp: enqueue_candidate_def Let_def not_le split: option.splits if_splits prod.splits)

lemma candidate_ok:
  assumes "queue_ok q" "enqueue_candidate now vp allow (p, q) = (ok, p', q')"
  shows "queue_ok q' \<and> extends now (p, q) (p', q') \<and> disconnect_counts q' = disconnect_counts q"
proof (cases ok)
  case False
  then show ?thesis
    using candidate_drop [of now vp allow p q p' q'] assms queue_ok_frame [of q q'] by (simp add: extends_frame [of q' q])
next
  case True
  with assms(2) have "enqueue_candidate now vp allow (p, q) = (True, p', q')" by simp
  note acc = candidate_accept [OF this]
  show ?thesis
  proof (cases "scheduler q")
    case None
    then show ?thesis using acc assms(1) by (simp add: queue_ok_def extends_def)
  next
    case (Some s)
    with acc obtain s' where s': "enqueue now vp (p, s) = (p', s')" "scheduler q' = Some s'"
      "has_slot p s \<or> length (queue s) < max_pending_peers (pq_config q)" by auto
    have "length (queue s') \<le> max_pending_peers (pq_config q)"
      using enqueue_nodes(2) [OF s'(1)] s'(3) assms(1) Some by (auto simp: queue_ok_def)
    moreover have "node_key ` sched_nodes s' \<subseteq> insert (node_key (vp_node vp)) (seen_node_ids q)"
      using enqueue_nodes(1) [OF s'(1)] assms(1) Some by (fastforce simp: queue_ok_def)
    moreover have "(sched_step now)\<^sup>*\<^sup>* (p, s) (p', s')" using step_enqueue [of now "(p, s)" vp] s'(1) by simp
    ultimately show ?thesis using acc Some s' assms(1) by (simp add: queue_ok_def extends_def)
  qed
qed

lemma discovered_ok:
  "queue_ok (snd pq) \<Longrightarrow> queue_ok (snd (snd (enqueue_discovered_peer now peer pq))) \<and> extends now pq (snd (enqueue_discovered_peer now peer pq))"
  using candidate_ok [of "snd pq" now "make_candidate peer" False "fst pq"]
  by (cases "enqueue_candidate now (make_candidate peer) False pq") (auto simp: enqueue_discovered_peer_def)

lemma preload_ok:
  "queue_ok (snd pq) \<Longrightarrow> queue_ok (snd (preload_loop now peers pq)) \<and> extends now pq (preload_loop now peers pq)"
proof (induction peers arbitrary: pq)
  case (Cons peer peers)
  obtain p q where pq: "pq = (p, q)" by (cases pq)
  obtain ok p' q' where e: "enqueue_candidate now peer False (p, q) = (ok, p', q')" by (cases "enqueue_candidate now peer False (p, q)")
  let ?q = "if ok then bump (\<lambda>st. st\<lparr>cached_peer_count := cached_peer_count st + 1\<rparr>) q' else q'"
  have "queue_ok ?q" "extends now (p, q) (p', ?q)" using candidate_ok [OF _ e] Cons.prems pq by simp_all
  then show ?case using Cons.IH [of "(p', ?q)"] extends_trans [of now "(p, q)" "(p', ?q)"] by (auto simp: pq e)
qed simp

abbreviation (input) requeue_counted :: "disconnect_reason \<Rightarrow> bool \<Rightarrow> string \<Rightarrow> peer_queue \<Rightarrow> peer_queue" where
  "requeue_counted reason wc k q \<equiv> (bump (count_feedback reason wc) q)\<lparr>disconnect_counts := (disconnect_counts q)(k := disconnect_counts q k + 1)\<rparr>"

definition requeue_allowed :: "disconnect_reason \<Rightarrow> bool \<Rightarrow> string \<Rightarrow> peer_queue \<Rightarrow> bool" where
  "requeue_allowed reason wc k q \<longleftrightarrow> is_requeueable_disconnect reason wc \<and> disconnect_counts q k < max_disconnect_requeues (pq_config q)"

lemma report_refused:
  assumes "report_peer_disconnected now peer reason wc (p, q) = (ok, p', q')" "\<not> requeue_allowed reason wc (node_key (vp_node peer)) q"
  shows "\<not> ok \<and> p' = p \<and> scheduler q' = scheduler q \<and> pq_config q' = pq_config q \<and> disconnect_counts q' = disconnect_counts q \<and>
    seen_node_ids q' = seen_node_ids q"
  using assms
  by (auto simp: report_peer_disconnected_def requeue_allowed_def Let_def is_requeueable_disconnect_def split: if_splits disconnect_reason.splits)

lemma report_requeued:
  assumes "report_peer_disconnected now peer reason wc (p, q) = (ok, p', q')" "requeue_allowed reason wc (node_key (vp_node peer)) q"
  shows "\<exists>q2 f. enqueue_candidate now peer True (p, requeue_counted reason wc (node_key (vp_node peer)) q) = (ok, p', q2) \<and> q' = bump f q2"
proof -
  let ?q = "requeue_counted reason wc (node_key (vp_node peer)) q"
  obtain ok2 p2 q2 where e: "enqueue_candidate now peer True (p, ?q) = (ok2, p2, q2)" by (cases "enqueue_candidate now peer True (p, ?q)")
  have "reason \<noteq> kTooManyPeers" using assms(2) by (auto simp: requeue_allowed_def is_requeueable_disconnect_def)
  then have "(ok, p', q') = (ok2, p2, bump (\<lambda>st. if ok2 then st\<lparr>requeued_peer_count := requeued_peer_count st + 1\<rparr> else st) q2)"
    using assms e by (cases ok2) (simp_all add: report_peer_disconnected_def requeue_allowed_def Let_def bump_def)
  with e show ?thesis by blast
qed

lemma report_ok:
  assumes "queue_ok q" "report_peer_disconnected now peer reason wc (p, q) = (ok, p', q')"
  shows "queue_ok q' \<and> extends now (p, q) (p', q')"
proof (cases "requeue_allowed reason wc (node_key (vp_node peer)) q")
  case False
  from report_refused [OF assms(2) this] queue_ok_frame [OF assms(1)] show ?thesis by (simp add: extends_frame [of q' q])
next
  case True
  let ?q = "requeue_counted reason wc (node_key (vp_node peer)) q"
  obtain q2 f where e: "enqueue_candidate now peer True (p, ?q) = (ok, p', q2)" "q' = bump f q2"
    using report_requeued [OF assms(2) True] by blast
  have "queue_ok ?q" using True assms(1) by (simp add: queue_ok_def requeue_allowed_def Suc_leI split: option.splits)
  note c = candidate_ok [OF this e(1)]
  have "extends now (p, q) (p, ?q)" using extends_frame [of ?q q now "(p, q)" p] by simp
  with c show ?thesis using extends_trans [of now "(p, q)" "(p, ?q)"] by (simp add: e(2))
qed

lemma report_running:
  assumes "report_peer_disconnected now peer reason wc (p, q) = (ok, p', q')" "scheduler q = Some s"
  shows "\<exists>s'. scheduler q' = Some s' \<and> length (running s) \<le> length (running s')"
proof (cases "requeue_allowed reason wc (node_key (vp_node peer)) q")
  case False
  from report_refused [OF assms(1) this] assms(2) show ?thesis by simp
next
  case True
  let ?q = "requeue_counted reason wc (node_key (vp_node peer)) q"
  obtain q2 f where e: "enqueue_candidate now peer True (p, ?q) = (ok, p', q2)" "q' = bump f q2"
    using report_requeued [OF assms(1) True] by blast
  have "length (running s) \<le> length (running s')" if "enqueue now peer (p, s) = (p', s')" for s'
    using that by (auto simp: enqueue_def Let_def start_dial_def spawn_dial_def split: option.splits if_splits)
  then show ?thesis
    using e assms(2) candidate_drop [of now peer True p ?q p' q2] candidate_accept [of now peer True p ?q p' q2] by (cases ok) auto
qed

lemma mark_reported_nodes [simp]: "sched_nodes (mark_reported j s) = sched_nodes s" "queue (mark_reported j s) = queue s"
    "length (running (mark_reported j s)) = length (running s)"
  by (simp_all add: sched_nodes_def mark_reported_def)

lemma set_scheduler_ok:
  assumes "queue_ok q" "scheduler q = Some s" "sched_nodes s' \<subseteq> sched_nodes s" "length (queue s') \<le> length (queue s)"
    and "(sched_step now)\<^sup>*\<^sup>* (p, s) (p', s')"
  shows "queue_ok (q\<lparr>scheduler := Some s'\<rparr>) \<and> extends now (p, q) (p', q\<lparr>scheduler := Some s'\<rparr>)"
  using assms by (auto simp: queue_ok_def extends_def)

lemma marked_ok:
  assumes "queue_ok q" "scheduler q = Some s" "j < length (running s)"
  shows "queue_ok (q\<lparr>scheduler := Some (mark_reported j s)\<rparr>) \<and> extends now (p, q) (p, q\<lparr>scheduler := Some (mark_reported j s)\<rparr>)"
  using assms by (intro set_scheduler_ok) (auto intro: step_reported)

lemma finished_ok:
  assumes "queue_ok q" "scheduler q = Some s" "j < length (running s)" "finish_dial now j (p, s) = (p', s')"
  shows "queue_ok (q\<lparr>scheduler := Some s'\<rparr>) \<and> extends now (p, q) (p', q\<lparr>scheduler := Some s'\<rparr>)"
proof (rule set_scheduler_ok [OF assms(1, 2)])
  show "sched_nodes s' \<subseteq> sched_nodes s" "length (queue s') \<le> length (queue s)" using finish_nodes [of now j p s] assms(4) by simp_all
  show "(sched_step now)\<^sup>*\<^sup>* (p, s) (p', s')" using step_done [OF assms(3), of now p] assms(4) by simp
qed

lemma message_ok:
  assumes "queue_ok q" "scheduler q = Some s" "j < length (running s)" "on_disconnect_message now j reason (p, q) = (p', q')"
  shows "queue_ok q' \<and> extends now (p, q) (p', q')"
proof -
  let ?q = "q\<lparr>scheduler := Some (mark_reported j s)\<rparr>"
  obtain ok where "report_peer_disconnected now (dl_peer (running s ! j)) reason True (p, ?q) = (ok, p', q')"
    using assms by (cases "report_peer_disconnected now (dl_peer (running s ! j)) reason True (p, ?q)") (simp add: on_disconnect_message_def)
  from report_ok [OF _ this] marked_ok [OF assms(1-3)] show ?thesis using extends_trans by blast
qed

lemma feedback_ok:
  assumes "queue_ok q" "scheduler q = Some s" "j < length (running s)" "done_feedback now j reason (p, q) = (p', q')"
  shows "queue_ok q' \<and> extends now (p, q) (p', q') \<and> (\<exists>s'. scheduler q' = Some s' \<and> j < length (running s'))"
proof (cases "reported (running s ! j)")
  case True
  then show ?thesis using assms by (simp add: done_feedback_def)
next
  case False
  let ?q = "q\<lparr>scheduler := Some (mark_reported j s)\<rparr>"
  obtain ok where r: "report_peer_disconnected now (dl_peer (running s ! j)) reason (was_validated (running s ! j)) (p, ?q) = (ok, p', q')"
    using assms False by (cases "report_peer_disconnected now (dl_peer (running s ! j)) reason (was_validated (running s ! j)) (p, ?q)")
      (simp add: done_feedback_def)
  from report_ok [OF _ r] marked_ok [OF assms(1-3), of now p] have "queue_ok q'" "extends now (p, q) (p', q')"
    using extends_trans by blast+
  then show ?thesis using report_running [OF r] assms(3) by fastforce
qed

lemma done_ok:
  assumes "queue_ok q" "scheduler q = Some s" "j < length (running s)" "on_done now j reason (p, q) = (p', q')"
  shows "queue_ok q' \<and> extends now (p, q) (p', q')"
proof -
  obtain p1 q1 where 1: "done_feedback now j reason (p, q) = (p1, q1)" by (cases "done_feedback now j reason (p, q)")
  note fb = feedback_ok [OF assms(1-3) 1]
  then obtain s1 where s1: "scheduler q1 = Some s1" "j < length (running s1)" by blast
  obtain p2 s2 where f: "finish_dial now j (p1, s1) = (p2, s2)" by (cases "finish_dial now j (p1, s1)")
  have "p' = p2 \<and> q' = q1\<lparr>scheduler := Some s2\<rparr>" using assms(4) by (simp add: on_done_def done_release_def 1 s1 f)
  then show ?thesis using finished_ok [OF _ s1 f] fb extends_trans [of now "(p, q)" "(p1, q1)"] by auto
qed

section \<open>Runs of a queue\<close>

inductive queue_step :: "time \<Rightarrow> watcher_pool \<times> peer_queue \<Rightarrow> watcher_pool \<times> peer_queue \<Rightarrow> bool" where
  qs_discovered: "queue_step now pq (snd (enqueue_discovered_peer now peer pq))"
| qs_validated: "queue_step now pq (snd (enqueue_validated_discovery_peer now peer pq))"
| qs_preload: "preload_cached_peers now peers pq = Some pq' \<Longrightarrow> queue_step now pq pq'"
| qs_bootnodes: "queue_step now (p, q) (p, set_discovery_bootnodes bs q)"
| qs_report: "queue_step now pq (snd (report_peer_disconnected now peer reason wc pq))"
| qs_connected: "scheduler q = Some s \<Longrightarrow> j < length (running s) \<Longrightarrow> \<not> was_validated (running s ! j) \<Longrightarrow>
    queue_step now (p, q) (p, q\<lparr>scheduler := Some (on_connected j session s)\<rparr>)"
| qs_message: "scheduler q = Some s \<Longrightarrow> j < length (running s) \<Longrightarrow> queue_step now (p, q) (on_disconnect_message now j reason (p, q))"
| qs_done: "scheduler q = Some s \<Longrightarrow> j < length (running s) \<Longrightarrow> queue_step now (p, q) (on_done now j reason (p, q))"
| qs_stop: "scheduler q = Some s \<Longrightarrow> queue_step now (p, q) (p, q\<lparr>scheduler := Some (snd (stop_scheduler s))\<rparr>)"

text \<open>A path of a queue from one time to a later one; other chains may change the counter of the pool at any time.\<close>

inductive queue_path :: "time \<Rightarrow> watcher_pool \<times> peer_queue \<Rightarrow> time \<Rightarrow> watcher_pool \<times> peer_queue \<Rightarrow> bool" for t pq where
  path_here: "queue_path t pq t pq"
| path_step: "queue_path t pq t1 pq1 \<Longrightarrow> t1 \<le> now \<Longrightarrow> queue_step now pq1 pq2 \<Longrightarrow> queue_path t pq now pq2"
| path_other: "queue_path t pq t1 (p1, q1) \<Longrightarrow> queue_path t pq t1 (p1\<lparr>active_total := n\<rparr>, q1)"

lemma step_ok:
  assumes "queue_step now pq pq'" "queue_ok (snd pq)"
  shows "queue_ok (snd pq') \<and> extends now pq pq'"
  using assms
proof (induction rule: queue_step.induct)
  case (qs_discovered now pq peer)
  then show ?case by (rule discovered_ok)
next
  case (qs_validated now pq peer)
  then show ?case using discovered_ok by (simp add: enqueue_validated_eq)
next
  case (qs_preload now peers pq pq')
  then show ?case using preload_ok by (auto simp: preload_cached_peers_def split: prod.splits option.splits)
next
  case (qs_bootnodes now p q bs)
  then show ?case using queue_ok_frame [of q "set_discovery_bootnodes bs q"] by (simp add: set_discovery_bootnodes_def extends_frame)
next
  case (qs_report now pq peer reason wc)
  then show ?case using report_ok [of "snd pq" now peer reason wc "fst pq"] by (cases "report_peer_disconnected now peer reason wc pq") auto
next
  case (qs_connected q s j now p session)
  then show ?case using set_scheduler_ok [of q s "on_connected j session s" now p p] step_connected [of j s now p session]
    by (auto simp: on_connected_def sched_nodes_def)
next
  case (qs_message q s j now p reason)
  then show ?case using message_ok by (cases "on_disconnect_message now j reason (p, q)") auto
next
  case (qs_done q s j now p reason)
  then show ?case using done_ok by (cases "on_done now j reason (p, q)") auto
next
  case (qs_stop q s now p)
  then show ?case using set_scheduler_ok [of q s "snd (stop_scheduler s)" now p p] step_stop [of now p s]
    by (auto simp: stop_scheduler_def sched_nodes_def)
qed

lemma sched_steps_ok: "(sched_step now)\<^sup>*\<^sup>* ps ps' \<Longrightarrow> chain_ok (fst ps) (snd ps) \<Longrightarrow> chain_ok (fst ps') (snd ps')"
proof (induction rule: rtranclp_induct)
  case (step ps1 ps2)
  then show ?case using chain_keeps [of "fst ps1" "snd ps1" "fst ps2" "snd ps2"] keeps_step [OF step.hyps(2)] by simp
qed

lemma path_ok:
  assumes "queue_path t (p0, new_queue sch cfg) t' (p, q)" "sch = None \<or> (\<exists>f ex. sch = Some (new_scheduler f ex))"
  shows "queue_ok q \<and> pq_config q = cfg \<and> (case scheduler q of None \<Rightarrow> True | Some s \<Rightarrow> chain_ok p s)"
  using assms
proof (induction t' "(p, q)" arbitrary: p q rule: queue_path.induct)
  case path_here
  then show ?case
    by (auto simp: queue_ok_def new_queue_def new_scheduler_def sched_nodes_def chain_ok_def)
next
  case (path_step t1 pq1 now)
  obtain p1 q1 where pq1: "pq1 = (p1, q1)" by (cases pq1)
  note IH = path_step.hyps(2) [OF pq1 path_step.prems]
  have "queue_ok q" "extends now (p1, q1) (p, q)" using step_ok [OF path_step.hyps(4)] IH pq1 by simp_all
  then show ?case using IH sched_steps_ok by (fastforce simp: extends_def split: option.splits)
next
  case (path_other t1 p1 q n)
  then show ?case by (auto simp: chain_ok_def split: option.splits)
qed

section \<open>Backing off\<close>

definition barred :: "time \<Rightarrow> string \<Rightarrow> peer_queue \<Rightarrow> bool" where
  "barred until k q \<longleftrightarrow> (\<exists>e. backoff_until q k = Some e \<and> until \<le> e)"

lemma barred_bump [simp]: "barred until k (bump f q) = barred until k q"
  by (simp add: barred_def)

lemma candidate_barred:
  assumes "barred until k q" "now < until" "enqueue_candidate now vp allow (p, q) = (ok, p', q')"
  shows "barred until k q' \<and> pq_config q' = pq_config q"
  using assms by (auto simp: barred_def enqueue_candidate_def bump_def Let_def split: if_splits option.splits prod.splits)

lemma discovered_barred:
  "barred until k (snd pq) \<Longrightarrow> now < until \<Longrightarrow> barred until k (snd (snd (enqueue_discovered_peer now peer pq))) \<and>
   pq_config (snd (snd (enqueue_discovered_peer now peer pq))) = pq_config (snd pq)"
  using candidate_barred [of until k "snd pq" now "make_candidate peer" False "fst pq"]
  by (cases "enqueue_candidate now (make_candidate peer) False pq") (auto simp: enqueue_discovered_peer_def)

lemma preload_barred:
  "barred until k (snd pq) \<Longrightarrow> now < until \<Longrightarrow>
   barred until k (snd (preload_loop now peers pq)) \<and> pq_config (snd (preload_loop now peers pq)) = pq_config (snd pq)"
proof (induction peers arbitrary: pq)
  case (Cons peer peers)
  obtain p q where pq: "pq = (p, q)" by (cases pq)
  obtain ok p' q' where e: "enqueue_candidate now peer False (p, q) = (ok, p', q')" by (cases "enqueue_candidate now peer False (p, q)")
  let ?q = "if ok then bump (\<lambda>st. st\<lparr>cached_peer_count := cached_peer_count st + 1\<rparr>) q' else q'"
  have "barred until k ?q" "pq_config ?q = pq_config q" using candidate_barred [OF _ _ e] Cons.prems pq by simp_all
  then show ?case using Cons.IH [of "(p', ?q)"] Cons.prems by (simp add: pq e)
qed simp

lemma report_barred:
  assumes "barred until k q" "now < until" "until \<le> now + too_many_peers_backoff (pq_config q)"
    and "report_peer_disconnected now peer reason wc (p, q) = (ok, p', q')"
  shows "barred until k q' \<and> pq_config q' = pq_config q"
proof (cases "requeue_allowed reason wc (node_key (vp_node peer)) q")
  case False
  then show ?thesis
    using assms by (auto simp: report_peer_disconnected_def requeue_allowed_def barred_def Let_def split: if_splits)
next
  case True
  let ?q = "requeue_counted reason wc (node_key (vp_node peer)) q"
  obtain q2 f where e: "enqueue_candidate now peer True (p, ?q) = (ok, p', q2)" "q' = bump f q2"
    using report_requeued [OF assms(4) True] by blast
  have "barred until k ?q" using assms(1) by (simp add: barred_def)
  from candidate_barred [OF this assms(2) e(1)] show ?thesis by (simp add: e(2))
qed

lemma reported_barred:
  assumes "barred until k q" "now < until" "until \<le> now + too_many_peers_backoff (pq_config q)"
  shows "barred until k (snd (snd (report_peer_disconnected now peer reason wc (p, q))))"
    and "pq_config (snd (snd (report_peer_disconnected now peer reason wc (p, q)))) = pq_config q"
proof -
  obtain ok p' q' where r: "report_peer_disconnected now peer reason wc (p, q) = (ok, p', q')"
    by (cases "report_peer_disconnected now peer reason wc (p, q)")
  from report_barred [OF assms r] show
    "barred until k (snd (snd (report_peer_disconnected now peer reason wc (p, q))))"
    "pq_config (snd (snd (report_peer_disconnected now peer reason wc (p, q)))) = pq_config q"
    unfolding r by simp_all
qed

lemma barred_scheduler [simp]: "barred until k (q\<lparr>scheduler := x\<rparr>) = barred until k q"
  by (simp add: barred_def)

lemma step_barred:
  assumes "queue_step now pq pq'" "barred until k (snd pq)" "now < until" "until \<le> now + too_many_peers_backoff (pq_config (snd pq))"
  shows "barred until k (snd pq') \<and> pq_config (snd pq') = pq_config (snd pq)"
  using assms
proof (induction rule: queue_step.induct)
  case (qs_discovered now pq peer)
  then show ?case using discovered_barred by simp
next
  case (qs_validated now pq peer)
  then show ?case using discovered_barred by (simp add: enqueue_validated_eq)
next
  case (qs_preload now peers pq pq')
  then show ?case using preload_barred by (auto simp: preload_cached_peers_def split: prod.splits option.splits)
next
  case (qs_report now pq peer reason wc)
  then show ?case using reported_barred by (cases pq) simp
next
  case (qs_message q s j now p reason)
  then show ?case using reported_barred by (simp add: on_disconnect_message_def)
next
  case (qs_done q s j now p reason)
  obtain p1 q1 where f: "done_feedback now j reason (p, q) = (p1, q1)" by (cases "done_feedback now j reason (p, q)")
  have "barred until k (snd (done_feedback now j reason (p, q))) \<and> pq_config (snd (done_feedback now j reason (p, q))) = pq_config q"
    using qs_done reported_barred by (simp add: done_feedback_def)
  then show ?case by (simp add: on_done_def f done_release_def split: option.splits prod.splits)
qed (simp_all add: set_discovery_bootnodes_def barred_def)

lemma path_barred:
  assumes "queue_path t pq t' pq'" "barred until k (snd pq)" "until = t + too_many_peers_backoff (pq_config (snd pq))" "t' < until"
  shows "t \<le> t' \<and> barred until k (snd pq') \<and> pq_config (snd pq') = pq_config (snd pq)"
  using assms
proof (induction rule: queue_path.induct)
  case (path_step t1 pq1 now pq2)
  then show ?case using step_barred [OF path_step.hyps(3), of until k] by simp
qed simp_all

text \<open>While a node is barred and no copy of it waits in the scheduler, it is not dialed: the dials of the node stay those in \<open>ds\<close>.\<close>

definition spared :: "node_id \<Rightarrow> (time \<times> node_id) list \<Rightarrow> dial_scheduler \<Rightarrow> bool" where
  "spared n ds s \<longleftrightarrow> n \<notin> vp_node ` set (queue s) \<and> filter (\<lambda>d. snd d = n) (dialed s) = ds"

definition queue_spares :: "node_id \<Rightarrow> (time \<times> node_id) list \<Rightarrow> peer_queue \<Rightarrow> bool" where
  "queue_spares n ds q \<longleftrightarrow> (\<forall>s. scheduler q = Some s \<longrightarrow> spared n ds s)"

lemma spared_enqueue: "spared n ds s \<Longrightarrow> vp_node vp \<noteq> n \<Longrightarrow> enqueue now vp (p, s) = (p', s') \<Longrightarrow> spared n ds s'"
  by (auto simp: spared_def enqueue_def Let_def start_dial_def spawn_dial_def split: option.splits if_splits)

lemma spared_drain:
  assumes "spared n ds s"
  shows "spared n ds (snd (drain now (p, s)))"
proof -
  have "spared n ds (s\<lparr>queue := q\<rparr>)" "spared n ds (snd (start_dial now vp (p, s\<lparr>queue := q\<rparr>)))" if "spared n ds s" "queue s = vp # q" for p s vp q
    using that by (auto simp: spared_def start_dial_def spawn_dial_def)
  then show ?thesis
    using drain_relates [where R = "\<lambda>_ _. True" and I = "spared n ds" and now = now and p = p and s = s] assms by simp
qed

lemma spared_finish: "spared n ds s \<Longrightarrow> spared n ds (snd (finish_dial now j (p, s)))"
  using spared_drain [of n ds "s\<lparr>running := take j (running s) @ drop (Suc j) (running s),
      validated_count := (if was_validated (running s ! j) then validated_count s - 1 else validated_count s),
      active := active s - 1, history := history_expire now (history s)\<rparr>" now "p\<lparr>active_total := active_total p - 1\<rparr>"]
  by (auto simp: finish_dial_def release_def Let_def spared_def)

lemma queue_spares_frame [simp]:
  "queue_spares n ds (bump f q) = queue_spares n ds q" "queue_spares n ds (q\<lparr>disconnect_counts := c\<rparr>) = queue_spares n ds q"
  "queue_spares n ds (q\<lparr>backoff_until := u\<rparr>) = queue_spares n ds q" "queue_spares n ds (q\<lparr>discovery_bootnodes := bs\<rparr>) = queue_spares n ds q"
  "queue_spares n ds (q\<lparr>scheduler := Some x\<rparr>) = spared n ds x"
  by (simp_all add: queue_spares_def)

lemma candidate_spares:
  assumes "queue_spares n ds q" "barred until (node_key n) q" "now < until" "enqueue_candidate now vp allow (p, q) = (ok, p', q')"
  shows "queue_spares n ds q'"
proof (cases ok)
  case False
  then show ?thesis using candidate_drop [of now vp allow p q p' q'] assms by (simp add: queue_spares_def)
next
  case True
  then have acc: "enqueue_candidate now vp allow (p, q) = (True, p', q')" using assms(4) by simp
  then have "vp_node vp \<noteq> n" using assms(2,3) by (auto simp: enqueue_candidate_def barred_def Let_def)
  then show ?thesis
    using candidate_accept [OF acc] assms(1) spared_enqueue by (fastforce simp: queue_spares_def split: option.splits)
qed

lemma discovered_spares:
  "queue_spares n ds (snd pq) \<Longrightarrow> barred until (node_key n) (snd pq) \<Longrightarrow> now < until \<Longrightarrow> queue_spares n ds (snd (snd (enqueue_discovered_peer now peer pq)))"
  using candidate_spares [of n ds "snd pq" until now "make_candidate peer" False "fst pq"]
  by (cases "enqueue_candidate now (make_candidate peer) False pq") (auto simp: enqueue_discovered_peer_def)

lemma preload_spares:
  "queue_spares n ds (snd pq) \<Longrightarrow> barred until (node_key n) (snd pq) \<Longrightarrow> now < until \<Longrightarrow> queue_spares n ds (snd (preload_loop now peers pq))"
proof (induction peers arbitrary: pq)
  case (Cons peer peers)
  obtain p q where pq: "pq = (p, q)" by (cases pq)
  obtain ok p' q' where e: "enqueue_candidate now peer False (p, q) = (ok, p', q')" by (cases "enqueue_candidate now peer False (p, q)")
  let ?q = "if ok then bump (\<lambda>st. st\<lparr>cached_peer_count := cached_peer_count st + 1\<rparr>) q' else q'"
  have "barred until (node_key n) ?q" "queue_spares n ds ?q" using candidate_barred [OF _ _ e] candidate_spares [OF _ _ _ e] Cons.prems pq by simp_all
  then show ?case using Cons.IH [of "(p', ?q)"] Cons.prems by (simp add: pq e)
qed simp

lemma report_spares:
  assumes "queue_spares n ds q" "barred until (node_key n) q" "now < until"
  shows "queue_spares n ds (snd (snd (report_peer_disconnected now peer reason wc (p, q))))"
proof -
  obtain ok p' q' where r: "report_peer_disconnected now peer reason wc (p, q) = (ok, p', q')"
    by (cases "report_peer_disconnected now peer reason wc (p, q)")
  show ?thesis
  proof (cases "requeue_allowed reason wc (node_key (vp_node peer)) q")
    case False
    then show ?thesis using report_refused [OF r False] assms(1) r by (simp add: queue_spares_def)
  next
    case True
    let ?q = "requeue_counted reason wc (node_key (vp_node peer)) q"
    obtain q2 f where e: "enqueue_candidate now peer True (p, ?q) = (ok, p', q2)" "q' = bump f q2"
      using report_requeued [OF r True] by blast
    have "barred until (node_key n) ?q" "queue_spares n ds ?q" using assms(1,2) by (simp_all add: barred_def)
    from candidate_spares [OF this(2,1) assms(3) e(1)] show ?thesis by (simp add: r e(2))
  qed
qed

lemma step_spares:
  assumes "queue_step now pq pq'" "queue_spares n ds (snd pq)" "barred until (node_key n) (snd pq)" "now < until"
  shows "queue_spares n ds (snd pq')"
  using assms
proof (induction rule: queue_step.induct)
  case (qs_discovered now pq peer)
  then show ?case using discovered_spares by simp
next
  case (qs_validated now pq peer)
  then show ?case using discovered_spares by (simp add: enqueue_validated_eq)
next
  case (qs_preload now peers pq pq')
  then show ?case using preload_spares by (auto simp: preload_cached_peers_def split: prod.splits option.splits)
next
  case (qs_report now pq peer reason wc)
  then show ?case using report_spares by (cases pq) simp
next
  case (qs_connected q s j now p session)
  then show ?case by (simp add: queue_spares_def spared_def on_connected_def)
next
  case (qs_message q s j now p reason)
  then have "queue_spares n ds (q\<lparr>scheduler := Some (mark_reported j s)\<rparr>)" by (simp add: queue_spares_def spared_def mark_reported_def)
  then show ?case using qs_message report_spares by (simp add: on_disconnect_message_def)
next
  case (qs_done q s j now p reason)
  have "queue_spares n ds (q\<lparr>scheduler := Some (mark_reported j s)\<rparr>)" using qs_done by (simp add: queue_spares_def spared_def mark_reported_def)
  then have "queue_spares n ds (snd (done_feedback now j reason (p, q)))"
    using qs_done report_spares by (simp add: done_feedback_def)
  moreover obtain p1 q1 where "done_feedback now j reason (p, q) = (p1, q1)" by (cases "done_feedback now j reason (p, q)")
  ultimately show ?case
    using spared_finish [of n ds _ now j p1] by (auto simp: on_done_def done_release_def queue_spares_def split_beta split: option.splits)
next
  case (qs_stop q s now p)
  then show ?case by (simp add: queue_spares_def spared_def stop_scheduler_def)
qed (simp add: set_discovery_bootnodes_def)

lemma path_spares:
  assumes "queue_path t pq t' pq'" "barred until (node_key n) (snd pq)" "until = t + too_many_peers_backoff (pq_config (snd pq))" "t' < until"
    "queue_spares n ds (snd pq)"
  shows "queue_spares n ds (snd pq')"
  using assms
proof (induction rule: queue_path.induct)
  case (path_step t1 pq1 now pq2)
  then have "barred until (node_key n) (snd pq1)" using path_barred [OF path_step.hyps(1), of until "node_key n"] by simp
  then show ?case using step_spares [OF path_step.hyps(3)] path_step by simp
qed simp_all

section \<open>Properties\<close>

text \<open>C23. Whatever happens to a queue and its scheduler, and whatever other chains do with the pool, at most the configured number of
  peers waits, no node is requeued more often than configured, the running dials stay within the limit per chain, and a
  peer whose node waits or was ever dialed is refused when discovery offers it again.\<close>

theorem queue_bounds:
  assumes "queue_path t (p0, new_queue (Some (new_scheduler f ex)) cfg) t' (p, q)" "scheduler q = Some s"
  shows "length (queue s) \<le> max_pending_peers cfg \<and> disconnect_counts q k \<le> max_disconnect_requeues cfg \<and>
    int (length (running s)) \<le> max 0 (max_per_chain p) \<and>
    (node_id peer \<in> vp_node ` set (queue s) \<union> snd ` set (dialed s) \<longrightarrow>
       fst (enqueue_discovered_peer now peer (p, q)) = False \<and> scheduler (snd (snd (enqueue_discovered_peer now peer (p, q)))) = Some s)"
proof -
  note ok = path_ok [OF assms(1)]
  then have q: "queue_ok q" "pq_config q = cfg" "chain_ok p s" using assms(2) by auto
  let ?e = "enqueue_candidate now (make_candidate peer) False (p, q)"
  obtain b p' q' where e: "?e = (b, p', q')" by (cases ?e)
  have "\<not> b" if "node_id peer \<in> sched_nodes s"
  proof -
    have "node_key (node_id peer) \<in> seen_node_ids q" using that q(1) assms(2) by (auto simp: queue_ok_def)
    then show ?thesis using e by (auto simp: enqueue_candidate_def make_candidate_def Let_def split: if_splits)
  qed
  moreover have "\<not> b \<Longrightarrow> scheduler q' = Some s" using candidate_drop [of now "make_candidate peer" False p q p' q'] e assms(2) by simp
  ultimately show ?thesis
    using q assms(2) e by (auto simp: queue_ok_def chain_ok_def enqueue_discovered_peer_def sched_nodes_def)
qed

definition sample_cfg :: peer_queue_config where
  "sample_cfg = \<lparr>max_pending_peers = 1024, max_disconnect_requeues = 3, too_many_peers_backoff = 1800, cache_peer_start_offset = 0\<rparr>"

definition fresh_queue :: peer_queue where
  "fresh_queue = new_queue (Some (new_scheduler None 35)) sample_cfg"

definition one_dialing :: "watcher_pool \<times> peer_queue" where
  "one_dialing = snd (enqueue_discovered_peer 0 (vp_peer (sample_peer 1)) (small_pool, fresh_queue))"

lemma one_dialing_path: "queue_path 0 (small_pool, fresh_queue) 0 (fst one_dialing, snd one_dialing)"
  unfolding one_dialing_def using path_step [OF path_here _ qs_discovered, of 0 0 "(small_pool, fresh_queue)"] by simp

lemmas sample_queue_simps = one_dialing_def enqueue_discovered_peer_def enqueue_candidate_def make_candidate_def fresh_queue_def new_queue_def
  sample_cfg_def bump_def sample_world_simps

lemma one_dialing_simps:
  "scheduler (snd one_dialing) = Some \<lparr>filter_fn = None, history = \<lparr>entries = [replicate 64 1 \<mapsto> 35], expiry = 35\<rparr>, active = 1,
     validated_count = 0, total_validated = 0, stopping = False, queue = [], active_sessions = [],
     running = [\<lparr>dl_peer = sample_peer 1, was_validated = False, reported = False\<rparr>], dialed = [(0, replicate 64 1)]\<rparr>"
  "fst one_dialing = \<lparr>max_total = 1, max_per_chain = 1, active_total = 1\<rparr>"
  by (simp_all add: sample_queue_simps)

theorem queue_bounds_witness:
  "fst (enqueue_discovered_peer 50 (vp_peer (sample_peer 1)) one_dialing) = False"
  using queue_bounds [OF one_dialing_path [unfolded fresh_queue_def] one_dialing_simps(1), of undefined "vp_peer (sample_peer 1)" 50]
  by (simp add: sample_peer_def)

text \<open>A peer whose session was connected and fails before its entry in the dial history expires is lost: the
  queue reports it as requeued and counts it, but the scheduler drops it, and its queue, its running dials and
  its dials so far are what they were.\<close>

theorem early_requeue_is_lost:
  assumes "scheduler q = Some s" "history_contains now (vp_node peer) (history s)" "reason = kTcpError \<or> reason = kTimeout"
    and "disconnect_counts q (node_key (vp_node peer)) < max_disconnect_requeues (pq_config q)"
    and "\<not> backed_off now (node_key (vp_node peer)) q" "room p q"
  shows "\<exists>q' s'. report_peer_disconnected now peer reason True (p, q) = (True, p, q') \<and>
    requeued_peer_count (pq_stats q') = requeued_peer_count (pq_stats q) + 1 \<and> scheduler q' = Some s' \<and>
    queue s' = queue s \<and> running s' = running s \<and> dialed s' = dialed s"
proof -
  let ?q = "requeue_counted reason True (node_key (vp_node peer)) q"
  have "\<exists>s'. enqueue now peer (p, s) = (p, s') \<and> queue s' = queue s \<and> running s' = running s \<and> dialed s' = dialed s"
    using assms(2) by (auto simp: enqueue_def Let_def history_contains_def history_expire_def split: option.splits)
  then obtain s' where s': "enqueue now peer (p, s) = (p, s')" "queue s' = queue s" "running s' = running s" "dialed s' = dialed s" by blast
  have "\<exists>q2. enqueue_candidate now peer True (p, ?q) = (True, p, q2) \<and> scheduler q2 = Some s' \<and> pq_stats q2 = pq_stats ?q"
    using assms(1, 5, 6) s'(1) by (auto simp: enqueue_candidate_def Let_def backed_off_def room_def split: option.splits)
  then obtain q2 where q2: "enqueue_candidate now peer True (p, ?q) = (True, p, q2)" "scheduler q2 = Some s'" "pq_stats q2 = pq_stats ?q" by blast
  then have "report_peer_disconnected now peer reason True (p, q) =
      (True, p, bump (\<lambda>st. st\<lparr>requeued_peer_count := requeued_peer_count st + 1\<rparr>) q2)"
    using assms(3, 4) by (auto simp: report_peer_disconnected_def is_requeueable_disconnect_def Let_def)
  then show ?thesis using s' q2 assms(3) by (auto simp: count_feedback_def Let_def)
qed

theorem early_requeue_is_lost_witness:
  "\<exists>q'. report_peer_disconnected 10 (sample_peer 1) kTcpError True (fst one_dialing, snd one_dialing) = (True, fst one_dialing, q') \<and>
     requeued_peer_count (pq_stats q') = 1 \<and> map_option queue (scheduler q') = Some []"
proof -
  have "disconnect_counts (snd one_dialing) = (\<lambda>_. 0)" "backoff_until (snd one_dialing) = Map.empty" "pq_config (snd one_dialing) = sample_cfg"
    "requeued_peer_count (pq_stats (snd one_dialing)) = 0"
    by (simp_all add: sample_queue_simps zero_queue_stats_def fun_eq_iff)
  then show ?thesis
    using early_requeue_is_lost [OF one_dialing_simps(1), of 10 "sample_peer 1" kTcpError "fst one_dialing"]
    by (auto simp: history_contains_def sample_peer_def backed_off_def room_def sample_cfg_def one_dialing_simps)
qed

text \<open>C24. A peer that answers a dial with TooManyPeers is refused for the whole backoff time: whatever happens to the queue in between, no candidate
  with that node is accepted. If no copy of the peer waits in the scheduler when it answers, it is not dialed in that time either; a copy
  that waits is still dialed when a slot gets free.\<close>

theorem too_many_peers_backs_off:
  assumes "report_peer_disconnected now peer kTooManyPeers wc (p, q) = (ok, pq1)" "queue_path now pq1 t' (p', q')" "t' \<le> later"
    and "later < now + too_many_peers_backoff (pq_config q)" "vp_node vp = vp_node peer"
  shows "\<not> ok \<and> enqueue_candidate later vp allow (p', q') =
      (False, p', q'\<lparr>pq_stats := (pq_stats q')\<lparr>backoff_drop_count := backoff_drop_count (pq_stats q') + 1\<rparr>\<rparr>) \<and>
    (scheduler q = Some s \<and> vp_node peer \<notin> vp_node ` set (queue s) \<and> scheduler q' = Some s' \<longrightarrow>
       filter (\<lambda>d. snd d = vp_node peer) (dialed s') = filter (\<lambda>d. snd d = vp_node peer) (dialed s))"
proof (intro conjI impI)
  let ?k = "node_key (vp_node peer)" and ?u = "now + too_many_peers_backoff (pq_config q)"
  have 1: "\<not> ok" "barred ?u ?k (snd pq1)" "pq_config (snd pq1) = pq_config q" "scheduler (snd pq1) = scheduler q"
    using assms(1) by (auto simp: report_peer_disconnected_def barred_def bump_def Let_def)
  have "barred ?u ?k q'" using path_barred [OF assms(2) 1(2)] 1(3) assms(3, 4) by simp
  then show "\<not> ok" "enqueue_candidate later vp allow (p', q') =
      (False, p', q'\<lparr>pq_stats := (pq_stats q')\<lparr>backoff_drop_count := backoff_drop_count (pq_stats q') + 1\<rparr>\<rparr>)"
    using 1(1) assms(4, 5) by (auto simp: enqueue_candidate_def barred_def bump_def Let_def)
  let ?ds = "filter (\<lambda>d. snd d = vp_node peer) (dialed s)"
  assume s: "scheduler q = Some s \<and> vp_node peer \<notin> vp_node ` set (queue s) \<and> scheduler q' = Some s'"
  then have "queue_spares (vp_node peer) ?ds (snd pq1)" using 1(4) by (simp add: queue_spares_def spared_def)
  from path_spares [OF assms(2) 1(2) _ _ this] show "filter (\<lambda>d. snd d = vp_node peer) (dialed s') = ?ds"
    using 1(3) assms(3, 4) s by (simp add: queue_spares_def spared_def)
qed

theorem too_many_peers_backs_off_witness:
  "fst (enqueue_candidate 1000 (sample_peer 1) True (snd (report_peer_disconnected 10 (sample_peer 1) kTooManyPeers False one_dialing))) = False"
proof -
  obtain ok p1 q1 where r: "report_peer_disconnected 10 (sample_peer 1) kTooManyPeers False (fst one_dialing, snd one_dialing) = (ok, p1, q1)"
    by (cases "report_peer_disconnected 10 (sample_peer 1) kTooManyPeers False (fst one_dialing, snd one_dialing)")
  have "pq_config (snd one_dialing) = sample_cfg" by (simp add: sample_queue_simps)
  with too_many_peers_backs_off [OF r path_here, of 1000 "sample_peer 1" True] r show ?thesis by (simp add: sample_cfg_def)
qed

end
