(* ===== verification/Rlpx_Crypto.thy ===== *)
theory Rlpx_Crypto
  imports Rlpx_Types Bridge_Observation "HOL-Library.Sublist"
begin

text \<open>
  The crypto wrappers of src/rlpx/crypto: key derivation (kdf.cpp), message authentication (hmac.cpp), AES in counter mode (aes.cpp)
  and Diffie-Hellman on secp256k1 (ecdh.cpp). OpenSSL and libsecp256k1 are records of functions; a call that can fail returns
  an option. The source of random bytes is a sequence: the n-th draw is \<open>rnd n\<close>.
\<close>

datatype crypto_error =
  kAesEncryptFailed | kAesDecryptFailed | kHmacFailed | kKdfFailed | kEcdhFailed | kInvalidKeySize | kInvalidIvSize |
  kCryptoInvalidPublicKey | kInvalidPrivateKey | kOpenSslError | kSecp256k1Error

record openssl_lib =
  ssl_sha256 :: "bytes \<Rightarrow> bytes option"
  ssl_hmac_sha256 :: "bytes \<Rightarrow> bytes \<Rightarrow> bytes option"
  ssl_aes256_ctr :: "bytes \<Rightarrow> bytes \<Rightarrow> bytes \<Rightarrow> bytes option"

record ('pk, 'sg) ecdh_lib =
  ed_secp :: "('pk, 'sg) secp256k1_lib"
  ed_pubkey_parse :: "bytes \<Rightarrow> 'pk option"
  ed_tweak_mul :: "'pk \<Rightarrow> bytes \<Rightarrow> 'pk option"

section \<open>Key derivation\<close>

definition kdf_block_input :: "nat \<Rightarrow> bytes \<Rightarrow> bytes \<Rightarrow> bytes" where
  "kdf_block_input counter shared_secret shared_info = append_u32_be [] (word_of_nat counter) @ shared_secret @ shared_info"

function kdf_loop :: "openssl_lib \<Rightarrow> bytes \<Rightarrow> nat \<Rightarrow> bytes \<Rightarrow> bytes \<Rightarrow> nat \<Rightarrow> crypto_error + bytes" where
  "kdf_loop ssl shared_secret key_data_len shared_info output counter =
     (if length output < key_data_len then
        (case ssl_sha256 ssl (kdf_block_input counter shared_secret shared_info) of
           None \<Rightarrow> Inl kKdfFailed
         | Some digest \<Rightarrow>
             let bytes_to_copy = min 32 (key_data_len - length output);
                 output = output @ take bytes_to_copy digest
             in if 1000 < counter + 1 then Inl kKdfFailed
                else kdf_loop ssl shared_secret key_data_len shared_info output (counter + 1))
      else Inr output)"
  by pat_completeness auto
termination by (relation "measure (\<lambda>(_, _, _, _, _, counter). 1001 - counter)") auto

declare kdf_loop.simps [simp del]

definition kdf_derive :: "openssl_lib \<Rightarrow> bytes \<Rightarrow> nat \<Rightarrow> bytes \<Rightarrow> crypto_error + bytes" where
  "kdf_derive ssl shared_secret key_data_len shared_info =
     (if shared_secret = [] \<or> key_data_len = 0 then Inl kKdfFailed
      else kdf_loop ssl shared_secret key_data_len shared_info [] 1)"

definition kdf_derive_aes_key :: "openssl_lib \<Rightarrow> bytes \<Rightarrow> bytes \<Rightarrow> crypto_error + bytes" where
  "kdf_derive_aes_key ssl shared_secret info =
     outcome_try (kdf_derive ssl shared_secret 32 info) (\<lambda>key_data.
     if length key_data \<noteq> 32 then Inl kInvalidKeySize else Inr (take 32 key_data))"

definition kdf_derive_mac_key :: "openssl_lib \<Rightarrow> bytes \<Rightarrow> bytes \<Rightarrow> crypto_error + bytes" where
  "kdf_derive_mac_key ssl shared_secret info =
     outcome_try (kdf_derive ssl shared_secret 32 info) (\<lambda>key_data.
     if length key_data \<noteq> 32 then Inl kInvalidKeySize else Inr (take 32 key_data))"

record derived_keys =
  dk_aes_key :: bytes
  dk_mac_key :: bytes

definition kdf_derive_keys :: "openssl_lib \<Rightarrow> bytes \<Rightarrow> bytes \<Rightarrow> crypto_error + derived_keys" where
  "kdf_derive_keys ssl shared_secret info =
     outcome_try (kdf_derive ssl shared_secret 64 info) (\<lambda>key_data.
     if length key_data \<noteq> 64 then Inl kKdfFailed
     else Inr \<lparr>dk_aes_key = take 32 key_data, dk_mac_key = take 32 (drop 32 key_data)\<rparr>)"

section \<open>Message authentication\<close>

definition hmac_compute :: "openssl_lib \<Rightarrow> bytes \<Rightarrow> bytes \<Rightarrow> crypto_error + bytes" where
  "hmac_compute ssl key data =
     (if key = [] then Inl kInvalidKeySize
      else (case ssl_hmac_sha256 ssl key data of
          None \<Rightarrow> Inl kHmacFailed
        | Some result \<Rightarrow> if result = [] then Inl kHmacFailed else Inr result))"

definition hmac_compute_mac :: "openssl_lib \<Rightarrow> bytes \<Rightarrow> bytes \<Rightarrow> crypto_error + bytes" where
  "hmac_compute_mac ssl key data =
     outcome_try (hmac_compute ssl key data) (\<lambda>full_hmac.
     if length full_hmac < 16 then Inl kHmacFailed else Inr (take 16 full_hmac))"

definition hmac_verify :: "openssl_lib \<Rightarrow> bytes \<Rightarrow> bytes \<Rightarrow> bytes \<Rightarrow> bool" where
  "hmac_verify ssl key data expected_mac =
     (case hmac_compute ssl key data of
        Inl _ \<Rightarrow> False
      | Inr computed_mac \<Rightarrow>
          if length computed_mac < length expected_mac then False
          else expected_mac = take (length expected_mac) computed_mac)"

section \<open>AES in counter mode\<close>

definition aes_encrypt_ctr :: "openssl_lib \<Rightarrow> bytes \<Rightarrow> bytes \<Rightarrow> bytes \<Rightarrow> crypto_error + bytes" where
  "aes_encrypt_ctr ssl key iv plaintext =
     (case ssl_aes256_ctr ssl key iv plaintext of None \<Rightarrow> Inl kAesEncryptFailed | Some ciphertext \<Rightarrow> Inr ciphertext)"

definition aes_decrypt_ctr :: "openssl_lib \<Rightarrow> bytes \<Rightarrow> bytes \<Rightarrow> bytes \<Rightarrow> crypto_error + bytes" where
  "aes_decrypt_ctr ssl key iv ciphertext =
     (case ssl_aes256_ctr ssl key iv ciphertext of None \<Rightarrow> Inl kAesDecryptFailed | Some plaintext \<Rightarrow> Inr plaintext)"

definition aes_encrypt_ctr_inplace :: "openssl_lib \<Rightarrow> bytes \<Rightarrow> bytes \<Rightarrow> bytes \<Rightarrow> crypto_error + bytes" where
  "aes_encrypt_ctr_inplace ssl key iv data =
     (if data = [] then Inr data
      else (case ssl_aes256_ctr ssl key iv data of None \<Rightarrow> Inl kAesEncryptFailed | Some out \<Rightarrow> Inr out))"

definition aes_decrypt_ctr_inplace :: "openssl_lib \<Rightarrow> bytes \<Rightarrow> bytes \<Rightarrow> bytes \<Rightarrow> crypto_error + bytes" where
  "aes_decrypt_ctr_inplace ssl key iv data =
     (if data = [] then Inr data
      else (case ssl_aes256_ctr ssl key iv data of None \<Rightarrow> Inl kAesDecryptFailed | Some out \<Rightarrow> Inr out))"

section \<open>Diffie-Hellman\<close>

definition compute_shared_secret :: "('pk, 'sg) ecdh_lib \<Rightarrow> bytes \<Rightarrow> bytes \<Rightarrow> crypto_error + bytes" where
  "compute_shared_secret lib public_key private_key =
     (if \<not> context_create (ed_secp lib) then Inl kSecp256k1Error
      else if \<not> ec_seckey_verify (ed_secp lib) private_key then Inl kInvalidPrivateKey
      else (case ed_pubkey_parse lib (0x04 # public_key) of
          None \<Rightarrow> Inl kCryptoInvalidPublicKey
        | Some parsed \<Rightarrow>
            (case ed_tweak_mul lib parsed private_key of
               None \<Rightarrow> Inl kEcdhFailed
             | Some point \<Rightarrow>
                 (case ec_pubkey_serialize (ed_secp lib) point of
                    None \<Rightarrow> Inl kEcdhFailed
                  | Some serialized \<Rightarrow> Inr (take 32 (drop 1 serialized))))))"

record key_pair =
  kp_public_key :: bytes
  kp_private_key :: bytes

partial_function (option) first_valid_key :: "(bytes \<Rightarrow> bool) \<Rightarrow> (nat \<Rightarrow> bytes option) \<Rightarrow> nat \<Rightarrow> (bytes option \<times> nat) option" where
  "first_valid_key valid rnd n =
     (case rnd n of
        None \<Rightarrow> Some (None, Suc n)
      | Some k \<Rightarrow> if valid k then Some (Some k, Suc n) else first_valid_key valid rnd (Suc n))"

definition generate_ephemeral_keypair :: "('pk, 'sg) ecdh_lib \<Rightarrow> (nat \<Rightarrow> bytes option) \<Rightarrow> (crypto_error + key_pair) option" where
  "generate_ephemeral_keypair lib rnd =
     (if \<not> context_create (ed_secp lib) then Some (Inl kSecp256k1Error)
      else map_option (\<lambda>(key, _).
        case key of
          None \<Rightarrow> Inl kOpenSslError
        | Some private_key \<Rightarrow>
            (case ec_pubkey_create (ed_secp lib) private_key of
               None \<Rightarrow> Inl kSecp256k1Error
             | Some pk \<Rightarrow>
                 (case ec_pubkey_serialize (ed_secp lib) pk of
                    None \<Rightarrow> Inl kSecp256k1Error
                  | Some serialized \<Rightarrow> Inr \<lparr>kp_public_key = take 64 (drop 1 serialized), kp_private_key = private_key\<rparr>)))
        (first_valid_key (ec_seckey_verify (ed_secp lib)) rnd 0))"

definition verify_public_key :: "('pk, 'sg) ecdh_lib \<Rightarrow> bytes \<Rightarrow> bool" where
  "verify_public_key lib public_key \<longleftrightarrow> context_create (ed_secp lib) \<and> ed_pubkey_parse lib (0x04 # public_key) \<noteq> None"

section \<open>The derived stream\<close>

definition kdf_stream :: "(nat \<Rightarrow> bytes) \<Rightarrow> nat \<Rightarrow> bytes" where
  "kdf_stream block n = concat (map block [1..<Suc n])"

lemma kdf_stream_Suc: "kdf_stream block (Suc n) = kdf_stream block n @ block (Suc n)"
  by (simp add: kdf_stream_def)

lemma length_kdf_stream: "(\<And>i. length (block i) = 32) \<Longrightarrow> length (kdf_stream block n) = 32 * n"
  by (induction n) (simp_all add: kdf_stream_Suc, simp add: kdf_stream_def)

lemma take_kdf_stream:
  assumes "\<And>i. length (block i) = 32" "k \<le> 32 * n" "n \<le> m"
  shows "take k (kdf_stream block m) = take k (kdf_stream block n)"
  using assms(3)
proof (induction rule: dec_induct)
  case (step m)
  then have "k \<le> length (kdf_stream block m)" using assms(2) by (simp add: length_kdf_stream [of block, OF assms(1)])
  then show ?case using step.IH by (simp add: kdf_stream_Suc)
qed simp

lemma kdf_loop_stream:
  assumes "\<And>i. ssl_sha256 ssl (kdf_block_input i secret info) = Some (block i)" "\<And>i. length (block i) = 32"
    "n < 1000" "32 * n < len"
  shows "kdf_loop ssl secret len info (kdf_stream block n) (Suc n) =
    (if len \<le> 31968 then Inr (take len (kdf_stream block 999)) else Inl kKdfFailed)"
  using assms(3,4)
proof (induction "999 - n" arbitrary: n)
  case 0
  then have "n = 999" by simp
  with 0 assms(1,2) show ?case by (subst kdf_loop.simps) (simp add: length_kdf_stream)
next
  case (Suc d)
  let ?out = "kdf_stream block n @ take (min 32 (len - 32 * n)) (block (Suc n))"
  have "n < 999" using Suc.hyps(2) by simp
  then have step: "kdf_loop ssl secret len info (kdf_stream block n) (Suc n) = kdf_loop ssl secret len info ?out (Suc (Suc n))"
    using Suc.prems assms(1,2) by (subst kdf_loop.simps) (simp add: length_kdf_stream)
  show ?case
  proof (cases "32 * Suc n < len")
    case True
    then have "?out = kdf_stream block (Suc n)" using assms(2) by (simp add: kdf_stream_Suc)
    then show ?thesis using Suc.hyps(1) [of "Suc n"] Suc.hyps(2) True step by simp
  next
    case False
    then have out: "?out = take len (kdf_stream block (Suc n))"
      using Suc.prems(2) assms(2) by (simp add: kdf_stream_Suc length_kdf_stream)
    then have "?out = take len (kdf_stream block 999)"
      using take_kdf_stream [of block, OF assms(2), of len "Suc n" 999] False Suc.hyps(2) by simp
    moreover have "length ?out = len" using out False assms(2) by (simp add: length_kdf_stream)
    then have "kdf_loop ssl secret len info ?out (Suc (Suc n)) = Inr ?out" by (subst kdf_loop.simps) simp
    moreover have "len \<le> 31968" using False \<open>n < 999\<close> by simp
    ultimately show ?thesis using step by simp
  qed
qed

section \<open>Properties\<close>

text \<open>C19. Where SHA-256 does not fail and returns 32 bytes, key derivation from a secret that is not empty returns the requested number of bytes
  of the stream of digests of counter, secret and context, for every length from 1 to 31968; an empty secret, the length zero and every
  longer request give \<open>kKdfFailed\<close>.\<close>

theorem kdf_derive_exact:
  assumes "\<And>i. ssl_sha256 ssl (kdf_block_input i secret info) = Some (block i)" "\<And>i. length (block i) = 32"
  shows "kdf_derive ssl secret len info =
    (if secret = [] \<or> len = 0 \<or> 31968 < len then Inl kKdfFailed else Inr (take len (kdf_stream block 999)))"
proof (cases "secret = [] \<or> len = 0")
  case False
  then have "kdf_derive ssl secret len info = kdf_loop ssl secret len info (kdf_stream block 0) (Suc 0)"
    by (simp add: kdf_derive_def kdf_stream_def)
  then show ?thesis using kdf_loop_stream [of ssl secret info block 0 len, OF assms] False by simp
qed (auto simp: kdf_derive_def)

definition sample_ssl :: openssl_lib where
  "sample_ssl = \<lparr>ssl_sha256 = (\<lambda>x. Some (replicate 32 (word_of_nat (length x)))), ssl_hmac_sha256 = (\<lambda>k x. Some (replicate 32 (hd k))),
     ssl_aes256_ctr = (\<lambda>k iv x. Some (map (\<lambda>b. b XOR hd k) x))\<rparr>"

theorem kdf_derive_exact_witness: "kdf_derive sample_ssl [9] 40 [] = Inr (replicate 40 5)"
proof -
  let ?block = "\<lambda>i :: nat. replicate 32 (5 :: byte)"
  have "ssl_sha256 sample_ssl (kdf_block_input i [9] []) = Some (?block i)" for i
    by (simp add: sample_ssl_def kdf_block_input_def append_u32_be_def)
  then have "kdf_derive sample_ssl [9] 40 [] = Inr (take 40 (kdf_stream ?block 999))"
    by (subst kdf_derive_exact [of sample_ssl "[9]" "[]" ?block 40]) simp_all
  also have "take 40 (kdf_stream ?block 999) = take 40 (kdf_stream ?block (Suc (Suc 0)))" by (rule take_kdf_stream) simp_all
  also have "\<dots> = replicate 40 5" by (simp add: kdf_stream_Suc) (simp add: kdf_stream_def flip: replicate_add)
  finally show ?thesis .
qed

text \<open>\<open>verify\<close> compares only as many bytes as it is given: it accepts exactly the prefixes of the computed code. With a key that is
  not empty and a digest that can be computed, the empty code is accepted for every message.\<close>

theorem hmac_verify_prefix:
  "(hmac_verify ssl key data expected \<longleftrightarrow> (\<exists>full. hmac_compute ssl key data = Inr full \<and> prefix expected full)) \<and>
   (hmac_verify ssl key data [] \<longleftrightarrow> (\<exists>full. hmac_compute ssl key data = Inr full))"
proof -
  have "length expected \<le> length full \<and> expected = take (length expected) full \<longleftrightarrow> prefix expected full" for full
  proof
    show "prefix expected full" if "length expected \<le> length full \<and> expected = take (length expected) full"
      using that take_is_prefix [of "length expected" full] by simp
  qed (auto simp: prefix_def)
  then show ?thesis by (auto simp: hmac_verify_def not_less split: sum.splits)
qed

section \<open>Agreement\<close>

text \<open>What libsecp256k1 documents of the two further functions: a serialised key is parsed back, and multiplication by secret keys commutes.\<close>

definition ecdh_laws :: "('pk, 'sg) ecdh_lib \<Rightarrow> bool" where
  "ecdh_laws lib \<longleftrightarrow> context_create (ed_secp lib) \<and> secp256k1_laws (ed_secp lib) \<and>
     (\<forall>pk bs. ec_pubkey_serialize (ed_secp lib) pk = Some bs \<longrightarrow> ed_pubkey_parse lib bs = Some pk) \<and>
     (\<forall>a b. ec_seckey_verify (ed_secp lib) a \<longrightarrow> ec_seckey_verify (ed_secp lib) b \<longrightarrow>
        (\<exists>p. Option.bind (ec_pubkey_create (ed_secp lib) a) (\<lambda>pk. ed_tweak_mul lib pk b) = Some p \<and>
             Option.bind (ec_pubkey_create (ed_secp lib) b) (\<lambda>pk. ed_tweak_mul lib pk a) = Some p))"

definition is_key_pair :: "('pk, 'sg) ecdh_lib \<Rightarrow> key_pair \<Rightarrow> bool" where
  "is_key_pair lib kp \<longleftrightarrow> ec_seckey_verify (ed_secp lib) (kp_private_key kp) \<and>
     (\<exists>pk. ec_pubkey_create (ed_secp lib) (kp_private_key kp) = Some pk \<and>
           ec_pubkey_serialize (ed_secp lib) pk = Some (0x04 # kp_public_key kp) \<and> length (kp_public_key kp) = 64)"

lemma shared_secret_agrees:
  assumes "ecdh_laws lib" "is_key_pair lib a" "is_key_pair lib b"
  obtains z where "compute_shared_secret lib (kp_public_key a) (kp_private_key b) = Inr z"
    "compute_shared_secret lib (kp_public_key b) (kp_private_key a) = Inr z" "length z = 32"
proof -
  note l = assms(1) [unfolded ecdh_laws_def]
  obtain p where p: "Option.bind (ec_pubkey_create (ed_secp lib) (kp_private_key a)) (\<lambda>pk. ed_tweak_mul lib pk (kp_private_key b)) = Some p"
    "Option.bind (ec_pubkey_create (ed_secp lib) (kp_private_key b)) (\<lambda>pk. ed_tweak_mul lib pk (kp_private_key a)) = Some p"
    using l assms(2,3) unfolding is_key_pair_def by blast
  obtain bs where bs: "ec_pubkey_serialize (ed_secp lib) p = Some (0x04 # bs)" "length bs = 64"
    using l unfolding secp256k1_laws_def by blast
  have "compute_shared_secret lib (kp_public_key k) (kp_private_key k') = Inr (take 32 bs)"
    if "is_key_pair lib k" "ec_seckey_verify (ed_secp lib) (kp_private_key k')"
      "Option.bind (ec_pubkey_create (ed_secp lib) (kp_private_key k)) (\<lambda>pk. ed_tweak_mul lib pk (kp_private_key k')) = Some p" for k k' :: key_pair
    using that l bs by (auto simp: compute_shared_secret_def is_key_pair_def)
  from this [of a b] this [of b a] show thesis
    using assms(2,3) p bs(2) by (intro that [of "take 32 bs"]) (simp_all add: is_key_pair_def)
qed

lemma first_valid_key_found:
  assumes "\<forall>i < n. \<exists>k. rnd (m + i) = Some k \<and> \<not> valid k" "rnd (m + n) = Some k" "valid k"
  shows "first_valid_key valid rnd m = Some (Some k, Suc (m + n))"
  using assms
proof (induction n arbitrary: m)
  case 0
  then show ?case by (simp add: first_valid_key.simps)
next
  case (Suc n)
  then obtain k0 where "rnd m = Some k0" "\<not> valid k0" by fastforce
  moreover have "first_valid_key valid rnd (Suc m) = Some (Some k, Suc (Suc m + n))"
    using Suc.prems by (intro Suc.IH) (auto dest: spec [of _ "Suc _"])
  ultimately show ?case by (simp add: first_valid_key.simps [of valid rnd m])
qed

lemma generated_key_pair:
  assumes "ecdh_laws lib" "\<forall>i < n. \<exists>k. rnd i = Some k \<and> \<not> ec_seckey_verify (ed_secp lib) k" "rnd n = Some k" "ec_seckey_verify (ed_secp lib) k"
  obtains kp where "generate_ephemeral_keypair lib rnd = Some (Inr kp)" "kp_private_key kp = k" "is_key_pair lib kp"
proof -
  note l = assms(1) [unfolded ecdh_laws_def secp256k1_laws_def]
  obtain pk where pk: "ec_pubkey_create (ed_secp lib) k = Some pk" using l assms(4) by blast
  obtain bs where bs: "ec_pubkey_serialize (ed_secp lib) pk = Some (0x04 # bs)" "length bs = 64" using l by blast
  show thesis
    using first_valid_key_found [of n rnd 0 "ec_seckey_verify (ed_secp lib)" k] assms pk bs
    by (intro that [of "\<lparr>kp_public_key = bs, kp_private_key = k\<rparr>"])
      (simp_all add: generate_ephemeral_keypair_def is_key_pair_def ecdh_laws_def)
qed

text \<open>Two parties that draw ephemeral keys compute the same 32-byte secret: generation ends at the first draw that is a valid secret key,
  and each party's key combined with the public key of the other gives the same value.\<close>

theorem ephemeral_keys_agree:
  assumes "ecdh_laws lib"
    "\<forall>i < n. \<exists>k. rnd i = Some k \<and> \<not> ec_seckey_verify (ed_secp lib) k" "rnd n = Some k" "ec_seckey_verify (ed_secp lib) k"
    "\<forall>i < n'. \<exists>k. rnd' i = Some k \<and> \<not> ec_seckey_verify (ed_secp lib) k" "rnd' n' = Some k'" "ec_seckey_verify (ed_secp lib) k'"
  shows "\<exists>a b z. generate_ephemeral_keypair lib rnd = Some (Inr a) \<and> generate_ephemeral_keypair lib rnd' = Some (Inr b) \<and>
    kp_private_key a = k \<and> kp_private_key b = k' \<and> compute_shared_secret lib (kp_public_key b) k = Inr z \<and>
    compute_shared_secret lib (kp_public_key a) k' = Inr z \<and> length z = 32"
proof -
  obtain a where a: "generate_ephemeral_keypair lib rnd = Some (Inr a)" "kp_private_key a = k" "is_key_pair lib a"
    by (rule generated_key_pair [OF assms(1-4)])
  obtain b where b: "generate_ephemeral_keypair lib rnd' = Some (Inr b)" "kp_private_key b = k'" "is_key_pair lib b"
    by (rule generated_key_pair [OF assms(1,5-7)])
  show ?thesis using shared_secret_agrees [OF assms(1) a(3) b(3)] a b by metis
qed

definition sample_ecdh :: "(u256, u256) ecdh_lib" where
  "sample_ecdh = \<lparr>ed_secp = sample_lib, ed_pubkey_parse = (\<lambda>bs. if drop 33 bs = replicate 32 0 then Some (shift_in (take 32 (drop 1 bs))) else None),
     ed_tweak_mul = (\<lambda>pk k. Some (pk * shift_in k))\<rparr>"

lemma sample_ecdh_laws: "ecdh_laws sample_ecdh"
  using sample_lib_laws by (auto simp: ecdh_laws_def sample_ecdh_def sample_lib_def shift_in_be_bytes mult.commute)

theorem ephemeral_keys_agree_witness:
  "\<exists>a b z. generate_ephemeral_keypair sample_ecdh (\<lambda>i. Some (replicate (31 + i) 7)) = Some (Inr a) \<and>
     generate_ephemeral_keypair sample_ecdh (\<lambda>i. Some (replicate 32 9)) = Some (Inr b) \<and>
     compute_shared_secret sample_ecdh (kp_public_key b) (replicate 32 7) = Inr z \<and>
     compute_shared_secret sample_ecdh (kp_public_key a) (replicate 32 9) = Inr z"
  using ephemeral_keys_agree [OF sample_ecdh_laws, of 1 "\<lambda>i. Some (replicate (31 + i) 7)" "replicate 32 7" 0 "\<lambda>i. Some (replicate 32 9)" "replicate 32 9"]
  by (auto simp: sample_ecdh_def sample_lib_def)

end
