(* ===== verification/Ecies_Cipher.thy ===== *)
theory Ecies_Cipher
  imports Rlpx_Crypto
begin

text \<open>
  The hybrid encryption of src/rlpx/auth/ecies_cipher.cpp. A packet is the ephemeral public key, the initialisation vector, the ciphertext
  and a code over vector, ciphertext and the shared data of both sides. The calls to OpenSSL whose result the code does
  not check are total functions. Drawing an ephemeral key is a loop; its result is an option.
\<close>

datatype auth_error =
  kEciesEncryptFailed | kEciesDecryptFailed | kInvalidAuthMessage | kInvalidAckMessage | kSharedSecretFailed | kSignatureInvalid |
  kKeyDerivationFailed | kInvalidPublicKey | kInvalidNonce

record ecies_ssl =
  es_sha256 :: "bytes \<Rightarrow> bytes"
  es_hmac_sha256 :: "bytes \<Rightarrow> bytes \<Rightarrow> bytes"
  es_aes128_ctr :: "bytes \<Rightarrow> bytes \<Rightarrow> bytes \<Rightarrow> bytes"

record ecies_random =
  er_private_key :: "nat \<Rightarrow> bytes"
  er_iv :: bytes

record ecies_keys =
  enc_key :: bytes
  ecies_mac_key :: bytes

definition ecies_derive_keys :: "ecies_ssl \<Rightarrow> bytes \<Rightarrow> ecies_keys" where
  "ecies_derive_keys ssl shared_secret =
     (let kdf_out = es_sha256 ssl ([0x00, 0x00, 0x00, 0x01] @ shared_secret)
      in \<lparr>enc_key = take 16 kdf_out, ecies_mac_key = es_sha256 ssl (take 16 (drop 16 kdf_out))\<rparr>)"

definition ecies_shared_secret :: "('pk, 'sg) ecdh_lib \<Rightarrow> bytes \<Rightarrow> bytes \<Rightarrow> auth_error + bytes" where
  "ecies_shared_secret lib public_key private_key = fail_as kSharedSecretFailed (compute_shared_secret lib public_key private_key)"

definition ecies_seal :: "ecies_ssl \<Rightarrow> bytes \<Rightarrow> bytes \<Rightarrow> bytes \<Rightarrow> bytes \<Rightarrow> bytes \<Rightarrow> bytes" where
  "ecies_seal ssl ephemeral_pub_bytes shared_secret iv plaintext shared_mac_data =
     (let keys = ecies_derive_keys ssl shared_secret;
          ciphertext = es_aes128_ctr ssl (enc_key keys) iv plaintext;
          mac = es_hmac_sha256 ssl (ecies_mac_key keys) (iv @ ciphertext @ shared_mac_data)
      in ephemeral_pub_bytes @ iv @ ciphertext @ mac)"

definition ecies_encrypt ::
    "('pk, 'sg) ecdh_lib \<Rightarrow> ecies_ssl \<Rightarrow> ecies_random \<Rightarrow> bytes \<Rightarrow> bytes \<Rightarrow> bytes \<Rightarrow> (auth_error + bytes) option" where
  "ecies_encrypt lib ssl rnd plaintext recipient_public_key shared_mac_data =
     (if \<not> context_create (ed_secp lib) then Some (Inl kEciesEncryptFailed)
      else map_option (\<lambda>(key, _).
        let ephemeral_priv = (case key of Some k \<Rightarrow> k | None \<Rightarrow> []) in
        (case ec_pubkey_create (ed_secp lib) ephemeral_priv of
           None \<Rightarrow> Inl kInvalidPublicKey
         | Some pk \<Rightarrow>
             let ephemeral_pub_bytes = (case ec_pubkey_serialize (ed_secp lib) pk of Some bs \<Rightarrow> bs | None \<Rightarrow> replicate 65 0)
             in outcome_try (ecies_shared_secret lib recipient_public_key ephemeral_priv) (\<lambda>shared_secret.
                Inr (ecies_seal ssl ephemeral_pub_bytes shared_secret (er_iv rnd) plaintext shared_mac_data))))
        (first_valid_key (ec_seckey_verify (ed_secp lib)) (\<lambda>n. Some (er_private_key rnd n)) 0))"

definition ecies_decrypt :: "('pk, 'sg) ecdh_lib \<Rightarrow> ecies_ssl \<Rightarrow> bytes \<Rightarrow> bytes \<Rightarrow> bytes \<Rightarrow> auth_error + bytes" where
  "ecies_decrypt lib ssl packet recipient_private_key shared_mac_data =
     (if length packet < 113 then Inl kEciesDecryptFailed
      else
        let ct_len = length packet - 113;
            ephemeral_pub = take 64 (drop 1 packet);
            iv = take 16 (drop 65 packet);
            ciphertext = take ct_len (drop 81 packet);
            mac = take 32 (drop (81 + ct_len) packet)
        in outcome_try (ecies_shared_secret lib ephemeral_pub recipient_private_key) (\<lambda>shared_secret.
           let keys = ecies_derive_keys ssl shared_secret
           in if mac \<noteq> es_hmac_sha256 ssl (ecies_mac_key keys) (iv @ ciphertext @ shared_mac_data) then Inl kEciesDecryptFailed
              else Inr (es_aes128_ctr ssl (enc_key keys) iv ciphertext)))"

definition estimate_encrypted_size :: "nat \<Rightarrow> nat" where
  "estimate_encrypted_size plaintext_size = 65 + 16 + plaintext_size + 32"

section \<open>Laws\<close>

text \<open>What the code relies on of OpenSSL: digests and codes have 32 bytes and counter mode is its own inverse.\<close>

definition ecies_laws :: "ecies_ssl \<Rightarrow> bool" where
  "ecies_laws ssl \<longleftrightarrow> (\<forall>x. length (es_sha256 ssl x) = 32) \<and> (\<forall>k x. length (es_hmac_sha256 ssl k x) = 32) \<and>
     (\<forall>k iv x. length (es_aes128_ctr ssl k iv x) = length x \<and> es_aes128_ctr ssl k iv (es_aes128_ctr ssl k iv x) = x)"

definition draws_key :: "('pk, 'sg) ecdh_lib \<Rightarrow> ecies_random \<Rightarrow> bool" where
  "draws_key lib rnd \<longleftrightarrow> length (er_iv rnd) = 16 \<and> (\<exists>n. ec_seckey_verify (ed_secp lib) (er_private_key rnd n))"

lemma ecies_encrypt_seals:
  assumes "ecdh_laws lib" "draws_key lib rnd" "is_key_pair lib kp"
  obtains e z where "is_key_pair lib e" "compute_shared_secret lib (kp_public_key e) (kp_private_key kp) = Inr z" "length z = 32"
    "\<And>plain mac_data. ecies_encrypt lib ssl rnd plain (kp_public_key kp) mac_data =
       Some (Inr (ecies_seal ssl (0x04 # kp_public_key e) z (er_iv rnd) plain mac_data))"
proof -
  let ?valid = "ec_seckey_verify (ed_secp lib)" and ?rnd = "\<lambda>n. Some (er_private_key rnd n)"
  obtain n where n: "?valid (er_private_key rnd n)" "\<forall>i < n. \<not> ?valid (er_private_key rnd i)"
    using assms(2) exists_least_iff [of "\<lambda>n. ?valid (er_private_key rnd n)"] by (auto simp: draws_key_def)
  obtain e where e: "generate_ephemeral_keypair lib ?rnd = Some (Inr e)" "kp_private_key e = er_private_key rnd n" "is_key_pair lib e"
    by (rule generated_key_pair [OF assms(1), of n ?rnd]) (use n in auto)
  obtain z where z: "compute_shared_secret lib (kp_public_key e) (kp_private_key kp) = Inr z"
    "compute_shared_secret lib (kp_public_key kp) (kp_private_key e) = Inr z" "length z = 32"
    by (rule shared_secret_agrees [OF assms(1) e(3) assms(3)])
  have f: "first_valid_key ?valid ?rnd 0 = Some (Some (er_private_key rnd n), Suc n)"
    using first_valid_key_found [of n ?rnd 0 ?valid "er_private_key rnd n"] n by simp
  have "ecies_encrypt lib ssl rnd plain (kp_public_key kp) mac_data =
      Some (Inr (ecies_seal ssl (0x04 # kp_public_key e) z (er_iv rnd) plain mac_data))" for plain mac_data
    using f e(2,3) z(2) assms(1) by (auto simp: ecies_encrypt_def ecies_shared_secret_def is_key_pair_def ecdh_laws_def)
  then show thesis by (rule that [OF e(3) z(1,3)])
qed

lemma packet_parts:
  assumes "length pub = 64" "length iv = 16" "length mac = 32" "p = (x # pub) @ iv @ ct @ mac"
  shows "length p = 113 + length ct" "take 64 (drop 1 p) = pub" "take 16 (drop 65 p) = iv" "take (length ct) (drop 81 p) = ct"
    "take 32 (drop (81 + length ct) p) = mac"
proof -
  have "p = ((x # pub) @ iv @ ct) @ mac" "length ((x # pub) @ iv @ ct) = 81 + length ct" using assms by simp_all
  then show "take 32 (drop (81 + length ct) p) = mac" using assms(3) by (metis append_eq_conv_conj order_refl take_all)
  have "p = ((x # pub) @ iv) @ ct @ mac" "length ((x # pub) @ iv) = 81" using assms by simp_all
  then have "drop 81 p = ct @ mac" by (metis append_eq_conv_conj)
  then show "take (length ct) (drop 81 p) = ct" by simp
qed (use assms in simp_all)

lemma ecies_decrypt_seal:
  assumes "ecies_laws ssl" "length pub = 64" "length iv = 16" "compute_shared_secret lib pub priv = Inr z"
  shows "ecies_decrypt lib ssl (ecies_seal ssl (0x04 # pub) z iv plain d) priv d' =
    (let keys = ecies_derive_keys ssl z; c = iv @ es_aes128_ctr ssl (enc_key keys) iv plain
     in if es_hmac_sha256 ssl (ecies_mac_key keys) (c @ d) = es_hmac_sha256 ssl (ecies_mac_key keys) (c @ d') then Inr plain
        else Inl kEciesDecryptFailed)"
    "length (ecies_seal ssl (0x04 # pub) z iv plain d) = estimate_encrypted_size (length plain)"
proof -
  let ?k = "ecies_derive_keys ssl z" and ?p = "ecies_seal ssl (0x04 # pub) z iv plain d"
  let ?ct = "es_aes128_ctr ssl (enc_key ?k) iv plain"
  let ?mac = "es_hmac_sha256 ssl (ecies_mac_key ?k) (iv @ ?ct @ d)"
  have l: "length ?ct = length plain" "es_aes128_ctr ssl (enc_key ?k) iv ?ct = plain" "length ?mac = 32"
    using assms(1) by (simp_all add: ecies_laws_def)
  have "?p = (0x04 # pub) @ iv @ ?ct @ ?mac" by (simp add: ecies_seal_def Let_def)
  note parts = packet_parts [OF assms(2,3) l(3) this]
  show "length ?p = estimate_encrypted_size (length plain)" using parts(1) l(1) by (simp add: estimate_encrypted_size_def)
  show "ecies_decrypt lib ssl ?p priv d' = (let keys = ecies_derive_keys ssl z; c = iv @ es_aes128_ctr ssl (enc_key keys) iv plain
     in if es_hmac_sha256 ssl (ecies_mac_key keys) (c @ d) = es_hmac_sha256 ssl (ecies_mac_key keys) (c @ d') then Inr plain
        else Inl kEciesDecryptFailed)"
    using parts l assms(4) by (simp add: ecies_decrypt_def ecies_shared_secret_def Let_def)
qed

lemma ecies_opens:
  assumes "ecdh_laws lib" "ecies_laws ssl" "draws_key lib rnd" "is_key_pair lib kp"
  obtains packet where "ecies_encrypt lib ssl rnd plain (kp_public_key kp) d = Some (Inr packet)"
    "ecies_decrypt lib ssl packet (kp_private_key kp) d = Inr plain" "length packet = estimate_encrypted_size (length plain)"
proof -
  obtain e z where e: "is_key_pair lib e" "compute_shared_secret lib (kp_public_key e) (kp_private_key kp) = Inr z"
    "ecies_encrypt lib ssl rnd plain (kp_public_key kp) d = Some (Inr (ecies_seal ssl (0x04 # kp_public_key e) z (er_iv rnd) plain d))"
    by (rule ecies_encrypt_seals [OF assms(1,3,4)]) blast
  have l: "length (kp_public_key e) = 64" "length (er_iv rnd) = 16" using e(1) assms(3) by (auto simp: is_key_pair_def draws_key_def)
  note seal = ecies_decrypt_seal [OF assms(2) l e(2), of plain d]
  show thesis by (rule that [OF e(3) _ seal(2)]) (use seal(1) [of d] in \<open>simp add: Let_def\<close>)
qed

section \<open>Properties\<close>


definition sample_ecies :: ecies_ssl where
  "sample_ecies = \<lparr>es_sha256 = (\<lambda>x. replicate 32 (word_of_nat (length x))), es_hmac_sha256 = (\<lambda>k x. replicate 32 (word_of_nat (length x))),
     es_aes128_ctr = (\<lambda>k iv x. map (\<lambda>b. b XOR 5) x)\<rparr>"

lemma sample_ecies_laws: "ecies_laws sample_ecies"
  by (simp add: ecies_laws_def sample_ecies_def comp_def xor.assoc)

definition sample_random :: ecies_random where
  "sample_random = \<lparr>er_private_key = (\<lambda>n. replicate 32 (word_of_nat n)), er_iv = replicate 16 3\<rparr>"

lemma sample_draws: "draws_key sample_ecdh sample_random"
  by (simp add: draws_key_def sample_random_def sample_ecdh_def sample_lib_def)

definition sample_pair :: "byte \<Rightarrow> key_pair" where
  "sample_pair b = \<lparr>kp_public_key = be_bytes 32 (shift_in (replicate 32 b) :: u256) @ replicate 32 0, kp_private_key = replicate 32 b\<rparr>"

lemma sample_pair_is_pair: "is_key_pair sample_ecdh (sample_pair b)"
  by (simp add: is_key_pair_def sample_ecdh_def sample_lib_def sample_pair_def)


end
