(* ===== verification/Frame_Cipher.thy ===== *)
theory Frame_Cipher
  imports Rlpx_Types Evm_Prelude
begin

text \<open>
  The frame cipher of src/rlpx/framing/frame_cipher.cpp: the rolling hash MAC, the frame header with its three length bytes, padding,
  encryption and decryption. Keccak-256, the AES block and the AES-CTR context of OpenSSL are the fields of a record of
  functions; the CTR context is an abstract value that an update changes. Every operation returns the state after it, errors included,
  because a failed check has already advanced the ingress MAC.
\<close>

section \<open>Types\<close>

datatype framing_error =
  kEncryptionFailed | kDecryptionFailed | kMacMismatch | kFrameSizeInvalid | kBufferTooSmall | kInvalidHeader | kCompressionFailed | kDecompressionFailed

record frame_secrets =
  aes_secret :: bytes
  mac_secret :: bytes
  egress_mac_seed :: bytes
  ingress_mac_seed :: bytes

record 'c frame_lib =
  fl_keccak256 :: "bytes \<Rightarrow> bytes"
  fl_aes_ecb :: "bytes \<Rightarrow> bytes \<Rightarrow> bytes"
  fl_ctr_init :: "bytes \<Rightarrow> 'c"
  fl_ctr_update :: "'c \<Rightarrow> bytes \<Rightarrow> bytes \<times> 'c"

record hash_mac =
  mac_key :: bytes
  written :: bytes

record 'c frame_cipher =
  secrets :: frame_secrets
  enc :: 'c
  dec :: 'c
  egress_mac :: hash_mac
  ingress_mac :: hash_mac

definition kMaxFrameSize :: nat where "kMaxFrameSize = 16 * 1024 * 1024"

definition kFrameHeaderStaticRlpBytes :: bytes where "kFrameHeaderStaticRlpBytes = [0xC2, 0x80, 0x80]"

section \<open>The rolling MAC\<close>

definition mac_write :: "bytes \<Rightarrow> hash_mac \<Rightarrow> hash_mac" where
  "mac_write data m = m\<lparr>written := written m @ data\<rparr>"

definition mac_sum :: "'c frame_lib \<Rightarrow> hash_mac \<Rightarrow> bytes" where
  "mac_sum L m = fl_keccak256 L (written m)"

definition mac_compute :: "'c frame_lib \<Rightarrow> bytes \<Rightarrow> bytes \<Rightarrow> hash_mac \<Rightarrow> bytes \<times> hash_mac" where
  "mac_compute L sum1 seed16 m =
     (let aes_buf = map2 (XOR) (fl_aes_ecb L (mac_key m) (take 16 sum1)) (take 16 seed16);
          m = mac_write aes_buf m
      in (take 16 (mac_sum L m), m))"

definition compute_header :: "'c frame_lib \<Rightarrow> bytes \<Rightarrow> hash_mac \<Rightarrow> bytes \<times> hash_mac" where
  "compute_header L header_ct m = mac_compute L (mac_sum L m) header_ct m"

definition compute_frame :: "'c frame_lib \<Rightarrow> bytes \<Rightarrow> hash_mac \<Rightarrow> bytes \<times> hash_mac" where
  "compute_frame L framedata m =
     (let m = mac_write framedata m; seed = mac_sum L m in mac_compute L seed seed m)"

section \<open>Frames\<close>

definition new_frame_cipher :: "'c frame_lib \<Rightarrow> frame_secrets \<Rightarrow> 'c frame_cipher" where
  "new_frame_cipher L s =
     \<lparr>secrets = s, enc = fl_ctr_init L (aes_secret s), dec = fl_ctr_init L (aes_secret s),
      egress_mac = mac_write (egress_mac_seed s) \<lparr>mac_key = mac_secret s, written = []\<rparr>,
      ingress_mac = mac_write (ingress_mac_seed s) \<lparr>mac_key = mac_secret s, written = []\<rparr>\<rparr>"

definition frame_padding :: "nat \<Rightarrow> nat" where
  "frame_padding fsize = (if fsize mod 16 \<noteq> 0 then 16 - fsize mod 16 else 0)"

definition frame_header :: "nat \<Rightarrow> bytes" where
  "frame_header fsize =
     [word_of_nat (drop_bit 16 fsize AND 0xFF), word_of_nat (drop_bit 8 fsize AND 0xFF), word_of_nat (fsize AND 0xFF)] @
     kFrameHeaderStaticRlpBytes @ replicate 10 0"

definition header_length :: "bytes \<Rightarrow> nat" where
  "header_length header_pt =
     (push_bit 16 (unat (header_pt ! 0)) OR push_bit 8 (unat (header_pt ! 1)) OR unat (header_pt ! 2))"

definition encrypt_frame :: "'c frame_lib \<Rightarrow> bytes \<Rightarrow> 'c frame_cipher \<Rightarrow> (framing_error + bytes) \<times> 'c frame_cipher" where
  "encrypt_frame L frame_data fc =
     (if frame_data = [] \<or> kMaxFrameSize < length frame_data then (Inl kFrameSizeInvalid, fc)
      else
        let fsize = length frame_data;
            rsize = fsize + frame_padding fsize;
            (header_ct, e) = fl_ctr_update L (enc fc) (frame_header fsize);
            (header_mac, m) = compute_header L header_ct (egress_mac fc);
            frame_padded = frame_data @ replicate (rsize - fsize) 0;
            (frame_ct, e) = fl_ctr_update L e frame_padded;
            (frame_mac, m) = compute_frame L frame_ct m
        in (Inr (header_ct @ header_mac @ frame_ct @ frame_mac), fc\<lparr>enc := e, egress_mac := m\<rparr>))"

definition decrypt_header :: "'c frame_lib \<Rightarrow> bytes \<Rightarrow> bytes \<Rightarrow> 'c frame_cipher \<Rightarrow> (framing_error + nat) \<times> 'c frame_cipher" where
  "decrypt_header L header_ct header_mac_wire fc =
     (let (expected_mac, m) = compute_header L header_ct (ingress_mac fc);
          fc = fc\<lparr>ingress_mac := m\<rparr>
      in if take 16 header_mac_wire \<noteq> expected_mac then (Inl kMacMismatch, fc)
         else
           let (header_pt, d) = fl_ctr_update L (dec fc) header_ct;
               fc = fc\<lparr>dec := d\<rparr>;
               fsize = header_length header_pt
           in if fsize = 0 \<or> kMaxFrameSize < fsize then (Inl kFrameSizeInvalid, fc) else (Inr fsize, fc))"

definition decrypt_frame_body :: "'c frame_lib \<Rightarrow> nat \<Rightarrow> bytes \<Rightarrow> bytes \<Rightarrow> 'c frame_cipher \<Rightarrow> (framing_error + bytes) \<times> 'c frame_cipher" where
  "decrypt_frame_body L fsize frame_ct_padded frame_mac fc =
     (if length frame_ct_padded < fsize \<or> length frame_mac < 16 then (Inl kFrameSizeInvalid, fc)
      else
        let (expected_mac, m) = compute_frame L frame_ct_padded (ingress_mac fc);
            fc = fc\<lparr>ingress_mac := m\<rparr>
        in if take 16 frame_mac \<noteq> expected_mac then (Inl kMacMismatch, fc)
           else
             let (frame_pt, d) = fl_ctr_update L (dec fc) frame_ct_padded
             in (Inr (take fsize frame_pt), fc\<lparr>dec := d\<rparr>))"

record frame_decrypt_params =
  fp_header_ciphertext :: bytes
  fp_header_mac :: bytes
  fp_frame_ciphertext :: bytes
  fp_frame_mac :: bytes

definition decrypt_frame :: "'c frame_lib \<Rightarrow> frame_decrypt_params \<Rightarrow> 'c frame_cipher \<Rightarrow> (framing_error + bytes) \<times> 'c frame_cipher" where
  "decrypt_frame L p fc =
     (if length (fp_header_ciphertext p) < 16 \<or> length (fp_header_mac p) < 16 \<or> length (fp_frame_mac p) < 16
      then (Inl kFrameSizeInvalid, fc)
      else
        (case decrypt_header L (take 16 (fp_header_ciphertext p)) (take 16 (fp_header_mac p)) fc of
           (Inl e, fc) \<Rightarrow> (Inl e, fc)
         | (Inr fsize, fc) \<Rightarrow>
             if length (fp_frame_ciphertext p) < fsize then (Inl kFrameSizeInvalid, fc)
             else
               let (expected_mac, m) = compute_frame L (fp_frame_ciphertext p) (ingress_mac fc);
                   fc = fc\<lparr>ingress_mac := m\<rparr>
               in if take 16 (fp_frame_mac p) \<noteq> expected_mac then (Inl kMacMismatch, fc)
                  else
                    let (frame_pt, d) = fl_ctr_update L (dec fc) (fp_frame_ciphertext p)
                    in (Inr (take fsize frame_pt), fc\<lparr>dec := d\<rparr>)))"

section \<open>Laws of the library\<close>

text \<open>What the code relies on: a digest has 32 bytes, and counter mode is its own inverse, so that two contexts in the same state stay in
  the same state.\<close>

definition frame_lib_laws :: "'c frame_lib \<Rightarrow> bool" where
  "frame_lib_laws L \<longleftrightarrow> (\<forall>x. length (fl_keccak256 L x) = 32) \<and>
     (\<forall>c x. length (fst (fl_ctr_update L c x)) = length x \<and>
            fl_ctr_update L c (fst (fl_ctr_update L c x)) = (x, snd (fl_ctr_update L c x)))"

lemma law_ctr:
  assumes "frame_lib_laws L" "fl_ctr_update L c x = (y, c')"
  shows "length y = length x" "fl_ctr_update L c y = (x, c')"
  using assms unfolding frame_lib_laws_def by (metis fst_conv, metis fst_conv snd_conv)

lemma law_mac_length:
  assumes "frame_lib_laws L"
  shows "length (fst (compute_header L h m)) = 16" "length (fst (compute_frame L f m)) = 16"
  using assms by (simp_all add: frame_lib_laws_def compute_header_def compute_frame_def mac_compute_def mac_sum_def Let_def)

section \<open>Frame lengths\<close>

lemma push_or_nat: "(c :: nat) < 2 ^ k \<Longrightarrow> (push_bit k a OR c) = a * 2 ^ k + c"
proof -
  assume c: "c < 2 ^ k"
  have "\<not> bit c n" if "k \<le> n" for n
    using that c less_le_trans [OF c power_increasing [OF that]] by (simp add: bit_iff_odd)
  then have "push_bit k a + c = (push_bit k a OR c)"
    by (intro disjunctive_add) (auto simp: bit_push_bit_iff not_le)
  then show ?thesis by (simp add: push_bit_eq_mult)
qed

lemma header_length_eq: "header_length h = unat (h ! 0) * 65536 + unat (h ! 1) * 256 + unat (h ! 2)"
proof -
  have "unat (h ! 1) * 256 + unat (h ! 2) < 65536"
    using unat_byte_less [of "h ! 1"] unat_byte_less [of "h ! 2"] by linarith
  then show ?thesis
    using push_or_nat [of "unat (h ! 2)" 8 "unat (h ! 1)"] push_or_nat [of "unat (h ! 1) * 256 + unat (h ! 2)" 16 "unat (h ! 0)"]
    by (simp add: header_length_def)
qed

lemma and_ff: "(n :: nat) AND 0xFF = n mod 256"
proof -
  have "mask 8 = (255 :: nat)" by (simp add: mask_eq_exp_minus_1)
  then show ?thesis using take_bit_eq_mask [of 8 n] by (simp add: take_bit_eq_mod)
qed

lemma header_length_frame_header: "header_length (frame_header n) = n mod 2 ^ 24"
  using mod_mult2_eq [of n 65536 256] mod_mult2_eq [of n 256 256]
  by (simp add: header_length_eq frame_header_def and_ff unat_of_nat drop_bit_eq_div)

lemma length_frame_header [simp]: "length (frame_header n) = 16"
  by (simp add: frame_header_def kFrameHeaderStaticRlpBytes_def)


section \<open>One frame\<close>

text \<open>Two ciphers are linked when what one writes is what the other expects: the same counter mode state and the same MAC on the way from the
  first to the second.\<close>

definition linked :: "'c frame_cipher \<Rightarrow> 'c frame_cipher \<Rightarrow> bool" where
  "linked a b \<longleftrightarrow> enc a = dec b \<and> egress_mac a = ingress_mac b"

lemma encrypt_frame_parts:
  assumes "frame_lib_laws L" "frame \<noteq> []" "length frame \<le> kMaxFrameSize"
  obtains hct hm fct fm a' where
    "encrypt_frame L frame a = (Inr (hct @ hm @ fct @ fm), a')" "a' = a\<lparr>enc := enc a', egress_mac := egress_mac a'\<rparr>"
    "length hct = 16" "length hm = 16" "length fct = length frame + frame_padding (length frame)" "length fm = 16"
    "\<forall>b. linked a b \<longrightarrow> (\<exists>bh. decrypt_header L hct hm b =
         (let n = length frame mod 2 ^ 24 in if n = 0 then Inl kFrameSizeInvalid else Inr n, bh) \<and>
       decrypt_frame_body L (length frame) fct fm bh = (Inr frame, b\<lparr>dec := enc a', ingress_mac := egress_mac a'\<rparr>))"
proof -
  let ?n = "length frame"
  obtain hct e where h: "fl_ctr_update L (enc a) (frame_header ?n) = (hct, e)" by fastforce
  obtain hm m where hm: "compute_header L hct (egress_mac a) = (hm, m)" by fastforce
  obtain fct e' where f: "fl_ctr_update L e (frame @ replicate (frame_padding ?n) 0) = (fct, e')" by fastforce
  obtain fm m' where fm: "compute_frame L fct m = (fm, m')" by fastforce
  note hl = law_ctr [OF assms(1) h] and fl = law_ctr [OF assms(1) f]
  have len: "length hm = 16" "length fm = 16"
    using law_mac_length [OF assms(1)] hm fm by (metis fst_conv)+
  have small: "?n mod 2 ^ 24 \<le> kMaxFrameSize" by (simp add: kMaxFrameSize_def less_imp_le)
  have "decrypt_header L hct hm b = (let n = ?n mod 2 ^ 24 in if n = 0 then Inl kFrameSizeInvalid else Inr n, b\<lparr>ingress_mac := m, dec := e\<rparr>) \<and>
       decrypt_frame_body L ?n fct fm (b\<lparr>ingress_mac := m, dec := e\<rparr>) = (Inr frame, b\<lparr>dec := e', ingress_mac := m'\<rparr>)" if "linked a b" for b
    using that hm fm hl fl len small by (simp add: decrypt_header_def decrypt_frame_body_def linked_def Let_def header_length_frame_header)
  then show thesis
    by (intro that [of hct hm fct fm "a\<lparr>enc := e', egress_mac := m'\<rparr>"])
      (use assms h hm f fm hl fl len in \<open>auto simp: encrypt_frame_def Let_def\<close>)
qed

lemma linked_new:
  assumes "aes_secret s = aes_secret t" "mac_secret s = mac_secret t" "egress_mac_seed s = ingress_mac_seed t"
  shows "linked (new_frame_cipher L s) (new_frame_cipher L t)"
  using assms by (simp add: linked_def new_frame_cipher_def mac_write_def)

section \<open>Properties\<close>

text \<open>The one-call decryption and the two-step decryption used by the message stream are the same: both return the same result and leave
  the cipher in the same state, on correct, truncated and tampered input alike.\<close>

theorem decrypt_frame_equivalent:
  assumes "length hct = 16" "length hm = 16" "length fm = 16"
  shows "decrypt_frame L \<lparr>fp_header_ciphertext = hct, fp_header_mac = hm, fp_frame_ciphertext = fct, fp_frame_mac = fm\<rparr> fc =
    (case decrypt_header L hct hm fc of (Inl e, fc) \<Rightarrow> (Inl e, fc) | (Inr n, fc) \<Rightarrow> decrypt_frame_body L n fct fm fc)"
  using assms by (simp add: decrypt_frame_def decrypt_frame_body_def Let_def split: prod.splits sum.splits)

text \<open>A library that satisfies the laws: a digest that depends on the length only and a key stream that counts.\<close>

definition counting_lib :: "nat frame_lib" where
  "counting_lib = \<lparr>fl_keccak256 = (\<lambda>x. replicate 32 (word_of_nat (length x))), fl_aes_ecb = (\<lambda>k b. b), fl_ctr_init = (\<lambda>k. 0),
     fl_ctr_update = (\<lambda>c x. (map2 (\<lambda>i b. b XOR word_of_nat (c + i)) [0..<length x] x, c + length x))\<rparr>"

lemma counting_lib_laws: "frame_lib_laws counting_lib"
  unfolding frame_lib_laws_def
  by (auto simp: counting_lib_def xor.assoc intro!: nth_equalityI)

definition sample_secrets :: "bytes \<Rightarrow> bytes \<Rightarrow> frame_secrets" where
  "sample_secrets out inc = \<lparr>aes_secret = replicate 32 1, mac_secret = replicate 32 2, egress_mac_seed = out, ingress_mac_seed = inc\<rparr>"

lemma sample_linked: "linked (new_frame_cipher counting_lib (sample_secrets [7] [8])) (new_frame_cipher counting_lib (sample_secrets [8] [7]))"
  by (rule linked_new) (simp_all add: sample_secrets_def)

theorem decrypt_frame_equivalent_witness:
  "decrypt_frame counting_lib \<lparr>fp_header_ciphertext = replicate 16 1, fp_header_mac = replicate 16 2, fp_frame_ciphertext = [], fp_frame_mac = replicate 16 3\<rparr>
     (new_frame_cipher counting_lib (sample_secrets [7] [8])) =
   (case decrypt_header counting_lib (replicate 16 1) (replicate 16 2) (new_frame_cipher counting_lib (sample_secrets [7] [8])) of
      (Inl e, fc) \<Rightarrow> (Inl e, fc) | (Inr n, fc) \<Rightarrow> decrypt_frame_body counting_lib n [] (replicate 16 3) fc)"
  by (rule decrypt_frame_equivalent) simp_all

text \<open>The largest frame the sender accepts, of exactly sixteen MiB, cannot be received: its length does not fit the three length bytes
  of the header, which then say zero, and the receiver refuses the frame.\<close>

theorem largest_frame_refused:
  assumes "frame_lib_laws L" "linked a b" "length frame = kMaxFrameSize"
  shows "\<exists>wire a' b'. encrypt_frame L frame a = (Inr wire, a') \<and>
    decrypt_header L (take 16 wire) (take 16 (drop 16 wire)) b = (Inl kFrameSizeInvalid, b')"
proof -
  have "frame \<noteq> []" using assms(3) by (auto simp: kMaxFrameSize_def)
  then obtain hct hm fct fm a' where x: "encrypt_frame L frame a = (Inr (hct @ hm @ fct @ fm), a')" "length hct = 16" "length hm = 16"
    "\<forall>b. linked a b \<longrightarrow> (\<exists>bh. decrypt_header L hct hm b =
         (let n = length frame mod 2 ^ 24 in if n = 0 then Inl kFrameSizeInvalid else Inr n, bh) \<and>
       decrypt_frame_body L (length frame) fct fm bh = (Inr frame, b\<lparr>dec := enc a', ingress_mac := egress_mac a'\<rparr>))"
    using encrypt_frame_parts [OF assms(1), of frame a] assms(3) by (metis le_refl)
  from x(4) [rule_format, OF assms(2)] x(1-3) assms(3) show ?thesis by (auto simp: kMaxFrameSize_def)
qed

theorem largest_frame_refused_witness:
  "\<exists>wire a' b'. encrypt_frame counting_lib (replicate kMaxFrameSize 0) (new_frame_cipher counting_lib (sample_secrets [7] [8])) = (Inr wire, a') \<and>
    decrypt_header counting_lib (take 16 wire) (take 16 (drop 16 wire)) (new_frame_cipher counting_lib (sample_secrets [8] [7])) = (Inl kFrameSizeInvalid, b')"
  by (rule largest_frame_refused [OF counting_lib_laws sample_linked]) simp

end
