(* ===== verification/Rlpx_Messages.thy ===== *)
theory Rlpx_Messages
  imports Rlpx_Types Eth_Payloads
begin

text \<open>
  The base protocol messages of src/rlpx/protocol/messages.cpp: Hello, Disconnect, Ping and Pong. \<open>std::string\<close> is \<open>string\<close>;
  \<open>bytes_of\<close> and \<open>string_of\<close> are the casts between its characters and bytes.
\<close>

section \<open>Messages\<close>

definition bytes_of :: "string \<Rightarrow> bytes" where
  "bytes_of s = map of_char s"

definition string_of :: "bytes \<Rightarrow> string" where
  "string_of bs = map (\<lambda>b. char_of (unat b)) bs"

record capability =
  cap_name :: string
  cap_version :: u8

record hello_message =
  protocol_version :: u8
  client_id :: string
  capabilities :: "capability list"
  listen_port :: u16
  hello_node_id :: bytes

record rlpx_message =
  msg_id :: u8
  msg_payload :: bytes

definition get_encoded :: "encoder_op \<Rightarrow> session_error + bytes" where
  "get_encoded f = fail_as kInvalidMessage (outcome_try (f new_encoder) GetBytes)"

definition capability_op :: "capability \<Rightarrow> encoder_op" where
  "capability_op cap = list_of [add_bytes (bytes_of (cap_name cap)), add_u8 (cap_version cap)]"

definition encode_hello :: "hello_message \<Rightarrow> session_error + bytes" where
  "encode_hello m = get_encoded (list_of
     [add_u8 (protocol_version m), add_bytes (bytes_of (client_id m)), list_of (map capability_op (capabilities m)),
      add_u16 (listen_port m), add_bytes (hello_node_id m)])"

definition first_byte :: "bytes \<Rightarrow> u8" where
  "first_byte bs = (if bs = [] then 0 else bs ! 0)"

text \<open>The loop over the capabilities: it ends at the first item that is not a list, and a pair it cannot read is passed over
  without its header.\<close>

function capability_loop :: "rlp_decoder \<Rightarrow> capability list \<Rightarrow> capability list \<times> rlp_decoder" where
  "capability_loop d acc =
     (if IsFinished d then (acc, d)
      else (case IsList d of
          Inl _ \<Rightarrow> (acc, d)
        | Inr False \<Rightarrow> (acc, d)
        | Inr True \<Rightarrow>
            (case ReadListHeaderBytes d of
               Inl _ \<Rightarrow> (acc, d)
             | Inr (_, d1) \<Rightarrow>
                 (case read_bytes d1 of
                    Inl _ \<Rightarrow> capability_loop d1 acc
                  | Inr (name, d2) \<Rightarrow>
                      (case read_bytes d2 of
                         Inl _ \<Rightarrow> capability_loop d2 acc
                       | Inr (ver, d3) \<Rightarrow>
                           capability_loop d3 (acc @ [\<lparr>cap_name = string_of name, cap_version = first_byte ver\<rparr>]))))))"
  by pat_completeness auto
termination
  by (relation "measure (\<lambda>(d, acc). length (view d))") (auto dest!: read_consumes)

declare capability_loop.simps [simp del]

definition decode_hello :: "bytes \<Rightarrow> session_error + hello_message" where
  "decode_hello rlp_data = fail_as kInvalidMessage
     (outcome_try (ReadListHeaderBytes \<lparr>view = rlp_data\<rparr>) (\<lambda>(_, d).
      outcome_try (read_bytes d) (\<lambda>(version, d).
      outcome_try (read_bytes d) (\<lambda>(client, d).
      outcome_try (ReadListHeaderBytes d) (\<lambda>(_, d).
      case capability_loop d [] of (caps, d) \<Rightarrow>
      outcome_try (read_integral d) (\<lambda>(port, d).
      outcome_try (read_bytes d) (\<lambda>(nid, d).
      if length nid \<noteq> 64 then Inl kUnexpectedLength
      else Inr \<lparr>protocol_version = first_byte version, client_id = string_of client, capabilities = caps, listen_port = port,
             hello_node_id = nid\<rparr>)))))))"

definition encode_disconnect :: "disconnect_reason \<Rightarrow> session_error + bytes" where
  "encode_disconnect reason = get_encoded (list_of [add_u8 (reason_to_byte reason)])"

definition decode_disconnect :: "bytes \<Rightarrow> session_error + disconnect_reason" where
  "decode_disconnect rlp_data =
     (if rlp_data = [] then Inr kRequested
      else case ReadListHeaderBytes \<lparr>view = rlp_data\<rparr> of
          Inl _ \<Rightarrow> Inr (byte_to_reason (rlp_data ! 0))
        | Inr (len, d) \<Rightarrow>
            if len = 0 then Inr kRequested
            else (case read_bytes d of
                Inl _ \<Rightarrow> Inr kRequested
              | Inr (bs, _) \<Rightarrow> Inr (byte_to_reason (first_byte bs))))"

definition encode_ping :: "session_error + bytes" where
  "encode_ping = get_encoded (list_of [])"

definition decode_ping :: "bytes \<Rightarrow> session_error + unit" where
  "decode_ping rlp_data = Inr ()"

definition encode_pong :: "session_error + bytes" where
  "encode_pong = get_encoded (list_of [])"

definition decode_pong :: "bytes \<Rightarrow> session_error + unit" where
  "decode_pong rlp_data = Inr ()"

section \<open>Encoding\<close>

definition capability_item :: "capability \<Rightarrow> rlp_item" where
  "capability_item cap = RList [RStr (bytes_of (cap_name cap)), RUint (unat (cap_version cap))]"

definition hello_items :: "hello_message \<Rightarrow> rlp_item list" where
  "hello_items m = [RUint (unat (protocol_version m)), RStr (bytes_of (client_id m)), RList (map capability_item (capabilities m)),
     RUint (unat (listen_port m)), RStr (hello_node_id m)]"

lemma char_of_byte [simp]: "char_of (unat (of_char c :: 8 word)) = c"
proof -
  have "(of_char c :: 8 word) = word_of_nat (of_char c)" by (rule of_nat_of_char [symmetric])
  moreover have "of_char c < (256 :: nat)" by (rule nat_of_char_less_256)
  ultimately have "unat (of_char c :: 8 word) = of_char c" by (simp add: unat_of_nat)
  then show ?thesis by simp
qed

lemma string_bytes [simp]: "string_of (bytes_of s) = s"
  by (simp add: string_of_def bytes_of_def comp_def)

lemma get_encoded_eq: "emits_item f t \<Longrightarrow> get_encoded f = Inr (rlp_encode t)"
  by (simp add: get_encoded_def emits_item_def emits_def GetBytes_def push_bytes_def new_encoder_def)

lemma fits_u8 [simp]: "fits (RUint (unat (b :: u8)))" "length (rlp_encode (RUint (unat b))) \<le> 33"
proof -
  have "unat b < 2 ^ 256" by (rule less_trans [OF unat_less_exp]) simp
  then show "fits (RUint (unat b))" "length (rlp_encode (RUint (unat b))) \<le> 33" by (rule fits_RUint, rule length_RUint_le)
qed

lemma first_byte_nat_to_be [simp]: "first_byte (nat_to_be (unat (b :: u8))) = b"
proof -
  have "nat_to_be (unat b) = (if b = 0 then [] else [b])"
    using unat_less_exp [of b] by (simp add: nat_to_be.simps [of "unat b"] unat_eq_zero)
  then show ?thesis by (simp add: first_byte_def)
qed

lemma capability_emits: "fits (capability_item cap) \<Longrightarrow> emits_item (capability_op cap) (capability_item cap)"
  using fits_RList_all [of "[RStr (bytes_of (cap_name cap)), RUint (unat (cap_version cap))]"]
  unfolding capability_item_def capability_op_def by (intro emits_item_list_of) simp_all

lemma hello_written:
  assumes "fits (RList (hello_items m))"
  shows "encode_hello m = Inr (rlp_encode (RList (hello_items m)))"
proof -
  note f = fits_RList_all [OF assms [unfolded hello_items_def]]
  have "emits_item (list_of (map capability_op (capabilities m))) (RList (map capability_item (capabilities m)))"
    using f capability_emits by (intro emits_item_map) auto
  then show ?thesis
    unfolding encode_hello_def using f assms unfolding hello_items_def by (intro get_encoded_eq emits_item_list_of) simp_all
qed

lemma capability_loop_reads:
  assumes "\<forall>cap \<in> set caps. fits (capability_item cap)" "fits (RStr p)"
  shows "capability_loop \<lparr>view = rlp_encodes (map capability_item caps) @ rlp_encode (RStr p) @ rest\<rparr> acc =
    (acc @ caps, \<lparr>view = rlp_encode (RStr p) @ rest\<rparr>)"
  using assms
proof (induction caps arbitrary: acc)
  case Nil
  then show ?case by (simp add: capability_loop.simps [of "\<lparr>view = rlp_encode (RStr p) @ rest\<rparr>"] IsFinished_def)
next
  case (Cons cap caps)
  have f: "fits (RList [RStr (bytes_of (cap_name cap)), RUint (unat (cap_version cap))])"
    using Cons.prems by (simp add: capability_item_def)
  note g = fits_RList_all [OF f]
  let ?more = "rlp_encodes (map capability_item caps) @ rlp_encode (RStr p) @ rest"
  have "capability_loop \<lparr>view = rlp_encode (capability_item cap) @ ?more\<rparr> acc = capability_loop \<lparr>view = ?more\<rparr> (acc @ [cap])"
    using f g by (subst capability_loop.simps) (cases cap, simp add: capability_item_def IsFinished_def RUint_def)
  then show ?case using Cons by simp
qed

lemma hello_read:
  assumes "length (hello_node_id m) = 64" "fits (RList (hello_items m @ extra))"
  shows "decode_hello (rlp_encode (RList (hello_items m @ extra)) @ rest) = Inr m"
proof -
  note f = fits_RList_all [OF assms(2) [unfolded hello_items_def]]
  then have "\<forall>cap \<in> set (capabilities m). fits (capability_item cap)"
    using fits_RList_all [of "map capability_item (capabilities m)"] by (auto simp: list_all_iff)
  note loop = capability_loop_reads [OF this, of "nat_to_be (unat (listen_port m))", folded RUint_def]
  have "read_bytes \<lparr>view = rlp_encode (RUint (unat b)) @ r\<rparr> = Inr (nat_to_be (unat b), \<lparr>view = r\<rparr>)" for b :: u8 and r
    using fits_u8(1) [of b] unfolding RUint_def by simp
  then show ?thesis
    using assms f loop
    by (cases m) (simp add: decode_hello_def hello_items_def)
qed

lemma not_list_header: "unat b < 0xC0 \<Longrightarrow> \<exists>err. ReadListHeaderBytes \<lparr>view = b # rest\<rparr> = Inl err"
proof (rule ccontr)
  assume b: "unat b < 0xC0" and "\<nexists>err. ReadListHeaderBytes \<lparr>view = b # rest\<rparr> = Inl err"
  then obtain n d' where "ReadListHeaderBytes \<lparr>view = b # rest\<rparr> = Inr (n, d')" by (cases "ReadListHeaderBytes \<lparr>view = b # rest\<rparr>") auto
  then obtain p r where p: "length p < 2 ^ 64" "b # rest = rlp_list p @ r" by (auto simp: ReadListHeaderBytes_iff)
  then have "b = hd (rlp_list p)" by (cases "rlp_list p") (auto simp: rlp_list_def rlp_prefix_def split: if_splits)
  then show False using hd_rlp_list_ge [OF p(1)] b by simp
qed

section \<open>Properties\<close>

text \<open>A Hello message is encoded to its five fields and decoded to what was encoded, and the decoder ignores further elements of
  the list, as the protocol asks for forward compatibility.\<close>

theorem hello_round_trip:
  assumes "length (hello_node_id m) = 64" "fits (RList (hello_items m))" "fits (RList (hello_items m @ extra))"
  shows "encode_hello m = Inr (rlp_encode (RList (hello_items m))) \<and> decode_hello (rlp_encode (RList (hello_items m))) = Inr m \<and>
    decode_hello (rlp_encode (RList (hello_items m @ extra))) = Inr m"
  using hello_written [OF assms(2)] hello_read [OF assms(1), of "[]" "[]"] hello_read [OF assms(1, 3), of "[]"] assms(2) by simp

definition sample_hello :: hello_message where
  "sample_hello = \<lparr>protocol_version = 5, client_id = ''relay'', capabilities = [\<lparr>cap_name = ''eth'', cap_version = 68\<rparr>],
     listen_port = 30303, hello_node_id = replicate 64 9\<rparr>"

theorem hello_round_trip_witness:
  "decode_hello (rlp_encode (RList (hello_items sample_hello))) = Inr sample_hello"
proof -
  have "fits (RList (hello_items sample_hello))"
    by (rule fits_bound) (simp add: hello_items_def sample_hello_def capability_item_def bytes_of_def RUint_def nat_to_be.simps)
  then show ?thesis using hello_round_trip [of sample_hello "[]"] by (simp add: sample_hello_def)
qed

text \<open>Every Disconnect payload decodes to a reason: none at all, an empty list and a list whose first item is not a byte string mean
  the reason zero, a list gives the first byte of its first item, and anything else its own first byte. The encoding of
  a reason decodes to it, for all 256 values.\<close>

theorem disconnect_total:
  "(\<exists>r. decode_disconnect bs = Inr r) \<and> decode_disconnect [] = Inr kRequested \<and> decode_disconnect [0xC0] = Inr kRequested \<and>
   (unat b < 0xC0 \<longrightarrow> decode_disconnect (b # rest) = Inr (byte_to_reason b)) \<and>
   encode_disconnect (byte_to_reason c) = Inr (rlp_encode (RList [RUint (unat c)])) \<and>
   decode_disconnect (rlp_encode (RList [RUint (unat c)])) = Inr (byte_to_reason c)"
proof -
  have f: "fits (RList [RUint (unat c)])"
    by (rule fits_RListI) (auto intro: le_less_trans [OF fits_u8(2)])
  have r: "read_bytes \<lparr>view = rlp_encode (RUint (unat c))\<rparr> = Inr (nat_to_be (unat c), \<lparr>view = []\<rparr>)"
    using read_bytes_RStr [of "nat_to_be (unat c)" "[]"] fits_u8(1) [of c] unfolding RUint_def by simp
  have "encode_disconnect (byte_to_reason c) = Inr (rlp_encode (RList [RUint (unat c)]))"
    unfolding encode_disconnect_def using f by (intro get_encoded_eq emits_item_list_of) simp_all
  moreover have "decode_disconnect (rlp_encode (RList [RUint (unat c)])) = Inr (byte_to_reason c)"
    using ReadListHeaderBytes_RList [OF f, of "[]"] r by (simp add: decode_disconnect_def)
  moreover have "decode_disconnect [0xC0] = Inr kRequested"
    using ReadListHeaderBytes_RList [of "[]" "[]"] fits_RListI [of "[]"] by (simp add: decode_disconnect_def rlp_encode_simps rlp_list_def rlp_prefix_def)
  moreover have "decode_disconnect (b # rest) = Inr (byte_to_reason b)" if "unat b < 0xC0"
    using that not_list_header [of b rest] by (auto simp: decode_disconnect_def)
  moreover have "\<exists>r. decode_disconnect bs = Inr r"
    by (simp add: decode_disconnect_def split: sum.splits prod.splits)
  ultimately show ?thesis by (simp add: decode_disconnect_def)
qed

theorem disconnect_total_witness: "decode_disconnect [0x04] = Inr (byte_to_reason 0x04)"
  using disconnect_total [where b = "0x04" and rest = "[]"] by simp

text \<open>The capability list of a Hello is read without regard to its length and the pairs without regard to theirs: one
  more item in a pair is taken for the port, the port for the node id, and the Hello is refused.\<close>

theorem hello_long_capability_rejected:
  assumes "fits (RList [RUint (unat v), RStr client, RList [RList [RStr name, RUint (unat ver), RUint (unat xtra)]], RUint (unat port), RStr nid])"
  shows "decode_hello (rlp_encode (RList [RUint (unat (v :: u8)), RStr client,
    RList [RList [RStr name, RUint (unat (ver :: u8)), RUint (unat (xtra :: u16))]], RUint (unat (port :: u16)), RStr nid])) = Inl kInvalidMessage"
proof -
  have one: "read_bytes \<lparr>view = rlp_encode (RUint (unat b)) @ r\<rparr> = Inr (nat_to_be (unat b), \<lparr>view = r\<rparr>)" for b :: u8 and r
    using fits_u8(1) [of b] unfolding RUint_def by simp
  have u16: "fits (RUint (unat b))" for b :: u16
    by (rule fits_RUint, rule less_trans [OF unat_less_exp]) simp
  have two: "read_bytes \<lparr>view = rlp_encode (RUint (unat b)) @ r\<rparr> = Inr (nat_to_be (unat b), \<lparr>view = r\<rparr>)" for b :: u16 and r
    using u16 [of b] unfolding RUint_def by simp
  note f = fits_RList_all [OF assms]
  then have g: "fits (RList [RList [RStr name, RUint (unat ver), RUint (unat xtra)]])" by simp
  from fits_RList_all [OF this] have h: "fits (RList [RStr name, RUint (unat ver), RUint (unat xtra)])" by simp
  from fits_RList_all [OF this] have "fits (RStr name)" by simp
  let ?more = "rlp_encode (RUint (unat xtra)) @ rlp_encode (RUint (unat port)) @ rlp_encode (RStr nid)"
  have "length (nat_to_be (unat port)) \<le> 2" by (rule length_nat_to_be_le) (use unat_less_exp [of port] in simp)
  moreover have "capability_loop \<lparr>view = ?more\<rparr> acc = (acc, \<lparr>view = ?more\<rparr>)" for acc
    using u16 [of xtra] by (subst capability_loop.simps) (simp add: IsFinished_def RUint_def)
  moreover have "capability_loop \<lparr>view = rlp_encode (RList [RStr name, RUint (unat ver), RUint (unat xtra)]) @
      rlp_encode (RUint (unat port)) @ rlp_encode (RStr nid)\<rparr> [] = capability_loop \<lparr>view = ?more\<rparr> [\<lparr>cap_name = string_of name, cap_version = ver\<rparr>]"
    using h one \<open>fits (RStr name)\<close> by (subst capability_loop.simps) (simp add: IsFinished_def)
  ultimately show ?thesis
    using assms f g one two by (simp add: decode_hello_def)
qed

theorem hello_long_capability_rejected_witness:
  "decode_hello (rlp_encode (RList [RUint (unat (5 :: u8)), RStr [], RList [RList [RStr [101], RUint (unat (68 :: u8)), RUint (unat (1 :: u16))]],
     RUint (unat (30303 :: u16)), RStr (replicate 64 9)])) = Inl kInvalidMessage"
proof -
  have "fits (RList [RUint (unat (5 :: u8)), RStr [], RList [RList [RStr [101], RUint (unat (68 :: u8)), RUint (unat (1 :: u16))]],
     RUint (unat (30303 :: u16)), RStr (replicate 64 9)])"
    by (rule fits_bound) (simp add: RUint_def nat_to_be.simps)
  then show ?thesis by (rule hello_long_capability_rejected)
qed

end
