(* ===== verification/Message_Stream.thy ===== *)
theory Message_Stream
  imports Frame_Cipher Rlpx_Messages Eth_Status "HOL-Library.Sublist"
begin

text \<open>
  The message stream of src/rlpx/framing/message_stream.cpp over the socket transport of src/rlpx/socket/socket_transport.cpp. The
  transport is the bytes that arrive before the connection ends, the error the socket then reports, and the bytes written.
  Snappy is a record of functions.
\<close>

section \<open>Transport\<close>

datatype asio_error = asio_eof | asio_connection_reset | asio_operation_aborted | asio_broken_pipe | asio_other

record socket_transport =
  incoming :: bytes
  read_end :: asio_error
  outgoing :: bytes
  write_fault :: "asio_error option"
  is_open :: bool

definition read_exact :: "nat \<Rightarrow> socket_transport \<Rightarrow> (session_error + bytes) \<times> socket_transport" where
  "read_exact num_bytes t =
     (if \<not> is_open t then (Inl kInvalidMessage, t)
      else if num_bytes \<le> length (incoming t) then (Inr (take num_bytes (incoming t)), t\<lparr>incoming := drop num_bytes (incoming t)\<rparr>)
      else (Inl (if read_end t \<in> {asio_eof, asio_connection_reset, asio_operation_aborted} then kConnectionFailed else kInvalidMessage),
            t\<lparr>incoming := []\<rparr>))"

definition write_all :: "bytes \<Rightarrow> socket_transport \<Rightarrow> (session_error + unit) \<times> socket_transport" where
  "write_all data t =
     (if \<not> is_open t then (Inl kInvalidMessage, t)
      else (case write_fault t of
          Some ec \<Rightarrow> (Inl (if ec \<in> {asio_eof, asio_connection_reset, asio_broken_pipe} then kConnectionFailed else kInvalidMessage), t)
        | None \<Rightarrow> (Inr (), t\<lparr>outgoing := outgoing t @ data\<rparr>)))"

definition close_transport :: "socket_transport \<Rightarrow> socket_transport" where
  "close_transport t = t\<lparr>is_open := False\<rparr>"

section \<open>Stream\<close>

record snappy_lib =
  sn_compress :: "bytes \<Rightarrow> bytes"
  sn_uncompressed_length :: "bytes \<Rightarrow> nat option"
  sn_raw_uncompress :: "bytes \<Rightarrow> bytes option"

record 'c message_stream =
  cipher :: "'c frame_cipher"
  transport :: socket_transport
  compression_enabled :: bool

definition new_message_stream :: "'c frame_cipher \<Rightarrow> socket_transport \<Rightarrow> 'c message_stream" where
  "new_message_stream fc t = \<lparr>cipher = fc, transport = t, compression_enabled = False\<rparr>"

definition enable_compression :: "'c message_stream \<Rightarrow> 'c message_stream" where
  "enable_compression ms = ms\<lparr>compression_enabled := True\<rparr>"

definition stream_close :: "'c message_stream \<Rightarrow> 'c message_stream" where
  "stream_close ms = ms\<lparr>transport := close_transport (transport ms)\<rparr>"

definition payload_part :: "snappy_lib \<Rightarrow> bool \<Rightarrow> bytes \<Rightarrow> bytes" where
  "payload_part S compress payload = (if payload = [] then [] else if compress then sn_compress S payload else payload)"

text \<open>What \<open>send_message\<close> does before it writes: the frame that carries the message, and the cipher after it.\<close>

definition message_frame :: "'c frame_lib \<Rightarrow> snappy_lib \<Rightarrow> rlpx_message \<Rightarrow> 'c message_stream \<Rightarrow> (session_error + bytes) \<times> 'c message_stream" where
  "message_frame L S m ms =
     (case get_encoded (add_u8 (msg_id m)) of
        Inl e \<Rightarrow> (Inl e, ms)
      | Inr id_bytes \<Rightarrow>
          let message_data = id_bytes @ payload_part S (compression_enabled ms) (msg_payload m)
          in if kMaxFrameSize < length message_data then (Inl kInvalidMessage, ms)
             else (case encrypt_frame L message_data (cipher ms) of
                 (Inl _, fc) \<Rightarrow> (Inl kEncryptionError, ms\<lparr>cipher := fc\<rparr>)
               | (Inr wire, fc) \<Rightarrow> (Inr wire, ms\<lparr>cipher := fc\<rparr>)))"

definition send_message :: "'c frame_lib \<Rightarrow> snappy_lib \<Rightarrow> rlpx_message \<Rightarrow> 'c message_stream \<Rightarrow> (session_error + unit) \<times> 'c message_stream" where
  "send_message L S m ms =
     (case message_frame L S m ms of
        (Inl e, ms) \<Rightarrow> (Inl e, ms)
      | (Inr wire, ms) \<Rightarrow> let (r, t) = write_all wire (transport ms) in (r, ms\<lparr>transport := t\<rparr>))"

definition send_frame :: "'c frame_lib \<Rightarrow> bytes \<Rightarrow> 'c message_stream \<Rightarrow> (framing_error + unit) \<times> 'c message_stream" where
  "send_frame L frame_data ms =
     (case encrypt_frame L frame_data (cipher ms) of
        (Inl e, fc) \<Rightarrow> (Inl e, ms\<lparr>cipher := fc\<rparr>)
      | (Inr wire, fc) \<Rightarrow>
          let (r, t) = write_all wire (transport ms)
          in (fail_as kEncryptionFailed r, ms\<lparr>cipher := fc, transport := t\<rparr>))"

definition receive_frame :: "'c frame_lib \<Rightarrow> 'c message_stream \<Rightarrow> (framing_error + bytes) \<times> 'c message_stream" where
  "receive_frame L ms =
     (case read_exact 32 (transport ms) of
        (Inl _, t) \<Rightarrow> (Inr [], ms\<lparr>transport := t\<rparr>)
      | (Inr header_data, t) \<Rightarrow>
          (case decrypt_header L (take 16 header_data) (drop 16 header_data) (cipher ms) of
             (Inl _, fc) \<Rightarrow> (Inr [], ms\<lparr>cipher := fc, transport := t\<rparr>)
           | (Inr frame_size, fc) \<Rightarrow>
               let padded_size = frame_size + frame_padding frame_size
               in (case read_exact (padded_size + 16) t of
                     (Inl _, t) \<Rightarrow> (Inr [], ms\<lparr>cipher := fc, transport := t\<rparr>)
                   | (Inr frame_data, t) \<Rightarrow>
                       (case decrypt_frame_body L frame_size (take padded_size frame_data) (drop padded_size frame_data) fc of
                          (Inl _, fc) \<Rightarrow> (Inr [], ms\<lparr>cipher := fc, transport := t\<rparr>)
                        | (Inr plain, fc) \<Rightarrow> (Inr plain, ms\<lparr>cipher := fc, transport := t\<rparr>)))))"

definition decode_frame_message :: "snappy_lib \<Rightarrow> bool \<Rightarrow> bytes \<Rightarrow> session_error + rlpx_message" where
  "decode_frame_message S compressed frame_data =
     (case (read_integral \<lparr>view = frame_data\<rparr> :: decoding_error + (u64 \<times> rlp_decoder)) of
        Inl _ \<Rightarrow> Inl kInvalidMessage
      | Inr (mid, d) \<Rightarrow>
          let remaining_view = Remaining d
          in if compressed \<and> remaining_view \<noteq> [] then
               (case sn_uncompressed_length S remaining_view of
                  None \<Rightarrow> Inl kInvalidMessage
                | Some _ \<Rightarrow>
                    (case sn_raw_uncompress S remaining_view of
                       None \<Rightarrow> Inl kInvalidMessage
                     | Some payload \<Rightarrow> Inr \<lparr>msg_id = ucast mid, msg_payload = payload\<rparr>))
             else Inr \<lparr>msg_id = ucast mid, msg_payload = remaining_view\<rparr>)"

definition receive_message :: "'c frame_lib \<Rightarrow> snappy_lib \<Rightarrow> 'c message_stream \<Rightarrow> (session_error + rlpx_message) \<times> 'c message_stream" where
  "receive_message L S ms =
     (case receive_frame L ms of
        (Inl _, ms) \<Rightarrow> (Inl kInvalidMessage, ms)
      | (Inr frame_data, ms) \<Rightarrow>
          if frame_data = [] then (Inl kInvalidMessage, ms)
          else (decode_frame_message S (compression_enabled ms) frame_data, ms))"

section \<open>One message\<close>

definition snappy_laws :: "snappy_lib \<Rightarrow> bool" where
  "snappy_laws S \<longleftrightarrow> (\<forall>x. x \<noteq> [] \<longrightarrow> sn_compress S x \<noteq> [] \<and> sn_raw_uncompress S (sn_compress S x) = Some x \<and>
     sn_uncompressed_length S (sn_compress S x) = Some (length x))"

definition message_data :: "snappy_lib \<Rightarrow> bool \<Rightarrow> rlpx_message \<Rightarrow> bytes" where
  "message_data S cmp m = rlp_encode (RUint (unat (msg_id m))) @ payload_part S cmp (msg_payload m)"

lemma get_encoded_id [simp]: "get_encoded (add_u8 b) = Inr (rlp_encode (RUint (unat b)))"
  by (rule get_encoded_eq) simp

lemma message_data_not_Nil [simp]: "message_data S cmp m \<noteq> []"
  by (simp add: message_data_def)

lemma decode_message_data:
  assumes "snappy_laws S"
  shows "decode_frame_message S cmp (message_data S cmp m) = Inr m"
  using assms by (cases m) (auto simp: decode_frame_message_def message_data_def payload_part_def snappy_laws_def Remaining_def)

text \<open>\<open>delivers\<close>: a stream whose receiving side is in the first state reads the message from the bytes and is then in the second
  state; while only a part of the bytes has arrived it reads nothing.\<close>

definition delivers :: "'c frame_lib \<Rightarrow> snappy_lib \<Rightarrow> bool \<Rightarrow> 'c \<times> hash_mac \<Rightarrow> bytes \<Rightarrow> rlpx_message \<Rightarrow> 'c \<times> hash_mac \<Rightarrow> bool" where
  "delivers L S cmp st w m st' \<longleftrightarrow>
     (\<forall>ms. (dec (cipher ms), ingress_mac (cipher ms)) = st \<and> compression_enabled ms = cmp \<and> is_open (transport ms) \<longrightarrow>
       (\<forall>rest. incoming (transport ms) = w @ rest \<longrightarrow>
          receive_message L S ms = (Inr m, ms\<lparr>cipher := (cipher ms)\<lparr>dec := fst st', ingress_mac := snd st'\<rparr>,
            transport := (transport ms)\<lparr>incoming := rest\<rparr>\<rparr>)) \<and>
       (strict_prefix (incoming (transport ms)) w \<longrightarrow> (\<exists>e ms'. receive_message L S ms = (Inl e, ms'))))"

lemma receive_sent:
  fixes a :: "'c frame_cipher"
  assumes "snappy_laws S" "length hct = 16" "length hm = 16" "length fct = n + frame_padding n" "length fm = 16"
    "data = message_data S cmp m" "n = length data"
    "\<And>b. linked a b \<Longrightarrow> \<exists>bh. decrypt_header L hct hm b = (Inr n, bh) \<and>
       decrypt_frame_body L n fct fm bh = (Inr data, b\<lparr>dec := e, ingress_mac := em\<rparr>)"
  shows "delivers L S cmp (enc a, egress_mac a) (hct @ hm @ fct @ fm) m (e, em)"
  unfolding delivers_def
proof (intro allI impI, elim conjE)
  fix ms :: "'c message_stream"
  assume st: "(dec (cipher ms), ingress_mac (cipher ms)) = (enc a, egress_mac a)" "compression_enabled ms = cmp" "is_open (transport ms)"
  let ?t = "transport ms" and ?w = "hct @ hm @ fct @ fm"
  obtain bh where b: "decrypt_header L hct hm (cipher ms) = (Inr n, bh)"
    "decrypt_frame_body L n fct fm bh = (Inr data, (cipher ms)\<lparr>dec := e, ingress_mac := em\<rparr>)"
    using assms(8) [of "cipher ms"] st(1) by (auto simp: linked_def)
  have "receive_message L S ms = (Inr m, ms\<lparr>cipher := (cipher ms)\<lparr>dec := fst (e, em), ingress_mac := snd (e, em)\<rparr>,
      transport := ?t\<lparr>incoming := rest\<rparr>\<rparr>)" if "incoming ?t = ?w @ rest" for rest
    using that assms b st decode_message_data [OF assms(1)] by (simp add: receive_message_def receive_frame_def read_exact_def Let_def)
  moreover have "\<exists>e ms'. receive_message L S ms = (Inl e, ms')" if short: "strict_prefix (incoming ?t) ?w"
  proof (cases "32 \<le> length (incoming ?t)")
    case True
    obtain c z where z: "?w = incoming ?t @ c # z" using short by (rule strict_prefixE')
    have "take 32 (incoming ?t) = take 32 ?w" using True by (simp add: z)
    then have "take 32 (incoming ?t) = hct @ hm" using assms(2,3) by simp
    moreover have "length (incoming ?t) < 32 + (n + frame_padding n + 16)"
      using arg_cong [OF z, of length] assms(2-5) by simp
    ultimately show ?thesis using True b st assms(2,3) by (auto simp: receive_message_def receive_frame_def read_exact_def Let_def)
  qed (use st in \<open>auto simp: receive_message_def receive_frame_def read_exact_def\<close>)
  ultimately show "(\<forall>rest. incoming ?t = ?w @ rest \<longrightarrow> receive_message L S ms = (Inr m, ms\<lparr>cipher := (cipher ms)\<lparr>dec := fst (e, em),
      ingress_mac := snd (e, em)\<rparr>, transport := ?t\<lparr>incoming := rest\<rparr>\<rparr>)) \<and>
    (strict_prefix (incoming ?t) ?w \<longrightarrow> (\<exists>e ms'. receive_message L S ms = (Inl e, ms')))" by blast
qed

lemma frame_delivers:
  assumes "frame_lib_laws L" "snappy_laws S" "length (message_data S (compression_enabled ms) m) < 2 ^ 24"
  obtains w e em where "message_frame L S m ms = (Inr w, ms\<lparr>cipher := (cipher ms)\<lparr>enc := e, egress_mac := em\<rparr>\<rparr>)"
    "delivers L S (compression_enabled ms) (enc (cipher ms), egress_mac (cipher ms)) w m (e, em)"
proof -
  let ?a = "cipher ms" and ?data = "message_data S (compression_enabled ms) m"
  have small: "length ?data \<le> kMaxFrameSize" "length ?data mod 2 ^ 24 = length ?data" "length ?data \<noteq> 0"
    using assms(3) by (simp_all add: kMaxFrameSize_def)
  obtain hct hm fct fm a' where x: "encrypt_frame L ?data ?a = (Inr (hct @ hm @ fct @ fm), a')" "a' = ?a\<lparr>enc := enc a', egress_mac := egress_mac a'\<rparr>"
    "length hct = 16" "length hm = 16" "length fct = length ?data + frame_padding (length ?data)" "length fm = 16"
    "\<forall>b. linked ?a b \<longrightarrow> (\<exists>bh. decrypt_header L hct hm b =
         (let n = length ?data mod 2 ^ 24 in if n = 0 then Inl kFrameSizeInvalid else Inr n, bh) \<and>
       decrypt_frame_body L (length ?data) fct fm bh = (Inr ?data, b\<lparr>dec := enc a', ingress_mac := egress_mac a'\<rparr>))"
    by (rule encrypt_frame_parts [OF assms(1) message_data_not_Nil small(1), where a = ?a])
  have "delivers L S (compression_enabled ms) (enc ?a, egress_mac ?a) (hct @ hm @ fct @ fm) m (enc a', egress_mac a')"
    using x(7) small(2,3) by (intro receive_sent [OF assms(2) x(3-6) refl refl]) (simp add: Let_def)
  moreover have "message_frame L S m ms = (Inr (hct @ hm @ fct @ fm), ms\<lparr>cipher := ?a\<lparr>enc := enc a', egress_mac := egress_mac a'\<rparr>\<rparr>)"
    using x(1,2) small(1) by (simp add: message_frame_def message_data_def Let_def)
  ultimately show thesis by (rule that [rotated])
qed

lemma send_delivers:
  assumes "frame_lib_laws L" "snappy_laws S" "length (message_data S (compression_enabled ms) m) < 2 ^ 24"
    "is_open (transport ms)" "write_fault (transport ms) = None"
  obtains w e em where
    "send_message L S m ms = (Inr (), ms\<lparr>cipher := (cipher ms)\<lparr>enc := e, egress_mac := em\<rparr>,
       transport := (transport ms)\<lparr>outgoing := outgoing (transport ms) @ w\<rparr>\<rparr>)"
    "delivers L S (compression_enabled ms) (enc (cipher ms), egress_mac (cipher ms)) w m (e, em)"
proof (rule frame_delivers [OF assms(1-3)])
  fix w e em
  assume "message_frame L S m ms = (Inr w, ms\<lparr>cipher := (cipher ms)\<lparr>enc := e, egress_mac := em\<rparr>\<rparr>)"
    and d: "delivers L S (compression_enabled ms) (enc (cipher ms), egress_mac (cipher ms)) w m (e, em)"
  then show thesis using assms(4,5) by (intro that [OF _ d]) (simp add: send_message_def write_all_def)
qed

section \<open>Two connected streams\<close>

text \<open>
  Two ends of a connection, \<open>True\<close> and \<open>False\<close>. The network moves bytes from what one end has written to what the other can
  read, any number at a time. \<open>v5\<close> says whether both sides speak base protocol version 5: then, as in \<open>RlpxSession::connect\<close>,
  each end sends and receives one message (the Hello) without compression, enables compression, and goes on. Only messages of less
  than 16 MiB are sent: the length field of a frame has three bytes, while \<open>send_message\<close> lets 16 MiB pass. A read that fails for want
  of bytes is a read that still waits.
\<close>

record 'c link =
  end_at :: "bool \<Rightarrow> 'c message_stream"
  sent :: "bool \<Rightarrow> rlpx_message list"
  got :: "bool \<Rightarrow> rlpx_message list"

definition fresh_transport :: socket_transport where
  "fresh_transport = \<lparr>incoming = [], read_end = asio_eof, outgoing = [], write_fault = None, is_open = True\<rparr>"

definition mirrored :: "frame_secrets \<Rightarrow> frame_secrets \<Rightarrow> bool" where
  "mirrored s t \<longleftrightarrow> aes_secret s = aes_secret t \<and> mac_secret s = mac_secret t \<and>
     egress_mac_seed s = ingress_mac_seed t \<and> egress_mac_seed t = ingress_mac_seed s"

definition move_bytes :: "bool \<Rightarrow> nat \<Rightarrow> (bool \<Rightarrow> 'c message_stream) \<Rightarrow> bool \<Rightarrow> 'c message_stream" where
  "move_bytes s n e =
     (let out = outgoing (transport (e s)); inc = incoming (transport (e (\<not> s)))
      in e(s := (e s)\<lparr>transport := (transport (e s))\<lparr>outgoing := drop n out\<rparr>\<rparr>,
           \<not> s := (e (\<not> s))\<lparr>transport := (transport (e (\<not> s)))\<lparr>incoming := inc @ take n out\<rparr>\<rparr>))"

inductive link_run :: "'c frame_lib \<Rightarrow> snappy_lib \<Rightarrow> bool \<Rightarrow> 'c link \<Rightarrow> bool" for L S v5 where
  link_start: "mirrored (a True) (a False) \<Longrightarrow>
    link_run L S v5 \<lparr>end_at = (\<lambda>s. new_message_stream (new_frame_cipher L (a s)) fresh_transport), sent = (\<lambda>_. []), got = (\<lambda>_. [])\<rparr>"
| link_send: "link_run L S v5 w \<Longrightarrow> compression_enabled (end_at w s) = (v5 \<and> sent w s \<noteq> []) \<Longrightarrow>
    length (message_data S (compression_enabled (end_at w s)) m) < 2 ^ 24 \<Longrightarrow> send_message L S m (end_at w s) = (Inr (), e) \<Longrightarrow>
    link_run L S v5 (w\<lparr>end_at := (end_at w)(s := e), sent := (sent w)(s := sent w s @ [m])\<rparr>)"
| link_move: "link_run L S v5 w \<Longrightarrow> link_run L S v5 (w\<lparr>end_at := move_bytes s n (end_at w)\<rparr>)"
| link_receive: "link_run L S v5 w \<Longrightarrow> compression_enabled (end_at w s) = (v5 \<and> got w s \<noteq> []) \<Longrightarrow>
    receive_message L S (end_at w s) = (Inr m, e) \<Longrightarrow>
    link_run L S v5 (w\<lparr>end_at := (end_at w)(s := e), got := (got w)(s := got w s @ [m])\<rparr>)"
| link_enable: "link_run L S v5 w \<Longrightarrow> link_run L S v5 (w\<lparr>end_at := (end_at w)(s := enable_compression (end_at w s))\<rparr>)"

abbreviation (input) rx :: "'c message_stream \<Rightarrow> 'c \<times> hash_mac" where
  "rx ms \<equiv> (dec (cipher ms), ingress_mac (cipher ms))"

abbreviation (input) tx :: "'c message_stream \<Rightarrow> 'c \<times> hash_mac" where
  "tx ms \<equiv> (enc (cipher ms), egress_mac (cipher ms))"

fun in_flight :: "'c frame_lib \<Rightarrow> snappy_lib \<Rightarrow> bool \<Rightarrow> nat \<Rightarrow> 'c \<times> hash_mac \<Rightarrow> bytes \<Rightarrow> rlpx_message list \<Rightarrow> 'c \<times> hash_mac \<Rightarrow> bool" where
  "in_flight L S v5 k st bs [] st' \<longleftrightarrow> bs = [] \<and> st = st'"
| "in_flight L S v5 k st bs (m # ms) st' \<longleftrightarrow>
     (\<exists>w st1 rest. bs = w @ rest \<and> delivers L S (v5 \<and> 0 < k) st w m st1 \<and> in_flight L S v5 (Suc k) st1 rest ms st')"

lemma in_flight_snoc:
  assumes "in_flight L S v5 k st bs ms st1" "delivers L S (v5 \<and> 0 < k + length ms) st1 w m st2"
  shows "in_flight L S v5 k st (bs @ w) (ms @ [m]) st2"
  using assms
proof (induction ms arbitrary: k st bs)
  case (Cons x xs)
  then obtain u st' rest where "bs = u @ rest" "delivers L S (v5 \<and> 0 < k) st u x st'" "in_flight L S v5 (Suc k) st' rest xs st1" by auto
  moreover have "in_flight L S v5 (Suc k) st' (rest @ w) (xs @ [m]) st2"
    using Cons.IH [of "Suc k" st' rest] Cons.prems(2) \<open>in_flight L S v5 (Suc k) st' rest xs st1\<close> by simp
  moreover have "bs @ w = u @ rest @ w" using \<open>bs = u @ rest\<close> by simp
  ultimately show ?case unfolding append_Cons in_flight.simps by blast
qed (cases st2, simp)

definition link_inv :: "'c frame_lib \<Rightarrow> snappy_lib \<Rightarrow> bool \<Rightarrow> 'c link \<Rightarrow> bool \<Rightarrow> bool" where
  "link_inv L S v5 w s \<longleftrightarrow> is_open (transport (end_at w s)) \<and> write_fault (transport (end_at w s)) = None \<and>
     (\<exists>p. sent w (\<not> s) = got w s @ p \<and>
        in_flight L S v5 (length (got w s)) (rx (end_at w s))
          (incoming (transport (end_at w s)) @ outgoing (transport (end_at w (\<not> s)))) p (tx (end_at w (\<not> s))))"

lemma waiting_receive: "incoming (transport ms) = [] \<Longrightarrow> \<exists>e ms'. receive_message L S ms = (Inl e, ms')"
  by (auto simp: receive_message_def receive_frame_def read_exact_def)

lemma in_flight_receive:
  assumes "in_flight L S v5 k (rx ms) (incoming (transport ms) @ z) p st'" "receive_message L S ms = (Inr m, ms')"
    "compression_enabled ms = (v5 \<and> 0 < k)" "is_open (transport ms)"
  obtains p' st1 rest where "p = m # p'" "in_flight L S v5 (Suc k) st1 (rest @ z) p' st'"
    "ms' = ms\<lparr>cipher := (cipher ms)\<lparr>dec := fst st1, ingress_mac := snd st1\<rparr>, transport := (transport ms)\<lparr>incoming := rest\<rparr>\<rparr>"
proof (cases p)
  case Nil
  then show thesis using assms(1,2) waiting_receive [of ms L S] by auto
next
  case (Cons x p')
  with assms(1) obtain w st1 rest where w: "incoming (transport ms) @ z = w @ rest" "delivers L S (v5 \<and> 0 < k) (rx ms) w x st1"
    "in_flight L S v5 (Suc k) st1 rest p' st'" by auto
  have d: "\<And>r. incoming (transport ms) = w @ r \<Longrightarrow> receive_message L S ms =
      (Inr x, ms\<lparr>cipher := (cipher ms)\<lparr>dec := fst st1, ingress_mac := snd st1\<rparr>, transport := (transport ms)\<lparr>incoming := r\<rparr>\<rparr>)"
    "\<not> strict_prefix (incoming (transport ms)) w"
    using w(2) assms(2-4) by (auto simp: delivers_def)
  from w(1) d(2) obtain r where r: "incoming (transport ms) = w @ r" "rest = r @ z"
    by (auto simp: append_eq_append_conv2 strict_prefix_def prefix_def)
  show thesis using d(1) [OF r(1)] assms(2) w(3) r(2) Cons by (intro that [of p' st1 r]) auto
qed

lemma link_inv_reachable:
  assumes "frame_lib_laws L" "snappy_laws S" "link_run L S v5 w"
  shows "link_inv L S v5 w s"
  using assms(3)
proof (induction arbitrary: s)
  case (link_start a)
  then show ?case
    by (cases s) (simp_all add: link_inv_def new_message_stream_def fresh_transport_def mirrored_def new_frame_cipher_def mac_write_def)
next
  case (link_send w t m e)
  note inv = link_send.IH [of t] link_send.IH [of "\<not> t"]
  obtain u x em where u: "e = (end_at w t)\<lparr>cipher := (cipher (end_at w t))\<lparr>enc := x, egress_mac := em\<rparr>,
      transport := (transport (end_at w t))\<lparr>outgoing := outgoing (transport (end_at w t)) @ u\<rparr>\<rparr>"
    "delivers L S (compression_enabled (end_at w t)) (tx (end_at w t)) u m (x, em)"
    using send_delivers [OF assms(1,2) link_send.hyps(3), of thesis] inv link_send.hyps(4) by (auto simp: link_inv_def)
  show ?case
  proof (cases "s = t")
    case True
    then show ?thesis using inv(1) u(1) by (simp add: link_inv_def)
  next
    case False
    then have [simp]: "s = (\<not> t)" by simp
    obtain p where p: "sent w t = got w (\<not> t) @ p" "in_flight L S v5 (length (got w (\<not> t))) (rx (end_at w (\<not> t)))
        (incoming (transport (end_at w (\<not> t))) @ outgoing (transport (end_at w t))) p (tx (end_at w t))"
      using inv(2) by (auto simp: link_inv_def)
    have "sent w t \<noteq> [] \<longleftrightarrow> 0 < length (got w (\<not> t)) + length p" by (simp add: p(1))
    then show ?thesis
      using inv(2) p(1) u(1) in_flight_snoc [OF p(2), of u m "(x, em)"] u(2) link_send.hyps(2) by (simp add: link_inv_def)
  qed
next
  case (link_move w t n)
  from link_move.IH [of s] show ?case by (cases s; cases t) (simp_all add: link_inv_def move_bytes_def Let_def)
next
  case (link_receive w t m e)
  note inv = link_receive.IH [of t] link_receive.IH [of "\<not> t"]
  obtain p where p: "sent w (\<not> t) = got w t @ p" "in_flight L S v5 (length (got w t)) (rx (end_at w t))
      (incoming (transport (end_at w t)) @ outgoing (transport (end_at w (\<not> t)))) p (tx (end_at w (\<not> t)))"
    using inv(1) by (auto simp: link_inv_def)
  obtain p' st1 rest where q: "p = m # p'" "in_flight L S v5 (Suc (length (got w t))) st1 (rest @ outgoing (transport (end_at w (\<not> t)))) p' (tx (end_at w (\<not> t)))"
    "e = (end_at w t)\<lparr>cipher := (cipher (end_at w t))\<lparr>dec := fst st1, ingress_mac := snd st1\<rparr>,
       transport := (transport (end_at w t))\<lparr>incoming := rest\<rparr>\<rparr>"
    by (rule in_flight_receive [OF p(2) link_receive.hyps(3)]) (use link_receive.hyps(2) inv(1) in \<open>simp_all add: link_inv_def\<close>)
  show ?case
  proof (cases "s = t")
    case True
    then show ?thesis using inv(1) p(1) q by (simp add: link_inv_def)
  next
    case False
    then have [simp]: "s = (\<not> t)" by simp
    show ?thesis using inv(2) q(3) by (simp add: link_inv_def)
  qed
next
  case (link_enable w t)
  from link_enable.IH [of s] show ?case by (cases s; cases t) (simp_all add: link_inv_def enable_compression_def)
qed

section \<open>Properties\<close>

text \<open>C4. Two ends with mirrored secrets understand each other: whatever both send in frames of less than 16 MiB and however the network
  cuts the bytes, each end has received the
  messages of the other in order, unchanged and none twice; and when all bytes have arrived, the next message not yet
  received is the one the next read returns.\<close>

theorem messages_arrive_in_order:
  assumes "frame_lib_laws L" "snappy_laws S" "link_run L S v5 w"
  shows "\<exists>p. sent w (\<not> s) = got w s @ p \<and>
    (p \<noteq> [] \<and> outgoing (transport (end_at w (\<not> s))) = [] \<and> compression_enabled (end_at w s) = (v5 \<and> got w s \<noteq> []) \<longrightarrow>
       fst (receive_message L S (end_at w s)) = Inr (hd p))"
proof -
  obtain p where p: "sent w (\<not> s) = got w s @ p" "in_flight L S v5 (length (got w s)) (rx (end_at w s))
      (incoming (transport (end_at w s)) @ outgoing (transport (end_at w (\<not> s)))) p (tx (end_at w (\<not> s)))" "is_open (transport (end_at w s))"
    using link_inv_reachable [OF assms, of s] by (auto simp: link_inv_def)
  have "fst (receive_message L S (end_at w s)) = Inr (hd p)"
    if "p \<noteq> []" "outgoing (transport (end_at w (\<not> s))) = []" "compression_enabled (end_at w s) = (v5 \<and> got w s \<noteq> [])"
    using that p(2,3) by (cases p) (auto simp: delivers_def)
  then show ?thesis using p(1) by blast
qed

definition sample_snappy :: snappy_lib where
  "sample_snappy = \<lparr>sn_compress = (\<lambda>x. x), sn_uncompressed_length = (\<lambda>x. Some (length x)), sn_raw_uncompress = Some\<rparr>"

lemma sample_snappy_laws: "snappy_laws sample_snappy"
  by (simp add: snappy_laws_def sample_snappy_def)

definition sample_ends :: "bool \<Rightarrow> nat message_stream" where
  "sample_ends s = new_message_stream (new_frame_cipher counting_lib (if s then sample_secrets [7] [8] else sample_secrets [8] [7])) fresh_transport"

definition sample_ping :: rlpx_message where
  "sample_ping = \<lparr>msg_id = 2, msg_payload = [0xC0]\<rparr>"

definition after_send :: "bool \<Rightarrow> nat message_stream" where
  "after_send = sample_ends(True := snd (send_message counting_lib sample_snappy sample_ping (sample_ends True)))"

lemma sample_link:
  "link_run counting_lib sample_snappy True \<lparr>end_at = move_bytes True (length (outgoing (transport (after_send True)))) after_send,
     sent = (\<lambda>_. [])(True := [sample_ping]), got = (\<lambda>_. [])\<rparr>"
proof -
  have "mirrored (sample_secrets [7] [8]) (sample_secrets [8] [7])" by (simp add: mirrored_def sample_secrets_def)
  then have "link_run counting_lib sample_snappy True \<lparr>end_at = sample_ends, sent = (\<lambda>_. []), got = (\<lambda>_. [])\<rparr>"
    using link_start [of "\<lambda>s. if s then sample_secrets [7] [8] else sample_secrets [8] [7]" counting_lib] by (simp add: sample_ends_def [abs_def])
  moreover have len: "length (message_data sample_snappy (compression_enabled (sample_ends True)) sample_ping) < 2 ^ 24"
    by (simp add: message_data_def sample_snappy_def sample_ends_def new_message_stream_def sample_ping_def payload_part_def RUint_def
        nat_to_be.simps rlp_encode_simps rlp_str_def)
  moreover obtain e where "send_message counting_lib sample_snappy sample_ping (sample_ends True) = (Inr (), e)"
    by (rule send_delivers [OF counting_lib_laws sample_snappy_laws len]) (auto simp: sample_ends_def new_message_stream_def fresh_transport_def)
  ultimately have "link_run counting_lib sample_snappy True \<lparr>end_at = after_send, sent = (\<lambda>_. [])(True := [sample_ping]), got = (\<lambda>_. [])\<rparr>"
    using link_send [of counting_lib sample_snappy True "\<lparr>end_at = sample_ends, sent = (\<lambda>_. []), got = (\<lambda>_. [])\<rparr>" True sample_ping]
    by (simp add: after_send_def sample_ends_def new_message_stream_def)
  from link_move [OF this] show ?thesis by simp
qed

theorem messages_arrive_in_order_witness:
  "fst (receive_message counting_lib sample_snappy (move_bytes True (length (outgoing (transport (after_send True)))) after_send False)) = Inr sample_ping"
  using messages_arrive_in_order [OF counting_lib_laws sample_snappy_laws sample_link, of False]
  by (simp add: move_bytes_def after_send_def sample_ends_def new_message_stream_def Let_def)

text \<open>The message id on the wire is a 64-bit number of which only the low byte is kept: a frame with the id 256 times k plus i is taken for message
  i of the base protocol or of eth, instead of being refused.\<close>

theorem wide_message_id_aliases:
  assumes "n < 2 ^ 64"
  shows "decode_frame_message S False (rlp_encode (RUint n) @ payload) = Inr \<lparr>msg_id = word_of_nat (n mod 256), msg_payload = payload\<rparr>"
proof -
  have "unat (word_of_nat n :: u64) = n" using assms by (simp add: unat_of_nat)
  then have "(ucast (word_of_nat n :: u64) :: u8) = word_of_nat n" by (simp add: ucast_byte_of_nat)
  moreover have "(word_of_nat n :: u8) = word_of_nat (n mod 256)" by (simp add: word_of_nat_eq_iff take_bit_eq_mod)
  ultimately show ?thesis using assms by (simp add: decode_frame_message_def read_integral_RUint Remaining_def)
qed

theorem wide_message_id_aliases_witness:
  "decode_frame_message sample_snappy False (rlp_encode (RUint 256) @ [0xC0]) = Inr \<lparr>msg_id = 0, msg_payload = [0xC0]\<rparr>"
  using wide_message_id_aliases [of 256 sample_snappy "[0xC0]"] by simp

end
