(* ===== verification/Auth_Handshake.thy ===== *)
theory Auth_Handshake
  imports Ecies_Cipher Message_Stream
begin

text \<open>
  The RLPx handshake of src/rlpx/auth/auth_handshake.cpp: the auth and ack packets, the exchange of both roles over the transport and the
  derivation of the frame secrets. What uninitialised members hold is an argument (\<open>junk\<close>), and so are the random bytes.
\<close>

section \<open>State\<close>

record auth_key_material =
  peer_public_key :: bytes
  peer_ephemeral_public_key :: bytes
  local_ephemeral_public_key :: bytes
  local_ephemeral_private_key :: bytes
  initiator_nonce :: bytes
  recipient_nonce :: bytes
  initiator_auth_message :: bytes
  recipient_ack_message :: bytes

record handshake_config =
  local_public_key :: bytes
  local_private_key :: bytes
  config_client_id :: string
  config_listen_port :: u16
  config_peer_public_key :: "bytes option"

record handshake_random =
  hr_keypair :: "nat \<Rightarrow> bytes option"
  hr_nonce :: "bytes option"
  hr_padding :: bytes
  hr_ecies :: ecies_random

record ('pk, 'sg) auth_lib =
  al_ecdh :: "('pk, 'sg) ecdh_lib"
  al_ssl :: ecies_ssl
  al_keccak256 :: "bytes \<Rightarrow> bytes"

record handshake_result =
  hs_key_material :: auth_key_material
  hs_frame_secrets :: frame_secrets

section \<open>Packets\<close>

definition len_prefix :: "nat \<Rightarrow> bytes" where
  "len_prefix n = (let v = word_of_nat n :: u16 in [ucast (drop_bit 8 v), ucast (v AND 0xFF)])"

definition prefix_length :: "bytes \<Rightarrow> nat" where
  "prefix_length len_bytes = (push_bit 8 (unat (len_bytes ! 0)) OR unat (len_bytes ! 1))"

definition auth_body :: "bytes \<Rightarrow> bytes \<Rightarrow> bytes \<Rightarrow> auth_error + bytes" where
  "auth_body signature pub nonce =
     fail_as kSignatureInvalid (get_encoded (list_of [add_bytes signature, add_bytes pub, add_bytes nonce, add_u64 4]))"

definition create_auth_message ::
    "('pk, 'sg) auth_lib \<Rightarrow> bytes \<Rightarrow> ecies_random \<Rightarrow> bytes \<Rightarrow> bytes \<Rightarrow> bytes \<Rightarrow> bytes \<Rightarrow> bytes \<Rightarrow> (auth_error + bytes) option" where
  "create_auth_message lib padding rnd priv pub ephemeral_private_key nonce remote_public_key =
     (if \<not> context_create (ed_secp (al_ecdh lib)) then Some (Inl kSignatureInvalid)
      else (case compute_shared_secret (al_ecdh lib) remote_public_key priv of
          Inl _ \<Rightarrow> Some (Inl kSharedSecretFailed)
        | Inr token \<Rightarrow>
            (case ecdsa_sign_recoverable (ed_secp (al_ecdh lib)) (map2 (XOR) token nonce) ephemeral_private_key of
               None \<Rightarrow> Some (Inl kSignatureInvalid)
             | Some sig \<Rightarrow>
                 (case signature_serialize_compact (ed_secp (al_ecdh lib)) sig of
                    (sig_compact, recid) \<Rightarrow>
                      (case auth_body (sig_compact @ [word_of_nat recid]) pub nonce of
                         Inl e \<Rightarrow> Some (Inl e)
                       | Inr rlp \<Rightarrow>
                           let rlp_body = rlp @ padding
                           in ecies_encrypt (al_ecdh lib) (al_ssl lib) rnd rlp_body remote_public_key (len_prefix (length rlp_body + 113)))))))"

definition parse_auth_message :: "('pk, 'sg) auth_lib \<Rightarrow> auth_key_material \<Rightarrow> bytes \<Rightarrow> bytes \<Rightarrow> bytes \<Rightarrow> auth_error + auth_key_material" where
  "parse_auth_message lib junk encrypted_auth priv shared_mac_data =
     outcome_try (ecies_decrypt (al_ecdh lib) (al_ssl lib) encrypted_auth priv shared_mac_data) (\<lambda>body.
     if length body < 65 + 32 + 64 + 32 + 1 then Inl kInvalidAuthMessage
     else Inr (junk\<lparr>peer_public_key := take 64 (drop (65 + 32) body), initiator_nonce := take 32 (drop (65 + 32 + 64) body),
                    initiator_auth_message := body\<rparr>))"

definition create_ack_message :: "('pk, 'sg) auth_lib \<Rightarrow> ecies_random \<Rightarrow> bytes \<Rightarrow> bytes \<Rightarrow> bytes \<Rightarrow> (auth_error + bytes) option" where
  "create_ack_message lib rnd ephemeral_public_key nonce remote_public_key =
     ecies_encrypt (al_ecdh lib) (al_ssl lib) rnd (ephemeral_public_key @ nonce @ [4]) remote_public_key []"

definition parse_ack_message :: "('pk, 'sg) auth_lib \<Rightarrow> bytes \<Rightarrow> bytes \<Rightarrow> bytes \<Rightarrow> auth_key_material \<Rightarrow> auth_error + auth_key_material" where
  "parse_ack_message lib encrypted_ack priv shared_mac_data keys =
     outcome_try (ecies_decrypt (al_ecdh lib) (al_ssl lib) encrypted_ack priv shared_mac_data) (\<lambda>ack_plain.
     outcome_try (fail_as kInvalidAckMessage (ReadListHeaderBytes \<lparr>view = ack_plain\<rparr>)) (\<lambda>(_, d).
     outcome_try (fail_as kInvalidAckMessage (read_bytes d)) (\<lambda>(pubkey_bytes, d).
     if length pubkey_bytes \<noteq> 64 then Inl kInvalidAckMessage else
     outcome_try (fail_as kInvalidAckMessage (read_bytes d)) (\<lambda>(nonce_bytes, _).
     if length nonce_bytes \<noteq> 32 then Inl kInvalidAckMessage
     else Inr (keys\<lparr>peer_ephemeral_public_key := pubkey_bytes, recipient_nonce := nonce_bytes\<rparr>)))))"

section \<open>Frame secrets\<close>

definition mac_seed_bytes :: "bytes \<Rightarrow> bytes \<Rightarrow> bytes \<Rightarrow> bytes" where
  "mac_seed_bytes mac nonce msg = map2 (XOR) mac nonce @ msg"

definition derive_frame_secrets :: "('pk, 'sg) auth_lib \<Rightarrow> bytes \<times> bytes \<Rightarrow> auth_key_material \<Rightarrow> bool \<Rightarrow> frame_secrets" where
  "derive_frame_secrets lib junk keys is_initiator =
     (case compute_shared_secret (al_ecdh lib) (peer_ephemeral_public_key keys) (local_ephemeral_private_key keys) of
        Inl _ \<Rightarrow> \<lparr>aes_secret = fst junk, mac_secret = snd junk, egress_mac_seed = [], ingress_mac_seed = []\<rparr>
      | Inr ecdhe_secret \<Rightarrow>
          let keccak256 = al_keccak256 lib;
              nonce_hash = keccak256 (recipient_nonce keys @ initiator_nonce keys);
              shared_secret = keccak256 (ecdhe_secret @ nonce_hash);
              aes = keccak256 (ecdhe_secret @ shared_secret);
              mac = keccak256 (ecdhe_secret @ aes);
              auth_seed = mac_seed_bytes mac (recipient_nonce keys) (initiator_auth_message keys);
              ack_seed = mac_seed_bytes mac (initiator_nonce keys) (recipient_ack_message keys)
          in if is_initiator then \<lparr>aes_secret = aes, mac_secret = mac, egress_mac_seed = auth_seed, ingress_mac_seed = ack_seed\<rparr>
             else \<lparr>aes_secret = aes, mac_secret = mac, egress_mac_seed = ack_seed, ingress_mac_seed = auth_seed\<rparr>)"

section \<open>Exchange\<close>

definition read_packet :: "socket_transport \<Rightarrow> (session_error + (bytes \<times> bytes)) \<times> socket_transport" where
  "read_packet t =
     (case read_exact 2 t of
        (Inl _, t) \<Rightarrow> (Inl kAuthenticationFailed, t)
      | (Inr len_bytes, t) \<Rightarrow>
          if 2048 < prefix_length len_bytes then (Inl kAuthenticationFailed, t)
          else (case read_exact (prefix_length len_bytes) t of
              (Inl _, t) \<Rightarrow> (Inl kAuthenticationFailed, t)
            | (Inr body, t) \<Rightarrow> (Inr (len_bytes, body), t)))"

definition initiator_exchange :: "('pk, 'sg) auth_lib \<Rightarrow> handshake_config \<Rightarrow> bytes \<Rightarrow> handshake_random \<Rightarrow> auth_key_material \<Rightarrow>
    socket_transport \<Rightarrow> ((session_error + auth_key_material) \<times> socket_transport) option" where
  "initiator_exchange lib cfg peer rnd km t =
     map_option (\<lambda>auth_msg.
       case auth_msg of
         Inl _ \<Rightarrow> (Inl kAuthenticationFailed, t)
       | Inr auth_ciphertext \<Rightarrow>
           let auth_wire = len_prefix (length auth_ciphertext) @ auth_ciphertext;
               km = km\<lparr>initiator_auth_message := auth_wire\<rparr>
           in (case write_all auth_wire t of
                 (Inl _, t) \<Rightarrow> (Inl kAuthenticationFailed, t)
               | (Inr _, t) \<Rightarrow>
                   (case read_packet t of
                      (Inl e, t) \<Rightarrow> (Inl e, t)
                    | (Inr (len_bytes, ack), t) \<Rightarrow>
                        let km = km\<lparr>recipient_ack_message := len_bytes @ ack\<rparr>
                        in (case parse_ack_message lib ack (local_private_key cfg) len_bytes km of
                              Inl _ \<Rightarrow> (Inl kAuthenticationFailed, t)
                            | Inr km \<Rightarrow> (Inr (km\<lparr>peer_public_key := peer\<rparr>), t)))))
       (create_auth_message lib (hr_padding rnd) (hr_ecies rnd) (local_private_key cfg) (local_public_key cfg)
          (local_ephemeral_private_key km) (initiator_nonce km) peer)"

definition responder_exchange :: "('pk, 'sg) auth_lib \<Rightarrow> handshake_config \<Rightarrow> handshake_random \<Rightarrow> auth_key_material \<Rightarrow> auth_key_material \<Rightarrow>
    socket_transport \<Rightarrow> ((session_error + auth_key_material) \<times> socket_transport) option" where
  "responder_exchange lib cfg rnd junk km t =
     (case read_packet t of
        (Inl e, t) \<Rightarrow> Some (Inl e, t)
      | (Inr (len_bytes, auth), t) \<Rightarrow>
          (case parse_auth_message lib junk auth (local_private_key cfg) len_bytes of
             Inl _ \<Rightarrow> Some (Inl kAuthenticationFailed, t)
           | Inr parsed \<Rightarrow>
               let parsed = parsed\<lparr>initiator_auth_message := auth, local_ephemeral_public_key := local_ephemeral_public_key km,
                     local_ephemeral_private_key := local_ephemeral_private_key km, recipient_nonce := recipient_nonce km\<rparr>
               in map_option (\<lambda>ack_msg.
                    case ack_msg of
                      Inl _ \<Rightarrow> (Inl kAuthenticationFailed, t)
                    | Inr ack_bytes \<Rightarrow>
                        (case write_all (len_prefix (length ack_bytes) @ ack_bytes) t of
                           (Inl _, t) \<Rightarrow> (Inl kAuthenticationFailed, t)
                         | (Inr _, t) \<Rightarrow> (Inr (parsed\<lparr>recipient_ack_message := ack_bytes\<rparr>), t)))
                    (create_ack_message lib (hr_ecies rnd) (local_ephemeral_public_key parsed) (recipient_nonce parsed) (peer_public_key parsed))))"

definition execute :: "('pk, 'sg) auth_lib \<Rightarrow> handshake_config \<Rightarrow> handshake_random \<Rightarrow> auth_key_material \<Rightarrow> bytes \<times> bytes \<Rightarrow>
    socket_transport \<Rightarrow> ((session_error + handshake_result) \<times> socket_transport) option" where
  "execute lib cfg rnd junk junk_secrets t =
     Option.bind (generate_ephemeral_keypair (al_ecdh lib) (hr_keypair rnd)) (\<lambda>kp.
       case kp of
         Inl _ \<Rightarrow> Some (Inl kAuthenticationFailed, t)
       | Inr keypair \<Rightarrow>
           (case hr_nonce rnd of
              None \<Rightarrow> Some (Inl kAuthenticationFailed, t)
            | Some local_nonce \<Rightarrow>
                let km = junk\<lparr>local_ephemeral_public_key := kp_public_key keypair, local_ephemeral_private_key := kp_private_key keypair\<rparr>
                in map_option (\<lambda>(r, t).
                     case r of
                       Inl e \<Rightarrow> (Inl e, t)
                     | Inr km \<Rightarrow> (Inr \<lparr>hs_key_material = km,
                         hs_frame_secrets = derive_frame_secrets lib junk_secrets km (config_peer_public_key cfg \<noteq> None)\<rparr>, t))
                     (case config_peer_public_key cfg of
                        Some peer \<Rightarrow> initiator_exchange lib cfg peer rnd (km\<lparr>initiator_nonce := local_nonce\<rparr>) t
                      | None \<Rightarrow> responder_exchange lib cfg rnd junk (km\<lparr>recipient_nonce := local_nonce\<rparr>) t)))"

section \<open>Packet lemmas\<close>

lemma length_len_prefix [simp]: "length (len_prefix n) = 2"
  by (simp add: len_prefix_def Let_def)

lemma prefix_length_len_prefix:
  assumes "n < 65536"
  shows "prefix_length (len_prefix n) = n"
proof -
  let ?v = "word_of_nat n :: u16"
  have v: "unat ?v = n" using assms by (simp add: unat_of_nat)
  have "unat (drop_bit 8 ?v) = drop_bit 8 (unat ?v)" by (rule unat_drop_bit_eq)
  then have "unat (drop_bit 8 ?v) = n div 256" unfolding v by (simp add: drop_bit_eq_div)
  moreover have "n div 256 < 256" using assms by simp
  ultimately have h: "unat (ucast (drop_bit 8 ?v) :: byte) = n div 256"
    unfolding ucast_byte_of_nat by (simp only: unat_of_nat_byte)
  have l: "unat (ucast (?v AND 0xFF) :: byte) = n mod 256"
    unfolding ucast_byte_and_mask unfolding ucast_byte_of_nat v by (simp add: unat_of_nat)
  show ?thesis
    using push_or_nat [of "n mod 256" 8 "n div 256"] h l by (simp add: prefix_length_def len_prefix_def Let_def)
qed

definition auth_items :: "bytes \<Rightarrow> bytes \<Rightarrow> bytes \<Rightarrow> rlp_item" where
  "auth_items sig pub nonce = RList [RStr sig, RStr pub, RStr nonce, RUint 4]"

lemma auth_body_eq:
  assumes "length sig = 65" "length pub = 64" "length nonce = 32"
  shows "auth_body sig pub nonce = Inr (rlp_encode (auth_items sig pub nonce))" "length (rlp_encode (auth_items sig pub nonce)) = 169"
proof -
  have r: "emits_item (add_u64 4) (RUint 4)" using emits_item_ints(4) [of 4] by simp
  have e: "rlp_encode (RStr sig) = 0xB8 # 65 # sig" "rlp_encode (RStr pub) = 0xB8 # 64 # pub" "rlp_encode (RStr nonce) = 0xA0 # nonce"
    "rlp_encode (RUint 4) = [4]"
    using assms by (simp_all add: rlp_encode_simps rlp_str_def rlp_prefix_def nat_to_be_single RUint_def)
  then show l: "length (rlp_encode (auth_items sig pub nonce)) = 169"
    using assms by (simp add: auth_items_def rlp_encode_simps rlp_list_def rlp_prefix_def nat_to_be_single)
  then have "fits (auth_items sig pub nonce)" by (simp add: fits_def)
  then show "auth_body sig pub nonce = Inr (rlp_encode (auth_items sig pub nonce))"
    using fits_RList_all [of "[RStr sig, RStr pub, RStr nonce, RUint 4]"] unfolding auth_body_def auth_items_def
    by (subst get_encoded_eq [OF emits_item_list_of]) (simp_all add: r)
qed

definition auth_laws :: "('pk, 'sg) auth_lib \<Rightarrow> bool" where
  "auth_laws lib \<longleftrightarrow> ecdh_laws (al_ecdh lib) \<and> ecies_laws (al_ssl lib)"

lemma created_auth:
  assumes "auth_laws lib" "draws_key (al_ecdh lib) rnd" "is_key_pair (al_ecdh lib) me" "is_key_pair (al_ecdh lib) remote"
    "ec_seckey_verify (ed_secp (al_ecdh lib)) eph" "length nonce = 32" "length padding = 100"
  obtains packet sig sg token where
    "create_auth_message lib padding rnd (kp_private_key me) (kp_public_key me) eph nonce (kp_public_key remote) = Some (Inr packet)"
    "length packet = 382" "compute_shared_secret (al_ecdh lib) (kp_public_key me) (kp_private_key remote) = Inr token"
    "ecies_decrypt (al_ecdh lib) (al_ssl lib) packet (kp_private_key remote) (len_prefix (length packet)) =
       Inr (rlp_encode (auth_items sig (kp_public_key me) nonce) @ padding)"
    "length sig = 65" "signature_parse_compact (ed_secp (al_ecdh lib)) (take 64 sig) (unat (sig ! 64)) = Some sg"
    "ecdsa_recover (ed_secp (al_ecdh lib)) sg (map2 (XOR) token nonce) = ec_pubkey_create (ed_secp (al_ecdh lib)) eph"
proof -
  let ?e = "al_ecdh lib"
  have laws: "ecdh_laws ?e" "ecies_laws (al_ssl lib)" "context_create (ed_secp ?e)" "secp256k1_laws (ed_secp ?e)"
    using assms(1) by (auto simp: auth_laws_def ecdh_laws_def)
  obtain token where token: "compute_shared_secret ?e (kp_public_key me) (kp_private_key remote) = Inr token"
    "compute_shared_secret ?e (kp_public_key remote) (kp_private_key me) = Inr token"
    by (rule shared_secret_agrees [OF laws(1) assms(3,4)])
  let ?h = "map2 (XOR) token nonce"
  obtain sg where sg: "ecdsa_sign_recoverable (ed_secp ?e) ?h eph = Some sg"
    using laws(4) assms(5) unfolding secp256k1_laws_def by blast
  obtain compact i where c: "signature_serialize_compact (ed_secp ?e) sg = (compact, i)" "length compact = 64" "i < 4"
    "signature_parse_compact (ed_secp ?e) compact i = Some sg" "ecdsa_recover (ed_secp ?e) sg ?h = ec_pubkey_create (ed_secp ?e) eph"
    using laws(4) assms(5) sg unfolding secp256k1_laws_def by metis
  let ?sig = "compact @ [word_of_nat i]" and ?pub = "kp_public_key me"
  have pub: "length ?pub = 64" using assms(3) by (auto simp: is_key_pair_def)
  have sig: "length ?sig = 65" "take 64 ?sig = compact" "unat (?sig ! 64) = i"
    using c(2,3) by (simp_all add: nth_append unat_of_nat)
  let ?plain = "rlp_encode (auth_items ?sig ?pub nonce) @ padding"
  have body: "auth_body ?sig ?pub nonce = Inr (rlp_encode (auth_items ?sig ?pub nonce))" "length ?plain + 113 = 382"
    using auth_body_eq [OF sig(1) pub assms(6)] assms(7) by simp_all
  obtain e z where e: "is_key_pair ?e e" "compute_shared_secret ?e (kp_public_key e) (kp_private_key remote) = Inr z"
    "ecies_encrypt ?e (al_ssl lib) rnd ?plain (kp_public_key remote) (len_prefix 382) =
       Some (Inr (ecies_seal (al_ssl lib) (0x04 # kp_public_key e) z (er_iv rnd) ?plain (len_prefix 382)))"
    by (rule ecies_encrypt_seals [OF laws(1) assms(2,4), of "al_ssl lib"]) blast
  let ?p = "ecies_seal (al_ssl lib) (0x04 # kp_public_key e) z (er_iv rnd) ?plain (len_prefix 382)"
  have iv: "length (kp_public_key e) = 64" "length (er_iv rnd) = 16" using e(1) assms(2) by (auto simp: is_key_pair_def draws_key_def)
  have p: "length ?p = 382" "ecies_decrypt ?e (al_ssl lib) ?p (kp_private_key remote) (len_prefix 382) = Inr ?plain"
    using ecies_decrypt_seal [OF laws(2) iv e(2)] body(2) by (simp_all add: estimate_encrypted_size_def Let_def)
  have "create_auth_message lib padding rnd (kp_private_key me) ?pub eph nonce (kp_public_key remote) = Some (Inr ?p)"
    using laws(3) token(2) sg c(1) body e(3) by (simp add: create_auth_message_def Let_def)
  from that [OF this p(1) token(1)] p sig c(4,5) show thesis by simp
qed

lemma parsed_ack:
  assumes "ecies_decrypt (al_ecdh lib) (al_ssl lib) ack priv d = Inr (rlp_encode (RList (RStr pub # RStr nonce # extra)) @ pad)"
    "length pub = 64" "length nonce = 32" "fits (RList (RStr pub # RStr nonce # extra))"
  shows "parse_ack_message lib ack priv d keys = Inr (keys\<lparr>peer_ephemeral_public_key := pub, recipient_nonce := nonce\<rparr>)"
  using assms fits_RList_all [OF assms(4)] by (simp add: parse_ack_message_def)

lemma secrets_mirrored:
  assumes "ecdh_laws (al_ecdh lib)" "is_key_pair (al_ecdh lib) a" "is_key_pair (al_ecdh lib) b"
    "local_ephemeral_private_key ki = kp_private_key a" "peer_ephemeral_public_key ki = kp_public_key b"
    "local_ephemeral_private_key kr = kp_private_key b" "peer_ephemeral_public_key kr = kp_public_key a"
    "initiator_nonce ki = initiator_nonce kr" "recipient_nonce ki = recipient_nonce kr"
    "initiator_auth_message ki = initiator_auth_message kr" "recipient_ack_message ki = recipient_ack_message kr"
  shows "mirrored (derive_frame_secrets lib j ki True) (derive_frame_secrets lib j' kr False)"
proof -
  obtain z where "compute_shared_secret (al_ecdh lib) (kp_public_key a) (kp_private_key b) = Inr z"
    "compute_shared_secret (al_ecdh lib) (kp_public_key b) (kp_private_key a) = Inr z"
    by (rule shared_secret_agrees [OF assms(1-3)])
  then show ?thesis using assms(4-) by (simp add: derive_frame_secrets_def mirrored_def Let_def)
qed

lemma read_packet_reads:
  assumes "is_open t" "incoming t = len_prefix (length p) @ p @ rest" "length p \<le> 2048"
  shows "read_packet t = (Inr (len_prefix (length p), p), t\<lparr>incoming := rest\<rparr>)"
  using assms by (simp add: read_packet_def read_exact_def prefix_length_len_prefix)

lemma initiator_completes:
  assumes "create_auth_message lib (hr_padding rnd) (hr_ecies rnd) (local_private_key cfg) (local_public_key cfg)
      (local_ephemeral_private_key km) (initiator_nonce km) peer = Some (Inr packet)"
    "is_open t" "write_fault t = None" "incoming t = len_prefix (length ack) @ ack @ rest" "length ack \<le> 2048"
    "\<And>km. parse_ack_message lib ack (local_private_key cfg) (len_prefix (length ack)) km =
       Inr (km\<lparr>peer_ephemeral_public_key := pub, recipient_nonce := nonce\<rparr>)"
  shows "initiator_exchange lib cfg peer rnd km t =
    Some (Inr (km\<lparr>peer_public_key := peer, peer_ephemeral_public_key := pub, recipient_nonce := nonce,
                 initiator_auth_message := len_prefix (length packet) @ packet, recipient_ack_message := len_prefix (length ack) @ ack\<rparr>),
          t\<lparr>incoming := rest, outgoing := outgoing t @ len_prefix (length packet) @ packet\<rparr>)"
proof -
  let ?t = "t\<lparr>outgoing := outgoing t @ len_prefix (length packet) @ packet\<rparr>"
  have "read_packet ?t = (Inr (len_prefix (length ack), ack), ?t\<lparr>incoming := rest\<rparr>)"
    using assms(2,4,5) by (intro read_packet_reads) simp_all
  then show ?thesis using assms(1,2,3,6) by (simp add: initiator_exchange_def write_all_def Let_def)
qed

section \<open>Outbound handshakes\<close>

text \<open>An outbound handshake as \<open>RlpxSession::connect\<close> starts it: a static key pair on both sides, a source of random bytes that gives a valid
  ephemeral key at some draw, a 32-byte nonce and the padding; and an ack on the wire that opens with the local key.\<close>

definition outbound :: "('pk, 'sg) auth_lib \<Rightarrow> handshake_config \<Rightarrow> key_pair \<Rightarrow> key_pair \<Rightarrow> handshake_random \<Rightarrow> nat \<Rightarrow> bytes \<Rightarrow> bool" where
  "outbound lib cfg me remote rnd n nonce \<longleftrightarrow> auth_laws lib \<and> is_key_pair (al_ecdh lib) me \<and> is_key_pair (al_ecdh lib) remote \<and>
     local_public_key cfg = kp_public_key me \<and> local_private_key cfg = kp_private_key me \<and> config_peer_public_key cfg = Some (kp_public_key remote) \<and>
     (\<forall>i < n. \<exists>x. hr_keypair rnd i = Some x \<and> \<not> ec_seckey_verify (ed_secp (al_ecdh lib)) x) \<and>
     (\<exists>k. hr_keypair rnd n = Some k \<and> ec_seckey_verify (ed_secp (al_ecdh lib)) k) \<and>
     hr_nonce rnd = Some nonce \<and> length nonce = 32 \<and> length (hr_padding rnd) = 100 \<and> draws_key (al_ecdh lib) (hr_ecies rnd)"

definition ack_arrives :: "('pk, 'sg) auth_lib \<Rightarrow> bytes \<Rightarrow> socket_transport \<Rightarrow> bytes \<Rightarrow> bytes \<Rightarrow> bytes \<Rightarrow> bytes \<Rightarrow> bool" where
  "ack_arrives lib priv t ack rest pub nonce \<longleftrightarrow> is_open t \<and> write_fault t = None \<and> incoming t = len_prefix (length ack) @ ack @ rest \<and>
     length ack \<le> 2048 \<and> length pub = 64 \<and> length nonce = 32 \<and>
     (\<exists>extra pad. fits (RList (RStr pub # RStr nonce # extra)) \<and>
        ecies_decrypt (al_ecdh lib) (al_ssl lib) ack priv (len_prefix (length ack)) = Inr (rlp_encode (RList (RStr pub # RStr nonce # extra)) @ pad))"

lemma outbound_executes:
  assumes "outbound lib cfg me remote rnd n ni" "ack_arrives lib (kp_private_key me) t ack rest pub nr"
  obtains a packet km sig sg token where "is_key_pair (al_ecdh lib) a" "hr_keypair rnd n = Some (kp_private_key a)" "length packet = 382"
    "km = junk\<lparr>local_ephemeral_public_key := kp_public_key a, local_ephemeral_private_key := kp_private_key a, initiator_nonce := ni,
       peer_public_key := kp_public_key remote, peer_ephemeral_public_key := pub, recipient_nonce := nr,
       initiator_auth_message := len_prefix 382 @ packet, recipient_ack_message := len_prefix (length ack) @ ack\<rparr>"
    "execute lib cfg rnd junk js t =
       Some (Inr \<lparr>hs_key_material = km, hs_frame_secrets = derive_frame_secrets lib js km True\<rparr>,
             t\<lparr>incoming := rest, outgoing := outgoing t @ len_prefix 382 @ packet\<rparr>)"
    "compute_shared_secret (al_ecdh lib) (kp_public_key me) (kp_private_key remote) = Inr token"
    "ecies_decrypt (al_ecdh lib) (al_ssl lib) packet (kp_private_key remote) (len_prefix 382) =
       Inr (rlp_encode (auth_items sig (kp_public_key me) ni) @ hr_padding rnd)"
    "signature_parse_compact (ed_secp (al_ecdh lib)) (take 64 sig) (unat (sig ! 64)) = Some sg"
    "ecdsa_recover (ed_secp (al_ecdh lib)) sg (map2 (XOR) token ni) = ec_pubkey_create (ed_secp (al_ecdh lib)) (kp_private_key a)"
    "generate_ephemeral_keypair (al_ecdh lib) (hr_keypair rnd) = Some (Inr a)"
    "create_auth_message lib (hr_padding rnd) (hr_ecies rnd) (kp_private_key me) (kp_public_key me) (kp_private_key a) ni (kp_public_key remote) =
       Some (Inr packet)"
proof -
  note o = assms(1) [unfolded outbound_def]
  obtain k where k: "hr_keypair rnd n = Some k" "ec_seckey_verify (ed_secp (al_ecdh lib)) k" using o by blast
  obtain a where a: "generate_ephemeral_keypair (al_ecdh lib) (hr_keypair rnd) = Some (Inr a)" "kp_private_key a = k" "is_key_pair (al_ecdh lib) a"
    by (rule generated_key_pair [of "al_ecdh lib" n "hr_keypair rnd" k]) (use o k in \<open>auto simp: auth_laws_def\<close>)
  obtain packet sig sg token where p: "create_auth_message lib (hr_padding rnd) (hr_ecies rnd) (kp_private_key me) (kp_public_key me) k ni
      (kp_public_key remote) = Some (Inr packet)" "length packet = 382"
    "compute_shared_secret (al_ecdh lib) (kp_public_key me) (kp_private_key remote) = Inr token"
    "ecies_decrypt (al_ecdh lib) (al_ssl lib) packet (kp_private_key remote) (len_prefix (length packet)) =
       Inr (rlp_encode (auth_items sig (kp_public_key me) ni) @ hr_padding rnd)"
    "signature_parse_compact (ed_secp (al_ecdh lib)) (take 64 sig) (unat (sig ! 64)) = Some sg"
    "ecdsa_recover (ed_secp (al_ecdh lib)) sg (map2 (XOR) token ni) = ec_pubkey_create (ed_secp (al_ecdh lib)) k"
    by (rule created_auth [of lib "hr_ecies rnd" me remote k ni "hr_padding rnd"]) (use o k in blast)+
  have ack: "parse_ack_message lib ack (kp_private_key me) (len_prefix (length ack)) km =
      Inr (km\<lparr>peer_ephemeral_public_key := pub, recipient_nonce := nr\<rparr>)" for km
    using assms(2) parsed_ack [of lib ack "kp_private_key me" "len_prefix (length ack)" pub nr] unfolding ack_arrives_def by blast
  let ?km = "junk\<lparr>local_ephemeral_public_key := kp_public_key a, local_ephemeral_private_key := kp_private_key a, initiator_nonce := ni\<rparr>"
  have "initiator_exchange lib cfg (kp_public_key remote) rnd ?km t =
    Some (Inr (?km\<lparr>peer_public_key := kp_public_key remote, peer_ephemeral_public_key := pub, recipient_nonce := nr,
                 initiator_auth_message := len_prefix (length packet) @ packet, recipient_ack_message := len_prefix (length ack) @ ack\<rparr>),
          t\<lparr>incoming := rest, outgoing := outgoing t @ len_prefix (length packet) @ packet\<rparr>)"
    by (rule initiator_completes) (use o a(2) p(1) ack assms(2) in \<open>auto simp: ack_arrives_def\<close>)
  moreover have "config_peer_public_key cfg = Some (kp_public_key remote)" "hr_nonce rnd = Some ni" using o by auto
  ultimately show thesis
    using a k p by (intro that [OF a(3) _ p(2) refl]) (simp_all add: execute_def Let_def)
qed

section \<open>Properties\<close>

text \<open>C7. An outbound handshake with a responder that follows EIP-8 succeeds and agrees: the auth packet opens with the key of the responder and its own
  length prefix to the signature, the static key and the nonce, the signature identifies the ephemeral key, and the
  derived secrets are the mirror image of those the responder derives, whatever the ack appends. What follows the ack stays on the
  transport.\<close>

theorem outbound_handshake_agrees:
  assumes "outbound lib cfg me remote rnd n ni" "is_key_pair (al_ecdh lib) b"
    "ack_arrives lib (kp_private_key me) t ack rest (kp_public_key b) nr"
  shows "\<exists>a packet sig sg token res. execute lib cfg rnd junk js t =
      Some (Inr res, t\<lparr>incoming := rest, outgoing := outgoing t @ len_prefix 382 @ packet\<rparr>) \<and>
    hr_keypair rnd n = Some (kp_private_key a) \<and> is_key_pair (al_ecdh lib) a \<and> length packet = 382 \<and>
    ecies_decrypt (al_ecdh lib) (al_ssl lib) packet (kp_private_key remote) (len_prefix 382) =
      Inr (rlp_encode (auth_items sig (kp_public_key me) ni) @ hr_padding rnd) \<and>
    compute_shared_secret (al_ecdh lib) (kp_public_key me) (kp_private_key remote) = Inr token \<and>
    signature_parse_compact (ed_secp (al_ecdh lib)) (take 64 sig) (unat (sig ! 64)) = Some sg \<and>
    ecdsa_recover (ed_secp (al_ecdh lib)) sg (map2 (XOR) token ni) = ec_pubkey_create (ed_secp (al_ecdh lib)) (kp_private_key a) \<and>
    mirrored (hs_frame_secrets res) (derive_frame_secrets lib js'
      \<lparr>peer_public_key = kp_public_key me, peer_ephemeral_public_key = kp_public_key a, local_ephemeral_public_key = kp_public_key b,
       local_ephemeral_private_key = kp_private_key b, initiator_nonce = ni, recipient_nonce = nr,
       initiator_auth_message = len_prefix 382 @ packet, recipient_ack_message = len_prefix (length ack) @ ack\<rparr> False)"
proof -
  have "ecdh_laws (al_ecdh lib)" using assms(1) by (simp add: outbound_def auth_laws_def)
  note mirror = secrets_mirrored [OF this _ assms(2)]
  show ?thesis
  proof (rule outbound_executes [OF assms(1,3), of junk js])
    fix a packet km sig sg token
    assume x: "is_key_pair (al_ecdh lib) a" "hr_keypair rnd n = Some (kp_private_key a)" "length packet = 382"
      "km = junk\<lparr>local_ephemeral_public_key := kp_public_key a, local_ephemeral_private_key := kp_private_key a, initiator_nonce := ni,
         peer_public_key := kp_public_key remote, peer_ephemeral_public_key := kp_public_key b, recipient_nonce := nr,
         initiator_auth_message := len_prefix 382 @ packet, recipient_ack_message := len_prefix (length ack) @ ack\<rparr>"
      and y: "execute lib cfg rnd junk js t = Some (Inr \<lparr>hs_key_material = km, hs_frame_secrets = derive_frame_secrets lib js km True\<rparr>,
           t\<lparr>incoming := rest, outgoing := outgoing t @ len_prefix 382 @ packet\<rparr>)"
      "compute_shared_secret (al_ecdh lib) (kp_public_key me) (kp_private_key remote) = Inr token"
      "ecies_decrypt (al_ecdh lib) (al_ssl lib) packet (kp_private_key remote) (len_prefix 382) =
         Inr (rlp_encode (auth_items sig (kp_public_key me) ni) @ hr_padding rnd)"
      "signature_parse_compact (ed_secp (al_ecdh lib)) (take 64 sig) (unat (sig ! 64)) = Some sg"
      "ecdsa_recover (ed_secp (al_ecdh lib)) sg (map2 (XOR) token ni) = ec_pubkey_create (ed_secp (al_ecdh lib)) (kp_private_key a)"
    show ?thesis
      by (rule exI conjI y(1) x(2) x(1) x(3) y(3) y(2) y(4) y(5))+ (unfold handshake_result.simps, rule mirror [OF x(1)], simp_all add: x(4))
  qed
qed

definition sample_auth_lib :: "(u256, u256) auth_lib" where
  "sample_auth_lib = \<lparr>al_ecdh = sample_ecdh, al_ssl = sample_ecies, al_keccak256 = (\<lambda>x. replicate 32 (word_of_nat (length x)))\<rparr>"

definition sample_cfg_out :: handshake_config where
  "sample_cfg_out = \<lparr>local_public_key = kp_public_key (sample_pair 7), local_private_key = kp_private_key (sample_pair 7),
     config_client_id = ''evmrelay'', config_listen_port = 30303, config_peer_public_key = Some (kp_public_key (sample_pair 8))\<rparr>"

definition sample_hs_random :: handshake_random where
  "sample_hs_random = \<lparr>hr_keypair = (\<lambda>i. Some (replicate 32 (word_of_nat (i + 1)))), hr_nonce = Some (replicate 32 5),
     hr_padding = replicate 100 0, hr_ecies = sample_random\<rparr>"

definition sample_ack :: "bytes \<Rightarrow> bytes" where
  "sample_ack pub = (case ecies_encrypt sample_ecdh sample_ecies sample_random (rlp_encode (RList [RStr pub, RStr (replicate 32 6)]))
     (kp_public_key (sample_pair 7)) (len_prefix 214) of Some (Inr p) \<Rightarrow> p | _ \<Rightarrow> [])"

lemma sample_outbound: "outbound sample_auth_lib sample_cfg_out (sample_pair 7) (sample_pair 8) sample_hs_random 0 (replicate 32 5)"
  using sample_ecdh_laws sample_ecies_laws sample_pair_is_pair sample_draws
  by (simp add: outbound_def auth_laws_def sample_auth_lib_def sample_cfg_out_def sample_hs_random_def sample_ecdh_def sample_lib_def)

lemma sample_ack_arrives:
  assumes "length pub = 64"
  shows "ack_arrives sample_auth_lib (kp_private_key (sample_pair 7)) (fresh_transport\<lparr>incoming := len_prefix 214 @ sample_ack pub\<rparr>)
    (sample_ack pub) [] pub (replicate 32 6)"
proof -
  let ?t = "RList [RStr pub, RStr (replicate 32 6)]"
  have e: "rlp_encode (RStr pub) = 0xB8 # 64 # pub" "rlp_encode (RStr (replicate 32 6)) = 0xA0 # replicate 32 6"
    using assms by (simp_all add: rlp_encode_simps rlp_str_def rlp_prefix_def nat_to_be_single)
  have len: "length (rlp_encode ?t) = 101"
    using assms e by (simp add: rlp_encode_simps(2) rlp_list_def rlp_prefix_def nat_to_be_single)
  obtain packet where p: "ecies_encrypt sample_ecdh sample_ecies sample_random (rlp_encode ?t) (kp_public_key (sample_pair 7)) (len_prefix 214) =
      Some (Inr packet)"
    "ecies_decrypt sample_ecdh sample_ecies packet (kp_private_key (sample_pair 7)) (len_prefix 214) = Inr (rlp_encode ?t)"
    "length packet = estimate_encrypted_size (length (rlp_encode ?t))"
    by (rule ecies_opens [OF sample_ecdh_laws sample_ecies_laws sample_draws sample_pair_is_pair])
  have "sample_ack pub = packet" "length packet = 214" using p len by (simp_all add: sample_ack_def estimate_encrypted_size_def)
  moreover have "fits ?t" using len by (simp add: fits_def)
  ultimately show ?thesis
    using assms p(2) by (auto simp: ack_arrives_def fresh_transport_def sample_auth_lib_def intro!: exI [of _ "[]"])
qed

theorem outbound_handshake_agrees_witness:
  "\<exists>res t'. execute sample_auth_lib sample_cfg_out sample_hs_random undefined ([], [])
     (fresh_transport\<lparr>incoming := len_prefix 214 @ sample_ack (kp_public_key (sample_pair 9))\<rparr>) = Some (Inr res, t') \<and> incoming t' = []"
proof -
  have "is_key_pair (al_ecdh sample_auth_lib) (sample_pair 9)" using sample_pair_is_pair by (simp add: sample_auth_lib_def)
  moreover have "length (kp_public_key (sample_pair 9)) = 64" using sample_pair_is_pair [of 9] by (auto simp: is_key_pair_def)
  ultimately show ?thesis
    using outbound_handshake_agrees [OF sample_outbound _ sample_ack_arrives, of "sample_pair 9" undefined "([], [])" "([], [])"] by fastforce
qed

text \<open>C33. An ack with an ephemeral key that is not a point of the curve is not refused: the handshake reports success, and the session runs
  with whatever the uninitialised secrets hold and with empty MAC seeds.\<close>

theorem invalid_ephemeral_key_accepted:
  assumes "outbound lib cfg me remote rnd n ni" "ack_arrives lib (kp_private_key me) t ack rest pub nr"
    "ed_pubkey_parse (al_ecdh lib) (0x04 # pub) = None"
  shows "\<exists>res t'. execute lib cfg rnd junk (aes, mac) t = Some (Inr res, t') \<and>
    hs_frame_secrets res = \<lparr>aes_secret = aes, mac_secret = mac, egress_mac_seed = [], ingress_mac_seed = []\<rparr>"
proof (rule outbound_executes [OF assms(1,2), of junk "(aes, mac)"])
  fix a packet km
  assume a: "is_key_pair (al_ecdh lib) a" "km = junk\<lparr>local_ephemeral_public_key := kp_public_key a, local_ephemeral_private_key := kp_private_key a,
      initiator_nonce := ni, peer_public_key := kp_public_key remote, peer_ephemeral_public_key := pub, recipient_nonce := nr,
      initiator_auth_message := len_prefix 382 @ packet, recipient_ack_message := len_prefix (length ack) @ ack\<rparr>"
    and e: "execute lib cfg rnd junk (aes, mac) t =
       Some (Inr \<lparr>hs_key_material = km, hs_frame_secrets = derive_frame_secrets lib (aes, mac) km True\<rparr>,
             t\<lparr>incoming := rest, outgoing := outgoing t @ len_prefix 382 @ packet\<rparr>)"
  have "compute_shared_secret (al_ecdh lib) pub (kp_private_key a) = Inl kCryptoInvalidPublicKey"
    using a(1) assms(1,3) by (simp add: compute_shared_secret_def is_key_pair_def outbound_def auth_laws_def ecdh_laws_def)
  then have "derive_frame_secrets lib (aes, mac) km True = \<lparr>aes_secret = aes, mac_secret = mac, egress_mac_seed = [], ingress_mac_seed = []\<rparr>"
    using a(2) by (simp add: derive_frame_secrets_def)
  with e show ?thesis by simp
qed

theorem invalid_ephemeral_key_accepted_witness:
  "\<exists>res t'. execute sample_auth_lib sample_cfg_out sample_hs_random undefined ([1], [2])
     (fresh_transport\<lparr>incoming := len_prefix 214 @ sample_ack (replicate 64 1)\<rparr>) = Some (Inr res, t') \<and>
     hs_frame_secrets res = \<lparr>aes_secret = [1], mac_secret = [2], egress_mac_seed = [], ingress_mac_seed = []\<rparr>"
proof (rule invalid_ephemeral_key_accepted [OF sample_outbound sample_ack_arrives])
  have "drop 32 (replicate 64 (1 :: byte)) \<noteq> replicate 32 0" by (simp add: drop_replicate)
  then show "ed_pubkey_parse (al_ecdh sample_auth_lib) (0x04 # replicate 64 1) = None"
    by (simp add: sample_auth_lib_def sample_ecdh_def)
qed simp

text \<open>The responder role does not understand the initiator role of the same code: it takes the auth packet, which is an RLP list, for the fixed
  layout used before EIP-8, and reads 38 bytes of the initiator's static key, a list byte and 25 bytes of its nonce as the static key.\<close>

theorem responder_misreads_auth:
  assumes "auth_laws lib" "draws_key (al_ecdh lib) rnd" "is_key_pair (al_ecdh lib) me" "is_key_pair (al_ecdh lib) remote"
    "ec_seckey_verify (ed_secp (al_ecdh lib)) eph" "length nonce = 32" "length padding = 100"
  shows "\<exists>packet. create_auth_message lib padding rnd (kp_private_key me) (kp_public_key me) eph nonce (kp_public_key remote) = Some (Inr packet) \<and>
    (\<exists>km. parse_auth_message lib junk packet (kp_private_key remote) (len_prefix (length packet)) = Inr km \<and>
       peer_public_key km = drop 26 (kp_public_key me) @ [0xA0] @ take 25 nonce \<and>
       initiator_nonce km = drop 25 nonce @ [4] @ take 24 padding \<and> peer_ephemeral_public_key km = peer_ephemeral_public_key junk)"
proof (rule created_auth [OF assms])
  fix packet sig
  assume p: "create_auth_message lib padding rnd (kp_private_key me) (kp_public_key me) eph nonce (kp_public_key remote) = Some (Inr packet)"
    "ecies_decrypt (al_ecdh lib) (al_ssl lib) packet (kp_private_key remote) (len_prefix (length packet)) =
       Inr (rlp_encode (auth_items sig (kp_public_key me) nonce) @ padding)" "length sig = 65"
  let ?pub = "kp_public_key me" and ?nested = "[0xF8, 0xA7, 0xB8, 65] @ sig @ [0xB8, 64]"
  have pub: "length ?pub = 64" using assms(3) by (auto simp: is_key_pair_def)
  have "rlp_encode (RStr sig) = 0xB8 # 65 # sig" "rlp_encode (RStr ?pub) = 0xB8 # 64 # ?pub" "rlp_encode (RStr nonce) = 0xA0 # nonce"
    "rlp_encode (RUint 4) = [4]"
    using p(3) pub assms(6) by (simp_all add: rlp_encode_simps rlp_str_def rlp_prefix_def nat_to_be_single RUint_def)
  then have "rlp_encode (auth_items sig ?pub nonce) = ?nested @ ?pub @ [0xA0] @ nonce @ [4]"
    using p(3) pub assms(6) by (simp add: auth_items_def rlp_encode_simps(2) rlp_list_def rlp_prefix_def nat_to_be_single)
  moreover have "length ?nested = 71" using p(3) by simp
  ultimately show ?thesis
    using p pub assms(6,7) by (auto simp: parse_auth_message_def)
qed

theorem responder_misreads_auth_witness:
  "\<exists>packet km. parse_auth_message sample_auth_lib undefined packet (kp_private_key (sample_pair 8)) (len_prefix (length packet)) = Inr km \<and>
     peer_public_key km = drop 26 (kp_public_key (sample_pair 7)) @ [0xA0] @ replicate 25 5"
proof -
  have "auth_laws sample_auth_lib" using sample_outbound by (simp add: outbound_def)
  moreover have "draws_key (al_ecdh sample_auth_lib) sample_random" "is_key_pair (al_ecdh sample_auth_lib) (sample_pair k)" for k
    using sample_draws sample_pair_is_pair by (simp_all add: sample_auth_lib_def)
  moreover have "ec_seckey_verify (ed_secp (al_ecdh sample_auth_lib)) (kp_private_key (sample_pair 9))"
    using sample_pair_is_pair [of 9] by (simp add: sample_auth_lib_def is_key_pair_def)
  ultimately show ?thesis
    using responder_misreads_auth [of sample_auth_lib sample_random "sample_pair 7" "sample_pair 8" "kp_private_key (sample_pair 9)"
        "replicate 32 5" "replicate 100 0" undefined] by auto
qed

end
