(* ===== verification/Rlpx_Session.thy ===== *)
theory Rlpx_Session
  imports Auth_Handshake "HOL-Library.Multiset" "HOL-Library.List_Lexorder" "HOL-Library.Product_Lexorder"
begin

text \<open>
  The RLPx session of src/rlpx/rlpx_session.cpp: the TCP connection, capability negotiation, \<open>connect\<close>, the two message
  channels, the send and the receive loop cut at the points where they suspend, routing and disconnecting. A handler is a flag that says whether it is
  registered, and calling it is an event. A \<open>std::unique_ptr\<close> is an option: an operation on an empty one is undefined, the outer \<open>None\<close> of
  the result.
\<close>

section \<open>Connecting the socket\<close>

text \<open>Resolving the name and \<open>asio::async_connect\<close> are outside the sources: each ends with an error or without one. A timer cancels the socket when
  the timeout has passed, so the outcome of the connection attempt is a function of the timeout.\<close>

record tcp_env =
  resolve_ec :: "asio_error option"
  connect_ec :: "nat \<Rightarrow> asio_error option"

definition connect_with_timeout :: "nat \<Rightarrow> tcp_env \<Rightarrow> socket_transport \<Rightarrow> session_error + socket_transport" where
  "connect_with_timeout timeout env t =
     (if resolve_ec env \<noteq> None then Inl kConnectionFailed
      else if connect_ec env timeout \<noteq> None then Inl kConnectionFailed
      else Inr t)"

section \<open>Capabilities\<close>

definition negotiate_eth_version :: "capability list \<Rightarrow> u8" where
  "negotiate_eth_version caps = foldl (\<lambda>negotiated c.
     if cap_name c \<noteq> ''eth'' then negotiated
     else if kEthProtocolVersion66 \<le> cap_version c \<and> cap_version c \<le> kEthProtocolVersion69 \<and> negotiated < cap_version c then cap_version c
     else negotiated) 0 caps"

definition capability_wire_length :: "capability \<Rightarrow> u8" where
  "capability_wire_length c =
     (if cap_name c = ''eth'' then
        (if cap_version c = kEthProtocolVersion69 then 18
         else if kEthProtocolVersion66 \<le> cap_version c \<and> cap_version c \<le> kEthProtocolVersion68 then 17 else 0)
      else if cap_name c = ''snap'' then 8 else 1)"

definition capability_less :: "capability \<Rightarrow> capability \<Rightarrow> bool" where
  "capability_less c d =
     (if cap_name c \<noteq> cap_name d then bytes_of (cap_name c) < bytes_of (cap_name d) else cap_version c < cap_version d)"

text \<open>\<open>std::sort\<close> with \<open>capability_less\<close>: capabilities that are equal for it are equal, so that the sorted list is unique
  (\<open>sort_capabilities_unique\<close>).\<close>

definition sort_capabilities :: "capability list \<Rightarrow> capability list" where
  "sort_capabilities caps = sort_key (\<lambda>c. (bytes_of (cap_name c), cap_version c)) caps"

definition offset_step :: "u8 \<times> (capability \<times> u8) option \<Rightarrow> capability \<Rightarrow> u8 \<times> (capability \<times> u8) option" where
  "offset_step st c = (case st of (offset, matched_eth) \<Rightarrow>
     let len = capability_wire_length c
     in if len = 0 then st
        else if cap_name c = ''eth'' then
          (case matched_eth of
             None \<Rightarrow> (offset + len, Some (c, offset))
           | Some (m, _) \<Rightarrow>
               if cap_version m < cap_version c
               then (let offset = offset - capability_wire_length m in (offset + len, Some (c, offset)))
               else st)
        else (offset + len, matched_eth))"

definition negotiate_eth_offset :: "capability list \<Rightarrow> u8" where
  "negotiate_eth_offset caps =
     (case snd (foldl offset_step (16, None) (sort_capabilities caps)) of None \<Rightarrow> 0 | Some (_, matched_eth_offset) \<Rightarrow> matched_eth_offset)"

definition normalize_eth_message_id :: "u8 \<Rightarrow> u8 \<Rightarrow> u8 option" where
  "normalize_eth_message_id wire_message_id offset = (if wire_message_id < offset then None else Some (wire_message_id - offset))"

section \<open>Session state\<close>

datatype session_state =
  kUninitialized | kConnecting | kAuthenticating | kHandshaking | kActive | kDisconnecting | kClosed | kError

record peer_info =
  pi_public_key :: bytes
  pi_client_id :: string
  pi_listen_port :: u16
  pi_remote_address :: string
  pi_remote_port :: u16

record session_handlers =
  hello_handler :: bool
  disconnect_handler :: bool
  ping_handler :: bool
  pong_handler :: bool
  generic_handler :: bool
  eth_message_handler :: bool

record 'c rlpx_session =
  state :: session_state
  stream :: "'c message_stream option"
  session_peer :: peer_info
  negotiated_eth_version :: u8
  negotiated_eth_offset :: u8
  is_initiator :: bool
  send_channel :: "rlpx_message list option"
  recv_channel :: "rlpx_message list option"
  handlers :: session_handlers

definition channel_push :: "rlpx_message \<Rightarrow> rlpx_message list \<Rightarrow> rlpx_message list" where
  "channel_push m q = q @ [m]"

definition channel_try_pop :: "rlpx_message list \<Rightarrow> rlpx_message option \<times> rlpx_message list" where
  "channel_try_pop q = (case q of [] \<Rightarrow> (None, q) | m # q' \<Rightarrow> (Some m, q'))"

definition no_handlers :: session_handlers where
  "no_handlers = \<lparr>hello_handler = False, disconnect_handler = False, ping_handler = False, pong_handler = False, generic_handler = False,
     eth_message_handler = False\<rparr>"

definition new_session :: "'c message_stream \<Rightarrow> peer_info \<Rightarrow> bool \<Rightarrow> 'c rlpx_session" where
  "new_session ms peer initiator = \<lparr>state = kUninitialized, stream = Some ms, session_peer = peer, negotiated_eth_version = 0,
     negotiated_eth_offset = 0, is_initiator = initiator, send_channel = Some [], recv_channel = Some [], handlers = no_handlers\<rparr>"

definition destroy_session :: "'c rlpx_session \<Rightarrow> 'c rlpx_session" where
  "destroy_session s = (if state s \<noteq> kClosed \<and> state s \<noteq> kError then s\<lparr>state := kClosed\<rparr> else s)"

text \<open>The move constructor, the move assignment, and what a move leaves behind; the strings and handlers moved from have unspecified values
  (\<open>junk\<close>).\<close>

definition move_session :: "'c rlpx_session \<Rightarrow> 'c rlpx_session" where
  "move_session other = \<lparr>state = state other, stream = stream other, session_peer = session_peer other,
     negotiated_eth_version = negotiated_eth_version other, negotiated_eth_offset = negotiated_eth_offset other,
     is_initiator = is_initiator other, send_channel = send_channel other, recv_channel = recv_channel other,
     handlers = (handlers other)\<lparr>eth_message_handler := False\<rparr>\<rparr>"

definition move_assign :: "'c rlpx_session \<Rightarrow> 'c rlpx_session \<Rightarrow> 'c rlpx_session" where
  "move_assign this other = (move_session other)\<lparr>handlers := (handlers other)\<lparr>eth_message_handler := eth_message_handler (handlers this)\<rparr>\<rparr>"

definition moved_from :: "peer_info \<times> session_handlers \<Rightarrow> 'c rlpx_session \<Rightarrow> 'c rlpx_session" where
  "moved_from junk other = other\<lparr>stream := None, send_channel := None, recv_channel := None, session_peer := fst junk,
     handlers := (snd junk)\<lparr>eth_message_handler := eth_message_handler (handlers other)\<rparr>\<rparr>"

definition try_transition_state :: "session_state \<Rightarrow> session_state \<Rightarrow> 'c rlpx_session \<Rightarrow> bool \<times> 'c rlpx_session" where
  "try_transition_state from_state to_state s = (if state s = from_state then (True, s\<lparr>state := to_state\<rparr>) else (False, s))"

definition is_terminal_state :: "session_state \<Rightarrow> bool" where
  "is_terminal_state st \<longleftrightarrow> st = kClosed \<or> st = kError"

definition force_error_state :: "'c rlpx_session \<Rightarrow> 'c rlpx_session" where
  "force_error_state s = s\<lparr>state := kError\<rparr>"

section \<open>Operations\<close>

definition not_active_error :: "session_state \<Rightarrow> session_error" where
  "not_active_error st = (if st = kClosed \<or> st = kError then kConnectionFailed else kNotConnected)"

definition post_message :: "rlpx_message \<Rightarrow> 'c rlpx_session \<Rightarrow> ((session_error + unit) \<times> 'c rlpx_session) option" where
  "post_message m s =
     (if state s \<noteq> kActive then Some (Inl (not_active_error (state s)), s)
      else map_option (\<lambda>q. (Inr (), s\<lparr>send_channel := Some (channel_push m q)\<rparr>)) (send_channel s))"

definition session_receive_message :: "'c rlpx_session \<Rightarrow> ((session_error + rlpx_message) \<times> 'c rlpx_session) option" where
  "session_receive_message s =
     (if state s \<noteq> kActive then Some (Inl (not_active_error (state s)), s)
      else map_option (\<lambda>q. case channel_try_pop q of
          (None, q) \<Rightarrow> (Inl kNotConnected, s\<lparr>recv_channel := Some q\<rparr>)
        | (Some m, q) \<Rightarrow> (Inr m, s\<lparr>recv_channel := Some q\<rparr>)) (recv_channel s))"

text \<open>The polling loop: \<open>inbound k\<close> is what the receive loop has pushed before the poll \<open>k\<close>, and \<open>wait k\<close> how the wait after it ends: the timer
  fires, some milliseconds later than asked for; the wait is aborted, after at least one millisecond; or it fails with another error.\<close>

datatype timer_wait = Fires nat | Aborted nat | WaitFails

function receive_poll :: "nat \<Rightarrow> (nat \<Rightarrow> rlpx_message list) \<Rightarrow> (nat \<Rightarrow> timer_wait) \<Rightarrow> nat \<Rightarrow> nat \<Rightarrow> rlpx_message list \<Rightarrow>
    (session_error + rlpx_message) \<times> rlpx_message list" where
  "receive_poll timeout inbound wait k elapsed q =
     (case channel_try_pop (q @ inbound k) of
        (Some m, q) \<Rightarrow> (Inr m, q)
      | (None, q) \<Rightarrow>
          if timeout \<le> elapsed then (Inl kHandshakeFailed, q)
          else (case wait k of
              Fires late \<Rightarrow> receive_poll timeout inbound wait (Suc k) (elapsed + min (timeout - elapsed) 10 + late) q
            | Aborted waited \<Rightarrow> receive_poll timeout inbound wait (Suc k) (elapsed + max 1 waited) q
            | WaitFails \<Rightarrow> (Inl kConnectionFailed, q)))"
  by pat_completeness auto
termination by (relation "measure (\<lambda>(timeout, _, _, _, elapsed, _). timeout - elapsed)") auto

declare receive_poll.simps [simp del]

definition receive_message_with_timeout :: "nat \<Rightarrow> (nat \<Rightarrow> rlpx_message list) \<Rightarrow> (nat \<Rightarrow> timer_wait) \<Rightarrow> 'c rlpx_session \<Rightarrow>
    ((session_error + rlpx_message) \<times> 'c rlpx_session) option" where
  "receive_message_with_timeout timeout inbound wait s =
     (if state s \<noteq> kActive then Some (Inl (not_active_error (state s)), s)
      else map_option (\<lambda>q. case receive_poll timeout inbound wait 0 0 q of (r, q) \<Rightarrow> (r, s\<lparr>recv_channel := Some q\<rparr>)) (recv_channel s))"

text \<open>The reason is ignored and no Disconnect message is sent. On one thread the compare-and-exchange succeeds at once.\<close>

definition disconnect :: "disconnect_reason \<Rightarrow> 'c rlpx_session \<Rightarrow> (session_error + unit) \<times> 'c rlpx_session" where
  "disconnect reason s =
     (if state s = kDisconnecting \<or> state s = kClosed \<or> state s = kError then (Inr (), s)
      else let s = s\<lparr>state := kDisconnecting\<rparr>; s = s\<lparr>state := kClosed\<rparr> in (Inr (), s\<lparr>stream := map_option stream_close (stream s)\<rparr>))"

datatype session_event =
  HelloHandler hello_message | DisconnectHandler disconnect_reason | PingHandler | PongHandler | GenericHandler rlpx_message |
  EthMessageHandler u8 bytes

definition route_message :: "rlpx_message \<Rightarrow> 'c rlpx_session \<Rightarrow> session_event list" where
  "route_message m s =
     (if msg_id m = 0x00 then
        (if hello_handler (handlers s) then (case decode_hello (msg_payload m) of Inl _ \<Rightarrow> [] | Inr h \<Rightarrow> [HelloHandler h]) else [])
      else if msg_id m = 0x01 then
        (case decode_disconnect (msg_payload m) of
           Inl _ \<Rightarrow> []
         | Inr reason \<Rightarrow> if disconnect_handler (handlers s) then [DisconnectHandler reason] else [])
      else if msg_id m = 0x02 then
        (if ping_handler (handlers s) then (case decode_ping (msg_payload m) of Inl _ \<Rightarrow> [] | Inr _ \<Rightarrow> [PingHandler]) else [])
      else if msg_id m = 0x03 then
        (if pong_handler (handlers s) then (case decode_pong (msg_payload m) of Inl _ \<Rightarrow> [] | Inr _ \<Rightarrow> [PongHandler]) else [])
      else
        (case (if eth_message_handler (handlers s) then normalize_eth_message_id (msg_id m) (negotiated_eth_offset s) else None) of
           Some eth_id \<Rightarrow> [EthMessageHandler eth_id (msg_payload m)]
         | None \<Rightarrow> if generic_handler (handlers s) then [GenericHandler m] else []))"

text \<open>Where the send loop is: before the test of the state, in the wait of an idle iteration, writing a message with the bytes of its frame that
  the socket has not taken yet, or at its end with a result.\<close>

datatype send_pc = SendChecking | SendPolling | SendWriting rlpx_message bytes | SendEnded "session_error + unit"

text \<open>The loop runs from the test of the state to the wait or to the write; \<open>send_poll\<close> is what follows the wait. When the write of a frame ends,
  \<open>send_resume\<close> goes on: a write of which nothing was left has succeeded, and otherwise the rest is written or the write fails. The
  state is not tested between the start and the end of a write.\<close>

definition send_check :: "'c frame_lib \<Rightarrow> snappy_lib \<Rightarrow> 'c rlpx_session \<Rightarrow> (send_pc \<times> 'c rlpx_session) option" where
  "send_check L S s =
     (if state s \<noteq> kActive then Some (SendEnded (Inr ()), s)
      else Option.bind (send_channel s) (\<lambda>q. case channel_try_pop q of
          (None, _) \<Rightarrow> Some (SendPolling, s)
        | (Some m, q) \<Rightarrow> map_option (\<lambda>ms. case message_frame L S m ms of
              (Inl e, ms) \<Rightarrow> (SendEnded (Inl e), force_error_state (s\<lparr>stream := Some ms, send_channel := Some q\<rparr>))
            | (Inr wire, ms) \<Rightarrow> (SendWriting m wire, s\<lparr>stream := Some ms, send_channel := Some q\<rparr>)) (stream s)))"

definition send_poll :: "bool \<Rightarrow> 'c rlpx_session \<Rightarrow> send_pc \<times> 'c rlpx_session" where
  "send_poll timer_fails s = (if timer_fails then (SendEnded (Inl kConnectionFailed), force_error_state s) else (SendChecking, s))"

definition send_resume :: "bytes \<Rightarrow> 'c rlpx_session \<Rightarrow> (send_pc \<times> 'c rlpx_session) option" where
  "send_resume rest s = map_option (\<lambda>ms.
     case (if rest = [] then (Inr (), transport ms) else write_all rest (transport ms)) of
       (Inl e, t) \<Rightarrow> (SendEnded (Inl e), force_error_state (s\<lparr>stream := Some (ms\<lparr>transport := t\<rparr>)\<rparr>))
     | (Inr _, t) \<Rightarrow> (SendChecking, s\<lparr>stream := Some (ms\<lparr>transport := t\<rparr>)\<rparr>)) (stream s)"

text \<open>The receive loop waits for a message after it has seen the session active, and dispatches what it gets without looking again.\<close>

definition receive_await :: "'c frame_lib \<Rightarrow> snappy_lib \<Rightarrow> 'c rlpx_session \<Rightarrow> ((session_error + rlpx_message) \<times> 'c rlpx_session) option" where
  "receive_await L S s = map_option (\<lambda>ms. case receive_message L S ms of
       (Inl e, ms) \<Rightarrow> (Inl e, force_error_state (s\<lparr>stream := Some ms\<rparr>))
     | (Inr m, ms) \<Rightarrow> (Inr m, s\<lparr>stream := Some ms\<rparr>)) (stream s)"

definition receive_dispatch :: "rlpx_message \<Rightarrow> 'c rlpx_session \<Rightarrow> (session_event list \<times> 'c rlpx_session) option" where
  "receive_dispatch m s = map_option (\<lambda>q. (route_message m s, s\<lparr>recv_channel := Some (channel_push m q)\<rparr>)) (recv_channel s)"

section \<open>Connect\<close>

datatype connect_progress_phase = kTcpConnected | kAuthSucceeded | kLocalHelloSent | kPeerDisconnectBeforeHello | kPeerHelloAccepted

type_synonym progress = "(connect_progress_phase \<times> disconnect_reason) list"

record session_connect_params =
  cp_remote_host :: string
  cp_remote_port :: u16
  cp_local_public_key :: bytes
  cp_local_private_key :: bytes
  cp_peer_public_key :: bytes
  cp_client_id :: string
  cp_listen_port :: u16
  cp_progress_handler :: bool

text \<open>The first message is awaited with a timer that closes the stream. \<open>timer = Some n\<close>: it fires when \<open>n\<close> of the bytes have arrived; if they
  hold the message already, the read succeeds and the stream is closed behind it. After a failed read the error of the timer is
  looked at before the cancelled timer has reported it, so that the result is always \<open>kHandshakeFailed\<close>.\<close>

definition receive_stream_message_with_timeout ::
    "'c frame_lib \<Rightarrow> snappy_lib \<Rightarrow> nat option \<Rightarrow> 'c message_stream \<Rightarrow> (session_error + rlpx_message) \<times> 'c message_stream" where
  "receive_stream_message_with_timeout L S timer ms =
     (let (r, ms) = (case timer of
            None \<Rightarrow> receive_message L S ms
          | Some n \<Rightarrow> (case receive_message L S (ms\<lparr>transport := (transport ms)\<lparr>incoming := take n (incoming (transport ms)),
                                                      read_end := asio_operation_aborted\<rparr>\<rparr>) of (r, ms) \<Rightarrow> (r, stream_close ms)))
      in (fail_as kHandshakeFailed r, ms))"

definition local_hello :: "session_connect_params \<Rightarrow> hello_message" where
  "local_hello p = \<lparr>protocol_version = 5, client_id = cp_client_id p,
     capabilities = map (\<lambda>v. \<lparr>cap_name = ''eth'', cap_version = v\<rparr>)
       [kEthProtocolVersion66, kEthProtocolVersion67, kEthProtocolVersion68, kEthProtocolVersion69],
     listen_port = cp_listen_port p, hello_node_id = cp_local_public_key p\<rparr>"

definition accept_hello :: "hello_message \<Rightarrow> 'c rlpx_session \<Rightarrow> 'c rlpx_session" where
  "accept_hello h s = s\<lparr>session_peer := (session_peer s)\<lparr>pi_client_id := client_id h, pi_listen_port := listen_port h\<rparr>,
     negotiated_eth_version := negotiate_eth_version (capabilities h), negotiated_eth_offset := negotiate_eth_offset (capabilities h),
     stream := (if 5 \<le> protocol_version h then map_option enable_compression (stream s) else stream s)\<rparr>"

definition hello_exchange :: "'c frame_lib \<Rightarrow> snappy_lib \<Rightarrow> session_connect_params \<Rightarrow> nat option \<Rightarrow> 'c message_stream \<Rightarrow>
    (session_error + 'c rlpx_session) \<times> progress \<times> disconnect_reason option" where
  "hello_exchange L S p timer ms =
     (let peer = \<lparr>pi_public_key = cp_peer_public_key p, pi_client_id = cp_client_id p, pi_listen_port = cp_listen_port p,
            pi_remote_address = [], pi_remote_port = cp_remote_port p\<rparr>;
          session = new_session ms peer True
      in case encode_hello (local_hello p) of
           Inl _ \<Rightarrow> (Inl kHandshakeFailed, [], None)
         | Inr hello_encoded \<Rightarrow>
             (case send_message L S \<lparr>msg_id = 0x00, msg_payload = hello_encoded\<rparr> ms of
                (Inl e, _) \<Rightarrow> (Inl e, [], None)
              | (Inr _, ms) \<Rightarrow>
                  (case receive_stream_message_with_timeout L S timer ms of
                     (Inl e, _) \<Rightarrow> (Inl e, [(kLocalHelloSent, kRequested)], None)
                   | (Inr m, ms) \<Rightarrow>
                       if msg_id m = 0x00 then
                         (case decode_hello (msg_payload m) of
                            Inl _ \<Rightarrow> (Inl kHandshakeFailed, [(kLocalHelloSent, kRequested)], None)
                          | Inr h \<Rightarrow> (Inr ((accept_hello h (session\<lparr>stream := Some ms\<rparr>))\<lparr>state := kActive\<rparr>),
                                      [(kLocalHelloSent, kRequested), (kPeerHelloAccepted, kRequested)], None))
                       else if msg_id m = 0x01 then
                         (case decode_disconnect (msg_payload m) of
                            Inl _ \<Rightarrow> (Inl kHandshakeFailed,
                              [(kLocalHelloSent, kRequested), (kPeerDisconnectBeforeHello, kProtocolError)], None)
                          | Inr reason \<Rightarrow> (Inl kHandshakeFailed,
                              [(kLocalHelloSent, kRequested), (kPeerDisconnectBeforeHello, reason)], Some reason))
                       else (Inl kHandshakeFailed, [(kLocalHelloSent, kRequested)], None))))"

definition connect_config :: "session_connect_params \<Rightarrow> handshake_config" where
  "connect_config p = \<lparr>local_public_key = cp_local_public_key p, local_private_key = cp_local_private_key p,
     config_client_id = cp_client_id p, config_listen_port = cp_listen_port p, config_peer_public_key = Some (cp_peer_public_key p)\<rparr>"

text \<open>\<open>connect\<close>: the result, the calls of the progress handler and what is written through \<open>pre_hello_disconnect_reason\<close>.\<close>

definition connect :: "('pk, 'sg) auth_lib \<Rightarrow> 'c frame_lib \<Rightarrow> snappy_lib \<Rightarrow> session_connect_params \<Rightarrow> tcp_env \<Rightarrow> handshake_random \<Rightarrow>
    auth_key_material \<Rightarrow> bytes \<times> bytes \<Rightarrow> nat option \<Rightarrow> socket_transport \<Rightarrow>
    ((session_error + 'c rlpx_session) \<times> progress \<times> disconnect_reason option) option" where
  "connect lib L S p env rnd junk junk_secrets timer t =
     map_option (\<lambda>(r, progress, reason). (r, if cp_progress_handler p then progress else [], reason))
       (case connect_with_timeout 10000 env t of
          Inl e \<Rightarrow> Some (Inl e, [], None)
        | Inr t \<Rightarrow>
            map_option (\<lambda>(hs, t). case hs of
                Inl e \<Rightarrow> (Inl e, [(kTcpConnected, kRequested)], None)
              | Inr hs \<Rightarrow>
                  (case hello_exchange L S p timer (new_message_stream (new_frame_cipher L (hs_frame_secrets hs)) t) of
                     (r, progress, reason) \<Rightarrow> (r, (kTcpConnected, kRequested) # (kAuthSucceeded, kRequested) # progress, reason)))
              (execute lib (connect_config p) rnd junk junk_secrets t))"

definition accept_session :: "session_error + 'c rlpx_session" where
  "accept_session = Inl kConnectionFailed"

section \<open>Negotiation\<close>

definition eth_versions :: "capability list \<Rightarrow> u8 set" where
  "eth_versions caps = {v. 66 \<le> v \<and> v \<le> 69 \<and> \<lparr>cap_name = ''eth'', cap_version = v\<rparr> \<in> set caps}"

lemma eth_versions_simps [simp]:
  "eth_versions [] = {}"
  "eth_versions (c # caps) =
     (if cap_name c = ''eth'' \<and> 66 \<le> cap_version c \<and> cap_version c \<le> 69 then insert (cap_version c) (eth_versions caps) else eth_versions caps)"
  by (auto simp: eth_versions_def)

lemma negotiate_eth_version_Max: "negotiate_eth_version caps = Max (insert 0 (eth_versions caps))"
proof -
  have fin: "finite (eth_versions caps)" for caps by (simp add: eth_versions_def)
  have "foldl (\<lambda>negotiated c. if cap_name c \<noteq> ''eth'' then negotiated
     else if 66 \<le> cap_version c \<and> cap_version c \<le> 69 \<and> negotiated < cap_version c then cap_version c else negotiated) v caps =
    Max (insert v (eth_versions caps))" for v :: u8
  proof (induction caps arbitrary: v)
    case (Cons c caps)
    have "Max (insert v (insert x (eth_versions caps))) = Max (insert (max v x) (eth_versions caps))" for x
      by (cases "eth_versions caps = {}") (simp_all add: fin max.assoc)
    then show ?case using Cons.IH by (auto simp: max_def not_less)
  qed simp
  then show ?thesis by (simp add: negotiate_eth_version_def)
qed

lemma bytes_of_eq_iff [simp]: "bytes_of a = bytes_of b \<longleftrightarrow> a = b"
  by (metis string_bytes)

lemma sort_capabilities_unique:
  assumes "mset xs = mset caps" "sorted_wrt (\<lambda>c d. \<not> capability_less d c) xs"
  shows "xs = sort_capabilities caps"
proof -
  let ?k = "\<lambda>c :: capability. (bytes_of (cap_name c), cap_version c)"
  have k: "capability_less c d \<longleftrightarrow> ?k c < ?k d" for c d :: capability by (auto simp: capability_less_def less_le_not_le)
  have "inj ?k" by (auto intro!: injI)
  moreover have "sorted (map ?k xs)"
    unfolding sorted_map using assms(2) by (rule sorted_wrt_mono_rel [rotated]) (simp only: k not_less)
  ultimately show ?thesis
    unfolding sort_capabilities_def using assms(1) by (intro sort_key_inj_key_eq [symmetric]) (auto intro: inj_on_subset)
qed

lemma sorted_three_parts:
  fixes p :: "'b :: linorder"
  assumes "sorted (map f xs)"
  shows "xs = filter (\<lambda>x. f x < p) xs @ filter (\<lambda>x. f x = p) xs @ filter (\<lambda>x. p < f x) xs"
  using assms
proof (induction xs)
  case (Cons x xs)
  have ge: "f x \<le> f y" if "y \<in> set xs" for y using Cons.prems that by simp
  have IH: "xs = filter (\<lambda>x. f x < p) xs @ filter (\<lambda>x. f x = p) xs @ filter (\<lambda>x. p < f x) xs" using Cons by simp
  consider "f x < p" | "f x = p" | "p < f x" by fastforce
  then show ?case
  proof cases
    case 1
    with IH show ?thesis by auto
  next
    case 2
    then have "filter (\<lambda>x. f x < p) xs = []" using ge by (fastforce simp: filter_empty_conv)
    with IH 2 show ?thesis by simp
  next
    case 3
    then have "filter (\<lambda>x. f x < p) xs = []" "filter (\<lambda>x. f x = p) xs = []" using ge by (fastforce simp: filter_empty_conv)+
    with IH 3 show ?thesis by simp
  qed
qed simp

lemma offset_other:
  assumes "\<And>c. c \<in> set cs \<Longrightarrow> cap_name c \<noteq> ''eth''"
  shows "foldl offset_step (off, m) cs = (off + sum_list (map capability_wire_length cs), m)"
  using assms by (induction cs arbitrary: off) (simp_all add: offset_step_def Let_def add.assoc)

lemma case_option_snd:
  "map_option snd x = (if e then None else Some b) \<Longrightarrow> (case x of None \<Rightarrow> z | Some (_, y) \<Rightarrow> y) = (if e then z else b)"
  by (cases x) (auto split: if_splits)

lemma other_lengths:
  assumes "\<And>c. c \<in> set cs \<Longrightarrow> cap_name c \<noteq> ''eth''"
  shows "sum_list (map capability_wire_length cs) = word_of_nat (\<Sum>c\<leftarrow>cs. if cap_name c = ''snap'' then 8 else 1)"
  using assms by (induction cs) (simp_all add: capability_wire_length_def)

lemma offset_eth_matched:
  assumes "\<And>c. c \<in> set cs \<Longrightarrow> cap_name c = ''eth''"
  obtains m' where "foldl offset_step (base + capability_wire_length m, Some (m, base)) cs = (base + capability_wire_length m', Some (m', base))"
  using assms
proof (induction cs arbitrary: m thesis)
  case (Cons c cs)
  show ?case
  proof (cases "capability_wire_length c = 0 \<or> \<not> cap_version m < cap_version c")
    case True
    then have "offset_step (base + capability_wire_length m, Some (m, base)) c = (base + capability_wire_length m, Some (m, base))"
      using Cons.prems(2) [of c] by (auto simp: offset_step_def Let_def)
    then show ?thesis using Cons.IH [of m thesis] Cons.prems by auto
  next
    case False
    then have "offset_step (base + capability_wire_length m, Some (m, base)) c = (base + capability_wire_length c, Some (c, base))"
      using Cons.prems(2) [of c] by (auto simp: offset_step_def Let_def)
    then show ?thesis using Cons.IH [of c thesis] Cons.prems by auto
  qed
qed auto

lemma wire_length_eth_0:
  "cap_name c = ''eth'' \<Longrightarrow> capability_wire_length c = 0 \<longleftrightarrow> \<not> (66 \<le> cap_version c \<and> cap_version c \<le> 69)"
proof -
  have "v \<le> 69 \<longleftrightarrow> v = 69 \<or> v \<le> 68" for v :: u8
    by (simp add: word_le_nat_alt word_unat_eq_iff) arith
  then show "cap_name c = ''eth'' \<Longrightarrow> ?thesis" by (auto simp: capability_wire_length_def)
qed

lemma offset_eth:
  assumes "\<And>c. c \<in> set cs \<Longrightarrow> cap_name c = ''eth''"
  shows "map_option snd (snd (foldl offset_step (base, None) cs)) = (if eth_versions cs = {} then None else Some base)"
  using assms
proof (induction cs)
  case (Cons c cs)
  show ?case
  proof (cases "capability_wire_length c = 0")
    case True
    then have "offset_step (base, None) c = (base, None)" "\<not> (66 \<le> cap_version c \<and> cap_version c \<le> 69)"
      using Cons.prems wire_length_eth_0 [of c] by (simp_all add: offset_step_def Let_def)
    then show ?thesis using Cons by auto
  next
    case False
    obtain m' where "foldl offset_step (base + capability_wire_length c, Some (c, base)) cs = (base + capability_wire_length m', Some (m', base))"
      using offset_eth_matched [of cs base c thesis] Cons.prems by auto
    moreover have "offset_step (base, None) c = (base + capability_wire_length c, Some (c, base))"
      using False Cons.prems by (simp add: offset_step_def Let_def)
    ultimately show ?thesis using False Cons.prems wire_length_eth_0 [of c] by simp
  qed
qed simp

text \<open>C31. Negotiation picks the highest version of eth the peer offers among 66 to 69, and no version gives zero. The base of the eth message ids is 16
  plus the lengths of all capabilities of the peer whose name sorts before eth, modulo 256, in whatever order they are listed; capabilities
  this side does not advertise are counted too.\<close>

theorem negotiation_exact:
  "negotiate_eth_version caps = Max (insert 0 (eth_versions caps)) \<and>
   negotiate_eth_offset caps =
     (if eth_versions caps = {} then 0
      else word_of_nat (16 + (\<Sum>c\<leftarrow>filter (\<lambda>c. bytes_of (cap_name c) < bytes_of ''eth'') caps. if cap_name c = ''snap'' then 8 else 1)))"
proof (rule conjI [OF negotiate_eth_version_Max])
  let ?f = "\<lambda>c. bytes_of (cap_name c)" and ?e = "bytes_of ''eth''"
  define xs where "xs = sort_capabilities caps"
  define lo where "lo = filter (\<lambda>c. ?f c < ?e) xs"
  define mid where "mid = filter (\<lambda>c. ?f c = ?e) xs"
  define hi where "hi = filter (\<lambda>c. ?e < ?f c) xs"
  have "sorted (map (\<lambda>c. (?f c, cap_version c)) xs)" by (simp add: xs_def sort_capabilities_def)
  then have "sorted (map ?f xs)"
    unfolding sorted_map by (rule sorted_wrt_mono_rel [rotated]) (auto simp: less_eq_prod_def)
  from sorted_three_parts [OF this, of ?e] have parts: "xs = lo @ mid @ hi" by (simp add: lo_def mid_def hi_def)
  have names: "\<And>c. c \<in> set lo \<Longrightarrow> cap_name c \<noteq> ''eth''" "\<And>c. c \<in> set mid \<Longrightarrow> cap_name c = ''eth''" "\<And>c. c \<in> set hi \<Longrightarrow> cap_name c \<noteq> ''eth''"
    by (auto simp: lo_def mid_def hi_def)
  have [simp]: "set xs = set caps" by (simp add: xs_def sort_capabilities_def)
  then have "eth_versions mid = eth_versions caps" by (auto simp: eth_versions_def mid_def)
  let ?base = "16 + sum_list (map capability_wire_length lo)"
  have "map_option snd (snd (foldl offset_step (16, None) xs)) = (if eth_versions caps = {} then None else Some ?base)"
  proof -
    obtain a b where ab: "foldl offset_step (?base, None) mid = (a, b)" by fastforce
    then have "snd (foldl offset_step (16, None) xs) = b" by (simp add: parts offset_other [OF names(1)] offset_other [OF names(3)])
    then show ?thesis using offset_eth [of mid ?base, OF names(2)] ab \<open>eth_versions mid = _\<close> by simp
  qed
  moreover have "?base = word_of_nat (16 + (\<Sum>c\<leftarrow>filter (\<lambda>c. ?f c < ?e) caps. if cap_name c = ''snap'' then 8 else 1))"
  proof -
    have "mset lo = mset (filter (\<lambda>c. ?f c < ?e) caps)" by (simp add: lo_def xs_def sort_capabilities_def)
    then have "mset (map h lo) = mset (map h (filter (\<lambda>c. ?f c < ?e) caps))" for h :: "capability \<Rightarrow> nat" by (simp only: mset_map)
    then have "sum_list (map h lo) = sum_list (map h (filter (\<lambda>c. ?f c < ?e) caps))" for h :: "capability \<Rightarrow> nat"
      by (simp only: sum_mset_sum_list [symmetric])
    then show ?thesis by (simp only: other_lengths [OF names(1)] of_nat_add of_nat_numeral)
  qed
  ultimately show "negotiate_eth_offset caps = (if eth_versions caps = {} then 0
      else word_of_nat (16 + (\<Sum>c\<leftarrow>filter (\<lambda>c. ?f c < ?e) caps. if cap_name c = ''snap'' then 8 else 1)))"
    unfolding negotiate_eth_offset_def xs_def [symmetric] by (simp only: case_option_snd)
qed

section \<open>Timeouts\<close>

lemma receive_poll_result:
  "\<exists>n \<le> (timeout - elapsed + 9) div 10. (\<forall>i < n. inbound (k + i) = []) \<and> (0 < n \<longrightarrow> q = []) \<and>
    receive_poll timeout inbound (\<lambda>k. Fires (late k)) k elapsed q =
      (case q @ inbound (k + n) of m # rest \<Rightarrow> (Inr m, rest) | [] \<Rightarrow> (Inl kHandshakeFailed, []))"
proof (induction "timeout - elapsed" arbitrary: k elapsed q rule: less_induct)
  case less
  show ?case
  proof (cases "q @ inbound k = [] \<and> elapsed < timeout")
    case True
    let ?e = "elapsed + min (timeout - elapsed) 10 + late k"
    from True have "timeout - ?e < timeout - elapsed" by arith
    from less [OF this, of "Suc k" "[]"] obtain n where n: "n \<le> (timeout - ?e + 9) div 10"
      "\<forall>i < n. inbound (Suc (k + i)) = []" "receive_poll timeout inbound (\<lambda>k. Fires (late k)) (Suc k) ?e [] =
        (case inbound (Suc (k + n)) of m # rest \<Rightarrow> (Inr m, rest) | [] \<Rightarrow> (Inl kHandshakeFailed, []))"
      by auto
    have "Suc n \<le> (timeout - elapsed + 9) div 10"
    proof (cases "timeout - elapsed < 10")
      case True
      then have "timeout - ?e = 0" by simp
      then have "n = 0" using n(1) by simp
      moreover have "10 div 10 \<le> (timeout - elapsed + 9) div 10"
        by (rule div_le_mono) (use \<open>q @ inbound k = [] \<and> elapsed < timeout\<close> in arith)
      ultimately show ?thesis by simp
    next
      case False
      then have "timeout - ?e + 9 + 10 \<le> timeout - elapsed + 9" by simp
      then have "(timeout - ?e + 9 + 10) div 10 \<le> (timeout - elapsed + 9) div 10" by (rule div_le_mono)
      moreover have "(x + 10) div 10 = Suc (x div 10)" for x :: nat by simp
      ultimately show ?thesis using n(1) by linarith
    qed
    moreover have "\<forall>i < Suc n. inbound (k + i) = []" using True n(2) by (auto simp: less_Suc_eq_0_disj)
    moreover have "receive_poll timeout inbound (\<lambda>k. Fires (late k)) k elapsed q = receive_poll timeout inbound (\<lambda>k. Fires (late k)) (Suc k) ?e []"
      using True by (subst receive_poll.simps) (simp add: channel_try_pop_def)
    ultimately show ?thesis using True n(3) by (intro exI [of _ "Suc n"]) simp
  next
    case False
    then show ?thesis
      by (intro exI [of _ 0]) (subst receive_poll.simps, auto simp: channel_try_pop_def split: list.splits)
  qed
qed

text \<open>C20. Waiting for a message ends: while the waits of its timer end by the timer firing, however late, it returns after at most one poll for each
  ten milliseconds of the timeout and one more, with the first message that is in the channel at a poll, and with an error if none came before
  the deadline.\<close>

theorem receive_poll_returns:
  assumes "state s = kActive" "recv_channel s = Some q"
  shows "\<exists>n \<le> (timeout + 9) div 10. (\<forall>i < n. inbound i = []) \<and> (0 < n \<longrightarrow> q = []) \<and>
    receive_message_with_timeout timeout inbound (\<lambda>k. Fires (late k)) s =
      (case q @ inbound n of
         m # rest \<Rightarrow> Some (Inr m, s\<lparr>recv_channel := Some rest\<rparr>)
       | [] \<Rightarrow> Some (Inl kHandshakeFailed, s\<lparr>recv_channel := Some []\<rparr>))"
proof -
  obtain n where "n \<le> (timeout + 9) div 10" "\<forall>i < n. inbound i = []" "0 < n \<longrightarrow> q = []"
    "receive_poll timeout inbound (\<lambda>k. Fires (late k)) 0 0 q = (case q @ inbound n of m # rest \<Rightarrow> (Inr m, rest) | [] \<Rightarrow> (Inl kHandshakeFailed, []))"
    using receive_poll_result [of timeout 0 inbound 0 q late] by auto
  then show ?thesis
    using assms by (intro exI [of _ n]) (simp add: receive_message_with_timeout_def split: list.splits)
qed

definition sample_session :: "nat rlpx_session" where
  "sample_session = (new_session (sample_ends True) \<lparr>pi_public_key = [], pi_client_id = [], pi_listen_port = 0, pi_remote_address = [],
     pi_remote_port = 0\<rparr> True)\<lparr>state := kActive\<rparr>"

theorem receive_poll_returns_witness:
  "receive_message_with_timeout 5000 (\<lambda>k. if k = 0 then [sample_ping] else []) (\<lambda>_. Fires 0) sample_session = Some (Inr sample_ping, sample_session)"
proof -
  have [simp]: "state sample_session = kActive" "recv_channel sample_session = Some []" "sample_session\<lparr>recv_channel := Some []\<rparr> = sample_session"
    by (simp_all add: sample_session_def new_session_def)
  obtain n :: nat where n: "\<forall>i < n. (if i = 0 then [sample_ping] else []) = ([] :: rlpx_message list)"
    "receive_message_with_timeout 5000 (\<lambda>k. if k = 0 then [sample_ping] else []) (\<lambda>_. Fires 0) sample_session =
      (case [] @ (if n = 0 then [sample_ping] else []) of m # rest \<Rightarrow> Some (Inr m, sample_session\<lparr>recv_channel := Some rest\<rparr>)
       | [] \<Rightarrow> Some (Inl kHandshakeFailed, sample_session\<lparr>recv_channel := Some []\<rparr>))"
    using receive_poll_returns [of sample_session "[]" 5000 "\<lambda>k. if k = 0 then [sample_ping] else []" "\<lambda>_. 0"] by auto
  then have "n = 0" by (cases n) auto
  with n(2) show ?thesis by simp
qed

section \<open>Connecting\<close>

text \<open>What a peer with given secrets puts on the wire as its first message, and the secrets a responder derives from the packets of the handshake.\<close>

definition first_wire :: "'c frame_lib \<Rightarrow> snappy_lib \<Rightarrow> frame_secrets \<Rightarrow> rlpx_message \<Rightarrow> bytes" where
  "first_wire L S sec m = outgoing (transport (snd (send_message L S m (new_message_stream (new_frame_cipher L sec) fresh_transport))))"

definition responder_secrets :: "('pk, 'sg) auth_lib \<Rightarrow> bytes \<times> bytes \<Rightarrow> bytes \<Rightarrow> key_pair \<Rightarrow> key_pair \<Rightarrow> bytes \<Rightarrow> bytes \<Rightarrow> bytes \<Rightarrow> bytes \<Rightarrow> frame_secrets" where
  "responder_secrets lib junk initiator a b ni nr packet ack = derive_frame_secrets lib junk
     \<lparr>peer_public_key = initiator, peer_ephemeral_public_key = kp_public_key a, local_ephemeral_public_key = kp_public_key b,
      local_ephemeral_private_key = kp_private_key b, initiator_nonce = ni, recipient_nonce = nr,
      initiator_auth_message = len_prefix (length packet) @ packet, recipient_ack_message = len_prefix (length ack) @ ack\<rparr> False"

lemma first_wire_delivers:
  assumes "frame_lib_laws L" "snappy_laws S" "length (message_data S False m) < 2 ^ 24" "mirrored sec sec'"
  obtains st where "delivers L S False (rx (new_message_stream (new_frame_cipher L sec) t)) (first_wire L S sec' m) m st"
proof -
  let ?p = "new_message_stream (new_frame_cipher L sec') fresh_transport"
  have p: "is_open (transport ?p)" "write_fault (transport ?p) = None" "outgoing (transport ?p) = []" "compression_enabled ?p = False"
    by (simp_all add: new_message_stream_def fresh_transport_def)
  obtain w e em where w: "send_message L S m ?p = (Inr (), ?p\<lparr>cipher := (cipher ?p)\<lparr>enc := e, egress_mac := em\<rparr>,
       transport := (transport ?p)\<lparr>outgoing := outgoing (transport ?p) @ w\<rparr>\<rparr>)"
    "delivers L S (compression_enabled ?p) (enc (cipher ?p), egress_mac (cipher ?p)) w m (e, em)"
    by (rule send_delivers [OF assms(1,2), of ?p m]) (simp_all only: p assms(3) not_False_eq_True)
  have "first_wire L S sec' m = w" using w(1) p(3) by (simp add: first_wire_def)
  moreover have "rx (new_message_stream (new_frame_cipher L sec) t) = (enc (cipher ?p), egress_mac (cipher ?p))"
    using assms(4) by (simp add: new_message_stream_def mirrored_def new_frame_cipher_def mac_write_def)
  ultimately show thesis using w(2) p(4) that by simp
qed

lemma hello_exchange_completes:
  assumes "frame_lib_laws L" "snappy_laws S" "mirrored sec sec'"
    "is_open t" "write_fault t = None" "incoming t = first_wire L S sec' \<lparr>msg_id = 0, msg_payload = payload\<rparr> @ rest"
    "decode_hello payload = Inr h" "length (message_data S False \<lparr>msg_id = 0, msg_payload = payload\<rparr>) < 2 ^ 24"
    "length (rlp_encode (RList (hello_items (local_hello p)))) < 2 ^ 23"
  obtains s ms where
    "hello_exchange L S p None (new_message_stream (new_frame_cipher L sec) t) =
       (Inr s, [(kLocalHelloSent, kRequested), (kPeerHelloAccepted, kRequested)], None)"
    "state s = kActive" "stream s = Some ms" "incoming (transport ms) = rest" "compression_enabled ms = (5 \<le> protocol_version h)"
    "negotiated_eth_version s = negotiate_eth_version (capabilities h)" "negotiated_eth_offset s = negotiate_eth_offset (capabilities h)"
    "pi_client_id (session_peer s) = client_id h" "send_channel s = Some []" "recv_channel s = Some []"
proof -
  let ?m = "\<lparr>msg_id = 0, msg_payload = payload\<rparr> :: rlpx_message" and ?ms = "new_message_stream (new_frame_cipher L sec) t"
  let ?enc = "rlp_encode (RList (hello_items (local_hello p)))"
  have fits: "fits (RList (hello_items (local_hello p)))" using assms(9) by (simp add: fits_def)
  have enc: "encode_hello (local_hello p) = Inr ?enc" by (rule hello_written [OF fits])
  have ms: "is_open (transport ?ms)" "write_fault (transport ?ms) = None" "compression_enabled ?ms = False" "transport ?ms = t"
    using assms(4,5) by (simp_all add: new_message_stream_def)
  have "length (message_data S False \<lparr>msg_id = 0, msg_payload = ?enc\<rparr>) < 2 ^ 24"
    using assms(9) fits_u8(2) [of 0] by (simp add: message_data_def payload_part_def)
  then obtain w e em where w: "send_message L S \<lparr>msg_id = 0, msg_payload = ?enc\<rparr> ?ms = (Inr (), ?ms\<lparr>cipher := (cipher ?ms)\<lparr>enc := e, egress_mac := em\<rparr>,
       transport := (transport ?ms)\<lparr>outgoing := outgoing (transport ?ms) @ w\<rparr>\<rparr>)"
    using send_delivers [OF assms(1,2), of ?ms "\<lparr>msg_id = 0, msg_payload = ?enc\<rparr>"] ms by metis
  define ms1 where "ms1 = ?ms\<lparr>cipher := (cipher ?ms)\<lparr>enc := e, egress_mac := em\<rparr>,
       transport := (transport ?ms)\<lparr>outgoing := outgoing (transport ?ms) @ w\<rparr>\<rparr>"
  obtain st where st: "delivers L S False (rx ?ms) (first_wire L S sec' ?m) ?m st"
    by (rule first_wire_delivers [OF assms(1,2,8,3)])
  have r: "receive_message L S ms1 = (Inr ?m, ms1\<lparr>cipher := (cipher ms1)\<lparr>dec := fst st, ingress_mac := snd st\<rparr>,
       transport := (transport ms1)\<lparr>incoming := rest\<rparr>\<rparr>)"
    using st [unfolded delivers_def, rule_format, of ms1] ms assms(6) by (simp add: ms1_def)
  define ms2 where "ms2 = ms1\<lparr>cipher := (cipher ms1)\<lparr>dec := fst st, ingress_mac := snd st\<rparr>, transport := (transport ms1)\<lparr>incoming := rest\<rparr>\<rparr>"
  define peer where "peer = \<lparr>pi_public_key = cp_peer_public_key p, pi_client_id = cp_client_id p, pi_listen_port = cp_listen_port p,
    pi_remote_address = [], pi_remote_port = cp_remote_port p\<rparr>"
  have completed: "hello_exchange L S p None ?ms = (Inr ((accept_hello h ((new_session ?ms peer True)\<lparr>stream := Some ms2\<rparr>))\<lparr>state := kActive\<rparr>),
      [(kLocalHelloSent, kRequested), (kPeerHelloAccepted, kRequested)], None)"
    by (simp add: hello_exchange_def receive_stream_message_with_timeout_def enc w [folded ms1_def] r [folded ms2_def] peer_def assms(7)
        Let_def fail_as_def)
  have "compression_enabled ms2 = False" "incoming (transport ms2) = rest" using ms by (simp_all add: ms2_def ms1_def)
  then show thesis
    by (intro that [OF completed, where ms = "if 5 \<le> protocol_version h then enable_compression ms2 else ms2"])
      (simp_all add: accept_hello_def new_session_def enable_compression_def)
qed

lemma connect_succeeds:
  assumes "frame_lib_laws L" "snappy_laws S" "outbound lib (connect_config p) me remote rnd n ni" "is_key_pair (al_ecdh lib) b"
    "generate_ephemeral_keypair (al_ecdh lib) (hr_keypair rnd) = Some (Inr a)"
    "create_auth_message lib (hr_padding rnd) (hr_ecies rnd) (kp_private_key me) (kp_public_key me) (kp_private_key a) ni (kp_public_key remote) =
       Some (Inr packet)"
    "ack_arrives lib (kp_private_key me) t ack
       (first_wire L S (responder_secrets lib js' (kp_public_key me) a b ni nr packet ack) \<lparr>msg_id = 0, msg_payload = payload\<rparr> @ rest) (kp_public_key b) nr"
    "decode_hello payload = Inr h" "length (message_data S False \<lparr>msg_id = 0, msg_payload = payload\<rparr>) < 2 ^ 24"
    "length (rlp_encode (RList (hello_items (local_hello p)))) < 2 ^ 23" "resolve_ec env = None" "connect_ec env 10000 = None"
  shows "\<exists>s ms. connect lib L S p env rnd junk js None t = Some (Inr s,
      if cp_progress_handler p then map (\<lambda>ph. (ph, kRequested)) [kTcpConnected, kAuthSucceeded, kLocalHelloSent, kPeerHelloAccepted] else [], None) \<and>
    state s = kActive \<and> stream s = Some ms \<and> incoming (transport ms) = rest \<and> compression_enabled ms = (5 \<le> protocol_version h) \<and>
    negotiated_eth_version s = negotiate_eth_version (capabilities h) \<and> negotiated_eth_offset s = negotiate_eth_offset (capabilities h) \<and>
    pi_client_id (session_peer s) = client_id h \<and> send_channel s = Some [] \<and> recv_channel s = Some []"
proof (rule outbound_executes [OF assms(3,7), of junk js])
  fix a' packet' km
  let ?sp = "responder_secrets lib js' (kp_public_key me) a b ni nr packet ack" and ?m = "\<lparr>msg_id = 0, msg_payload = payload\<rparr> :: rlpx_message"
  assume x: "is_key_pair (al_ecdh lib) a'" "length packet' = 382" and km: "km = junk\<lparr>local_ephemeral_public_key := kp_public_key a',
      local_ephemeral_private_key := kp_private_key a', initiator_nonce := ni, peer_public_key := kp_public_key remote,
      peer_ephemeral_public_key := kp_public_key b, recipient_nonce := nr, initiator_auth_message := len_prefix 382 @ packet',
      recipient_ack_message := len_prefix (length ack) @ ack\<rparr>"
    and y: "execute lib (connect_config p) rnd junk js t = Some (Inr \<lparr>hs_key_material = km, hs_frame_secrets = derive_frame_secrets lib js km True\<rparr>,
      t\<lparr>incoming := first_wire L S ?sp ?m @ rest, outgoing := outgoing t @ len_prefix 382 @ packet'\<rparr>)"
    and z: "generate_ephemeral_keypair (al_ecdh lib) (hr_keypair rnd) = Some (Inr a')"
      "create_auth_message lib (hr_padding rnd) (hr_ecies rnd) (kp_private_key me) (kp_public_key me) (kp_private_key a') ni (kp_public_key remote) =
         Some (Inr packet')"
  have [simp]: "a' = a" using z(1) assms(5) by simp
  have [simp]: "packet' = packet" using z(2) assms(6) by simp
  have "ecdh_laws (al_ecdh lib)" using assms(3) by (simp add: outbound_def auth_laws_def)
  then have mir: "mirrored (derive_frame_secrets lib js km True) ?sp"
    unfolding responder_secrets_def by (rule secrets_mirrored [OF _ x(1) assms(4)]) (use x(2) in \<open>simp_all add: km\<close>)
  let ?t = "t\<lparr>incoming := first_wire L S ?sp ?m @ rest, outgoing := outgoing t @ len_prefix 382 @ packet'\<rparr>"
  have t: "is_open ?t" "write_fault ?t = None" "incoming ?t = first_wire L S ?sp ?m @ rest" using assms(7) by (auto simp: ack_arrives_def)
  obtain s ms where s: "hello_exchange L S p None (new_message_stream (new_frame_cipher L (derive_frame_secrets lib js km True)) ?t) =
       (Inr s, [(kLocalHelloSent, kRequested), (kPeerHelloAccepted, kRequested)], None)"
    "state s = kActive" "stream s = Some ms" "incoming (transport ms) = rest" "compression_enabled ms = (5 \<le> protocol_version h)"
    "negotiated_eth_version s = negotiate_eth_version (capabilities h)" "negotiated_eth_offset s = negotiate_eth_offset (capabilities h)"
    "pi_client_id (session_peer s) = client_id h" "send_channel s = Some []" "recv_channel s = Some []"
    using hello_exchange_completes [OF assms(1,2) mir t assms(8-10)] by metis
  have "connect_with_timeout 10000 env t = Inr t" using assms(11,12) by (simp add: connect_with_timeout_def)
  then show ?thesis using s y by (simp add: connect_def)
qed


text \<open>C5. Connecting to a peer that follows the protocol succeeds: when the name resolves, the TCP connection is made, and the peer's ack and
  then its Hello, encrypted with the secrets a responder derives from the same handshake, arrive before the timer, \<open>connect\<close> returns an active session with the negotiated version and offset, with
  compression as the peer's protocol version asks, and with nothing read beyond the Hello.\<close>

theorem connect_completes:
  assumes "frame_lib_laws L" "snappy_laws S" "outbound lib (connect_config p) me remote rnd n ni" "is_key_pair (al_ecdh lib) b"
    "generate_ephemeral_keypair (al_ecdh lib) (hr_keypair rnd) = Some (Inr a)"
    "create_auth_message lib (hr_padding rnd) (hr_ecies rnd) (kp_private_key me) (kp_public_key me) (kp_private_key a) ni (kp_public_key remote) =
       Some (Inr packet)"
    "ack_arrives lib (kp_private_key me) t ack
       (first_wire L S (responder_secrets lib js' (kp_public_key me) a b ni nr packet ack) \<lparr>msg_id = 0, msg_payload = payload\<rparr> @ rest) (kp_public_key b) nr"
    "decode_hello payload = Inr h" "length (message_data S False \<lparr>msg_id = 0, msg_payload = payload\<rparr>) < 2 ^ 24"
    "length (rlp_encode (RList (hello_items (local_hello p)))) < 2 ^ 23" "resolve_ec env = None" "connect_ec env 10000 = None"
  shows "\<exists>s ms. connect lib L S p env rnd junk js None t = Some (Inr s,
      if cp_progress_handler p then map (\<lambda>ph. (ph, kRequested)) [kTcpConnected, kAuthSucceeded, kLocalHelloSent, kPeerHelloAccepted] else [], None) \<and>
    state s = kActive \<and> stream s = Some ms \<and> incoming (transport ms) = rest \<and> compression_enabled ms = (5 \<le> protocol_version h) \<and>
    negotiated_eth_version s = negotiate_eth_version (capabilities h) \<and> negotiated_eth_offset s = negotiate_eth_offset (capabilities h) \<and>
    pi_client_id (session_peer s) = client_id h"
  using connect_succeeds [OF assms] by blast

definition sample_params :: session_connect_params where
  "sample_params = \<lparr>cp_remote_host = ''192.0.2.1'', cp_remote_port = 30303, cp_local_public_key = kp_public_key (sample_pair 7),
     cp_local_private_key = kp_private_key (sample_pair 7), cp_peer_public_key = kp_public_key (sample_pair 8), cp_client_id = ''evmrelay'',
     cp_listen_port = 30303, cp_progress_handler = True\<rparr>"

lemma sample_hello_payload:
  "decode_hello (rlp_encode (RList (hello_items sample_hello))) = Inr sample_hello" "length (rlp_encode (RList (hello_items sample_hello))) < 200"
proof -
  show len: "length (rlp_encode (RList (hello_items sample_hello))) < 200"
    by (simp add: hello_items_def sample_hello_def capability_item_def bytes_of_def RUint_def nat_to_be.simps rlp_encode_simps rlp_str_def
        rlp_list_def rlp_prefix_def)
  then have "fits (RList (hello_items sample_hello))" by (simp add: fits_def)
  then show "decode_hello (rlp_encode (RList (hello_items sample_hello))) = Inr sample_hello"
    using hello_read [of sample_hello "[]" "[]"] by (simp add: sample_hello_def)
qed

text \<open>A peer that answers the handshake of the key pair 7: what arrives is the ack and the Hello.\<close>

lemma sample_peer_answers:
  assumes "cp_local_public_key p = kp_public_key (sample_pair 7)" "cp_local_private_key p = kp_private_key (sample_pair 7)"
    "cp_peer_public_key p = kp_public_key (sample_pair 8)"
  obtains a packet t ack where "outbound sample_auth_lib (connect_config p) (sample_pair 7) (sample_pair 8) sample_hs_random 0 (replicate 32 5)"
    "is_key_pair (al_ecdh sample_auth_lib) (sample_pair 9)"
    "generate_ephemeral_keypair (al_ecdh sample_auth_lib) (hr_keypair sample_hs_random) = Some (Inr a)"
    "create_auth_message sample_auth_lib (hr_padding sample_hs_random) (hr_ecies sample_hs_random) (kp_private_key (sample_pair 7))
       (kp_public_key (sample_pair 7)) (kp_private_key a) (replicate 32 5) (kp_public_key (sample_pair 8)) = Some (Inr packet)"
    "ack_arrives sample_auth_lib (kp_private_key (sample_pair 7)) t ack
       (first_wire counting_lib sample_snappy (responder_secrets sample_auth_lib ([], []) (kp_public_key (sample_pair 7)) a (sample_pair 9)
          (replicate 32 5) (replicate 32 6) packet ack) \<lparr>msg_id = 0, msg_payload = rlp_encode (RList (hello_items sample_hello))\<rparr> @ [])
       (kp_public_key (sample_pair 9)) (replicate 32 6)"
proof -
  have o: "outbound sample_auth_lib (connect_config p) (sample_pair 7) (sample_pair 8) sample_hs_random 0 (replicate 32 5)"
    using sample_outbound assms by (simp add: outbound_def connect_config_def sample_cfg_out_def)
  have b: "is_key_pair (al_ecdh sample_auth_lib) (sample_pair 9)" "length (kp_public_key (sample_pair 9)) = 64"
    using sample_pair_is_pair [of 9] by (auto simp: sample_auth_lib_def is_key_pair_def)
  note ack = sample_ack_arrives [OF b(2)]
  obtain a packet where x: "generate_ephemeral_keypair (al_ecdh sample_auth_lib) (hr_keypair sample_hs_random) = Some (Inr a)"
    "create_auth_message sample_auth_lib (hr_padding sample_hs_random) (hr_ecies sample_hs_random) (kp_private_key (sample_pair 7))
       (kp_public_key (sample_pair 7)) (kp_private_key a) (replicate 32 5) (kp_public_key (sample_pair 8)) = Some (Inr packet)"
    using outbound_executes [OF o ack] by metis
  define ack_body where "ack_body = sample_ack (kp_public_key (sample_pair 9))"
  define w where "w = first_wire counting_lib sample_snappy (responder_secrets sample_auth_lib ([], []) (kp_public_key (sample_pair 7)) a (sample_pair 9)
    (replicate 32 5) (replicate 32 6) packet ack_body) \<lparr>msg_id = 0, msg_payload = rlp_encode (RList (hello_items sample_hello))\<rparr>"
  have "ack_arrives sample_auth_lib (kp_private_key (sample_pair 7)) (fresh_transport\<lparr>incoming := len_prefix (length ack_body) @ ack_body @ w\<rparr>) ack_body (w @ [])
      (kp_public_key (sample_pair 9)) (replicate 32 6)"
    using ack [folded ack_body_def] unfolding ack_arrives_def by (simp add: fresh_transport_def)
  then show thesis using that [OF o b(1) x] unfolding w_def by blast
qed

lemma sample_hello_fits:
  "length (message_data sample_snappy False \<lparr>msg_id = 0, msg_payload = rlp_encode (RList (hello_items sample_hello))\<rparr>) < 2 ^ 24"
  using sample_hello_payload(2) fits_u8(2) [of 0] by (simp add: message_data_def payload_part_def)

lemma sample_negotiated: "negotiate_eth_version (capabilities sample_hello) = 68" "negotiate_eth_offset (capabilities sample_hello) = 16"
  by (simp_all add: negotiate_eth_version_def negotiate_eth_offset_def sample_hello_def sort_capabilities_def offset_step_def
      capability_wire_length_def Let_def)

theorem connect_completes_witness:
  "\<exists>t s. connect sample_auth_lib counting_lib sample_snappy sample_params \<lparr>resolve_ec = None, connect_ec = (\<lambda>_. None)\<rparr> sample_hs_random
     undefined ([], []) None t = Some (Inr s, map (\<lambda>ph. (ph, kRequested)) [kTcpConnected, kAuthSucceeded, kLocalHelloSent, kPeerHelloAccepted], None) \<and>
     state s = kActive \<and> negotiated_eth_version s = 68 \<and> negotiated_eth_offset s = 16"
proof (rule sample_peer_answers [of sample_params])
  fix a packet t ack
  assume x: "outbound sample_auth_lib (connect_config sample_params) (sample_pair 7) (sample_pair 8) sample_hs_random 0 (replicate 32 5)"
    "is_key_pair (al_ecdh sample_auth_lib) (sample_pair 9)"
    "generate_ephemeral_keypair (al_ecdh sample_auth_lib) (hr_keypair sample_hs_random) = Some (Inr a)"
    "create_auth_message sample_auth_lib (hr_padding sample_hs_random) (hr_ecies sample_hs_random) (kp_private_key (sample_pair 7))
       (kp_public_key (sample_pair 7)) (kp_private_key a) (replicate 32 5) (kp_public_key (sample_pair 8)) = Some (Inr packet)"
    "ack_arrives sample_auth_lib (kp_private_key (sample_pair 7)) t ack
       (first_wire counting_lib sample_snappy (responder_secrets sample_auth_lib ([], []) (kp_public_key (sample_pair 7)) a (sample_pair 9)
          (replicate 32 5) (replicate 32 6) packet ack) \<lparr>msg_id = 0, msg_payload = rlp_encode (RList (hello_items sample_hello))\<rparr> @ [])
       (kp_public_key (sample_pair 9)) (replicate 32 6)"
  have m: "length (rlp_encode (RList (hello_items (local_hello sample_params)))) < 2 ^ 23"
    by (simp add: hello_items_def local_hello_def sample_params_def capability_item_def bytes_of_def RUint_def nat_to_be.simps rlp_encode_simps
        rlp_str_def rlp_list_def rlp_prefix_def sample_pair_def)
  show ?thesis
    using connect_completes [OF counting_lib_laws sample_snappy_laws x sample_hello_payload(1) sample_hello_fits m,
        of "\<lparr>resolve_ec = None, connect_ec = (\<lambda>_. None)\<rparr>" undefined "([], [])"] sample_negotiated
    by (auto simp: sample_params_def)
qed (simp_all add: sample_params_def)

section \<open>Routing\<close>

text \<open>A moved session has lost the eth handler: a message that went to it before goes to the generic handler, or nowhere. The session moved from
  still reports that it is active, and posting a message to it is undefined.\<close>

theorem move_drops_eth_handler:
  assumes "state s = kActive" "eth_message_handler (handlers s)" "4 \<le> msg_id m" "negotiated_eth_offset s \<le> msg_id m"
  shows "route_message m s = [EthMessageHandler (msg_id m - negotiated_eth_offset s) (msg_payload m)] \<and>
    route_message m (move_session s) = (if generic_handler (handlers s) then [GenericHandler m] else []) \<and>
    state (moved_from junk s) = kActive \<and> post_message m (moved_from junk s) = None"
proof -
  have "msg_id m \<noteq> 0" "msg_id m \<noteq> 1" "msg_id m \<noteq> 2" "msg_id m \<noteq> 3" using assms(3) by (auto simp: word_le_nat_alt)
  then show ?thesis
    using assms by (simp add: route_message_def move_session_def moved_from_def post_message_def normalize_eth_message_id_def not_less)
qed

theorem move_drops_eth_handler_witness:
  "route_message \<lparr>msg_id = 0x10, msg_payload = []\<rparr> (sample_session\<lparr>negotiated_eth_offset := 16, handlers := no_handlers\<lparr>eth_message_handler := True\<rparr>\<rparr>) =
     [EthMessageHandler 0 []] \<and>
   route_message \<lparr>msg_id = 0x10, msg_payload = []\<rparr>
     (move_session (sample_session\<lparr>negotiated_eth_offset := 16, handlers := no_handlers\<lparr>eth_message_handler := True\<rparr>\<rparr>)) = []"
  using move_drops_eth_handler [of "sample_session\<lparr>negotiated_eth_offset := 16, handlers := no_handlers\<lparr>eth_message_handler := True\<rparr>\<rparr>"
      "\<lparr>msg_id = 0x10, msg_payload = []\<rparr>"]
  by (simp add: sample_session_def no_handlers_def)

end
