(* ===== verification/Session_Run.thy ===== *)
theory Session_Run
  imports Rlpx_Session
begin

text \<open>
  Two RLPx sessions that have exchanged their Hello messages, as they run: the send and the receive loop of each, calls of \<open>post_message\<close>,
  \<open>receive_message\<close> and \<open>disconnect\<close> at any time, the network between them, and faults. A step is what runs between two points where
  a coroutine may be suspended: the wait of an idle send loop, the write of a frame, and the read of the receive loop. While a frame is
  written, the socket takes its bytes a few at a time.
\<close>

section \<open>Steps\<close>

text \<open>Where the receive loop is: before the test of the state, in the read, with a message that has been read but not dispatched, or at its end.\<close>

datatype recv_pc = Checking | Awaiting | Holding rlpx_message | Ended

record 'c session_world =
  sess :: "bool \<Rightarrow> 'c rlpx_session"
  rpc :: "bool \<Rightarrow> recv_pc"
  spc :: "bool \<Rightarrow> send_pc"
  posted :: "bool \<Rightarrow> rlpx_message list"
  transmitted :: "bool \<Rightarrow> rlpx_message list"
  routed :: "bool \<Rightarrow> rlpx_message list"
  pulled :: "bool \<Rightarrow> rlpx_message list"

definition on_stream :: "('c message_stream \<Rightarrow> 'c message_stream) \<Rightarrow> 'c rlpx_session \<Rightarrow> 'c rlpx_session" where
  "on_stream f x = x\<lparr>stream := map_option f (stream x)\<rparr>"

definition strm :: "'c session_world \<Rightarrow> bool \<Rightarrow> 'c message_stream" where
  "strm w s = the (stream (sess w s))"

definition carry_bytes :: "bool \<Rightarrow> nat \<Rightarrow> 'c session_world \<Rightarrow> 'c session_world" where
  "carry_bytes s n w =
     (let out = outgoing (transport (strm w s))
      in w\<lparr>sess := (sess w)(s := on_stream (\<lambda>ms. ms\<lparr>transport := (transport ms)\<lparr>outgoing := drop n out\<rparr>\<rparr>) (sess w s),
           \<not> s := on_stream (\<lambda>ms. ms\<lparr>transport := (transport ms)\<lparr>incoming := incoming (transport ms) @ take n out\<rparr>\<rparr>) (sess w (\<not> s)))\<rparr>)"

definition take_bytes :: "bytes \<Rightarrow> 'c rlpx_session \<Rightarrow> 'c rlpx_session" where
  "take_bytes bs = on_stream (\<lambda>ms. ms\<lparr>transport := (transport ms)\<lparr>outgoing := outgoing (transport ms) @ bs\<rparr>\<rparr>)"

inductive session_step :: "'c frame_lib \<Rightarrow> snappy_lib \<Rightarrow> 'c session_world \<Rightarrow> 'c session_world \<Rightarrow> bool" for L S where
  step_post: "post_message m (sess w s) = Some (r, x) \<Longrightarrow>
    session_step L S w (w\<lparr>sess := (sess w)(s := x), posted := (posted w)(s := posted w s @ (if r = Inr () then [m] else []))\<rparr>)"
| step_send: "spc w s = SendChecking \<Longrightarrow> send_check L S (sess w s) = Some (pc, x) \<Longrightarrow>
    session_step L S w (w\<lparr>sess := (sess w)(s := x), spc := (spc w)(s := pc)\<rparr>)"
| step_poll: "spc w s = SendPolling \<Longrightarrow> send_poll timer_fails (sess w s) = (pc, x) \<Longrightarrow>
    session_step L S w (w\<lparr>sess := (sess w)(s := x), spc := (spc w)(s := pc)\<rparr>)"
| step_take: "spc w s = SendWriting m rest \<Longrightarrow> is_open (transport (strm w s)) \<Longrightarrow> write_fault (transport (strm w s)) = None \<Longrightarrow>
    session_step L S w (w\<lparr>sess := (sess w)(s := take_bytes (take n rest) (sess w s)), spc := (spc w)(s := SendWriting m (drop n rest))\<rparr>)"
| step_resume: "spc w s = SendWriting m rest \<Longrightarrow> send_resume rest (sess w s) = Some (pc, x) \<Longrightarrow>
    session_step L S w (w\<lparr>sess := (sess w)(s := x), spc := (spc w)(s := pc),
      transmitted := (transmitted w)(s := transmitted w s @ (if pc = SendChecking then [m] else []))\<rparr>)"
| step_check: "rpc w s = Checking \<Longrightarrow>
    session_step L S w (w\<lparr>rpc := (rpc w)(s := if state (sess w s) = kActive then Awaiting else Ended)\<rparr>)"
| step_await: "rpc w s = Awaiting \<Longrightarrow> receive_await L S (sess w s) = Some (Inr m, x) \<Longrightarrow>
    session_step L S w (w\<lparr>sess := (sess w)(s := x), rpc := (rpc w)(s := Holding m)\<rparr>)"
| step_await_fails: "rpc w s = Awaiting \<Longrightarrow> receive_await L S (sess w s) = Some (Inl e, x) \<Longrightarrow>
    session_step L S w (w\<lparr>sess := (sess w)(s := x), rpc := (rpc w)(s := Ended)\<rparr>)"
| step_dispatch: "rpc w s = Holding m \<Longrightarrow> receive_dispatch m (sess w s) = Some (events, x) \<Longrightarrow>
    session_step L S w (w\<lparr>sess := (sess w)(s := x), rpc := (rpc w)(s := Checking), routed := (routed w)(s := routed w s @ [m])\<rparr>)"
| step_pull: "session_receive_message (sess w s) = Some (r, x) \<Longrightarrow>
    session_step L S w (w\<lparr>sess := (sess w)(s := x), pulled := (pulled w)(s := pulled w s @ (case r of Inl _ \<Rightarrow> [] | Inr m \<Rightarrow> [m]))\<rparr>)"
| step_disconnect: "session_step L S w (w\<lparr>sess := (sess w)(s := snd (disconnect reason (sess w s)))\<rparr>)"
| step_carry: "session_step L S w (carry_bytes s n w)"
| step_fault: "session_step L S w (w\<lparr>sess := (sess w)(s := on_stream (\<lambda>ms. ms\<lparr>transport := (transport ms)\<lparr>write_fault := Some ec\<rparr>\<rparr>) (sess w s))\<rparr>)"

text \<open>The start: both ends have sent and received exactly one message over linked streams, the Hello, and compress from then on if both speak
  version 5.\<close>

definition session_start :: "'c frame_lib \<Rightarrow> snappy_lib \<Rightarrow> bool \<Rightarrow> 'c session_world \<Rightarrow> bool" where
  "session_start L S v5 w \<longleftrightarrow> (\<exists>l h. link_run L S v5 l \<and>
     (\<forall>s. sent l s = [h s] \<and> got l s = [h (\<not> s)] \<and> stream (sess w s) = Some (end_at l s) \<and> compression_enabled (end_at l s) = v5 \<and>
       state (sess w s) = kActive \<and> send_channel (sess w s) = Some [] \<and> recv_channel (sess w s) = Some [] \<and> rpc w s = Checking \<and> spc w s = SendChecking \<and>
       posted w s = [] \<and> transmitted w s = [] \<and> routed w s = [] \<and> pulled w s = []))"

definition session_run :: "'c frame_lib \<Rightarrow> snappy_lib \<Rightarrow> bool \<Rightarrow> 'c session_world \<Rightarrow> bool" where
  "session_run L S v5 w \<longleftrightarrow> (\<exists>w0. session_start L S v5 w0 \<and> (session_step L S)\<^sup>*\<^sup>* w0 w)"

section \<open>Invariant\<close>

fun held :: "recv_pc \<Rightarrow> rlpx_message list" where
  "held (Holding m) = [m]"
| "held _ = []"

fun in_hand :: "send_pc \<Rightarrow> rlpx_message list" where
  "in_hand (SendWriting m rest) = [m]"
| "in_hand _ = []"

fun unwritten :: "send_pc \<Rightarrow> bytes" where
  "unwritten (SendWriting m rest) = rest"
| "unwritten _ = []"

fun ended :: "send_pc \<Rightarrow> bool" where
  "ended (SendEnded r) \<longleftrightarrow> True"
| "ended _ \<longleftrightarrow> False"

text \<open>One side: its session, where its send loop is, and what was posted, transmitted, routed and pulled there.\<close>

definition side_ok :: "bool \<Rightarrow> 'c rlpx_session \<Rightarrow> send_pc \<Rightarrow> rlpx_message list \<Rightarrow> rlpx_message list \<Rightarrow> rlpx_message list \<Rightarrow>
    rlpx_message list \<Rightarrow> bool" where
  "side_ok v5 x pc po tr ro pu \<longleftrightarrow> state x \<in> {kActive, kClosed, kError} \<and>
     (\<exists>ms q c rest. stream x = Some ms \<and> compression_enabled ms = v5 \<and> recv_channel x = Some q \<and> send_channel x = Some c \<and>
        ro = pu @ q \<and> po = tr @ in_hand pc @ rest \<and>
        (state x = kActive \<longrightarrow> is_open (transport ms) \<and> c = rest \<and> \<not> ended pc))"

abbreviation (input) side_inv :: "bool \<Rightarrow> 'c session_world \<Rightarrow> bool \<Rightarrow> bool" where
  "side_inv v5 w s \<equiv> side_ok v5 (sess w s) (spc w s) (posted w s) (transmitted w s) (routed w s) (pulled w s)"

text \<open>The way to one side: the messages \<open>p\<close> follow those routed or held there, and their frames are the bytes that have arrived, those on the way and
  those still to be written. When the send loop has ended, a part of the last frame may be lost.\<close>

definition way_inv :: "'c frame_lib \<Rightarrow> snappy_lib \<Rightarrow> bool \<Rightarrow> 'c session_world \<Rightarrow> bool \<Rightarrow> bool" where
  "way_inv L S v5 w s \<longleftrightarrow>
     (\<exists>p lost st. prefix (routed w s @ held (rpc w s) @ p) (posted w (\<not> s)) \<and>
        (rpc w s \<noteq> Ended \<longrightarrow> in_flight L S v5 (Suc (length (routed w s @ held (rpc w s)))) (rx (strm w s))
            (incoming (transport (strm w s)) @ outgoing (transport (strm w (\<not> s))) @ lost) p st) \<and>
        (\<not> ended (spc w (\<not> s)) \<longrightarrow> routed w s @ held (rpc w s) @ p = transmitted w (\<not> s) @ in_hand (spc w (\<not> s)) \<and>
            lost = unwritten (spc w (\<not> s)) \<and> st = tx (strm w (\<not> s))))"

text \<open>The length field of a frame has three bytes: a frame of exactly 16 MiB is announced with the length 0. Larger ones are refused.\<close>

definition framed :: "snappy_lib \<Rightarrow> bool \<Rightarrow> rlpx_message \<Rightarrow> bool" where
  "framed S v5 m \<longleftrightarrow> length (message_data S v5 m) \<noteq> 2 ^ 24"

lemma start_side:
  assumes "session_start L S v5 w" "frame_lib_laws L" "snappy_laws S"
  shows "side_inv v5 w s"
proof -
  obtain l where l: "link_run L S v5 l" "stream (sess w s) = Some (end_at l s)" "compression_enabled (end_at l s) = v5" "spc w s = SendChecking"
    "state (sess w s) = kActive" "send_channel (sess w s) = Some []" "recv_channel (sess w s) = Some []"
    "posted w s = []" "transmitted w s = []" "routed w s = []" "pulled w s = []"
    using assms(1) by (auto simp: session_start_def)
  then show ?thesis using link_inv_reachable [OF assms(2,3) l(1), of s] by (simp add: side_ok_def link_inv_def)
qed

lemma start_way:
  assumes "session_start L S v5 w" "frame_lib_laws L" "snappy_laws S"
  shows "way_inv L S v5 w s"
proof -
  obtain l h where l: "link_run L S v5 l" "\<And>s. sent l s = [h s] \<and> got l s = [h (\<not> s)] \<and> stream (sess w s) = Some (end_at l s) \<and> rpc w s = Checking \<and>
      spc w s = SendChecking \<and> posted w s = [] \<and> transmitted w s = [] \<and> routed w s = []"
    using assms(1) by (auto simp: session_start_def)
  have "link_inv L S v5 l s" by (rule link_inv_reachable [OF assms(2,3) l(1)])
  then show ?thesis using l(2) by (simp add: link_inv_def way_inv_def strm_def)
qed

lemma message_frame_outcome:
  assumes "frame_lib_laws L" "snappy_laws S" "framed S (compression_enabled ms) m" "message_frame L S m ms = (r, ms')"
  obtains (frame) wire e em where "r = Inr wire" "ms' = ms\<lparr>cipher := (cipher ms)\<lparr>enc := e, egress_mac := em\<rparr>\<rparr>"
      "delivers L S (compression_enabled ms) (tx ms) wire m (e, em)"
  | (refused) err where "r = Inl err" "ms' = ms"
proof (cases "length (message_data S (compression_enabled ms) m) < 2 ^ 24")
  case True
  then show thesis using frame_delivers [OF assms(1,2), of ms m thesis] assms(4) frame by auto
next
  case False
  then have "kMaxFrameSize < length (message_data S (compression_enabled ms) m)" using assms(3) by (simp add: framed_def kMaxFrameSize_def)
  then show thesis using assms(4) refused by (auto simp: message_frame_def message_data_def)
qed

lemma decrypt_keeps:
  "decrypt_header L a b fc = (r, fc') \<Longrightarrow> enc fc' = enc fc \<and> egress_mac fc' = egress_mac fc"
  "decrypt_frame_body L n c d fc = (r', fc') \<Longrightarrow> enc fc' = enc fc \<and> egress_mac fc' = egress_mac fc"
  by (auto simp: decrypt_header_def decrypt_frame_body_def Let_def split: if_splits prod.splits)

lemma receive_keeps:
  assumes "receive_message L S ms = (r, ms')"
  shows "tx ms' = tx ms" "outgoing (transport ms') = outgoing (transport ms)" "compression_enabled ms' = compression_enabled ms"
    "is_open (transport ms') = is_open (transport ms)" "write_fault (transport ms') = write_fault (transport ms)"
  using assms
  by (auto simp: receive_message_def receive_frame_def read_exact_def Let_def dest!: decrypt_keeps split: if_splits prod.splits sum.splits)

text \<open>A step keeps a way when the bytes on it stay the same and the send loop has as much to write as before or ends; or when the send loop goes on
  and the bytes on the way and those to be written are the same together.\<close>

lemma way_keeps:
  assumes "way_inv L S v5 w s" "prefix (posted w (\<not> s)) (posted w' (\<not> s))" "routed w' s @ held (rpc w' s) = routed w s @ held (rpc w s)"
    "rpc w' s \<noteq> Ended \<Longrightarrow> rpc w s \<noteq> Ended \<and> rx (strm w' s) = rx (strm w s) \<and>
       incoming (transport (strm w' s)) @ outgoing (transport (strm w' (\<not> s))) = incoming (transport (strm w s)) @ outgoing (transport (strm w (\<not> s)))"
    "\<not> ended (spc w' (\<not> s)) \<Longrightarrow> \<not> ended (spc w (\<not> s)) \<and> unwritten (spc w' (\<not> s)) = unwritten (spc w (\<not> s)) \<and>
       transmitted w' (\<not> s) @ in_hand (spc w' (\<not> s)) = transmitted w (\<not> s) @ in_hand (spc w (\<not> s)) \<and> tx (strm w' (\<not> s)) = tx (strm w (\<not> s))"
  shows "way_inv L S v5 w' s"
proof -
  from assms(1) obtain p lost st where p: "prefix (routed w s @ held (rpc w s) @ p) (posted w (\<not> s))"
    "rpc w s \<noteq> Ended \<longrightarrow> in_flight L S v5 (Suc (length (routed w s @ held (rpc w s)))) (rx (strm w s))
       ((incoming (transport (strm w s)) @ outgoing (transport (strm w (\<not> s)))) @ lost) p st"
    "\<not> ended (spc w (\<not> s)) \<longrightarrow> routed w s @ held (rpc w s) @ p = transmitted w (\<not> s) @ in_hand (spc w (\<not> s)) \<and>
       lost = unwritten (spc w (\<not> s)) \<and> st = tx (strm w (\<not> s))"
    unfolding way_inv_def append.assoc by blast
  have eq: "routed w' s @ held (rpc w' s) @ p = routed w s @ held (rpc w s) @ p" using assms(3) by (metis append.assoc)
  show ?thesis unfolding way_inv_def
  proof (intro exI conjI)
    show "prefix (routed w' s @ held (rpc w' s) @ p) (posted w' (\<not> s))" using p(1) assms(2) eq by (metis prefix_order.trans)
    show "rpc w' s \<noteq> Ended \<longrightarrow> in_flight L S v5 (Suc (length (routed w' s @ held (rpc w' s)))) (rx (strm w' s))
       (incoming (transport (strm w' s)) @ outgoing (transport (strm w' (\<not> s))) @ lost) p st"
      using p(2) assms(3,4) by (metis append.assoc)
    show "\<not> ended (spc w' (\<not> s)) \<longrightarrow> routed w' s @ held (rpc w' s) @ p = transmitted w' (\<not> s) @ in_hand (spc w' (\<not> s)) \<and>
       lost = unwritten (spc w' (\<not> s)) \<and> st = tx (strm w' (\<not> s))"
      unfolding eq using p(3) assms(5) by auto
  qed
qed

lemma way_writes:
  assumes "way_inv L S v5 w s" "\<not> ended (spc w (\<not> s))" "posted w' (\<not> s) = posted w (\<not> s)" "routed w' s = routed w s" "rpc w' s = rpc w s"
    "rx (strm w' s) = rx (strm w s)"
    "incoming (transport (strm w' s)) @ outgoing (transport (strm w' (\<not> s))) @ unwritten (spc w' (\<not> s)) =
       incoming (transport (strm w s)) @ outgoing (transport (strm w (\<not> s))) @ unwritten (spc w (\<not> s))"
    "transmitted w' (\<not> s) @ in_hand (spc w' (\<not> s)) = transmitted w (\<not> s) @ in_hand (spc w (\<not> s))" "tx (strm w' (\<not> s)) = tx (strm w (\<not> s))"
  shows "way_inv L S v5 w' s"
proof -
  from assms(1,2) obtain p where p: "prefix (routed w s @ held (rpc w s) @ p) (posted w (\<not> s))"
    "rpc w s \<noteq> Ended \<longrightarrow> in_flight L S v5 (Suc (length (routed w s @ held (rpc w s)))) (rx (strm w s))
       (incoming (transport (strm w s)) @ outgoing (transport (strm w (\<not> s))) @ unwritten (spc w (\<not> s))) p (tx (strm w (\<not> s)))"
    "routed w s @ held (rpc w s) @ p = transmitted w (\<not> s) @ in_hand (spc w (\<not> s))"
    unfolding way_inv_def by blast
  show ?thesis unfolding way_inv_def assms(3-5)
    by (intro exI [of _ p] exI [of _ "unwritten (spc w' (\<not> s))"] exI [of _ "tx (strm w' (\<not> s))"])
      (use p assms(6-9) in \<open>simp only: simp_thms\<close>)
qed

section \<open>Preservation\<close>

lemma side_post:
  assumes "side_ok v5 x pc po tr ro pu" "post_message m x = Some (r, x')"
  shows "side_ok v5 x' pc (po @ (if r = Inr () then [m] else [])) tr ro pu"
  using assms by (cases "state x = kActive") (auto simp: side_ok_def post_message_def channel_push_def)

lemma encrypt_keeps: "encrypt_frame L data fc = (r, fc') \<Longrightarrow> dec fc' = dec fc \<and> ingress_mac fc' = ingress_mac fc"
  by (auto simp: encrypt_frame_def Let_def split: if_splits prod.splits)

lemma frame_keeps:
  "message_frame L S m ms = (r, ms') \<Longrightarrow> transport ms' = transport ms \<and> compression_enabled ms' = compression_enabled ms \<and> rx ms' = rx ms"
  by (auto simp: message_frame_def Let_def dest!: encrypt_keeps split: if_splits prod.splits sum.splits)

text \<open>What the send loop does from the test of the state on.\<close>

lemma send_checkE:
  assumes "send_check L S x = Some (pc, x')" "side_ok v5 x SendChecking po tr ro pu"
  obtains (inactive) "state x \<noteq> kActive" "pc = SendEnded (Inr ())" "x' = x"
  | (idle) "state x = kActive" "send_channel x = Some []" "pc = SendPolling" "x' = x"
  | (refused) ms m c e ms' where "state x = kActive" "stream x = Some ms" "send_channel x = Some (m # c)" "message_frame L S m ms = (Inl e, ms')"
      "pc = SendEnded (Inl e)" "x' = force_error_state (x\<lparr>stream := Some ms', send_channel := Some c\<rparr>)"
  | (frame) ms m c wire ms' where "state x = kActive" "stream x = Some ms" "send_channel x = Some (m # c)" "message_frame L S m ms = (Inr wire, ms')"
      "pc = SendWriting m wire" "x' = x\<lparr>stream := Some ms', send_channel := Some c\<rparr>"
proof (cases "state x = kActive")
  case True
  from assms(2) obtain ms c where x: "stream x = Some ms" "send_channel x = Some c" by (auto simp: side_ok_def)
  show thesis
  proof (cases c)
    case Nil
    then show thesis using assms(1) True x by (intro idle) (simp_all add: send_check_def channel_try_pop_def)
  next
    case (Cons m c')
    obtain r ms' where f: "message_frame L S m ms = (r, ms')" by (cases "message_frame L S m ms")
    have c: "send_channel x = Some (m # c')" using x(2) Cons by simp
    have u: "Some (pc, x') = Some (case (r, ms') of
        (Inl e, ms) \<Rightarrow> (SendEnded (Inl e), force_error_state (x\<lparr>stream := Some ms, send_channel := Some c'\<rparr>))
      | (Inr wire, ms) \<Rightarrow> (SendWriting m wire, x\<lparr>stream := Some ms, send_channel := Some c'\<rparr>))"
      using assms(1) True x(1) c f by (simp add: send_check_def channel_try_pop_def)
    show thesis
    proof (cases r)
      case (Inl e)
      with u f show thesis by (intro refused [OF True x(1) c]) simp_all
    next
      case (Inr wire)
      with u f show thesis by (intro frame [OF True x(1) c]) simp_all
    qed
  qed
next
  case False
  then show thesis using assms(1) by (intro inactive) (simp_all add: send_check_def)
qed

lemma side_send:
  assumes "side_ok v5 x SendChecking po tr ro pu" "send_check L S x = Some (pc, x')"
  shows "side_ok v5 x' pc po tr ro pu"
  using assms(2,1)
proof (cases rule: send_checkE)
  case (refused ms m c e ms')
  then show ?thesis using assms(1) frame_keeps [OF refused(4)] by (auto simp: side_ok_def force_error_state_def)
next
  case (frame ms m c wire ms')
  then show ?thesis using assms(1) frame_keeps [OF frame(4)] by (auto simp: side_ok_def)
qed (use assms(1) in \<open>auto simp: side_ok_def\<close>)

lemma side_poll:
  "side_ok v5 x SendPolling po tr ro pu \<Longrightarrow> send_poll tf x = (pc, x') \<Longrightarrow> side_ok v5 x' pc po tr ro pu"
  by (cases tf) (auto simp: side_ok_def send_poll_def force_error_state_def)

text \<open>How the write of a frame ends.\<close>

lemma send_resumeE:
  assumes "send_resume rest x = Some (pc, x')"
  obtains (written) ms where "stream x = Some ms" "pc = SendChecking" "x' = take_bytes rest x"
  | (failed) ms e where "stream x = Some ms" "pc = SendEnded (Inl e)" "x' = force_error_state x"
proof -
  from assms obtain ms where ms: "stream x = Some ms" by (auto simp: send_resume_def)
  have [simp]: "x\<lparr>stream := Some ms\<rparr> = x" using ms by (cases x) simp
  consider "rest = []" | "rest \<noteq> []" "is_open (transport ms)" "write_fault (transport ms) = None"
    | e where "rest \<noteq> []" "write_all rest (transport ms) = (Inl e, transport ms)"
    by (cases "rest = []"; cases "is_open (transport ms)"; cases "write_fault (transport ms)") (auto simp: write_all_def)
  then show thesis
  proof cases
    case 1
    then show thesis using assms ms by (intro written [OF ms]) (simp_all add: send_resume_def take_bytes_def on_stream_def)
  next
    case 2
    then show thesis using assms ms by (intro written [OF ms]) (simp_all add: send_resume_def write_all_def take_bytes_def on_stream_def)
  next
    case 3
    then show thesis using assms ms by (intro failed [OF ms, of e]) (simp_all add: send_resume_def)
  qed
qed

lemma side_on_stream:
  assumes "side_ok v5 x pc po tr ro pu" "\<And>ms. compression_enabled (f ms) = compression_enabled ms \<and> is_open (transport (f ms)) = is_open (transport ms)"
  shows "side_ok v5 (on_stream f x) pc po tr ro pu"
  using assms by (auto simp: side_ok_def on_stream_def)

lemma side_take:
  "side_ok v5 x (SendWriting m rest) po tr ro pu \<Longrightarrow> side_ok v5 (take_bytes bs x) (SendWriting m rest') po tr ro pu"
  unfolding take_bytes_def by (rule side_on_stream) (simp_all add: side_ok_def)

lemma side_resume:
  assumes "side_ok v5 x (SendWriting m rest) po tr ro pu" "send_resume rest x = Some (pc, x')"
  shows "side_ok v5 x' pc po (tr @ (if pc = SendChecking then [m] else [])) ro pu"
  using assms(2)
proof (cases rule: send_resumeE)
  case (written ms)
  have "side_ok v5 x SendChecking po (tr @ [m]) ro pu" using assms(1) by (simp add: side_ok_def)
  then show ?thesis using written unfolding take_bytes_def by (simp add: side_on_stream)
next
  case (failed ms e)
  then show ?thesis using assms(1) by (auto simp: side_ok_def force_error_state_def)
qed

lemma receive_awaitE:
  assumes "receive_await L S x = Some (r, x')"
  obtains ms ms' where "stream x = Some ms" "receive_message L S ms = (r, ms')"
    "x' = (case r of Inl _ \<Rightarrow> force_error_state (x\<lparr>stream := Some ms'\<rparr>) | Inr _ \<Rightarrow> x\<lparr>stream := Some ms'\<rparr>)"
proof -
  from assms obtain ms where ms: "stream x = Some ms" by (auto simp: receive_await_def)
  obtain r' ms' where "receive_message L S ms = (r', ms')" by fastforce
  with assms ms show thesis by (intro that [OF ms, of ms']) (auto simp: receive_await_def split: sum.splits)
qed

lemma side_await:
  assumes "side_ok v5 x pc po tr ro pu" "receive_await L S x = Some (r, x')"
  shows "side_ok v5 x' pc po tr ro pu"
proof -
  obtain ms ms' where x: "stream x = Some ms" "receive_message L S ms = (r, ms')"
    "x' = (case r of Inl _ \<Rightarrow> force_error_state (x\<lparr>stream := Some ms'\<rparr>) | Inr _ \<Rightarrow> x\<lparr>stream := Some ms'\<rparr>)"
    by (rule receive_awaitE [OF assms(2)])
  show ?thesis using x assms(1) receive_keeps [OF x(2)] by (cases r) (auto simp: side_ok_def force_error_state_def)
qed

lemma side_dispatch:
  assumes "side_ok v5 x pc po tr ro pu" "receive_dispatch m x = Some (events, x')"
  shows "side_ok v5 x' pc po tr (ro @ [m]) pu"
  using assms by (auto simp: side_ok_def receive_dispatch_def channel_push_def)

lemma side_pull:
  assumes "side_ok v5 x pc po tr ro pu" "session_receive_message x = Some (r, x')"
  shows "side_ok v5 x' pc po tr ro (pu @ (case r of Inl _ \<Rightarrow> [] | Inr m \<Rightarrow> [m]))"
proof -
  from assms(1) obtain q where q: "recv_channel x = Some q" by (auto simp: side_ok_def)
  show ?thesis using assms q by (cases "state x = kActive"; cases q) (auto simp: side_ok_def session_receive_message_def channel_try_pop_def)
qed

lemma side_disconnect: "side_ok v5 x pc po tr ro pu \<Longrightarrow> side_ok v5 (snd (disconnect reason x)) pc po tr ro pu"
  by (cases "state x = kActive") (auto simp: side_ok_def disconnect_def stream_close_def close_transport_def Let_def)

lemmas side_lemmas = side_post side_await side_dispatch side_pull side_disconnect side_on_stream

lemma side_step:
  assumes "session_step L S w w'" "side_inv v5 w t"
  shows "side_inv v5 w' t"
  using assms(1)
proof cases
  case (step_post m s r x)
  then show ?thesis using assms(2) side_post [of v5 "sess w s" "spc w s" _ _ _ _ m r x] by (cases "t = s") simp_all
next
  case (step_resume s m rest pc x)
  show ?thesis
  proof (cases "t = s")
    case True
    then have "side_ok v5 (sess w s) (SendWriting m rest) (posted w s) (transmitted w s) (routed w s) (pulled w s)" using assms(2) step_resume(2) by simp
    from side_resume [OF this step_resume(3)] show ?thesis using True step_resume(1) by simp
  qed (use assms(2) step_resume(1) in simp)
next
  case (step_carry s n)
  then show ?thesis using assms(2) by (auto simp: carry_bytes_def Let_def intro!: side_on_stream)
next
  case (step_send s pc x)
  then show ?thesis using assms(2) side_send [OF _ step_send(3), of v5] by (cases "t = s") simp_all
next
  case (step_poll s tf pc x)
  then show ?thesis using assms(2) side_poll [OF _ step_poll(3), of v5] by (cases "t = s") simp_all
next
  case (step_take s m rest n)
  then show ?thesis using assms(2) side_take [of v5 "sess w s" m rest] by (cases "t = s") simp_all
qed (use assms(2) in \<open>auto intro: side_lemmas\<close>)

lemma receive_Inr_open: "receive_message L S ms = (Inr m, ms') \<Longrightarrow> is_open (transport ms)"
  by (auto simp: receive_message_def receive_frame_def read_exact_def split: if_splits)

lemma way_await:
  assumes "way_inv L S v5 w s" "side_inv v5 w s" "rpc w s = Awaiting" "receive_await L S (sess w s) = Some (Inr m, x)"
  shows "way_inv L S v5 (w\<lparr>sess := (sess w)(s := x), rpc := (rpc w)(s := Holding m)\<rparr>) s"
proof -
  from assms(2) obtain ms where ms: "stream (sess w s) = Some ms" "compression_enabled ms = v5" by (auto simp: side_ok_def)
  obtain ms' where r: "receive_message L S ms = (Inr m, ms')" "x = (sess w s)\<lparr>stream := Some ms'\<rparr>"
    using assms(4) ms by (auto elim!: receive_awaitE)
  from assms(1,3) ms(1) obtain p lost st where p: "prefix (routed w s @ p) (posted w (\<not> s))"
    "in_flight L S v5 (Suc (length (routed w s))) (rx ms) (incoming (transport ms) @ outgoing (transport (strm w (\<not> s))) @ lost) p st"
    "\<not> ended (spc w (\<not> s)) \<longrightarrow> routed w s @ p = transmitted w (\<not> s) @ in_hand (spc w (\<not> s)) \<and> lost = unwritten (spc w (\<not> s)) \<and> st = tx (strm w (\<not> s))"
    by (auto simp: way_inv_def strm_def)
  obtain p' st1 rest where q: "p = m # p'"
    "in_flight L S v5 (Suc (Suc (length (routed w s)))) st1 (rest @ outgoing (transport (strm w (\<not> s))) @ lost) p' st"
    "ms' = ms\<lparr>cipher := (cipher ms)\<lparr>dec := fst st1, ingress_mac := snd st1\<rparr>, transport := (transport ms)\<lparr>incoming := rest\<rparr>\<rparr>"
    by (rule in_flight_receive [OF p(2) r(1)]) (use ms(2) receive_Inr_open [OF r(1)] in simp_all)
  then show ?thesis using p(1,3) r(2) unfolding way_inv_def by (intro exI [of _ p'] exI [of _ lost] exI [of _ st]) (simp add: strm_def)
qed

lemma way_send:
  assumes "way_inv L S v5 w (\<not> s)" "side_inv v5 w s" "spc w s = SendChecking" "state (sess w s) = kActive" "send_channel (sess w s) = Some (m # c)"
    "stream (sess w s) = Some ms" "delivers L S v5 (tx ms) wire m (e, em)" "ms' = ms\<lparr>cipher := (cipher ms)\<lparr>enc := e, egress_mac := em\<rparr>\<rparr>"
    "x = (sess w s)\<lparr>stream := Some ms', send_channel := Some c\<rparr>"
  shows "way_inv L S v5 (w\<lparr>sess := (sess w)(s := x), spc := (spc w)(s := SendWriting m wire)\<rparr>) (\<not> s)"
proof -
  let ?k = "length (routed w (\<not> s) @ held (rpc w (\<not> s)))" and ?bs = "incoming (transport (strm w (\<not> s))) @ outgoing (transport ms)"
  from assms(1) obtain p where p: "routed w (\<not> s) @ held (rpc w (\<not> s)) @ p = transmitted w s"
    "rpc w (\<not> s) \<noteq> Ended \<longrightarrow> in_flight L S v5 (Suc ?k) (rx (strm w (\<not> s))) ?bs p (tx ms)"
    using assms(3,6) by (auto simp: way_inv_def strm_def)
  have "in_flight L S v5 (Suc ?k) (rx (strm w (\<not> s))) (?bs @ wire) (p @ [m]) (e, em)" if "rpc w (\<not> s) \<noteq> Ended"
    using in_flight_snoc [OF p(2) [rule_format, OF that], of wire m "(e, em)"] assms(7) by simp
  moreover have eq: "routed w (\<not> s) @ held (rpc w (\<not> s)) @ p @ [m] = transmitted w s @ [m]" using p(1) by (metis append.assoc)
  moreover have "prefix (routed w (\<not> s) @ held (rpc w (\<not> s)) @ p @ [m]) (posted w s)" unfolding eq using assms(2-5) by (auto simp: side_ok_def)
  ultimately show ?thesis
    using assms(8,9) unfolding way_inv_def by (intro exI [of _ "p @ [m]"] exI [of _ wire] exI [of _ "(e, em)"]) (simp add: strm_def)
qed

lemma way_step_send:
  assumes "frame_lib_laws L" "snappy_laws S" "side_inv v5 w s" "way_inv L S v5 w t" "spc w s = SendChecking"
    "send_check L S (sess w s) = Some (pc, x)" "\<forall>m \<in> set (posted w (\<not> t)). framed S v5 m"
  shows "way_inv L S v5 (w\<lparr>sess := (sess w)(s := x), spc := (spc w)(s := pc)\<rparr>) t"
  using assms(6) assms(3) [unfolded assms(5)]
proof (cases rule: send_checkE)
  case inactive
  then show ?thesis using assms(5) by (intro way_keeps [OF assms(4)]) (auto simp: strm_def)
next
  case idle
  then show ?thesis using assms(5) by (intro way_keeps [OF assms(4)]) (auto simp: strm_def)
next
  case (refused ms m c e ms')
  then show ?thesis
    using assms(5) frame_keeps [OF refused(4)] by (intro way_keeps [OF assms(4)]) (cases "t = s"; auto simp: strm_def force_error_state_def)+
next
  case (frame ms m c wire ms')
  show ?thesis
  proof (cases "t = s")
    case True
    then show ?thesis using frame frame_keeps [OF frame(4)] by (intro way_keeps [OF assms(4)]) (auto simp: strm_def)
  next
    case False
    then have t: "t = (\<not> s)" by simp
    have v5: "compression_enabled ms = v5" "m \<in> set (posted w s)" using assms(3,5) frame(1-3) by (auto simp: side_ok_def)
    then have "framed S (compression_enabled ms) m" using assms(7) t by simp
    from assms(1,2) this frame(4) show ?thesis
    proof (cases rule: message_frame_outcome)
      case (frame u e em)
      have "way_inv L S v5 (w\<lparr>sess := (sess w)(s := x), spc := (spc w)(s := SendWriting m u)\<rparr>) (\<not> s)"
        by (rule way_send [OF _ assms(3,5) \<open>state (sess w s) = kActive\<close> \<open>send_channel (sess w s) = Some (m # c)\<close> \<open>stream (sess w s) = Some ms\<close> _ frame(2)])
          (use assms(4) t frame v5 \<open>x = _\<close> in simp_all)
      then show ?thesis using t frame(1) \<open>pc = SendWriting m wire\<close> by simp
    qed simp
  qed
qed

lemma way_step_resume:
  assumes "side_inv v5 w s" "way_inv L S v5 w t" "spc w s = SendWriting m rest" "send_resume rest (sess w s) = Some (pc, x)"
  shows "way_inv L S v5 (w\<lparr>sess := (sess w)(s := x), spc := (spc w)(s := pc),
      transmitted := (transmitted w)(s := transmitted w s @ (if pc = SendChecking then [m] else []))\<rparr>) t"
  using assms(4)
proof (cases rule: send_resumeE)
  case (written ms)
  show ?thesis
  proof (cases "t = s")
    case True
    then show ?thesis using written assms(3) by (intro way_keeps [OF assms(2)]) (auto simp: strm_def take_bytes_def on_stream_def)
  next
    case False
    then have "t = (\<not> s)" by simp
    then show ?thesis using written assms(3) by (intro way_writes [OF assms(2)]) (auto simp: strm_def take_bytes_def on_stream_def)
  qed
next
  case (failed ms e)
  then show ?thesis using assms(3) by (intro way_keeps [OF assms(2)]) (cases "t = s"; auto simp: strm_def force_error_state_def)+
qed

lemma way_step_take:
  assumes "side_inv v5 w s" "way_inv L S v5 w t" "spc w s = SendWriting m rest"
  shows "way_inv L S v5 (w\<lparr>sess := (sess w)(s := take_bytes (take n rest) (sess w s)), spc := (spc w)(s := SendWriting m (drop n rest))\<rparr>) t"
proof -
  from assms(1) obtain ms where ms: "stream (sess w s) = Some ms" by (auto simp: side_ok_def)
  show ?thesis
  proof (cases "t = s")
    case True
    then show ?thesis using ms assms(3) by (intro way_keeps [OF assms(2)]) (auto simp: strm_def take_bytes_def on_stream_def)
  next
    case False
    then have "t = (\<not> s)" by simp
    then show ?thesis using ms assms(3) by (intro way_writes [OF assms(2)]) (auto simp: strm_def take_bytes_def on_stream_def)
  qed
qed

lemma disconnect_closes:
  assumes "stream x = Some a"
  shows "state (snd (disconnect reason x)) \<noteq> kActive \<and> (\<exists>b. stream (snd (disconnect reason x)) = Some b \<and> cipher b = cipher a \<and>
    incoming (transport b) = incoming (transport a) \<and> outgoing (transport b) = outgoing (transport a))"
  using assms by (cases "state x") (simp_all add: disconnect_def stream_close_def close_transport_def Let_def)

lemma pull_keeps:
  assumes "session_receive_message y = Some (r, x)"
  shows "stream x = stream y \<and> state x = state y"
proof (cases "recv_channel y")
  case (Some q)
  then show ?thesis using assms by (cases q) (auto simp: session_receive_message_def channel_try_pop_def split: if_splits)
qed (use assms in \<open>auto simp: session_receive_message_def split: if_splits\<close>)

lemma way_step:
  assumes "session_step L S w w'" "\<And>t. side_inv v5 w t" "way_inv L S v5 w t" "frame_lib_laws L" "snappy_laws S"
    "\<forall>m \<in> set (posted w (\<not> t)). framed S v5 m"
  shows "way_inv L S v5 w' t"
  using assms(1)
proof cases
  case (step_send s pc x)
  then show ?thesis using way_step_send [OF assms(4,5,2,3) _ _ assms(6)] by simp
next
  case (step_poll s tf pc x)
  then show ?thesis
    by (intro way_keeps [OF assms(3)]) (cases "t = s"; cases tf; auto simp: strm_def send_poll_def force_error_state_def)+
next
  case (step_take s m rest n)
  then show ?thesis using way_step_take [OF assms(2,3)] by simp
next
  case (step_resume s m rest pc x)
  then show ?thesis using way_step_resume [OF assms(2,3)] by simp
next
  case (step_await s m x)
  show ?thesis
  proof (cases "t = s")
    case True
    then show ?thesis using way_await [OF assms(3) [unfolded True] assms(2) step_await(2,3)] step_await(1) by simp
  next
    case False
    then have t: "t = (\<not> s)" by simp
    obtain ms ms' where "stream (sess w s) = Some ms" "receive_message L S ms = (Inr m, ms')" "x = (sess w s)\<lparr>stream := Some ms'\<rparr>"
      using step_await(3) by (auto elim!: receive_awaitE)
    then show ?thesis
      using step_await(1) t receive_keeps [of L S ms "Inr m" ms'] by (intro way_keeps [OF assms(3)]) (auto simp: strm_def)
  qed
next
  case (step_await_fails s e x)
  obtain ms ms' where x: "stream (sess w s) = Some ms" "receive_message L S ms = (Inl e, ms')" "x = force_error_state ((sess w s)\<lparr>stream := Some ms'\<rparr>)"
    using step_await_fails(3) by (auto elim!: receive_awaitE)
  show ?thesis
    using step_await_fails(1,2) x(1,3) receive_keeps [OF x(2)]
    by (intro way_keeps [OF assms(3)]) (cases "t = s"; auto simp: strm_def force_error_state_def)+
next
  case (step_carry s n)
  obtain a b where "stream (sess w s) = Some a" "stream (sess w (\<not> s)) = Some b" using assms(2) [of s] assms(2) [of "\<not> s"] by (auto simp: side_ok_def)
  then show ?thesis
    using step_carry by (intro way_keeps [OF assms(3)]) (cases s; cases t; auto simp: strm_def carry_bytes_def on_stream_def Let_def)+
next
  case (step_fault s ec)
  obtain a where "stream (sess w s) = Some a" using assms(2) [of s] by (auto simp: side_ok_def)
  then show ?thesis using step_fault by (intro way_keeps [OF assms(3)]) (auto simp: strm_def on_stream_def)
next
  case (step_disconnect s reason)
  define y where "y = snd (disconnect reason (sess w s))"
  obtain a where "stream (sess w s) = Some a" using assms(2) [of s] by (auto simp: side_ok_def)
  then obtain b where b: "stream y = Some b" "rx b = rx a" "tx b = tx a" "incoming (transport b) = incoming (transport a)"
      "outgoing (transport b) = outgoing (transport a)" "state y \<noteq> kActive"
    using disconnect_closes [of "sess w s" a reason] by (auto simp: y_def)
  have "w' = w\<lparr>sess := (sess w)(s := y)\<rparr>" using step_disconnect by (simp add: y_def)
  then show ?thesis using b \<open>stream (sess w s) = Some a\<close> by (intro way_keeps [OF assms(3)]) (auto simp: strm_def)
next
  case (step_pull s r x)
  then have "stream x = stream (sess w s) \<and> state x = state (sess w s)" by (blast dest: pull_keeps)
  then show ?thesis using step_pull(1) by (intro way_keeps [OF assms(3)]) (auto simp: strm_def)
next
  case (step_post m s r x)
  then have "stream x = stream (sess w s) \<and> state x = state (sess w s)" by (auto simp: post_message_def split: if_splits)
  then show ?thesis using step_post(1) by (intro way_keeps [OF assms(3)]) (auto simp: strm_def)
next
  case (step_dispatch s m events x)
  then have "stream x = stream (sess w s) \<and> state x = state (sess w s)" by (auto simp: receive_dispatch_def)
  then show ?thesis using step_dispatch(1,2) by (intro way_keeps [OF assms(3)]) (auto simp: strm_def)
next
  case (step_check s)
  then show ?thesis by (intro way_keeps [OF assms(3)]) (auto simp: strm_def split: if_splits)
qed


text \<open>What was posted is never taken back.\<close>

lemma posted_grows: "session_step L S w w' \<Longrightarrow> prefix (posted w s) (posted w' s)"
  by (induction rule: session_step.induct) (auto simp: carry_bytes_def Let_def)

lemma session_side:
  assumes "frame_lib_laws L" "snappy_laws S" "session_run L S v5 w"
  shows "side_inv v5 w s"
proof -
  from assms(3) obtain w0 where w0: "session_start L S v5 w0" "(session_step L S)\<^sup>*\<^sup>* w0 w" by (auto simp: session_run_def)
  from w0(2) show ?thesis
  proof (induction rule: rtranclp_induct)
    case base
    show ?case by (rule start_side [OF w0(1) assms(1,2)])
  next
    case (step y z)
    then show ?case using side_step by blast
  qed
qed

lemma session_way:
  assumes "frame_lib_laws L" "snappy_laws S" "session_run L S v5 w" "\<forall>m \<in> set (posted w (\<not> s)). framed S v5 m"
  shows "way_inv L S v5 w s"
proof -
  from assms(3) obtain w0 where w0: "session_start L S v5 w0" "(session_step L S)\<^sup>*\<^sup>* w0 w" by (auto simp: session_run_def)
  from w0(2) assms(4) show ?thesis
  proof (induction rule: rtranclp_induct)
    case base
    show ?case by (rule start_way [OF w0(1) assms(1,2)])
  next
    case (step y z)
    have f: "\<forall>m \<in> set (posted y (\<not> s)). framed S v5 m" using step.prems posted_grows [OF step.hyps(2)] by (meson set_mono_prefix subsetD)
    have "side_inv v5 y t" for t by (rule session_side [OF assms(1,2)]) (use w0(1) step.hyps(1) in \<open>auto simp: session_run_def\<close>)
    from way_step [OF step.hyps(2) this step.IH [OF f] assms(1,2) f] show ?case .
  qed
qed

lemma routed_prefix:
  assumes "frame_lib_laws L" "snappy_laws S" "session_run L S v5 w" "\<forall>m \<in> set (posted w (\<not> s)). framed S v5 m"
  shows "prefix (routed w s) (posted w (\<not> s))"
  using session_way [OF assms] unfolding way_inv_def by (blast intro: append_prefixD)

lemma next_read:
  assumes "frame_lib_laws L" "snappy_laws S" "session_run L S v5 w" "\<forall>m \<in> set (posted w (\<not> s)). framed S v5 m"
    "state (sess w s) = kActive" "state (sess w (\<not> s)) = kActive" "rpc w s = Awaiting"
    "transmitted w (\<not> s) = posted w (\<not> s)" "outgoing (transport (strm w (\<not> s))) = []" "routed w s \<noteq> posted w (\<not> s)"
  obtains ms ms' where "stream (sess w s) = Some ms" "receive_message L S ms = (Inr (posted w (\<not> s) ! length (routed w s)), ms')"
proof -
  note side = session_side [OF assms(1-3)]
  have tr: "posted w (\<not> s) = transmitted w (\<not> s)" "in_hand (spc w (\<not> s)) = []" "\<not> ended (spc w (\<not> s))"
    using side [of "\<not> s"] assms(6,8) by (auto simp: side_ok_def)
  then have "unwritten (spc w (\<not> s)) = []" by (cases "spc w (\<not> s)") simp_all
  moreover obtain ms where ms: "stream (sess w s) = Some ms" "compression_enabled ms = v5" "is_open (transport ms)"
    using side [of s] assms(5) by (auto simp: side_ok_def)
  ultimately obtain p st where p: "routed w s @ p = transmitted w (\<not> s)"
    "in_flight L S v5 (Suc (length (routed w s))) (rx ms) (incoming (transport ms)) p st"
    using session_way [OF assms(1-4)] assms(7,9) tr(2,3) by (auto simp: way_inv_def strm_def)
  then obtain m p' where m: "p = m # p'" using assms(10) tr(1) by (cases p) auto
  with p(2) ms(2,3) have "\<exists>ms'. receive_message L S ms = (Inr m, ms')" by (auto simp: delivers_def)
  then show thesis using that [OF ms(1)] tr(1) p(1) m by (metis nth_append_length)
qed

section \<open>Properties\<close>

text \<open>C1. Two sessions deliver what is posted: whatever both sides post, however their loops and the network interleave, and whether a side is disconnected
  or fails, the messages routed on one side are a prefix of those posted on the other, in order and unchanged, and they are handed to
  \<open>receive_message\<close> in the same order. While both sides are active and everything posted has been written and carried over, the read of the
  receive loop returns the next message not yet routed. The messages posted by the sender must not make a frame of exactly 16 MiB.\<close>

theorem session_delivers:
  assumes "frame_lib_laws L" "snappy_laws S" "session_run L S v5 w" "\<forall>m \<in> set (posted w (\<not> s)). length (message_data S v5 m) \<noteq> 2 ^ 24"
  shows "prefix (routed w s) (posted w (\<not> s)) \<and> (\<exists>q. recv_channel (sess w s) = Some q \<and> routed w s = pulled w s @ q) \<and>
    (state (sess w s) = kActive \<and> state (sess w (\<not> s)) = kActive \<and> rpc w s = Awaiting \<and> transmitted w (\<not> s) = posted w (\<not> s) \<and>
     outgoing (transport (strm w (\<not> s))) = [] \<and> routed w s \<noteq> posted w (\<not> s) \<longrightarrow>
       (\<exists>x. receive_await L S (sess w s) = Some (Inr (posted w (\<not> s) ! length (routed w s)), x)))"
proof (intro conjI impI)
  have f: "\<forall>m \<in> set (posted w (\<not> s)). framed S v5 m" using assms(4) by (simp add: framed_def)
  show "prefix (routed w s) (posted w (\<not> s))" by (rule routed_prefix [OF assms(1-3) f])
  show "\<exists>q. recv_channel (sess w s) = Some q \<and> routed w s = pulled w s @ q" using session_side [OF assms(1-3), of s] by (auto simp: side_ok_def)
  assume a: "state (sess w s) = kActive \<and> state (sess w (\<not> s)) = kActive \<and> rpc w s = Awaiting \<and> transmitted w (\<not> s) = posted w (\<not> s) \<and>
     outgoing (transport (strm w (\<not> s))) = [] \<and> routed w s \<noteq> posted w (\<not> s)"
  then obtain ms ms' where "stream (sess w s) = Some ms" "receive_message L S ms = (Inr (posted w (\<not> s) ! length (routed w s)), ms')"
    using next_read [OF assms(1-3) f] by blast
  then show "\<exists>x. receive_await L S (sess w s) = Some (Inr (posted w (\<not> s) ! length (routed w s)), x)" by (simp add: receive_await_def)
qed

text \<open>The number of messages a receive loop may still route when it finds the session no longer active.\<close>

fun allowance :: "recv_pc \<Rightarrow> nat" where
  "allowance Awaiting = 1"
| "allowance (Holding m) = 1"
| "allowance _ = 0"

definition quiet :: "'c session_world \<Rightarrow> bool \<Rightarrow> 'c session_world \<Rightarrow> bool" where
  "quiet w s w' \<longleftrightarrow> state (sess w' s) \<noteq> kActive \<and> posted w' s = posted w s \<and>
     (\<exists>xs. transmitted w' s = transmitted w s @ xs \<and> prefix (xs @ in_hand (spc w' s)) (in_hand (spc w s))) \<and>
     (\<exists>ys. routed w' s = routed w s @ ys \<and> length ys + allowance (rpc w' s) \<le> allowance (rpc w s))"

lemma quiet_trans:
  assumes "quiet u s v" "quiet v s w"
  shows "quiet u s w"
proof -
  from assms obtain xs xs' ys ys' where x: "transmitted v s = transmitted u s @ xs" "prefix (xs @ in_hand (spc v s)) (in_hand (spc u s))"
    "transmitted w s = transmitted v s @ xs'" "prefix (xs' @ in_hand (spc w s)) (in_hand (spc v s))"
    "routed v s = routed u s @ ys" "length ys + allowance (rpc v s) \<le> allowance (rpc u s)"
    "routed w s = routed v s @ ys'" "length ys' + allowance (rpc w s) \<le> allowance (rpc v s)" unfolding quiet_def by blast
  have "prefix ((xs @ xs') @ in_hand (spc w s)) (in_hand (spc u s))" using x(2,4) by (metis append.assoc prefix_order.trans same_prefix_prefix)
  then show ?thesis using assms x unfolding quiet_def by (intro conjI exI [of _ "xs @ xs'"] exI [of _ "ys @ ys'"]) auto
qed

lemma inactive_step:
  assumes "session_step L S w w'" "state (sess w s) \<noteq> kActive"
  shows "quiet w s w'"
  using assms(1)
proof cases
  case (step_post m t r x)
  then show ?thesis using assms(2) by (cases "t = s") (auto simp: quiet_def post_message_def)
next
  case (step_check t)
  then show ?thesis using assms(2) by (cases "t = s") (auto simp: quiet_def)
next
  case (step_send t pc x)
  then show ?thesis using assms(2) by (cases "t = s") (auto simp: quiet_def send_check_def)
next
  case (step_poll t tf pc x)
  then show ?thesis using assms(2) by (cases "t = s"; cases tf) (auto simp: quiet_def send_poll_def force_error_state_def)
next
  case (step_take t m rest n)
  then show ?thesis using assms(2) by (cases "t = s") (auto simp: quiet_def take_bytes_def on_stream_def)
next
  case (step_resume t m rest pc x)
  from step_resume(3) show ?thesis
    by (cases rule: send_resumeE; cases "t = s") (use step_resume assms(2) in \<open>auto simp: quiet_def take_bytes_def on_stream_def force_error_state_def\<close>)
next
  case (step_pull t r x)
  then show ?thesis using assms(2) pull_keeps [OF step_pull(2)] by (cases "t = s") (auto simp: quiet_def)
next
  case (step_disconnect t reason)
  then show ?thesis using assms(2) by (cases "t = s") (auto simp: quiet_def disconnect_def Let_def)
next
  case (step_await t m x)
  then show ?thesis using assms(2) by (cases "t = s") (auto simp: quiet_def elim!: receive_awaitE)
next
  case (step_await_fails t e x)
  then show ?thesis using assms(2) by (cases "t = s") (auto simp: quiet_def force_error_state_def elim!: receive_awaitE)
next
  case (step_carry t n)
  then show ?thesis using assms(2) by (auto simp: quiet_def carry_bytes_def on_stream_def Let_def)
qed (use assms(2) in \<open>auto simp: quiet_def receive_dispatch_def on_stream_def\<close>)

text \<open>C8. A session that has left the active state stays out of it, whatever happens afterwards: nothing is posted on that side any more; of the messages
  posted before, at most the one whose write had begun is still transmitted; and at most one more message is routed, none unless the receive
  loop was waiting for a message or holding one when the state changed.\<close>

theorem closed_session_is_quiet:
  assumes "(session_step L S)\<^sup>*\<^sup>* w w'" "state (sess w s) \<noteq> kActive"
  shows "state (sess w' s) \<noteq> kActive \<and> posted w' s = posted w s \<and>
    (\<exists>xs. transmitted w' s = transmitted w s @ xs \<and> (xs = [] \<or> (\<exists>m rest. spc w s = SendWriting m rest \<and> xs = [m]))) \<and>
    (\<exists>ys. routed w' s = routed w s @ ys \<and> length ys \<le> 1 \<and> (rpc w s = Checking \<or> rpc w s = Ended \<longrightarrow> ys = []))"
proof -
  from assms have q: "quiet w s w'"
  proof (induction rule: rtranclp_induct)
    case (step y z)
    then have "quiet w s y" by simp
    then show ?case using inactive_step [OF step.hyps(2)] quiet_trans by (metis quiet_def)
  qed (simp add: quiet_def)
  then obtain xs ys where x: "transmitted w' s = transmitted w s @ xs" "prefix xs (in_hand (spc w s))"
    "routed w' s = routed w s @ ys" "length ys \<le> allowance (rpc w s)"
    unfolding quiet_def by (meson add_leD1 append_prefixD)
  have "xs = [] \<or> (\<exists>m rest. spc w s = SendWriting m rest \<and> xs = [m])" using x(2) by (cases "spc w s") (auto simp: prefix_Cons)
  moreover have "length ys \<le> 1 \<and> (rpc w s = Checking \<or> rpc w s = Ended \<longrightarrow> ys = [])" using x(4) by (cases "rpc w s") auto
  ultimately show ?thesis using q x(1,3) unfolding quiet_def by blast
qed

section \<open>Delivery\<close>

text \<open>Both sides active, the sender's connection without a fault, its messages below 16 MiB and the receive loop running; \<open>drained\<close>: and nothing on
  the way.\<close>

definition healthy :: "'c frame_lib \<Rightarrow> snappy_lib \<Rightarrow> bool \<Rightarrow> bool \<Rightarrow> 'c session_world \<Rightarrow> bool" where
  "healthy L S v5 s w \<longleftrightarrow> session_run L S v5 w \<and> state (sess w s) = kActive \<and> state (sess w (\<not> s)) = kActive \<and>
     write_fault (transport (strm w (\<not> s))) = None \<and> rpc w s \<noteq> Ended \<and> (\<forall>m \<in> set (posted w (\<not> s)). length (message_data S v5 m) < 2 ^ 24)"

definition drained :: "bool \<Rightarrow> 'c session_world \<Rightarrow> bool" where
  "drained s w \<longleftrightarrow> transmitted w (\<not> s) = posted w (\<not> s) \<and> outgoing (transport (strm w (\<not> s))) = []"

lemma healthy_framed: "healthy L S v5 s w \<Longrightarrow> \<forall>m \<in> set (posted w (\<not> s)). framed S v5 m"
  by (auto simp: healthy_def framed_def)

lemma session_run_step: "session_run L S v5 w \<Longrightarrow> session_step L S w w' \<Longrightarrow> session_run L S v5 w'"
  unfolding session_run_def by (meson rtranclp.rtrancl_into_rtrancl)

text \<open>The send loop gets back to the test of the state, with what was posted written up to the channel.\<close>

lemma back_to_check:
  assumes "frame_lib_laws L" "snappy_laws S" "healthy L S v5 s w"
  shows "\<exists>w'. (session_step L S)\<^sup>*\<^sup>* w w' \<and> healthy L S v5 s w' \<and> spc w' (\<not> s) = SendChecking \<and> posted w' = posted w \<and>
    send_channel (sess w' (\<not> s)) = send_channel (sess w (\<not> s))"
proof -
  let ?x = "sess w (\<not> s)"
  have run: "session_run L S v5 w" using assms(3) by (simp add: healthy_def)
  from session_side [OF assms(1,2) run, of "\<not> s"] assms(3) obtain ms where ms: "stream ?x = Some ms" "is_open (transport ms)" "write_fault (transport ms) = None"
      "\<not> ended (spc w (\<not> s))"
    by (auto simp: side_ok_def healthy_def strm_def)
  show ?thesis
  proof (cases "spc w (\<not> s)")
    case SendChecking
    then show ?thesis using assms(3) by blast
  next
    case SendPolling
    let ?w = "w\<lparr>spc := (spc w)(\<not> s := SendChecking)\<rparr>"
    have st: "session_step L S w ?w" using step_poll [OF SendPolling, of False] by (simp add: send_poll_def)
    have "healthy L S v5 s ?w" using assms(3) session_run_step [OF run st] by (simp add: healthy_def strm_def)
    then show ?thesis using st by (intro exI [of _ ?w]) auto
  next
    case (SendWriting m rest)
    define x where "x = take_bytes rest ?x"
    let ?w = "w\<lparr>sess := (sess w)(\<not> s := x), spc := (spc w)(\<not> s := SendChecking), transmitted := (transmitted w)(\<not> s := transmitted w (\<not> s) @ [m])\<rparr>"
    have "send_resume rest ?x = Some (SendChecking, x)"
      using ms by (cases ms, cases "sess w (\<not> s)") (auto simp: send_resume_def write_all_def x_def take_bytes_def on_stream_def)
    from step_resume [OF SendWriting this] have st: "session_step L S w ?w" by simp
    have "healthy L S v5 s ?w" using assms(3) session_run_step [OF run st] ms(1) by (auto simp: healthy_def strm_def x_def take_bytes_def on_stream_def)
    then show ?thesis using st by (intro exI [of _ ?w]) (auto simp: x_def take_bytes_def on_stream_def)
  next
    case (SendEnded r)
    then show ?thesis using ms(4) by simp
  qed
qed

lemma send_all:
  assumes "frame_lib_laws L" "snappy_laws S" "healthy L S v5 s w"
  shows "\<exists>w'. (session_step L S)\<^sup>*\<^sup>* w w' \<and> healthy L S v5 s w' \<and> transmitted w' (\<not> s) = posted w' (\<not> s) \<and> posted w' = posted w"
  using assms(3)
proof (induction "length (the (send_channel (sess w (\<not> s))))" arbitrary: w)
  case (0 w)
  obtain w1 where w1: "(session_step L S)\<^sup>*\<^sup>* w w1" "healthy L S v5 s w1" "spc w1 (\<not> s) = SendChecking" "posted w1 = posted w"
    "send_channel (sess w1 (\<not> s)) = send_channel (sess w (\<not> s))" using back_to_check [OF assms(1,2) "0.prems"] by blast
  have "side_inv v5 w1 (\<not> s)" by (rule session_side [OF assms(1,2)]) (use w1(2) in \<open>simp add: healthy_def\<close>)
  then have "transmitted w1 (\<not> s) = posted w1 (\<not> s)" using w1(2,3,5) 0 by (auto simp: side_ok_def healthy_def)
  then show ?case using w1 by blast
next
  case (Suc n w)
  obtain w1 where w1: "(session_step L S)\<^sup>*\<^sup>* w w1" "healthy L S v5 s w1" "spc w1 (\<not> s) = SendChecking" "posted w1 = posted w"
    "send_channel (sess w1 (\<not> s)) = send_channel (sess w (\<not> s))" using back_to_check [OF assms(1,2) Suc.prems] by blast
  let ?x = "sess w1 (\<not> s)"
  have run: "session_run L S v5 w1" using w1(2) by (simp add: healthy_def)
  from session_side [OF assms(1,2) run, of "\<not> s"] w1(2,3) obtain ms c where i: "stream ?x = Some ms" "send_channel ?x = Some c"
    "compression_enabled ms = v5" "set c \<subseteq> set (posted w1 (\<not> s))"
    by (auto simp: side_ok_def healthy_def)
  then obtain m c' where c: "c = m # c'" using Suc.hyps(2) w1(5) by (cases c) auto
  have "length (message_data S (compression_enabled ms) m) < 2 ^ 24" using i(3,4) c w1(2) by (auto simp: healthy_def)
  then obtain u e em where sm: "message_frame L S m ms = (Inr u, ms\<lparr>cipher := (cipher ms)\<lparr>enc := e, egress_mac := em\<rparr>\<rparr>)"
    using frame_delivers [OF assms(1,2)] by metis
  define x where "x = ?x\<lparr>stream := Some (ms\<lparr>cipher := (cipher ms)\<lparr>enc := e, egress_mac := em\<rparr>\<rparr>), send_channel := Some c'\<rparr>"
  have it: "send_check L S ?x = Some (SendWriting m u, x)"
    using i c sm w1(2) by (simp add: send_check_def channel_try_pop_def x_def healthy_def)
  define w2 where "w2 = w1\<lparr>sess := (sess w1)(\<not> s := x), spc := (spc w1)(\<not> s := SendWriting m u)\<rparr>"
  have st: "session_step L S w1 w2" using step_send [OF w1(3) it] by (simp add: w2_def)
  have "healthy L S v5 s w2"
    using w1(2) session_run_step [OF run st] i(1) by (auto simp: healthy_def w2_def x_def strm_def)
  moreover have "n = length (the (send_channel (sess w2 (\<not> s))))" using Suc.hyps(2) [folded w1(5)] i(2) c by (simp add: w2_def x_def)
  ultimately obtain w' where w': "(session_step L S)\<^sup>*\<^sup>* w2 w'" "healthy L S v5 s w'" "transmitted w' (\<not> s) = posted w' (\<not> s)" "posted w' = posted w2"
    using Suc.hyps(1) by blast
  have "(session_step L S)\<^sup>*\<^sup>* w w'" using w1(1) st w'(1) by (meson converse_rtranclp_into_rtranclp rtranclp_trans)
  then show ?case using w' w1(4) by (auto simp: w2_def)
qed

lemma carry_all:
  assumes "frame_lib_laws L" "snappy_laws S" "healthy L S v5 s w" "transmitted w (\<not> s) = posted w (\<not> s)"
  shows "\<exists>w'. session_step L S w w' \<and> healthy L S v5 s w' \<and> drained s w' \<and> posted w' = posted w"
proof -
  have run: "session_run L S v5 w" using assms(3) by (simp add: healthy_def)
  obtain a b where ab: "stream (sess w s) = Some a" "stream (sess w (\<not> s)) = Some b"
    using session_side [OF assms(1,2) run, of s] session_side [OF assms(1,2) run, of "\<not> s"] by (auto simp: side_ok_def)
  let ?w = "carry_bytes (\<not> s) (length (outgoing (transport b))) w"
  have "session_run L S v5 ?w" by (rule session_run_step [OF run step_carry])
  then have "healthy L S v5 s ?w" "drained s ?w" "posted ?w = posted w"
    using assms(3,4) ab by (simp_all add: healthy_def drained_def carry_bytes_def on_stream_def strm_def Let_def)
  then show ?thesis using step_carry by blast
qed

definition routes_one :: "'c frame_lib \<Rightarrow> snappy_lib \<Rightarrow> bool \<Rightarrow> bool \<Rightarrow> 'c session_world \<Rightarrow> bool" where
  "routes_one L S v5 s w \<longleftrightarrow> (\<exists>w'. (session_step L S)\<^sup>*\<^sup>* w w' \<and> healthy L S v5 s w' \<and> drained s w' \<and> posted w' = posted w \<and>
     length (routed w' s) = Suc (length (routed w s)))"

lemma routes_one_step:
  "session_step L S w w1 \<Longrightarrow> posted w1 = posted w \<Longrightarrow> routed w1 = routed w \<Longrightarrow> routes_one L S v5 s w1 \<Longrightarrow> routes_one L S v5 s w"
  unfolding routes_one_def by (metis converse_rtranclp_into_rtranclp)

lemma holding_routes:
  assumes "frame_lib_laws L" "snappy_laws S" "healthy L S v5 s w" "drained s w" "rpc w s = Holding m"
  shows "routes_one L S v5 s w"
proof -
  have run: "session_run L S v5 w" using assms(3) by (simp add: healthy_def)
  obtain q where q: "recv_channel (sess w s) = Some q" using session_side [OF assms(1,2) run, of s] by (auto simp: side_ok_def)
  let ?x = "(sess w s)\<lparr>recv_channel := Some (channel_push m q)\<rparr>"
  let ?w = "w\<lparr>sess := (sess w)(s := ?x), rpc := (rpc w)(s := Checking), routed := (routed w)(s := routed w s @ [m])\<rparr>"
  have st: "session_step L S w ?w" by (rule step_dispatch [OF assms(5)]) (simp add: receive_dispatch_def q)
  have "healthy L S v5 s ?w" "drained s ?w"
    using assms(3,4) session_run_step [OF run st] by (simp_all add: healthy_def drained_def strm_def)
  then show ?thesis unfolding routes_one_def using st by (intro exI [of _ ?w]) auto
qed

lemma awaiting_routes:
  assumes "frame_lib_laws L" "snappy_laws S" "healthy L S v5 s w" "drained s w" "rpc w s = Awaiting" "routed w s \<noteq> posted w (\<not> s)"
  shows "routes_one L S v5 s w"
proof -
  have run: "session_run L S v5 w" using assms(3) by (simp add: healthy_def)
  obtain ms ms' where r: "stream (sess w s) = Some ms" "receive_message L S ms = (Inr (posted w (\<not> s) ! length (routed w s)), ms')"
    using next_read [OF assms(1,2) run healthy_framed [OF assms(3)]] assms(3-6) by (auto simp: healthy_def drained_def)
  let ?w = "w\<lparr>sess := (sess w)(s := (sess w s)\<lparr>stream := Some ms'\<rparr>), rpc := (rpc w)(s := Holding (posted w (\<not> s) ! length (routed w s)))\<rparr>"
  have st: "session_step L S w ?w" by (rule step_await [OF assms(5)]) (simp add: receive_await_def r)
  have "healthy L S v5 s ?w" "drained s ?w"
    using assms(3,4) session_run_step [OF run st] by (simp_all add: healthy_def drained_def strm_def)
  then have "routes_one L S v5 s ?w" by (rule holding_routes [OF assms(1,2)]) simp
  then show ?thesis by (rule routes_one_step [OF st, rotated 2]) simp_all
qed

lemma healthy_routes:
  assumes "frame_lib_laws L" "snappy_laws S" "healthy L S v5 s w" "drained s w" "routed w s \<noteq> posted w (\<not> s)"
  shows "routes_one L S v5 s w"
proof (cases "rpc w s")
  case Checking
  let ?w = "w\<lparr>rpc := (rpc w)(s := Awaiting)\<rparr>"
  have st: "session_step L S w ?w" using step_check [OF Checking] assms(3) by (simp add: healthy_def)
  have "healthy L S v5 s ?w" "drained s ?w"
    using assms(3,4) session_run_step [OF _ st] by (simp_all add: healthy_def drained_def strm_def)
  then have "routes_one L S v5 s ?w" by (rule awaiting_routes [OF assms(1,2)]) (use assms(5) in simp_all)
  then show ?thesis by (rule routes_one_step [OF st, rotated 2]) simp_all
next
  case Ended
  then show ?thesis using assms(3) by (simp add: healthy_def)
qed (use assms awaiting_routes holding_routes in blast)+

lemma drained_routes_all:
  assumes "frame_lib_laws L" "snappy_laws S" "healthy L S v5 s w" "drained s w"
  shows "\<exists>w'. (session_step L S)\<^sup>*\<^sup>* w w' \<and> routed w' s = posted w (\<not> s)"
  using assms(3,4)
proof (induction "length (posted w (\<not> s)) - length (routed w s)" arbitrary: w rule: less_induct)
  case (less w)
  show ?case
  proof (cases "routed w s = posted w (\<not> s)")
    case False
    have "prefix (routed w s) (posted w (\<not> s))" by (rule routed_prefix [OF assms(1,2) _ healthy_framed [OF less.prems(1)]]) (use less.prems in \<open>simp add: healthy_def\<close>)
    with False have lt: "length (routed w s) < length (posted w (\<not> s))" by (auto simp: prefix_def)
    obtain w1 where w1: "(session_step L S)\<^sup>*\<^sup>* w w1" "healthy L S v5 s w1" "drained s w1" "posted w1 = posted w"
      "length (routed w1 s) = Suc (length (routed w s))"
      using healthy_routes [OF assms(1,2) less.prems False] by (auto simp: routes_one_def)
    have "length (posted w1 (\<not> s)) - length (routed w1 s) < length (posted w (\<not> s)) - length (routed w s)" using w1(4,5) lt by simp
    then obtain w' where "(session_step L S)\<^sup>*\<^sup>* w1 w'" "routed w' s = posted w1 (\<not> s)" using less.hyps [of w1] w1(2,3) by blast
    then show ?thesis using w1(1,4) by (metis rtranclp_trans)
  qed auto
qed

text \<open>C2. What has been posted can always still arrive: while both sides are active, the sender's connection has no fault, the receive loop has not
  ended and each message posted makes a frame of less than 16 MiB, there is a run of the loops and the network after which the peer has routed
  everything that was posted.\<close>

theorem posted_can_arrive:
  assumes "frame_lib_laws L" "snappy_laws S" "session_run L S v5 w" "state (sess w s) = kActive" "state (sess w (\<not> s)) = kActive"
    "write_fault (transport (strm w (\<not> s))) = None" "rpc w s \<noteq> Ended" "\<forall>m \<in> set (posted w (\<not> s)). length (message_data S v5 m) < 2 ^ 24"
  shows "\<exists>w'. (session_step L S)\<^sup>*\<^sup>* w w' \<and> routed w' s = posted w (\<not> s)"
proof -
  have "healthy L S v5 s w" using assms(3-) by (simp add: healthy_def)
  then obtain w1 where w1: "(session_step L S)\<^sup>*\<^sup>* w w1" "healthy L S v5 s w1" "transmitted w1 (\<not> s) = posted w1 (\<not> s)" "posted w1 = posted w"
    using send_all [OF assms(1,2)] by blast
  then obtain w2 where w2: "session_step L S w1 w2" "healthy L S v5 s w2" "drained s w2" "posted w2 = posted w1"
    using carry_all [OF assms(1,2)] by blast
  then obtain w' where "(session_step L S)\<^sup>*\<^sup>* w2 w'" "routed w' s = posted w2 (\<not> s)" using drained_routes_all [OF assms(1,2)] by blast
  then show ?thesis using w1(1,4) w2(1,4) by (metis converse_rtranclp_into_rtranclp rtranclp_trans)
qed

section \<open>Witnesses\<close>

definition in_step :: "'c link \<Rightarrow> bool \<Rightarrow> bool" where
  "in_step l s \<longleftrightarrow> sent l (\<not> s) = got l s \<and> outgoing (transport (end_at l (\<not> s))) = [] \<and> incoming (transport (end_at l s)) = [] \<and>
     \<not> compression_enabled (end_at l s)"

lemma link_one_message:
  assumes "frame_lib_laws L" "snappy_laws S" "link_run L S False l" "in_step l s" "in_step l (\<not> s)"
    "length (message_data S False m) < 2 ^ 24"
  shows "\<exists>l'. link_run L S False l' \<and> in_step l' s \<and> in_step l' (\<not> s) \<and> sent l' = (sent l)(\<not> s := sent l (\<not> s) @ [m]) \<and>
    got l' = (got l)(s := got l s @ [m])"
proof -
  let ?e = "end_at l (\<not> s)"
  have inv: "link_inv L S False l s" "link_inv L S False l (\<not> s)" using link_inv_reachable [OF assms(1-3)] by blast+
  have c: "compression_enabled ?e = False" "length (message_data S (compression_enabled ?e) m) < 2 ^ 24"
    using assms(5,6) by (simp_all add: in_step_def)
  have t: "is_open (transport ?e)" "write_fault (transport ?e) = None" "is_open (transport (end_at l s))" using inv by (simp_all add: link_inv_def)
  obtain u x em where u: "send_message L S m ?e = (Inr (), ?e\<lparr>cipher := (cipher ?e)\<lparr>enc := x, egress_mac := em\<rparr>,
       transport := (transport ?e)\<lparr>outgoing := outgoing (transport ?e) @ u\<rparr>\<rparr>)" "delivers L S (compression_enabled ?e) (tx ?e) u m (x, em)"
    by (rule send_delivers [OF assms(1,2) c(2) t(1,2)])
  define e1 where "e1 = ?e\<lparr>cipher := (cipher ?e)\<lparr>enc := x, egress_mac := em\<rparr>, transport := (transport ?e)\<lparr>outgoing := outgoing (transport ?e) @ u\<rparr>\<rparr>"
  define l1 where "l1 = l\<lparr>end_at := (end_at l)(\<not> s := e1), sent := (sent l)(\<not> s := sent l (\<not> s) @ [m])\<rparr>"
  have r1: "link_run L S False l1"
    unfolding l1_def using assms(3) c by (intro link_send) (use u(1) in \<open>simp_all add: e1_def\<close>)
  define l2 where "l2 = l1\<lparr>end_at := move_bytes (\<not> s) (length u) (end_at l1)\<rparr>"
  have r2: "link_run L S False l2" unfolding l2_def by (rule link_move [OF r1])
  have i: "incoming (transport (end_at l2 s)) = u" "rx (end_at l2 s) = tx ?e" "is_open (transport (end_at l2 s))"
      "\<not> compression_enabled (end_at l2 s)"
    using assms(4,5) inv t by (auto simp: l2_def l1_def e1_def move_bytes_def Let_def in_step_def link_inv_def)
  let ?f = "(end_at l2 s)\<lparr>cipher := (cipher (end_at l2 s))\<lparr>dec := x, ingress_mac := em\<rparr>, transport := (transport (end_at l2 s))\<lparr>incoming := []\<rparr>\<rparr>"
  have "receive_message L S (end_at l2 s) = (Inr m, ?f)"
    using u(2) [unfolded delivers_def, rule_format, of "end_at l2 s"] i c(1) by simp
  then have "link_run L S False (l2\<lparr>end_at := (end_at l2)(s := ?f), got := (got l2)(s := got l2 s @ [m])\<rparr>)"
    using i(4) by (intro link_receive [OF r2]) simp_all
  then show ?thesis
    using assms(4,5) by (intro exI) (auto simp: in_step_def l2_def l1_def e1_def move_bytes_def Let_def)
qed

lemma sample_ping_small: "length (message_data sample_snappy cmp sample_ping) < 2 ^ 24"
  by (simp add: message_data_def sample_snappy_def sample_ping_def payload_part_def RUint_def nat_to_be.simps rlp_encode_simps rlp_str_def)

lemma sample_start: "\<exists>w. session_start counting_lib sample_snappy False w \<and> (\<forall>s. incoming (transport (strm w s)) = [])"
proof -
  let ?a = "\<lambda>s. if s then sample_secrets [7] [8] else sample_secrets [8] [7]"
  let ?l = "\<lparr>end_at = (\<lambda>s. new_message_stream (new_frame_cipher counting_lib (?a s)) fresh_transport), sent = (\<lambda>_. []), got = (\<lambda>_. [])\<rparr>"
  note laws = counting_lib_laws sample_snappy_laws
  have l: "link_run counting_lib sample_snappy False ?l" by (rule link_start) (simp add: mirrored_def sample_secrets_def)
  have st: "in_step ?l s" for s by (simp add: in_step_def new_message_stream_def fresh_transport_def)
  obtain l1 where l1: "link_run counting_lib sample_snappy False l1" "in_step l1 True" "in_step l1 False"
    "sent l1 = (sent ?l)(False := [sample_ping])" "got l1 = (got ?l)(True := [sample_ping])"
    using link_one_message [OF laws l st st sample_ping_small, of True] by auto
  obtain l2 where l2: "link_run counting_lib sample_snappy False l2" "in_step l2 False" "in_step l2 True"
    "sent l2 = (sent l1)(True := [sample_ping])" "got l2 = (got l1)(False := [sample_ping])"
    using link_one_message [OF laws l1(1,3) _ sample_ping_small] l1 by auto
  let ?w = "\<lparr>sess = (\<lambda>s. sample_session\<lparr>stream := Some (end_at l2 s)\<rparr>), rpc = (\<lambda>_. Checking), spc = (\<lambda>_. SendChecking), posted = (\<lambda>_. []),
    transmitted = (\<lambda>_. []), routed = (\<lambda>_. []), pulled = (\<lambda>_. [])\<rparr>"
  have ex: "sent l2 s = [sample_ping]" "got l2 s = [sample_ping]" "\<not> compression_enabled (end_at l2 s)" for s
    using l1(4,5) l2 by (cases s; simp add: in_step_def)+
  have "session_start counting_lib sample_snappy False ?w"
    unfolding session_start_def by (intro exI [of _ l2] exI [of _ "\<lambda>_. sample_ping"]) (simp add: l2(1) ex sample_session_def new_session_def)
  moreover have "incoming (transport (strm ?w s)) = []" for s using l2(2,3) by (cases s) (simp_all add: strm_def in_step_def)
  ultimately show ?thesis by blast
qed

lemma sample_posted:
  "\<exists>w ms. session_run counting_lib sample_snappy False w \<and> posted w True = [sample_ping] \<and> send_channel (sess w True) = Some [sample_ping] \<and>
     transmitted w True = [] \<and> stream (sess w True) = Some ms \<and> incoming (transport ms) = [] \<and> is_open (transport ms) \<and> \<not> compression_enabled ms \<and>
     (\<forall>s. state (sess w s) = kActive \<and> rpc w s = Checking \<and> spc w s = SendChecking \<and> write_fault (transport (strm w s)) = None)"
proof -
  note laws = counting_lib_laws sample_snappy_laws
  obtain w0 where w0: "session_start counting_lib sample_snappy False w0" "\<forall>s. incoming (transport (strm w0 s)) = []" using sample_start by blast
  then obtain l where l: "link_run counting_lib sample_snappy False l" "\<And>s. stream (sess w0 s) = Some (end_at l s) \<and> state (sess w0 s) = kActive \<and>
      send_channel (sess w0 s) = Some [] \<and> rpc w0 s = Checking \<and> spc w0 s = SendChecking \<and> posted w0 s = [] \<and> transmitted w0 s = [] \<and>
      \<not> compression_enabled (end_at l s)" by (auto simp: session_start_def)
  let ?x = "(sess w0 True)\<lparr>send_channel := Some [sample_ping]\<rparr>"
  let ?w = "w0\<lparr>sess := (sess w0)(True := ?x), posted := (posted w0)(True := [sample_ping])\<rparr>"
  have "session_step counting_lib sample_snappy w0 ?w"
    using step_post [of sample_ping w0 True "Inr ()" ?x] l(2) by (simp add: post_message_def channel_push_def)
  then have "session_run counting_lib sample_snappy False ?w" unfolding session_run_def using w0(1) by blast
  moreover have "write_fault (transport (end_at l s)) = None" "is_open (transport (end_at l s))" for s
    using link_inv_reachable [OF laws l(1), of s] by (simp_all add: link_inv_def)
  ultimately show ?thesis using l(2) w0(2) by (intro exI [of _ ?w] exI [of _ "end_at l True"]) (simp add: strm_def)
qed

theorem session_delivers_witness:
  "\<exists>w. session_run counting_lib sample_snappy False w \<and> posted w True = [sample_ping] \<and> prefix (routed w False) (posted w True)"
proof -
  obtain w where w: "session_run counting_lib sample_snappy False w" "posted w True = [sample_ping]" using sample_posted by blast
  then show ?thesis
    using session_delivers [OF counting_lib_laws sample_snappy_laws w(1), of False] sample_ping_small [of False] by auto
qed

theorem posted_can_arrive_witness:
  "\<exists>w w'. session_run counting_lib sample_snappy False w \<and> (session_step counting_lib sample_snappy)\<^sup>*\<^sup>* w w' \<and> routed w' False = [sample_ping]"
proof -
  obtain w where w: "session_run counting_lib sample_snappy False w" "posted w True = [sample_ping]"
    "\<And>s. state (sess w s) = kActive \<and> rpc w s = Checking \<and> write_fault (transport (strm w s)) = None" using sample_posted by blast
  then show ?thesis
    using posted_can_arrive [OF counting_lib_laws sample_snappy_laws w(1), of False] sample_ping_small [of False] by auto
qed

text \<open>A write that has begun goes on after the read has failed and the session is in the error state.\<close>

lemma sample_failed_write:
  "\<exists>w w' rest. session_run counting_lib sample_snappy False w \<and> state (sess w True) = kError \<and> spc w True = SendWriting sample_ping rest \<and>
     transmitted w True = [] \<and> session_step counting_lib sample_snappy w w' \<and> transmitted w' True = [sample_ping]"
proof -
  note laws = counting_lib_laws sample_snappy_laws
  obtain w ms where w: "session_run counting_lib sample_snappy False w" "send_channel (sess w True) = Some [sample_ping]" "transmitted w True = []"
    "stream (sess w True) = Some ms" "incoming (transport ms) = []" "is_open (transport ms)" "\<not> compression_enabled ms" "state (sess w True) = kActive"
    "rpc w True = Checking" "spc w True = SendChecking" "write_fault (transport (strm w True)) = None"
    using sample_posted by metis
  obtain u e em where f: "message_frame counting_lib sample_snappy sample_ping ms = (Inr u, ms\<lparr>cipher := (cipher ms)\<lparr>enc := e, egress_mac := em\<rparr>\<rparr>)"
    using frame_delivers [OF laws sample_ping_small, of ms] by metis
  define ms1 where "ms1 = ms\<lparr>cipher := (cipher ms)\<lparr>enc := e, egress_mac := em\<rparr>\<rparr>"
  define x where "x = (sess w True)\<lparr>stream := Some ms1, send_channel := Some []\<rparr>"
  define w1 where "w1 = w\<lparr>sess := (sess w)(True := x), spc := (spc w)(True := SendWriting sample_ping u)\<rparr>"
  have s1: "session_step counting_lib sample_snappy w w1" unfolding w1_def
    by (rule step_send [OF w(10)]) (simp add: send_check_def channel_try_pop_def w(2,4,8) f x_def ms1_def)
  define w2 where "w2 = w1\<lparr>rpc := (rpc w1)(True := Awaiting)\<rparr>"
  have s2: "session_step counting_lib sample_snappy w1 w2"
    using step_check [of w1 True counting_lib sample_snappy] w(8,9) by (simp add: w1_def w2_def x_def)
  obtain err ms2 where r: "receive_message counting_lib sample_snappy ms1 = (Inl err, ms2)"
    using waiting_receive [of ms1 counting_lib sample_snappy] w(5) by (auto simp: ms1_def)
  define w3 where "w3 = w2\<lparr>sess := (sess w2)(True := force_error_state (x\<lparr>stream := Some ms2\<rparr>)), rpc := (rpc w2)(True := Ended)\<rparr>"
  have s3: "session_step counting_lib sample_snappy w2 w3" unfolding w3_def
    by (rule step_await_fails) (simp_all add: w2_def w1_def receive_await_def x_def r)
  have run: "session_run counting_lib sample_snappy False w3" using w(1) s1 s2 s3 session_run_step by blast
  have "is_open (transport ms2)" "write_fault (transport ms2) = None" using receive_keeps(4,5) [OF r] w(4,6,11) by (simp_all add: ms1_def strm_def)
  then obtain y where p: "send_resume u (sess w3 True) = Some (SendChecking, y)"
    by (cases "u = []") (auto simp: send_resume_def w3_def force_error_state_def write_all_def)
  show ?thesis
    using run step_resume [of w3 True sample_ping u SendChecking y counting_lib sample_snappy] p
    by (intro exI [of _ w3] exI) (auto simp: w3_def w2_def w1_def w(3) force_error_state_def)
qed

theorem closed_session_is_quiet_witness:
  "\<exists>w w'. session_run counting_lib sample_snappy False w \<and> state (sess w True) = kError \<and> transmitted w True = [] \<and>
     session_step counting_lib sample_snappy w w' \<and> state (sess w' True) \<noteq> kActive \<and> transmitted w' True = [sample_ping]"
proof -
  obtain w w' where w: "session_run counting_lib sample_snappy False w" "state (sess w True) = kError" "transmitted w True = []"
    "session_step counting_lib sample_snappy w w'" "transmitted w' True = [sample_ping]" using sample_failed_write by blast
  then have "state (sess w' True) \<noteq> kActive" using closed_session_is_quiet [of counting_lib sample_snappy w w' True] by auto
  then show ?thesis using w by blast
qed

end
