(* ===== verification/Eth_Handshake.thy ===== *)
theory Eth_Handshake
  imports Rlpx_Session Eth_Status
begin

text \<open>
  The eth Status handshake: src/eth/eth_handshake_guard.cpp, eth_peer_session.cpp, eth_handshake.cpp and the session interface of
  eth_session_channel.hpp. \<open>IEthSessionChannel\<close> is a record of operations on a state; \<open>RlpxEthSessionChannel\<close> is the instance on an RLPx
  session. An operation that is undefined, and a loop that does not return, give \<open>None\<close>.
\<close>

section \<open>Status messages\<close>

definition NormalizeEthWireMessageId :: "u8 \<Rightarrow> u8 \<Rightarrow> u8 option" where
  "NormalizeEthWireMessageId wire_message_id offset = (if wire_message_id < offset then None else Some (wire_message_id - offset))"

fun ExtractLatestBlockNumber :: "status_message \<Rightarrow> u64" where
  "ExtractLatestBlockNumber (Status69 m) = s69_latest_block m"
| "ExtractLatestBlockNumber (Status68 m) = 0"

definition BuildLocalStatusMessage :: "u8 \<Rightarrow> u64 \<Rightarrow> hash256 \<Rightarrow> fork_id \<Rightarrow> status_message" where
  "BuildLocalStatusMessage version nid genesis fork =
     (if version \<le> kEthProtocolVersion68
      then Status68 \<lparr>s68_protocol_version = version, s68_network_id = nid, s68_td = 0, s68_blockhash = genesis,
             s68_genesis_hash = genesis, s68_fork_id = fork\<rparr>
      else Status69 \<lparr>s69_protocol_version = version, s69_network_id = nid, s69_genesis_hash = genesis, s69_fork_id = fork,
             s69_earliest_block = 0, s69_latest_block = 0, s69_latest_block_hash = genesis\<rparr>)"

definition ValidateRemoteStatusMessage :: "status_message \<Rightarrow> u8 \<Rightarrow> u64 \<Rightarrow> hash256 \<Rightarrow> status_validation_error + unit" where
  "ValidateRemoteStatusMessage st version nid genesis =
     (if c_protocol_version (get_common_fields st) \<noteq> version then Inl kProtocolVersionMismatch else validate_status st nid genesis)"

definition decode_status_by :: "eth_message_schema list \<Rightarrow> bytes \<Rightarrow> decoding_error + status_message" where
  "decode_status_by schemas payload = (if schemas = [] then decode_status payload else decode_status_with payload schemas)"

definition DecodeValidatedStatusMessage ::
    "rlpx_message \<Rightarrow> u8 \<Rightarrow> u8 \<Rightarrow> u64 \<Rightarrow> hash256 \<Rightarrow> eth_message_schema list \<Rightarrow> status_validation_error + status_message" where
  "DecodeValidatedStatusMessage m offset version nid genesis schemas =
     (if NormalizeEthWireMessageId (msg_id m) offset \<noteq> Some kStatusMessageId then Inl kProtocolVersionMismatch
      else (case decode_status_by schemas (msg_payload m) of
          Inl _ \<Rightarrow> Inl kProtocolVersionMismatch
        | Inr st \<Rightarrow> outcome_try (ValidateRemoteStatusMessage st version nid genesis) (\<lambda>_. Inr st)))"

datatype handshake_message_disposition = kIgnored | kAcceptedStatus | kRejected

definition HandleEthHandshakeMessage :: "rlpx_message \<Rightarrow> u8 \<Rightarrow> u8 \<Rightarrow> u64 \<Rightarrow> hash256 \<Rightarrow> bool \<Rightarrow> handshake_message_disposition \<times> bool" where
  "HandleEthHandshakeMessage m offset version nid genesis status_received =
     (case NormalizeEthWireMessageId (msg_id m) offset of
        None \<Rightarrow> (kIgnored, status_received)
      | Some eth_id \<Rightarrow>
          if eth_id \<noteq> kStatusMessageId then (if \<not> status_received then kRejected else kIgnored, status_received)
          else (case DecodeValidatedStatusMessage m offset version nid genesis [] of
              Inl _ \<Rightarrow> (kRejected, status_received)
            | Inr _ \<Rightarrow> (kAcceptedStatus, True)))"

section \<open>Channel\<close>

record 'c session_channel =
  ch_version :: "'c \<Rightarrow> u8"
  ch_offset :: "'c \<Rightarrow> u8"
  ch_peer_info :: "'c \<Rightarrow> peer_info"
  ch_post :: "rlpx_message \<Rightarrow> 'c \<Rightarrow> ((session_error + unit) \<times> 'c) option"
  ch_receive_message :: "'c \<Rightarrow> ((session_error + rlpx_message) \<times> 'c) option"
  ch_receive :: "nat \<Rightarrow> 'c \<Rightarrow> ((session_error + rlpx_message) \<times> 'c) option"
  ch_set_eth_handler :: "bool \<Rightarrow> 'c \<Rightarrow> 'c"

text \<open>The channel of an RLPx session. Beside the session, the state holds what the receive loop will push during each of the coming waits;
  the session stays in its state meanwhile.\<close>

type_synonym 'c rlpx_channel_state = "'c rlpx_session \<times> (nat \<Rightarrow> nat \<Rightarrow> rlpx_message list)"

definition rlpx_eth_session_channel :: "(nat \<Rightarrow> timer_wait) \<Rightarrow> 'c rlpx_channel_state session_channel" where
  "rlpx_eth_session_channel wait = \<lparr>
     ch_version = (\<lambda>(s, _). negotiated_eth_version s),
     ch_offset = (\<lambda>(s, _). negotiated_eth_offset s),
     ch_peer_info = (\<lambda>(s, _). session_peer s),
     ch_post = (\<lambda>m (s, coming). map_option (\<lambda>(r, s). (r, s, coming)) (post_message m s)),
     ch_receive_message = (\<lambda>(s, coming). map_option (\<lambda>(r, s). (r, s, coming)) (session_receive_message s)),
     ch_receive = (\<lambda>timeout (s, coming).
        map_option (\<lambda>(r, s). (r, s, \<lambda>i. coming (Suc i))) (receive_message_with_timeout timeout (coming 0) wait s)),
     ch_set_eth_handler = (\<lambda>h (s, coming). (s\<lparr>handlers := (handlers s)\<lparr>eth_message_handler := h\<rparr>\<rparr>, coming))\<rparr>"

section \<open>Handshake\<close>

record eth_status_handshake_start =
  es_network_id :: u64
  es_genesis_hash :: hash256
  es_fork_id :: fork_id
  es_schemas :: "eth_message_schema list"
  es_disconnect_handler :: bool
  es_inbound_handler :: bool

type_synonym handshake_verdict = "(status_validation_error + status_message) \<times> disconnect_reason list"

text \<open>One inbound message: what the handshake returns and the calls of the disconnect handler, or \<open>None\<close> when it goes on waiting. The flag
  \<open>status_received\<close> of the source is false whenever it is tested.\<close>

definition disconnect_calls :: "eth_status_handshake_start \<Rightarrow> bytes \<Rightarrow> disconnect_reason list" where
  "disconnect_calls st payload =
     (case decode_disconnect payload of Inl _ \<Rightarrow> [] | Inr reason \<Rightarrow> if es_disconnect_handler st then [reason] else [])"

definition handshake_message :: "eth_status_handshake_start \<Rightarrow> u8 \<Rightarrow> u8 \<Rightarrow> rlpx_message \<Rightarrow> handshake_verdict option" where
  "handshake_message st version offset m =
     (if msg_id m = 0x01 then Some (Inl kProtocolVersionMismatch, disconnect_calls st (msg_payload m))
      else (case NormalizeEthWireMessageId (msg_id m) offset of
          None \<Rightarrow> None
        | Some eth_id \<Rightarrow>
            if eth_id \<noteq> kStatusMessageId then Some (Inl kProtocolVersionMismatch, [])
            else (case decode_status_by (es_schemas st) (msg_payload m) of
                Inl _ \<Rightarrow> Some (Inl kProtocolVersionMismatch, [])
              | Inr status \<Rightarrow>
                  (case ValidateRemoteStatusMessage status version (es_network_id st) (es_genesis_hash st) of
                     Inl e \<Rightarrow> Some (Inl e, [])
                   | Inr _ \<Rightarrow> Some (Inr status, [])))))"

text \<open>The same in src/eth/eth_handshake.cpp, over \<open>HandleEthHandshakeMessage\<close>.\<close>

definition guard_message :: "eth_status_handshake_start \<Rightarrow> u8 \<Rightarrow> u8 \<Rightarrow> rlpx_message \<Rightarrow> handshake_verdict option" where
  "guard_message st version offset m =
     (if msg_id m = 0x01 then Some (Inl kProtocolVersionMismatch, disconnect_calls st (msg_payload m))
      else let decoded = DecodeValidatedStatusMessage m offset version (es_network_id st) (es_genesis_hash st) (es_schemas st) in
        (case fst (HandleEthHandshakeMessage m offset version (es_network_id st) (es_genesis_hash st) False) of
           kAcceptedStatus \<Rightarrow> Some (decoded, [])
         | kRejected \<Rightarrow> (case decoded of Inl e \<Rightarrow> Some (Inl e, []) | Inr _ \<Rightarrow> Some (Inl kProtocolVersionMismatch, []))
         | kIgnored \<Rightarrow> None))"

partial_function (option) handshake_loop ::
    "'c session_channel \<Rightarrow> (rlpx_message \<Rightarrow> handshake_verdict option) \<Rightarrow> 'c \<Rightarrow> (handshake_verdict \<times> 'c) option" where
  "handshake_loop ch judge c =
     (case ch_receive ch 5000 c of
        None \<Rightarrow> None
      | Some (Inl _, c) \<Rightarrow> Some ((Inl kProtocolVersionMismatch, []), c)
      | Some (Inr m, c) \<Rightarrow> (case judge m of Some v \<Rightarrow> Some (v, c) | None \<Rightarrow> handshake_loop ch judge c))"

definition perform_handshake :: "(eth_status_handshake_start \<Rightarrow> u8 \<Rightarrow> u8 \<Rightarrow> rlpx_message \<Rightarrow> handshake_verdict option) \<Rightarrow>
    eth_status_handshake_start \<Rightarrow> 'c session_channel \<Rightarrow> 'c \<Rightarrow> (handshake_verdict \<times> 'c) option" where
  "perform_handshake judge st ch c =
     (let version = ch_version ch c; offset = ch_offset ch c; failed = (Inl kProtocolVersionMismatch, [])
      in if version = 0 \<or> offset = 0 then Some (failed, c)
         else (case encode_status (BuildLocalStatusMessage version (es_network_id st) (es_genesis_hash st) (es_fork_id st)) of
             Inl _ \<Rightarrow> Some (failed, c)
           | Inr encoded \<Rightarrow>
               (case ch_post ch \<lparr>msg_id = offset + kStatusMessageId, msg_payload = encoded\<rparr> c of
                  None \<Rightarrow> None
                | Some (Inl _, c) \<Rightarrow> Some (failed, c)
                | Some (Inr _, c) \<Rightarrow> handshake_loop ch (judge st version offset) c)))"

definition PerformEthStatusHandshake :: "eth_status_handshake_start \<Rightarrow> 'c session_channel option \<Rightarrow> 'c \<Rightarrow> (handshake_verdict \<times> 'c) option" where
  "PerformEthStatusHandshake st channel c =
     (case channel of None \<Rightarrow> Some ((Inl kProtocolVersionMismatch, []), c) | Some ch \<Rightarrow> perform_handshake handshake_message st ch c)"

definition PerformEthStatusHandshake_guard :: "eth_status_handshake_start \<Rightarrow> 'c session_channel option \<Rightarrow> 'c \<Rightarrow> (handshake_verdict \<times> 'c) option" where
  "PerformEthStatusHandshake_guard st channel c =
     (case channel of None \<Rightarrow> Some ((Inl kProtocolVersionMismatch, []), c) | Some ch \<Rightarrow> perform_handshake guard_message st ch c)"

definition StartEthStatusHandshake :: "eth_status_handshake_start \<Rightarrow> 'c session_channel option \<Rightarrow> 'c \<Rightarrow> bool \<times> 'c" where
  "StartEthStatusHandshake st channel c =
     (case channel of None \<Rightarrow> (False, c) | Some ch \<Rightarrow> (True, ch_set_eth_handler ch (es_inbound_handler st) c))"

section \<open>The loop over a channel\<close>

text \<open>The result of the wait \<open>n\<close>, and the state after it; whether the handshake goes on after a result, and what it returns otherwise.\<close>

primrec waits :: "'c session_channel \<Rightarrow> nat \<Rightarrow> 'c \<Rightarrow> (session_error + rlpx_message) \<times> 'c" where
  "waits ch 0 c = the (ch_receive ch 5000 c)"
| "waits ch (Suc n) c = the (ch_receive ch 5000 (snd (waits ch n c)))"

definition passed :: "(rlpx_message \<Rightarrow> handshake_verdict option) \<Rightarrow> (session_error + rlpx_message) \<Rightarrow> bool" where
  "passed judge r \<longleftrightarrow> (\<exists>m. r = Inr m \<and> judge m = None)"

definition verdict_of :: "(rlpx_message \<Rightarrow> handshake_verdict option) \<Rightarrow> (session_error + rlpx_message) \<Rightarrow> handshake_verdict" where
  "verdict_of judge r = (case r of Inl _ \<Rightarrow> (Inl kProtocolVersionMismatch, []) | Inr m \<Rightarrow> the (judge m))"

lemma waits_shift: "waits ch (Suc n) c = waits ch n (snd (waits ch 0 c))"
  by (induction n) simp_all

text \<open>What the handshake relies on of a channel: while the invariant holds, a wait returns and keeps the invariant, and so does posting.\<close>

locale status_channel =
  fixes ch :: "'c session_channel" and inv :: "'c \<Rightarrow> bool"
  assumes receive_returns: "inv c \<Longrightarrow> \<exists>r c'. ch_receive ch t c = Some (r, c') \<and> inv c'"
    and post_returns: "inv c \<Longrightarrow> \<exists>r c'. ch_post ch m c = Some (r, c') \<and> inv c'"
begin

lemma waits_first: "inv c \<Longrightarrow> ch_receive ch 5000 c = Some (waits ch 0 c) \<and> inv (snd (waits ch 0 c))"
  using receive_returns [of c 5000] by auto

lemma loop_unfold:
  "inv c \<Longrightarrow> handshake_loop ch judge c =
     (if passed judge (fst (waits ch 0 c)) then handshake_loop ch judge (snd (waits ch 0 c)) else Some (verdict_of judge (fst (waits ch 0 c)), snd (waits ch 0 c)))"
  using waits_first [of c]
  by (subst handshake_loop.simps, cases "waits ch 0 c", cases "fst (waits ch 0 c)")
    (auto simp: passed_def verdict_of_def simp del: waits.simps split: option.splits)

lemma loop_decided:
  assumes "inv c" "\<And>i. i < n \<Longrightarrow> passed judge (fst (waits ch i c))" "\<not> passed judge (fst (waits ch n c))"
  shows "handshake_loop ch judge c = Some (verdict_of judge (fst (waits ch n c)), snd (waits ch n c))"
  using assms
proof (induction n arbitrary: c)
  case (Suc n)
  have "passed judge (fst (waits ch 0 c))" using Suc.prems(2) [of 0] by simp
  moreover have "inv (snd (waits ch 0 c))" using waits_first [OF Suc.prems(1)] by simp
  moreover have "handshake_loop ch judge (snd (waits ch 0 c)) = Some (verdict_of judge (fst (waits ch (Suc n) c)), snd (waits ch (Suc n) c))"
    unfolding waits_shift
  proof (rule Suc.IH [OF \<open>inv (snd (waits ch 0 c))\<close>])
    show "passed judge (fst (waits ch i (snd (waits ch 0 c))))" if "i < n" for i
      using Suc.prems(2) [of "Suc i"] that by (simp only: waits_shift Suc_less_eq)
    show "\<not> passed judge (fst (waits ch n (snd (waits ch 0 c))))" using Suc.prems(3) unfolding waits_shift .
  qed
  ultimately show ?case using loop_unfold [OF Suc.prems(1), of judge] by (simp del: waits.simps)
qed (simp add: loop_unfold del: waits.simps)

lemma loop_result:
  assumes "handshake_loop ch judge c = Some y" "inv c"
  shows "\<exists>n. \<not> passed judge (fst (waits ch n c))"
proof -
  have "ch' = ch \<longrightarrow> judge' = judge \<longrightarrow> inv c' \<longrightarrow> (\<exists>n. \<not> passed judge (fst (waits ch n c')))" if "handshake_loop ch' judge' c' = Some y" for ch' judge' c' y
    using that
  proof (rule handshake_loop.raw_induct [rotated])
    fix loop :: "'c session_channel \<Rightarrow> (rlpx_message \<Rightarrow> handshake_verdict option) \<Rightarrow> 'c \<Rightarrow> (handshake_verdict \<times> 'c) option" and ch' judge' c' y
    assume IH: "\<And>ch' judge' c' y. loop ch' judge' c' = Some y \<Longrightarrow> ch' = ch \<longrightarrow> judge' = judge \<longrightarrow> inv c' \<longrightarrow> (\<exists>n. \<not> passed judge (fst (waits ch n c')))"
      and body: "(case ch_receive ch' 5000 c' of None \<Rightarrow> None | Some (Inl _, c) \<Rightarrow> Some ((Inl kProtocolVersionMismatch, []), c)
        | Some (Inr m, c) \<Rightarrow> (case judge' m of Some v \<Rightarrow> Some (v, c) | None \<Rightarrow> loop ch' judge' c)) = Some y"
    show "ch' = ch \<longrightarrow> judge' = judge \<longrightarrow> inv c' \<longrightarrow> (\<exists>n. \<not> passed judge (fst (waits ch n c')))"
    proof (intro impI)
      assume eq: "ch' = ch" "judge' = judge" and i: "inv c'"
      note w = waits_first [OF i]
      show "\<exists>n. \<not> passed judge (fst (waits ch n c'))"
      proof (cases "passed judge (fst (waits ch 0 c'))")
        case True
        then have "loop ch judge (snd (waits ch 0 c')) = Some y"
          using body w eq by (cases "waits ch 0 c'") (auto simp: passed_def simp del: waits.simps)
        then obtain n where "\<not> passed judge (fst (waits ch n (snd (waits ch 0 c'))))" using IH w by blast
        then show ?thesis by (metis waits_shift)
      qed blast
    qed
  qed
  then show ?thesis using assms by blast
qed

text \<open>The loop returns the verdict on the first result it does not pass over, and does not return when it passes over all.\<close>

lemma loop_first:
  assumes "inv c"
  shows "handshake_loop ch judge c =
    (if \<forall>n. passed judge (fst (waits ch n c)) then None
     else let n = LEAST n. \<not> passed judge (fst (waits ch n c)) in Some (verdict_of judge (fst (waits ch n c)), snd (waits ch n c)))"
proof (cases "\<forall>n. passed judge (fst (waits ch n c))")
  case True
  have "handshake_loop ch judge c \<noteq> Some y" for y using loop_result [OF _ assms, of judge y] True by blast
  then show ?thesis using True by (cases "handshake_loop ch judge c") auto
next
  case False
  let ?n = "LEAST n. \<not> passed judge (fst (waits ch n c))"
  have "\<not> passed judge (fst (waits ch ?n c))" using False LeastI_ex [of "\<lambda>n. \<not> passed judge (fst (waits ch n c))"] by blast
  moreover have "passed judge (fst (waits ch i c))" if "i < ?n" for i using not_less_Least [OF that] by blast
  ultimately show ?thesis using loop_decided [OF assms, of ?n judge] False by (auto simp: Let_def)
qed

end

section \<open>RLPx sessions as channels\<close>

definition channels_open :: "'c rlpx_channel_state \<Rightarrow> bool" where
  "channels_open c \<longleftrightarrow> send_channel (fst c) \<noteq> None \<and> recv_channel (fst c) \<noteq> None"

interpretation rlpx_ch: status_channel "rlpx_eth_session_channel wait" channels_open for wait
proof unfold_locales
  fix c :: "'c rlpx_channel_state" and t m
  assume "channels_open c"
  then obtain s coming p q where c: "c = (s, coming)" "send_channel s = Some p" "recv_channel s = Some q" by (cases c) (auto simp: channels_open_def)
  obtain r q' where "receive_poll t (coming 0) wait 0 0 q = (r, q')" by fastforce
  then show "\<exists>r c'. ch_receive (rlpx_eth_session_channel wait) t c = Some (r, c') \<and> channels_open c'"
    using c by (simp add: rlpx_eth_session_channel_def receive_message_with_timeout_def channels_open_def)
  show "\<exists>r c'. ch_post (rlpx_eth_session_channel wait) m c = Some (r, c') \<and> channels_open c'"
    using c by (simp add: rlpx_eth_session_channel_def post_message_def channels_open_def)
qed

section \<open>Decoded Status messages\<close>

definition fields_ok :: "decoded_status_fields \<Rightarrow> bool" where
  "fields_ok f \<longleftrightarrow> (\<forall>h. d_block_hash f = Some h \<longrightarrow> length h = 32) \<and> (\<forall>h. d_genesis_hash f = Some h \<longrightarrow> length h = 32) \<and>
     (\<forall>h. d_latest_block_hash f = Some h \<longrightarrow> length h = 32) \<and> (\<forall>x. d_fork_id f = Some x \<longrightarrow> length (fork_hash x) = 4)"

lemma fields_ok_store:
  "fields_ok f \<Longrightarrow> fields_ok (store_uint nm v f)" "fields_ok f \<Longrightarrow> length h = 32 \<Longrightarrow> fields_ok (store_hash nm h f)"
  by (simp_all add: fields_ok_def store_uint_def store_hash_def)

lemma read_fork_id_field_ok: "read_fork_id_field d = Inr (x, d') \<Longrightarrow> length (fork_hash x) = 4"
  by (auto simp: read_fork_id_field_def outcome_try_eq_Inr need_iff read_array_bytes Let_def split: if_splits)

lemma read_schema_field_ok:
  "fields_ok f \<Longrightarrow> read_schema_field fs i f d = Inr (f', d') \<Longrightarrow> fields_ok f'"
  by (auto simp: read_schema_field_def outcome_try_eq_Inr need_iff read_array_bytes fields_ok_store split: if_splits)
    (auto simp: fields_ok_def dest: read_fork_id_field_ok)

lemma read_schema_fields_ok: "fields_ok f \<Longrightarrow> read_schema_fields fss i f d = Inr (f', d') \<Longrightarrow> fields_ok f'"
  by (induction fss i f d rule: read_schema_fields.induct) (auto simp: outcome_try_eq_Inr dest: read_schema_field_ok)

lemma decode_fields_ok: "decode_status_fields_with_schema data schema = Inr f \<Longrightarrow> fields_ok f"
  by (auto simp: decode_status_fields_with_schema_def outcome_try_eq_Inr Let_def fields_ok_def no_status_fields_def split: if_splits
      dest!: read_schema_fields_ok [rotated])

lemma make_status_wf: "fields_ok f \<Longrightarrow> make_status_message_from_fields f = Inr m \<Longrightarrow> wf_status m"
  by (auto simp: make_status_message_from_fields_def fields_ok_def Let_def split: option.splits if_splits)

lemma decode_status_loop_wf: "decode_status_loop data schemas err = Inr m \<Longrightarrow> wf_status m"
  by (induction data schemas err rule: decode_status_loop.induct) (auto split: sum.splits dest: decode_fields_ok make_status_wf)

section \<open>Properties\<close>

text \<open>C21. Every Status message the decoder returns, whatever the schemas and the bytes, is well formed: its hashes have 32 bytes, the fork hash has 4,
  and the protocol version belongs to the form of the message.\<close>

theorem decoded_status_wf:
  assumes "decode_status_by schemas payload = Inr m"
  shows "wf_status m"
  using assms decode_status_loop_wf by (auto simp: decode_status_by_def decode_status_def decode_status_with_def split: if_splits)

lemma local_status_wf:
  assumes "version \<in> {66, 67, 68, 69}" "length genesis = 32" "length (fork_hash fork) = 4"
  shows "wf_status (BuildLocalStatusMessage version nid genesis fork)"
  using assms by (auto simp: BuildLocalStatusMessage_def)

theorem decoded_status_wf_witness:
  "wf_status (BuildLocalStatusMessage 69 1 (replicate 32 2) \<lparr>fork_hash = [1, 2, 3, 4], next_fork = 0\<rparr>)"
proof (rule decoded_status_wf)
  show "decode_status_by [] (rlp_encode (RList (status_items
      (BuildLocalStatusMessage 69 1 (replicate 32 2) \<lparr>fork_hash = [1, 2, 3, 4], next_fork = 0\<rparr>)))) =
    Inr (BuildLocalStatusMessage 69 1 (replicate 32 2) \<lparr>fork_hash = [1, 2, 3, 4], next_fork = 0\<rparr>)"
    unfolding decode_status_by_def by (simp, rule decode_status_reads, rule local_status_wf) simp_all
qed

lemma loop_from_judge:
  assumes "handshake_loop ch judge c = Some y"
  shows "fst y = (Inl kProtocolVersionMismatch, []) \<or> (\<exists>m. judge m = Some (fst y))"
  using assms
proof (rule handshake_loop.raw_induct [rotated])
  fix loop :: "'a session_channel \<Rightarrow> (rlpx_message \<Rightarrow> handshake_verdict option) \<Rightarrow> 'a \<Rightarrow> (handshake_verdict \<times> 'a) option" and ch judge c y
  assume "\<And>ch judge c y. loop ch judge c = Some y \<Longrightarrow> fst y = (Inl kProtocolVersionMismatch, []) \<or> (\<exists>m. judge m = Some (fst y))"
    "(case ch_receive ch 5000 c of None \<Rightarrow> None | Some (Inl _, c) \<Rightarrow> Some ((Inl kProtocolVersionMismatch, []), c)
      | Some (Inr m, c) \<Rightarrow> (case judge m of Some v \<Rightarrow> Some (v, c) | None \<Rightarrow> loop ch judge c)) = Some y"
  then show "fst y = (Inl kProtocolVersionMismatch, []) \<or> (\<exists>m. judge m = Some (fst y))"
    by (cases y; cases "fst y") (fastforce split: option.splits sum.splits)
qed

lemma perform_from_judge:
  assumes "perform_handshake judge st ch c = Some (v, c')" "v \<noteq> (Inl kProtocolVersionMismatch, [])"
  shows "\<exists>m. judge st (ch_version ch c) (ch_offset ch c) m = Some v"
proof -
  from assms obtain c1 where "handshake_loop ch (judge st (ch_version ch c) (ch_offset ch c)) c1 = Some (v, c')"
    by (auto simp: perform_handshake_def Let_def split: if_splits sum.splits option.splits)
  from loop_from_judge [OF this] show ?thesis using assms(2) by auto
qed

text \<open>C10. A handshake that succeeds has seen a well-formed Status of the negotiated version, for the expected network and genesis block, over any
  channel; in a Status of version 69 the earliest block is not above the latest one unless the latest is 0, and then anything is accepted.\<close>

theorem handshake_accepts_only_matching:
  assumes "PerformEthStatusHandshake st (Some ch) c = Some ((Inr status, calls), c')"
  shows "wf_status status \<and> c_protocol_version (get_common_fields status) = ch_version ch c \<and> c_network_id (get_common_fields status) = es_network_id st \<and>
    c_genesis_hash (get_common_fields status) = es_genesis_hash st \<and>
    (case status of Status69 x \<Rightarrow> s69_latest_block x = 0 \<or> s69_earliest_block x \<le> s69_latest_block x | Status68 _ \<Rightarrow> True) \<and> calls = []"
proof -
  obtain m where m: "handshake_message st (ch_version ch c) (ch_offset ch c) m = Some (Inr status, calls)"
    using perform_from_judge [of handshake_message st ch c "(Inr status, calls)" c'] assms by (auto simp: PerformEthStatusHandshake_def)
  then have v: "decode_status_by (es_schemas st) (msg_payload m) = Inr status" "calls = []"
    "ValidateRemoteStatusMessage status (ch_version ch c) (es_network_id st) (es_genesis_hash st) = Inr ()"
    by (auto simp: handshake_message_def split: if_splits option.splits sum.splits)
  have "wf_status status"
    using v(1) decode_status_loop_wf by (auto simp: decode_status_by_def decode_status_def decode_status_with_def split: if_splits)
  then show ?thesis
    using v(2,3) by (cases status) (auto simp: ValidateRemoteStatusMessage_def validate_status_def Let_def not_less split: if_splits)
qed

text \<open>C32. The two implementations of the handshake agree when no schemas are configured.\<close>

theorem handshake_variants_agree:
  assumes "es_schemas st = []"
  shows "PerformEthStatusHandshake_guard st channel c = PerformEthStatusHandshake st channel c"
proof -
  have "guard_message st version offset m = handshake_message st version offset m" for version offset m
    using assms
    by (auto simp: guard_message_def handshake_message_def HandleEthHandshakeMessage_def DecodeValidatedStatusMessage_def Let_def
        split: option.splits sum.splits)
  then have eq: "guard_message st = handshake_message st" by (intro ext)
  have "perform_handshake guard_message st ch c = perform_handshake handshake_message st ch c" for ch
    unfolding perform_handshake_def eq ..
  then show ?thesis by (cases channel) (simp_all add: PerformEthStatusHandshake_guard_def PerformEthStatusHandshake_def)
qed

text \<open>What the session posts first, and the channel state after it.\<close>

definition own_status :: "eth_status_handshake_start \<Rightarrow> 'c rlpx_session \<Rightarrow> fork_id \<Rightarrow> status_message" where
  "own_status st s fork = BuildLocalStatusMessage (negotiated_eth_version s) (es_network_id st) (es_genesis_hash st) fork"

definition status_wire :: "'c rlpx_session \<Rightarrow> status_message \<Rightarrow> rlpx_message" where
  "status_wire s status = \<lparr>msg_id = negotiated_eth_offset s, msg_payload = rlp_encode (RList (status_items status))\<rparr>"

definition after_post :: "eth_status_handshake_start \<Rightarrow> 'c rlpx_channel_state \<Rightarrow> 'c rlpx_channel_state" where
  "after_post st c = (case c of (s, coming) \<Rightarrow>
     (s\<lparr>send_channel := map_option (\<lambda>p. p @ [status_wire s (own_status st s (es_fork_id st))]) (send_channel s)\<rparr>, coming))"

definition handshake_ready :: "eth_status_handshake_start \<Rightarrow> 'c rlpx_session \<Rightarrow> bool" where
  "handshake_ready st s \<longleftrightarrow> state s = kActive \<and> send_channel s \<noteq> None \<and> recv_channel s \<noteq> None \<and> negotiated_eth_version s \<in> {66, 67, 68, 69} \<and>
     negotiated_eth_offset s \<noteq> 0 \<and> length (es_genesis_hash st) = 32 \<and> length (fork_hash (es_fork_id st)) = 4"

lemma perform_is_loop:
  assumes "handshake_ready st s"
  shows "PerformEthStatusHandshake st (Some (rlpx_eth_session_channel wait)) (s, coming) =
      handshake_loop (rlpx_eth_session_channel wait) (handshake_message st (negotiated_eth_version s) (negotiated_eth_offset s)) (after_post st (s, coming))"
    "channels_open (after_post st (s, coming))"
proof -
  have r: "negotiated_eth_version s \<in> {66, 67, 68, 69}" "negotiated_eth_version s \<noteq> 0" "length (es_genesis_hash st) = 32" "length (fork_hash (es_fork_id st)) = 4"
    using assms by (auto simp: handshake_ready_def)
  have "encode_status (own_status st s (es_fork_id st)) = Inr (msg_payload (status_wire s (own_status st s (es_fork_id st))))"
    unfolding own_status_def status_wire_def using encode_status_eq [OF local_status_wf [OF r(1,3,4)]] by simp
  then show "PerformEthStatusHandshake st (Some (rlpx_eth_session_channel wait)) (s, coming) =
      handshake_loop (rlpx_eth_session_channel wait) (handshake_message st (negotiated_eth_version s) (negotiated_eth_offset s)) (after_post st (s, coming))"
    using assms r(2)
    by (auto simp: PerformEthStatusHandshake_def perform_handshake_def rlpx_eth_session_channel_def post_message_def channel_push_def Let_def
        handshake_ready_def after_post_def own_status_def status_wire_def)
  show "channels_open (after_post st (s, coming))" using assms by (auto simp: handshake_ready_def channels_open_def after_post_def)
qed

lemma own_status_accepted:
  assumes "negotiated_eth_version s \<in> {66, 67, 68, 69}" "negotiated_eth_offset s \<noteq> 1" "length (es_genesis_hash st) = 32" "length (fork_hash fork) = 4"
    "es_schemas st = []"
  shows "handshake_message st (negotiated_eth_version s) (negotiated_eth_offset s) (status_wire s (own_status st s fork)) = Some (Inr (own_status st s fork), [])"
proof -
  have "wf_status (own_status st s fork)" unfolding own_status_def by (rule local_status_wf [OF assms(1,3,4)])
  moreover have "ValidateRemoteStatusMessage (own_status st s fork) (negotiated_eth_version s) (es_network_id st) (es_genesis_hash st) = Inr ()"
    by (simp add: own_status_def ValidateRemoteStatusMessage_def BuildLocalStatusMessage_def validate_status_def)
  ultimately show ?thesis
    using assms(2,5) decode_status_reads [of "own_status st s fork"]
    by (simp add: handshake_message_def status_wire_def NormalizeEthWireMessageId_def decode_status_by_def)
qed

lemma loop_accepts_own_status:
  assumes "handshake_ready st s" "negotiated_eth_offset s \<noteq> 1" "es_schemas st = []" "length (fork_hash fork) = 4" "ch = rlpx_eth_session_channel wait"
    "\<And>i. i < n \<Longrightarrow> passed (handshake_message st (negotiated_eth_version s) (negotiated_eth_offset s)) (fst (waits ch i (after_post st (s, coming))))"
    "fst (waits ch n (after_post st (s, coming))) = Inr (status_wire s (own_status st s fork))"
  shows "handshake_loop ch (handshake_message st (negotiated_eth_version s) (negotiated_eth_offset s)) (after_post st (s, coming)) =
    Some ((Inr (own_status st s fork), []), snd (waits ch n (after_post st (s, coming))))"
proof -
  let ?judge = "handshake_message st (negotiated_eth_version s) (negotiated_eth_offset s)" and ?r = "fst (waits ch n (after_post st (s, coming)))"
  have "?judge (status_wire s (own_status st s fork)) = Some (Inr (own_status st s fork), [])"
    using assms(1-4) by (intro own_status_accepted) (auto simp: handshake_ready_def)
  then have "\<not> passed ?judge ?r" "verdict_of ?judge ?r = (Inr (own_status st s fork), [])"
    using assms(7) by (simp_all add: passed_def verdict_of_def)
  then show ?thesis
    using rlpx_ch.loop_decided [OF perform_is_loop(2) [OF assms(1)], of n ?judge wait] assms(5,6) by simp
qed

text \<open>C9. Over an active RLPx session the handshake posts the local Status first, and then the first result of a wait that is not passed over
  decides: an error of the wait, a Disconnect, a Status, or any other eth message. Messages below the eth offset are passed over, and a
  peer that sends nothing else, often enough, keeps the handshake from ever returning.\<close>

theorem handshake_outcome:
  assumes "handshake_ready st s" "ch = rlpx_eth_session_channel wait" "c1 = after_post st (s, coming)"
    "judge = handshake_message st (negotiated_eth_version s) (negotiated_eth_offset s)"
  shows "PerformEthStatusHandshake st (Some ch) (s, coming) =
    (if \<forall>n. passed judge (fst (waits ch n c1)) then None
     else let n = LEAST n. \<not> passed judge (fst (waits ch n c1)) in Some (verdict_of judge (fst (waits ch n c1)), snd (waits ch n c1)))"
  unfolding assms(2-4) perform_is_loop(1) [OF assms(1)] by (rule rlpx_ch.loop_first) (rule perform_is_loop(2) [OF assms(1)])

text \<open>C6. Two nodes of this code on the same chain accept each other: when the Status the peer posts, built for the same version, network and genesis
  block with whatever fork id, is the first result that is not passed over, the handshake returns exactly that Status. An offset of 1,
  where a Status has the id of a Disconnect, is the exception.\<close>

theorem handshake_agrees:
  assumes "handshake_ready st s" "negotiated_eth_offset s \<noteq> 1" "es_schemas st = []" "length (fork_hash fork) = 4" "ch = rlpx_eth_session_channel wait"
    "\<And>i. i < n \<Longrightarrow> passed (handshake_message st (negotiated_eth_version s) (negotiated_eth_offset s)) (fst (waits ch i (after_post st (s, coming))))"
    "fst (waits ch n (after_post st (s, coming))) = Inr (status_wire s (own_status st s fork))"
  shows "PerformEthStatusHandshake st (Some ch) (s, coming) = Some ((Inr (own_status st s fork), []), snd (waits ch n (after_post st (s, coming))))"
  using perform_is_loop(1) [OF assms(1)] loop_accepts_own_status [OF assms] assms(5) by simp

section \<open>Witnesses\<close>

definition sample_handshake :: eth_status_handshake_start where
  "sample_handshake = \<lparr>es_network_id = 1, es_genesis_hash = replicate 32 2, es_fork_id = \<lparr>fork_hash = [1, 2, 3, 4], next_fork = 0\<rparr>, es_schemas = [],
     es_disconnect_handler = True, es_inbound_handler = True\<rparr>"

definition sample_eth_session :: "nat rlpx_session" where
  "sample_eth_session = sample_session\<lparr>negotiated_eth_version := 68, negotiated_eth_offset := 16\<rparr>"

definition sample_fork :: fork_id where
  "sample_fork = \<lparr>fork_hash = [5, 6, 7, 8], next_fork = 9\<rparr>"

definition sample_peer_status :: status_message where
  "sample_peer_status = own_status sample_handshake sample_eth_session sample_fork"

definition sample_started :: "nat rlpx_channel_state" where
  "sample_started = (sample_eth_session, \<lambda>i k. if i = 0 \<and> k = 0 then [sample_ping, status_wire sample_eth_session sample_peer_status] else [])"

abbreviation "sample_channel \<equiv> rlpx_eth_session_channel (\<lambda>_. Fires 0)"


lemma receive_pushed:
  "state s = kActive \<Longrightarrow> recv_channel s = Some q \<Longrightarrow> q @ coming 0 0 = m # rest \<Longrightarrow>
   ch_receive (rlpx_eth_session_channel wait) t (s, coming) = Some (Inr m, s\<lparr>recv_channel := Some rest\<rparr>, \<lambda>i. coming (Suc i))"
  by (simp add: rlpx_eth_session_channel_def receive_message_with_timeout_def receive_poll.simps channel_try_pop_def)

lemma sample_waits:
  "fst (waits sample_channel 0 (after_post sample_handshake sample_started)) = Inr sample_ping"
  "fst (waits sample_channel 1 (after_post sample_handshake sample_started)) = Inr (status_wire sample_eth_session sample_peer_status)"
  by (simp_all add: receive_pushed after_post_def sample_started_def sample_eth_session_def sample_session_def new_session_def)

lemma sample_ready:
  "handshake_ready sample_handshake sample_eth_session" "negotiated_eth_offset sample_eth_session = 16" "negotiated_eth_version sample_eth_session = 68"
  by (simp_all add: handshake_ready_def sample_handshake_def sample_eth_session_def sample_session_def new_session_def)

lemma sample_passed:
  "passed (handshake_message sample_handshake 68 16) (Inr sample_ping)"
  "\<not> passed (handshake_message sample_handshake 68 16) (Inr (status_wire sample_eth_session sample_peer_status))"
  "verdict_of (handshake_message sample_handshake 68 16) (Inr (status_wire sample_eth_session sample_peer_status)) = (Inr sample_peer_status, [])"
proof -
  show "passed (handshake_message sample_handshake 68 16) (Inr sample_ping)"
    by (simp add: passed_def sample_ping_def handshake_message_def NormalizeEthWireMessageId_def)
  have "handshake_message sample_handshake 68 16 (status_wire sample_eth_session sample_peer_status) = Some (Inr sample_peer_status, [])"
    using own_status_accepted [of sample_eth_session sample_handshake sample_fork]
    by (simp add: sample_ready sample_peer_status_def sample_fork_def sample_handshake_def)
  then show "\<not> passed (handshake_message sample_handshake 68 16) (Inr (status_wire sample_eth_session sample_peer_status))"
    "verdict_of (handshake_message sample_handshake 68 16) (Inr (status_wire sample_eth_session sample_peer_status)) = (Inr sample_peer_status, [])"
    by (simp_all add: passed_def verdict_of_def)
qed

lemma sample_accepted:
  "PerformEthStatusHandshake sample_handshake (Some sample_channel) sample_started =
     Some ((Inr sample_peer_status, []), snd (waits sample_channel 1 (after_post sample_handshake sample_started)))"
proof -
  have "handshake_loop sample_channel (handshake_message sample_handshake 68 16) (after_post sample_handshake sample_started) =
      Some ((Inr sample_peer_status, []), snd (waits sample_channel 1 (after_post sample_handshake sample_started)))"
    using loop_accepts_own_status [OF sample_ready(1), of sample_fork sample_channel "\<lambda>_. Fires 0" 1 "snd sample_started"] sample_waits sample_passed
    by (simp add: sample_ready sample_started_def sample_peer_status_def sample_fork_def sample_handshake_def del: waits.simps)
  then show ?thesis using perform_is_loop(1) [OF sample_ready(1)] by (simp add: sample_ready sample_started_def del: waits.simps)
qed

theorem handshake_variants_agree_witness:
  "PerformEthStatusHandshake_guard sample_handshake (Some sample_channel) sample_started =
     Some ((Inr sample_peer_status, []), snd (waits sample_channel 1 (after_post sample_handshake sample_started)))"
  using handshake_variants_agree [of sample_handshake "Some sample_channel" sample_started] sample_accepted by (simp add: sample_handshake_def)

theorem handshake_accepts_only_matching_witness:
  "wf_status sample_peer_status \<and> c_protocol_version (get_common_fields sample_peer_status) = 68 \<and> c_network_id (get_common_fields sample_peer_status) = 1"
  using handshake_accepts_only_matching [OF sample_accepted]
  by (simp add: rlpx_eth_session_channel_def sample_started_def sample_ready sample_handshake_def)

theorem handshake_outcome_witness:
  "PerformEthStatusHandshake sample_handshake (Some sample_channel) sample_started =
     Some ((Inr sample_peer_status, []), snd (waits sample_channel 1 (after_post sample_handshake sample_started)))"
proof -
  let ?judge = "handshake_message sample_handshake 68 16" and ?c = "after_post sample_handshake sample_started"
  have "(LEAST n. \<not> passed ?judge (fst (waits sample_channel n ?c))) = 1"
  proof (rule Least_equality)
    show "1 \<le> n" if "\<not> passed ?judge (fst (waits sample_channel n ?c))" for n
      using that sample_waits(1) sample_passed(1) by (cases n) (simp_all del: waits.simps)
  qed (use sample_waits(2) sample_passed(2) in \<open>simp del: waits.simps\<close>)
  moreover have "\<not> (\<forall>n. passed ?judge (fst (waits sample_channel n ?c)))" using sample_waits(2) sample_passed(2) by metis
  moreover have "sample_started = (sample_eth_session, snd sample_started)" by (simp add: sample_started_def)
  ultimately show ?thesis
    using handshake_outcome [OF sample_ready(1) refl refl refl, of "\<lambda>_. Fires 0" "snd sample_started"] sample_waits(2) sample_passed(3)
    by (simp add: sample_ready Let_def del: waits.simps split_paired_All)
qed

theorem handshake_agrees_witness:
  "PerformEthStatusHandshake sample_handshake (Some sample_channel) sample_started =
     Some ((Inr sample_peer_status, []), snd (waits sample_channel 1 (after_post sample_handshake sample_started)))"
  using handshake_agrees [OF sample_ready(1), of sample_fork sample_channel "\<lambda>_. Fires 0" 1 "snd sample_started"] sample_waits sample_passed
  by (simp add: sample_ready sample_started_def sample_peer_status_def sample_fork_def sample_handshake_def del: waits.simps)

end
