(* ===== verification/Watch_Runner.thy ===== *)
theory Watch_Runner
  imports Eth_Handshake Watch_Service
begin

text \<open>
  The per-session runner of src/eth/eth_watch_runner.cpp: it connects a session to a watch service. The callback of a watch is the event
  signature that the closure captures; calls of the user callback are a list of notifications. Where the ABI decoder would read outside
  of the log data, and where the channel is undefined, the result is \<open>None\<close>.
\<close>

section \<open>Runner\<close>

record watch_event_context =
  wc_chain_name :: string
  wc_network_id :: u64
  wc_peer_client_id :: string
  wc_peer_address :: string

record watch_event_notification =
  wn_context :: watch_event_context
  wn_event :: matched_event
  wn_values :: "abi_value list"
  wn_event_signature :: string

record watch_runner =
  wr_chain_name :: string
  wr_network_id :: u64
  wr_genesis_hash :: hash256
  wr_fork_id :: fork_id
  wr_schemas :: "eth_message_schema list"
  wr_service :: "string watch_service"
  wr_event_callback :: bool

definition new_runner :: "string \<Rightarrow> u64 \<Rightarrow> hash256 \<Rightarrow> fork_id \<Rightarrow> eth_message_schema list \<Rightarrow> watch_runner" where
  "new_runner chain nid genesis fork schemas = \<lparr>wr_chain_name = chain, wr_network_id = nid, wr_genesis_hash = genesis, wr_fork_id = fork,
     wr_schemas = schemas, wr_service = set_eth_message_schemas schemas new_service, wr_event_callback = False\<rparr>"

definition set_event_callback :: "bool \<Rightarrow> watch_runner \<Rightarrow> watch_runner" where
  "set_event_callback cb r = r\<lparr>wr_event_callback := cb\<rparr>"

definition runner_context :: "'c session_channel option \<Rightarrow> watch_runner \<Rightarrow> 'c \<Rightarrow> watch_event_context" where
  "runner_context channel r c = \<lparr>wc_chain_name = wr_chain_name r, wc_network_id = wr_network_id r,
     wc_peer_client_id = (case channel of None \<Rightarrow> [] | Some ch \<Rightarrow> pi_client_id (ch_peer_info ch c)),
     wc_peer_address = (case channel of None \<Rightarrow> [] | Some ch \<Rightarrow> pi_remote_address (ch_peer_info ch c))\<rparr>"

definition notify_event :: "'c session_channel option \<Rightarrow> watch_runner \<Rightarrow> string \<Rightarrow> matched_event \<Rightarrow> abi_value list \<Rightarrow> 'c \<Rightarrow> watch_event_notification list" where
  "notify_event channel r signature ev vals c =
     (if wr_event_callback r
      then [\<lparr>wn_context = runner_context channel r c, wn_event = ev, wn_values = vals, wn_event_signature = signature\<rparr>] else [])"

definition send_local_status :: "'c session_channel \<Rightarrow> watch_runner \<Rightarrow> 'c \<Rightarrow> (bool \<times> 'c) option" where
  "send_local_status ch r c =
     (if ch_version ch c = 0 \<or> ch_offset ch c = 0 then Some (False, c)
      else (case encode_status (BuildLocalStatusMessage (ch_version ch c) (wr_network_id r) (wr_genesis_hash r) (wr_fork_id r)) of
          Inl _ \<Rightarrow> Some (False, c)
        | Inr encoded \<Rightarrow>
            (case ch_post ch \<lparr>msg_id = ch_offset ch c + kStatusMessageId, msg_payload = encoded\<rparr> c of
               None \<Rightarrow> None
             | Some (Inl _, c) \<Rightarrow> Some (False, c)
             | Some (Inr _, c) \<Rightarrow> Some (True, c))))"

definition runner_watch_event :: "(bytes \<Rightarrow> hash256) \<Rightarrow> address \<Rightarrow> string \<Rightarrow> abi_param list \<Rightarrow> u64 option \<Rightarrow> u64 option \<Rightarrow> watch_runner \<Rightarrow> u32 \<times> watch_runner" where
  "runner_watch_event keccak256 contract signature params from_block to_block r =
     (case watch_event keccak256 contract signature params signature from_block to_block (wr_service r) of (i, sv) \<Rightarrow> (i, r\<lparr>wr_service := sv\<rparr>))"

section \<open>Bridge\<close>

text \<open>The send callback that \<open>install_session_bridge\<close> gives to the service.\<close>

definition bridge_send :: "'c session_channel \<Rightarrow> u8 \<Rightarrow> bytes \<Rightarrow> 'c \<Rightarrow> 'c option" where
  "bridge_send ch eth_msg_id payload c =
     (if ch_offset ch c = 0 then Some c
      else map_option snd (ch_post ch \<lparr>msg_id = ch_offset ch c + eth_msg_id, msg_payload = payload\<rparr> c))"

definition install_session_bridge :: "'c session_channel \<Rightarrow> watch_runner \<times> 'c \<Rightarrow> watch_runner \<times> 'c" where
  "install_session_bridge ch rc = (case rc of (r, c) \<Rightarrow>
     (r\<lparr>wr_service := set_send_callback True (wr_service r)\<rparr>, ch_set_eth_handler ch True c))"

text \<open>The calls a service makes while it processes a message, in order.\<close>

fun run_effects :: "'c session_channel \<Rightarrow> watch_runner \<Rightarrow> string effect list \<Rightarrow> 'c \<Rightarrow> (watch_event_notification list \<times> 'c) option" where
  "run_effects ch r [] c = Some ([], c)"
| "run_effects ch r (Send eth_msg_id payload # es) c = Option.bind (bridge_send ch eth_msg_id payload c) (run_effects ch r es)"
| "run_effects ch r (Callback signature ev vals # es) c =
     map_option (\<lambda>(ns, c'). (notify_event (Some ch) r signature ev vals c @ ns, c')) (run_effects ch r es c)"
| "run_effects ch r (Undefined # es) c = None"

text \<open>The handler that \<open>install_session_bridge\<close> gives to the session.\<close>

definition handle_eth_message :: "(bytes \<Rightarrow> hash256) \<Rightarrow> 'c session_channel \<Rightarrow> u8 \<Rightarrow> bytes \<Rightarrow> watch_runner \<times> 'c \<Rightarrow>
    (watch_event_notification list \<times> watch_runner \<times> 'c) option" where
  "handle_eth_message keccak256 ch eth_msg_id payload rc = (case rc of (r, c) \<Rightarrow>
     (case process_message keccak256 eth_msg_id payload (wr_service r) of (sv, effects) \<Rightarrow>
        map_option (\<lambda>(ns, c). (ns, r\<lparr>wr_service := sv\<rparr>, c)) (run_effects ch r effects c)))"

section \<open>A runner on an RLPx session\<close>

text \<open>One message through the receive loop of the session, whose eth handler is the one of the runner.\<close>

fun handle_events :: "(bytes \<Rightarrow> hash256) \<Rightarrow> 'c session_channel \<Rightarrow> session_event list \<Rightarrow> watch_runner \<times> 'c \<Rightarrow>
    (watch_event_notification list \<times> watch_runner \<times> 'c) option" where
  "handle_events kec ch [] rc = Some ([], rc)"
| "handle_events kec ch (EthMessageHandler eth_id payload # es) rc =
     Option.bind (handle_eth_message kec ch eth_id payload rc) (\<lambda>(ns, rc). map_option (\<lambda>(ns', rc). (ns @ ns', rc)) (handle_events kec ch es rc))"
| "handle_events kec ch (_ # es) rc = handle_events kec ch es rc"

definition runner_receives :: "(bytes \<Rightarrow> hash256) \<Rightarrow> (nat \<Rightarrow> timer_wait) \<Rightarrow> rlpx_message \<Rightarrow> watch_runner \<times> 'c rlpx_channel_state \<Rightarrow>
    (watch_event_notification list \<times> watch_runner \<times> 'c rlpx_channel_state) option" where
  "runner_receives kec wait m rc = (case rc of (r, s, coming) \<Rightarrow>
     Option.bind (receive_dispatch m s) (\<lambda>(events, s). handle_events kec (rlpx_eth_session_channel wait) events (r, s, coming)))"

section \<open>Wire ids\<close>

lemma eth_id_wire:
  fixes off i :: u8
  assumes "16 \<le> off" "unat off + unat i < 256"
  shows "NormalizeEthWireMessageId (off + i) off = Some i" "normalize_eth_message_id (off + i) off = Some i" "3 < off + i"
proof -
  have u: "unat (off + i) = unat off + unat i" using assms(2) by (simp add: unat_word_ariths)
  moreover have "16 \<le> unat off" using assms(1) by (simp add: word_le_nat_alt)
  ultimately show "NormalizeEthWireMessageId (off + i) off = Some i" "normalize_eth_message_id (off + i) off = Some i" "3 < off + i"
    by (simp_all add: NormalizeEthWireMessageId_def normalize_eth_message_id_def word_less_nat_alt)
qed

lemma route_eth:
  assumes "eth_message_handler (handlers s)" "16 \<le> negotiated_eth_offset s" "unat (negotiated_eth_offset s) + unat i < 256"
  shows "route_message \<lparr>msg_id = negotiated_eth_offset s + i, msg_payload = payload\<rparr> s = [EthMessageHandler i payload]"
proof -
  have "negotiated_eth_offset s + i \<notin> {0, 1, 2, 3}" using eth_id_wire(3) [OF assms(2,3)] by auto
  then show ?thesis using assms(1) eth_id_wire(2) [OF assms(2,3)] by (simp add: route_message_def)
qed

lemma bridge_send_posts:
  "state s = kActive \<Longrightarrow> send_channel s = Some p \<Longrightarrow> negotiated_eth_offset s \<noteq> 0 \<Longrightarrow>
   bridge_send (rlpx_eth_session_channel wait) i payload (s, coming) =
     Some (s\<lparr>send_channel := Some (p @ [\<lparr>msg_id = negotiated_eth_offset s + i, msg_payload = payload\<rparr>])\<rparr>, coming)"
  by (simp add: bridge_send_def rlpx_eth_session_channel_def post_message_def channel_push_def)

lemma runner_receives_eth:
  assumes "eth_message_handler (handlers s)" "16 \<le> negotiated_eth_offset s" "unat (negotiated_eth_offset s) + unat i < 256" "recv_channel s = Some q"
    "m = \<lparr>msg_id = negotiated_eth_offset s + i, msg_payload = payload\<rparr>"
  shows "runner_receives kec wait m (r, s, coming) =
    handle_eth_message kec (rlpx_eth_session_channel wait) i payload (r, s\<lparr>recv_channel := Some (q @ [m])\<rparr>, coming)"
proof -
  have "Option.bind x (\<lambda>(ns, rc). map_option (\<lambda>(ns', rc). (ns @ ns', rc)) (Some ([], rc))) = x"
    for x :: "(watch_event_notification list \<times> watch_runner \<times> 'a rlpx_channel_state) option"
    by (cases x) auto
  then show ?thesis
    using route_eth [OF assms(1-3)] assms(4,5) by (simp add: runner_receives_def receive_dispatch_def channel_push_def)
qed

section \<open>Effects\<close>

definition effect_notes :: "'c session_channel \<Rightarrow> watch_runner \<Rightarrow> 'c \<Rightarrow> string effect \<Rightarrow> watch_event_notification list" where
  "effect_notes ch r c e = (case e of Callback signature ev vals \<Rightarrow> notify_event (Some ch) r signature ev vals c | _ \<Rightarrow> [])"

lemma effect_notes_Callback [simp]: "effect_notes ch r c (Callback signature ev vals) = notify_event (Some ch) r signature ev vals c"
  by (simp add: effect_notes_def)

lemma run_callbacks:
  assumes "\<And>i payload. Send i payload \<notin> set es"
  shows "run_effects ch r es c = (if Undefined \<in> set es then None else Some (concat (map (effect_notes ch r c) es), c))"
  using assms
proof (induction es)
  case (Cons e es)
  then show ?case by (cases e) auto
qed simp

lemma deliveries_no_send: "Send i payload \<notin> set (concat (map (deliveries kec s) evs))"
  by (auto simp: deliveries_def deliver_def split: if_splits option.splits sum.splits)

lemma decode_announcement:
  assumes "length h = 32"
  shows "decode_new_block_hashes (rlp_encode (RList [block_hash_item \<lparr>nbh_hash = h, nbh_number = n\<rparr>])) = Inr [\<lparr>nbh_hash = h, nbh_number = n\<rparr>]"
proof -
  let ?e = "\<lparr>nbh_hash = h, nbh_number = n\<rparr>"
  have "length (rlp_encodes [RStr h, RUint (unat n)]) \<le> 80"
    using length_rlp_str_le [of h] length_uint_item(2) [of n] assms by (simp add: rlp_encode_simps(1))
  then have "fits (RList [block_hash_item ?e])"
    using length_rlp_prefix_le [of "length (rlp_encodes [RStr h, RUint (unat n)])" "0xC0"]
    by (intro fits_RListI) (simp add: block_hash_item_def rlp_encode_simps(2) rlp_list_def)
  then show ?thesis using block_hashes.loop_reads_all [of "[?e]" "[]"] assms by (simp add: decode_new_block_hashes_def)
qed


lemma service_announcement:
  assumes "service_inv k sv" "send_cb sv" "length h = 32" "h \<notin> set (window (tracker sv))"
  obtains sv1 where
    "process_message kec kNewBlockHashesMessageId (rlp_encode (RList [block_hash_item \<lparr>nbh_hash = h, nbh_number = n\<rparr>])) sv =
      (sv1, [Send kGetReceiptsMessageId (rlp_encode (request_wire (next_req_id sv) [RStr h]))])"
    "pending_requests sv1 (next_req_id sv) = Some \<lparr>pr_block_hash = h, pr_block_number = n\<rparr>" "same_watches sv sv1"
proof -
  let ?payload = "rlp_encode (RList [block_hash_item \<lparr>nbh_hash = h, nbh_number = n\<rparr>])"
  let ?st = "sv\<lparr>ws_stats := (ws_stats sv)\<lparr>eth_messages_seen := eth_messages_seen (ws_stats sv) + 1,
    new_block_hashes_messages := new_block_hashes_messages (ws_stats sv) + 1\<rparr>\<rparr>"
  have "process_message kec kNewBlockHashesMessageId ?payload sv = request_all [\<lparr>nbh_hash = h, nbh_number = n\<rparr>] ?st"
    using decode_announcement [OF assms(3), of n] by (simp add: process_message_def Let_def)
  moreover have "tracker_inv (tracker ?st)" "send_cb ?st" using assms(1,2) by (simp_all add: service_inv_def)
  ultimately show ?thesis
    using that request_fresh [of ?st h n] assms(3,4) process_message_frame [of sv kec kNewBlockHashesMessageId ?payload] by simp
qed

lemma context_frame: "session_peer s' = session_peer s \<Longrightarrow>
    effect_notes (rlpx_eth_session_channel wait) (r\<lparr>wr_service := sv\<rparr>) (s', coming') = effect_notes (rlpx_eth_session_channel wait) r (s, coming)"
  by (simp add: fun_eq_iff effect_notes_def notify_event_def runner_context_def rlpx_eth_session_channel_def split: effect.splits)

lemma runner_receipts:
  assumes "eth_message_handler (handlers s)" "16 \<le> negotiated_eth_offset s" "unat (negotiated_eth_offset s) + 16 < 256" "recv_channel s = Some q"
    "service_inv k (wr_service r)" "k < 2 ^ 32" "ws_schemas (wr_service r) = []" "\<forall>rc \<in> set rcs. wf_receipt rc" "fits (response_wire rid rcs)"
    "pending_requests (wr_service r) rid = Some \<lparr>pr_block_hash = h, pr_block_number = n\<rparr>"
    "response = \<lparr>msg_id = negotiated_eth_offset s + 0x10, msg_payload = rlp_encode (response_wire rid rcs)\<rparr>"
    "calls = concat (map (deliveries kec (wr_service r)) (block_events (zip rcs (replicate (length rcs) (replicate 32 0))) n h 0))"
  shows "\<exists>r2. runner_receives kec wait response (r, s, coming) =
      (if Undefined \<in> set calls then None
       else Some (concat (map (effect_notes (rlpx_eth_session_channel wait) r (s, coming)) calls), r2, s\<lparr>recv_channel := Some (q @ [response])\<rparr>, coming))"
proof -
  let ?ch = "rlpx_eth_session_channel wait" and ?s = "s\<lparr>recv_channel := Some (q @ [response])\<rparr>"
  have "snd (process_message kec kReceiptsMessageId (rlp_encode (response_wire rid rcs)) (wr_service r)) = calls"
    using process_response(1) [OF assms(5-9), of kec] assms(10,12) by simp
  then obtain sv where "process_message kec kReceiptsMessageId (rlp_encode (response_wire rid rcs)) (wr_service r) = (sv, calls)" by (metis prod.collapse)
  moreover have "effect_notes ?ch r (?s, coming) = effect_notes ?ch r (s, coming)"
    using context_frame [of ?s s wait "wr_service r" r coming coming] by simp
  moreover have "run_effects ?ch r calls (?s, coming) =
      (if Undefined \<in> set calls then None else Some (concat (map (effect_notes ?ch r (?s, coming)) calls), ?s, coming))"
    unfolding assms(12) by (rule run_callbacks) (rule deliveries_no_send)
  ultimately show ?thesis
    using runner_receives_eth [OF assms(1,2) _ assms(4,11), of kec wait r coming] assms(3) by (simp add: handle_eth_message_def)
qed

section \<open>Properties\<close>

text \<open>What the bridge of one runner sends reaches the service of the other under the same eth id: over two sessions with the same offset, the
  message that the send callback queues is routed by the peer to its eth handler with the id and the payload it was sent with, as
  long as offset and id do not exceed a byte.\<close>

theorem bridge_round_trip:
  assumes "state s = kActive" "send_channel s = Some p" "16 \<le> negotiated_eth_offset s" "unat (negotiated_eth_offset s) + unat i < 256"
    "eth_message_handler (handlers peer)" "negotiated_eth_offset peer = negotiated_eth_offset s"
  shows "\<exists>m. bridge_send (rlpx_eth_session_channel wait) i payload (s, coming) = Some (s\<lparr>send_channel := Some (p @ [m])\<rparr>, coming) \<and>
    route_message m peer = [EthMessageHandler i payload]"
proof -
  have "negotiated_eth_offset s \<noteq> 0" using assms(3) by auto
  from bridge_send_posts [OF assms(1,2) this] show ?thesis
    using route_eth [OF assms(5), of i payload] assms(3,4,6) by auto
qed

text \<open>C3. From the wire to the user: when a session with an installed bridge receives the announcement of a new block, it queues exactly one GetReceipts
  request for it; and when the response arrives, with anything in the queues meanwhile, every log of the block is reported, in order, to every
  watch whose filter accepts it, with the block that was asked for and the chain and client of the session.\<close>

theorem runner_end_to_end:
  fixes n :: u64
  assumes "state s = kActive" "send_channel s = Some p" "recv_channel s = Some q" "eth_message_handler (handlers s)"
    and "16 \<le> negotiated_eth_offset s" "negotiated_eth_offset s < 240"
    and "service_run kec k (wr_service r)" "k < 2 ^ 32" "send_cb (wr_service r)" "ws_schemas (wr_service r) = []"
    and "length h = 32" "h \<notin> set (window (tracker (wr_service r)))"
    and "\<forall>rc \<in> set rcs. wf_receipt rc" "fits (response_wire (next_req_id (wr_service r)) rcs)"
  defines "off \<equiv> negotiated_eth_offset s" and "rid \<equiv> next_req_id (wr_service r)"
  defines "announcement \<equiv> \<lparr>msg_id = off + 1, msg_payload = rlp_encode (RList [block_hash_item \<lparr>nbh_hash = h, nbh_number = n\<rparr>])\<rparr>"
    and "request \<equiv> \<lparr>msg_id = off + 0x0F, msg_payload = rlp_encode (request_wire rid [RStr h])\<rparr>"
    and "response \<equiv> \<lparr>msg_id = off + 0x10, msg_payload = rlp_encode (response_wire rid rcs)\<rparr>"
    and "calls \<equiv> concat (map (deliveries kec (wr_service r)) (block_events (zip rcs (replicate (length rcs) (replicate 32 0))) n h 0))"
  shows "\<exists>r1. runner_receives kec wait announcement (r, s, coming) =
      Some ([], r1, s\<lparr>recv_channel := Some (q @ [announcement]), send_channel := Some (p @ [request])\<rparr>, coming) \<and>
    (\<forall>s2 q2. s2 = s\<lparr>recv_channel := Some q2, send_channel := send_channel s2\<rparr> \<longrightarrow>
      (\<exists>r2. runner_receives kec wait response (r1, s2, coming) =
        (if Undefined \<in> set calls then None
         else Some (concat (map (effect_notes (rlpx_eth_session_channel wait) r (s, coming)) calls), r2, s2\<lparr>recv_channel := Some (q2 @ [response])\<rparr>, coming))))"
proof -
  let ?sv = "wr_service r" and ?s = "s\<lparr>recv_channel := Some (q @ [announcement])\<rparr>"
  have off: "unat off + 16 < 256" "off \<noteq> 0" using assms(5,6) by (auto simp: off_def word_less_nat_alt)
  have inv: "service_inv k ?sv" by (rule service_run_inv [OF assms(7)])
  obtain sv1 where sv1: "process_message kec kNewBlockHashesMessageId (msg_payload announcement) ?sv = (sv1, [Send kGetReceiptsMessageId (msg_payload request)])"
    "pending_requests sv1 rid = Some \<lparr>pr_block_hash = h, pr_block_number = n\<rparr>" "same_watches ?sv sv1"
    using service_announcement [OF inv assms(9,11,12), of kec n] by (auto simp: announcement_def request_def rid_def)
  let ?r1 = "r\<lparr>wr_service := sv1\<rparr>"
  have "bridge_send (rlpx_eth_session_channel wait) kGetReceiptsMessageId (msg_payload request) (?s, coming) = Some (?s\<lparr>send_channel := Some (p @ [request])\<rparr>, coming)"
    using bridge_send_posts [of ?s p wait kGetReceiptsMessageId "msg_payload request" coming] assms(1,2) off(2) by (simp add: request_def off_def)
  then have a: "runner_receives kec wait announcement (r, s, coming) = Some ([], ?r1, ?s\<lparr>send_channel := Some (p @ [request])\<rparr>, coming)"
    using runner_receives_eth [OF assms(4,5) _ assms(3), of 1 announcement "msg_payload announcement" kec wait r coming] sv1(1) off(1)
    by (simp add: handle_eth_message_def announcement_def off_def)
  have c: "calls = concat (map (deliveries kec sv1) (block_events (zip rcs (replicate (length rcs) (replicate 32 0))) n h 0))"
    using deliveries_frame [OF sv1(3), of kec] by (simp add: calls_def)
  have "\<exists>r2. runner_receives kec wait response (?r1, s2, coming) = (if Undefined \<in> set calls then None
      else Some (concat (map (effect_notes (rlpx_eth_session_channel wait) r (s, coming)) calls), r2, s2\<lparr>recv_channel := Some (q2 @ [response])\<rparr>, coming))"
    if "s2 = s\<lparr>recv_channel := Some q2, send_channel := send_channel s2\<rparr>" for s2 q2
  proof -
    have f: "handlers s2 = handlers s" "negotiated_eth_offset s2 = off" "recv_channel s2 = Some q2" "session_peer s2 = session_peer s"
      by (subst that, simp add: off_def)+
    have pre: "eth_message_handler (handlers s2)" "16 \<le> negotiated_eth_offset s2" "unat (negotiated_eth_offset s2) + 16 < 256" "service_inv k (wr_service ?r1)"
      "ws_schemas (wr_service ?r1) = []" "pending_requests (wr_service ?r1) rid = Some \<lparr>pr_block_hash = h, pr_block_number = n\<rparr>"
      "response = \<lparr>msg_id = negotiated_eth_offset s2 + 0x10, msg_payload = rlp_encode (response_wire rid rcs)\<rparr>"
      "calls = concat (map (deliveries kec (wr_service ?r1)) (block_events (zip rcs (replicate (length rcs) (replicate 32 0))) n h 0))"
      using f assms(4,5,10) off(1) sv1(2,3) c service_inv_frame [OF inv sv1(3)] by (simp_all add: same_watches_def response_def off_def)
    from runner_receipts [OF pre(1-3) f(3) pre(4) assms(8) pre(5) assms(13) assms(14) [folded rid_def] pre(6-8), of wait coming]
    show ?thesis unfolding context_frame [OF f(4), of wait sv1 r coming coming] .
  qed
  with a show ?thesis by blast
qed


text \<open>The service of a runner is a reachable one, whatever the runner does.\<close>

lemma runner_service_run:
  "service_run kec 0 (wr_service (new_runner chain nid genesis fork schemas))"
  "service_run kec k (wr_service r) \<Longrightarrow> service_run kec k (wr_service (set_event_callback cb r))"
  "service_run kec k (wr_service r) \<Longrightarrow> service_run kec (Suc k) (wr_service (snd (runner_watch_event kec a sig ps from_b to_b r)))"
  "service_run kec k (wr_service r) \<Longrightarrow> service_run kec k (wr_service (fst (install_session_bridge ch (r, c))))"
  "service_run kec k (wr_service r) \<Longrightarrow> handle_eth_message kec ch i payload (r, c) = Some (ns, r', c') \<Longrightarrow> service_run kec k (wr_service r')"
  using run_schemas [OF run_new_service] run_watch_event [of kec k "wr_service r" a sig ps sig from_b to_b] run_send_callback [of kec k "wr_service r" True]
    run_message [of kec k "wr_service r" i payload]
  by (auto simp: new_runner_def set_event_callback_def runner_watch_event_def install_session_bridge_def handle_eth_message_def split: prod.splits)

section \<open>Witnesses\<close>

definition sample_runner :: watch_runner where
  "sample_runner = snd (runner_watch_event (\<lambda>_. replicate 32 2) (replicate 20 0) ''E()'' [] None None
     (set_event_callback True (new_runner ''main'' 1 (replicate 32 2) sample_fork [])))"

definition sample_bridged :: "watch_runner \<times> nat rlpx_channel_state" where
  "sample_bridged = install_session_bridge sample_channel (sample_runner, sample_eth_session, \<lambda>_ _. [])"

abbreviation "bridged_session \<equiv> fst (snd sample_bridged)"

lemma sample_bridged_session:
  "state bridged_session = kActive" "send_channel bridged_session = Some []" "recv_channel bridged_session = Some []"
  "eth_message_handler (handlers bridged_session)" "negotiated_eth_offset bridged_session = 16"
  by (simp_all add: sample_bridged_def install_session_bridge_def rlpx_eth_session_channel_def sample_eth_session_def sample_session_def new_session_def)

lemma sample_bridged_service:
  "service_run (\<lambda>_. replicate 32 2) 1 (wr_service (fst sample_bridged))" "send_cb (wr_service (fst sample_bridged))"
  "ws_schemas (wr_service (fst sample_bridged)) = []" "window (tracker (wr_service (fst sample_bridged))) = []" "next_req_id (wr_service (fst sample_bridged)) = 1"
proof -
  show "service_run (\<lambda>_. replicate 32 2) 1 (wr_service (fst sample_bridged))"
    unfolding sample_bridged_def sample_runner_def
    using runner_service_run(4) [OF runner_service_run(3) [OF runner_service_run(2) [OF runner_service_run(1)]]] by simp
qed (simp_all add: sample_bridged_def sample_runner_def install_session_bridge_def runner_watch_event_def set_event_callback_def new_runner_def
    watch_event_def new_service_def set_send_callback_def set_eth_message_schemas_def Let_def new_tracker_def window_def)

lemma sample_bridged_deliveries:
  "me_log ev = rc_logs sample_receipt ! 0 \<Longrightarrow> deliveries (\<lambda>_. replicate 32 2) (wr_service (fst sample_bridged)) ev = [Callback ''E()'' ev []]"
  by (simp add: sample_bridged_def sample_runner_def install_session_bridge_def runner_watch_event_def set_event_callback_def new_runner_def
      sample_receipt_def deliveries_def deliver_def set_send_callback_def set_eth_message_schemas_def watch_event_def new_service_def
      make_event_filter_def event_signature_hash_def filter_matches_def decode_log_def decode_log_data_def watch_def new_watcher_def Let_def)

theorem bridge_round_trip_witness:
  "\<exists>m. bridge_send sample_channel 15 [1, 2] (bridged_session, \<lambda>_ _. []) = Some (bridged_session\<lparr>send_channel := Some [m]\<rparr>, \<lambda>_ _. []) \<and>
    route_message m bridged_session = [EthMessageHandler 15 [1, 2]]"
  using bridge_round_trip [OF sample_bridged_session(1,2) _ _ sample_bridged_session(4), of 15 "\<lambda>_. Fires 0" "[1, 2]" "\<lambda>_ _. []"] sample_bridged_session(5) by simp

theorem runner_end_to_end_witness:
  "\<exists>r1 s1 r2 s2. runner_receives (\<lambda>_. replicate 32 2) (\<lambda>_. Fires 0)
      \<lparr>msg_id = 17, msg_payload = rlp_encode (RList [block_hash_item \<lparr>nbh_hash = replicate 32 7, nbh_number = 5\<rparr>])\<rparr> sample_bridged =
        Some ([], r1, s1, \<lambda>_ _. []) \<and>
    runner_receives (\<lambda>_. replicate 32 2) (\<lambda>_. Fires 0) \<lparr>msg_id = 32, msg_payload = rlp_encode (response_wire 1 [sample_receipt])\<rparr> (r1, s1, \<lambda>_ _. []) =
      Some ([\<lparr>wn_context = \<lparr>wc_chain_name = ''main'', wc_network_id = 1, wc_peer_client_id = [], wc_peer_address = []\<rparr>,
              wn_event = \<lparr>me_log = rc_logs sample_receipt ! 0, me_block_number = 5, me_block_hash = replicate 32 7, me_tx_hash = replicate 32 0, me_log_index = 0\<rparr>,
              wn_values = [], wn_event_signature = ''E()''\<rparr>], r2, s2, \<lambda>_ _. [])"
proof -
  let ?kec = "\<lambda>_. replicate 32 2 :: bytes" and ?r = "fst sample_bridged" and ?ev = "\<lparr>me_log = rc_logs sample_receipt ! 0, me_block_number = 5,
    me_block_hash = replicate 32 7, me_tx_hash = replicate 32 0, me_log_index = 0\<rparr>"
  have b: "sample_bridged = (?r, bridged_session, \<lambda>_ _. [])"
    by (simp add: sample_bridged_def install_session_bridge_def rlpx_eth_session_channel_def)
  have n: "effect_notes sample_channel ?r (bridged_session, \<lambda>_ _. []) (Callback ''E()'' ?ev []) =
    [\<lparr>wn_context = \<lparr>wc_chain_name = ''main'', wc_network_id = 1, wc_peer_client_id = [], wc_peer_address = []\<rparr>, wn_event = ?ev, wn_values = [], wn_event_signature = ''E()''\<rparr>]"
    by (simp add: notify_event_def runner_context_def sample_bridged_def install_session_bridge_def rlpx_eth_session_channel_def sample_runner_def
        runner_watch_event_def set_event_callback_def new_runner_def watch_event_def sample_eth_session_def sample_session_def new_session_def Let_def)
  have hyps: "16 \<le> negotiated_eth_offset bridged_session" "negotiated_eth_offset bridged_session < 240" "(1 :: nat) < 2 ^ 32" "length (replicate 32 7 :: bytes) = 32"
    "replicate 32 7 \<notin> set (window (tracker (wr_service ?r)))" "\<forall>rc \<in> set [sample_receipt]. wf_receipt rc" "fits (response_wire (next_req_id (wr_service ?r)) [sample_receipt])"
    by (simp_all add: sample_bridged_session sample_bridged_service sample_receipt_fits)
  have calls: "concat (map (deliveries ?kec (wr_service ?r)) (block_events (zip [sample_receipt] (replicate (length [sample_receipt]) (replicate 32 0))) 5 (replicate 32 7) 0)) =
      [Callback ''E()'' ?ev []]"
    by (simp add: sample_logs sample_bridged_deliveries)
  obtain r1 where r1: "runner_receives ?kec (\<lambda>_. Fires 0) \<lparr>msg_id = 17, msg_payload = rlp_encode (RList [block_hash_item \<lparr>nbh_hash = replicate 32 7, nbh_number = 5\<rparr>])\<rparr> sample_bridged =
      Some ([], r1, bridged_session\<lparr>recv_channel := Some [\<lparr>msg_id = 17, msg_payload = rlp_encode (RList [block_hash_item \<lparr>nbh_hash = replicate 32 7, nbh_number = 5\<rparr>])\<rparr>],
        send_channel := Some [\<lparr>msg_id = 31, msg_payload = rlp_encode (request_wire 1 [RStr (replicate 32 7)])\<rparr>]\<rparr>, \<lambda>_ _. [])"
    "\<forall>s2 q2. s2 = bridged_session\<lparr>recv_channel := Some q2, send_channel := send_channel s2\<rparr> \<longrightarrow>
      (\<exists>r2. runner_receives ?kec (\<lambda>_. Fires 0) \<lparr>msg_id = 32, msg_payload = rlp_encode (response_wire 1 [sample_receipt])\<rparr> (r1, s2, \<lambda>_ _. []) =
        Some (effect_notes sample_channel ?r (bridged_session, \<lambda>_ _. []) (Callback ''E()'' ?ev []), r2,
          s2\<lparr>recv_channel := Some (q2 @ [\<lparr>msg_id = 32, msg_payload = rlp_encode (response_wire 1 [sample_receipt])\<rparr>])\<rparr>, \<lambda>_ _. []))"
    using runner_end_to_end [OF sample_bridged_session(1-4) hyps(1,2) sample_bridged_service(1) hyps(3) sample_bridged_service(2,3) hyps(4-7),
      where wait = "\<lambda>_. Fires 0" and coming = "\<lambda>_ _. []" and n = 5, unfolded calls]
    unfolding sample_bridged_session(5) sample_bridged_service(5) b [symmetric] by auto
  show ?thesis
    using r1(1) r1(2) [rule_format, of "bridged_session\<lparr>recv_channel := Some _, send_channel := Some _\<rparr>"] unfolding n by fastforce
qed

end
