(* ===== verification/Watch_Orchestration.thy ===== *)
theory Watch_Orchestration
  imports Peer_Queue Eth_Status Abi_Decoder
begin

text \<open>
  The orchestration of src/eth/eth_watch_service.cpp: checking the configuration, starting a scheduler, a peer queue and at most one source
  of discovery per chain, and stopping. The discovery clients, the ENR parser and the resolver of ENR trees are parameters
  (\<open>discovery_env\<close>), as are the hooks of the configuration that replace them; what they discover later is an operation on the
  peer queue.
\<close>

section \<open>Configuration\<close>

datatype chain_discovery_default = kAuto | kDiscv4 | kCacheEnrDiscv5 | kEnrTree

datatype discovery_fork_filter = kRequire | kDisabled

datatype discovery_mode = kCacheOnly | kDiscoverIfNeeded | kDiscoverFirst | kHybrid

record chain_peer_config =
  canonical_name :: string
  cc_network_id :: u64
  cc_genesis_hash :: hash256
  cc_nodes :: "validated_peer list"
  cc_bootnodes :: "validated_peer list"
  cc_discv5_bootnodes :: "string list"
  cc_enr_trees :: "string list"
  cc_discovery_default :: chain_discovery_default
  cc_fork_filter :: discovery_fork_filter
  cc_fork_id :: "fork_id option"
  cc_schemas :: "eth_message_schema list"

record watch_event_spec =
  we_contract_address :: address
  we_event_signature :: string
  we_params :: "abi_param list"
  we_from_block :: "u64 option"
  we_to_block :: "u64 option"

record watch_service_config =
  max_total_connections :: int
  max_connections_per_chain :: int
  wc_peer_queue :: peer_queue_config
  wc_chains :: "chain_peer_config list"
  wc_watches :: "watch_event_spec list"
  wc_discovery_mode :: discovery_mode
  enable_discv4_fallback :: bool
  enable_enr_tree_discovery :: bool
  attach_peer_dialer :: bool

definition allows_enr_tree_discovery :: "chain_peer_config \<Rightarrow> bool" where
  "allows_enr_tree_discovery chain \<longleftrightarrow> cc_discovery_default chain = kAuto \<or> cc_discovery_default chain = kEnrTree"

definition allows_cache_enr_discv5_discovery :: "chain_peer_config \<Rightarrow> bool" where
  "allows_cache_enr_discv5_discovery chain \<longleftrightarrow> cc_discovery_default chain = kAuto \<or> cc_discovery_default chain = kCacheEnrDiscv5"

definition allows_discv4_discovery :: "chain_peer_config \<Rightarrow> bool" where
  "allows_discv4_discovery chain \<longleftrightarrow>
     cc_discovery_default chain = kAuto \<or> cc_discovery_default chain = kDiscv4 \<or> cc_discovery_default chain = kEnrTree"

definition chain_config_matches_discovery_mode :: "chain_peer_config \<Rightarrow> discovery_mode \<Rightarrow> bool \<Rightarrow> bool \<Rightarrow> bool" where
  "chain_config_matches_discovery_mode chain mode discv4_fallback enr_tree =
     (let has_cached_nodes = (cc_nodes chain \<noteq> []);
          has_bootnodes = (cc_bootnodes chain \<noteq> []);
          has_enr_tree = (enr_tree \<and> allows_enr_tree_discovery chain \<and> cc_enr_trees chain \<noteq> []);
          has_discv5_bootnodes = (enr_tree \<and> allows_cache_enr_discv5_discovery chain \<and> cc_discv5_bootnodes chain \<noteq> []);
          has_discovery_source = (has_enr_tree \<or> has_discv5_bootnodes \<or> (discv4_fallback \<and> allows_discv4_discovery chain \<and> has_bootnodes))
      in case mode of
           kCacheOnly \<Rightarrow> has_cached_nodes
         | kDiscoverFirst \<Rightarrow> has_discovery_source
         | kDiscoverIfNeeded \<Rightarrow> has_cached_nodes \<or> has_discovery_source
         | kHybrid \<Rightarrow> has_cached_nodes \<or> has_discovery_source)"

definition should_preload_cached_peers :: "discovery_mode \<Rightarrow> bool" where
  "should_preload_cached_peers mode \<longleftrightarrow> mode \<noteq> kDiscoverFirst"

definition should_start_discv4_discovery :: "peer_queue \<Rightarrow> chain_peer_config \<Rightarrow> discovery_mode \<Rightarrow> bool \<Rightarrow> bool" where
  "should_start_discv4_discovery q chain mode discv4_fallback =
     (if \<not> discv4_fallback \<or> \<not> allows_discv4_discovery chain \<or> discovery_bootnodes q = [] then False
      else case mode of kCacheOnly \<Rightarrow> False | kDiscoverIfNeeded \<Rightarrow> needs_discovery q | kDiscoverFirst \<Rightarrow> True | kHybrid \<Rightarrow> True)"

definition should_start_enr_tree_discovery :: "peer_queue \<Rightarrow> chain_peer_config \<Rightarrow> discovery_mode \<Rightarrow> bool \<Rightarrow> bool" where
  "should_start_enr_tree_discovery q chain mode enr_tree =
     (if \<not> enr_tree \<or> \<not> allows_enr_tree_discovery chain \<or> cc_enr_trees chain = [] then False
      else case mode of kCacheOnly \<Rightarrow> False | kDiscoverIfNeeded \<Rightarrow> cached_peer_count (pq_stats q) = 0 | kDiscoverFirst \<Rightarrow> True | kHybrid \<Rightarrow> True)"

definition should_start_cache_enr_discovery :: "peer_queue \<Rightarrow> chain_peer_config \<Rightarrow> discovery_mode \<Rightarrow> bool \<Rightarrow> bool" where
  "should_start_cache_enr_discovery q chain mode enr_tree =
     (if \<not> enr_tree \<or> \<not> allows_cache_enr_discv5_discovery chain \<or> cc_discv5_bootnodes chain = [] then False
      else case mode of kCacheOnly \<Rightarrow> False | kDiscoverIfNeeded \<Rightarrow> cached_peer_count (pq_stats q) = 0 | kDiscoverFirst \<Rightarrow> True | kHybrid \<Rightarrow> True)"

definition make_optional_fork_id_filter :: "bytes \<Rightarrow> discovered_peer \<Rightarrow> bool" where
  "make_optional_fork_id_filter expected_hash peer =
     (case eth_fork_id peer of None \<Rightarrow> True | Some f \<Rightarrow> enr_fork_hash f = expected_hash)"

section \<open>Discovery\<close>

text \<open>The hooks of the configuration. \<open>de_required_fork_id\<close> is the fork id that the configuration of the discv5 client holds before the service sets
  one. \<open>de_discv5_client\<close> and \<open>de_discv4_client\<close>: \<open>None\<close> when constructing the client fails, and otherwise whether it starts. A hook
  that starts discovery is taken not to enqueue peers before it returns.\<close>

record discovery_env =
  de_enr_resolve :: "chain_peer_config \<Rightarrow> string list \<Rightarrow> string list"
  de_enr_peer :: "string \<Rightarrow> discovered_peer option"
  de_discv5_starter :: "(chain_peer_config \<Rightarrow> string list \<Rightarrow> bool) option"
  de_required_fork_id :: "fork_id option"
  de_discv5_client :: "string list \<Rightarrow> fork_id option \<Rightarrow> bool option"
  de_discv4_starter :: "(chain_peer_config \<Rightarrow> bool) option"
  de_discv4_client :: "bool option"

record runtime_chain =
  rt_config :: chain_peer_config
  rt_queue :: peer_queue
  rt_discovery_client :: bool
  rt_discv5_client :: bool
  discv4_fallback_started :: bool
  discv5_enr_tree_started :: bool
  discv5_cache_enr_started :: bool
  rt_find_node :: "(string \<times> u16 \<times> node_id) list"

definition direct_enr_tree_peer_allowed :: "chain_peer_config \<Rightarrow> discovered_peer \<Rightarrow> bool" where
  "direct_enr_tree_peer_allowed chain peer =
     (case cc_fork_id chain of
        None \<Rightarrow> True
      | Some f \<Rightarrow>
          if cc_fork_filter chain = kDisabled then True
          else (case eth_fork_id peer of None \<Rightarrow> False | Some e \<Rightarrow> enr_fork_hash e = fork_hash f \<and> enr_fork_next e = next_fork f))"

fun enqueue_resolved_enr_tree_peers :: "time \<Rightarrow> (string \<Rightarrow> discovered_peer option) \<Rightarrow> chain_peer_config \<Rightarrow> string list \<Rightarrow>
    watcher_pool \<times> peer_queue \<Rightarrow> nat \<times> watcher_pool \<times> peer_queue" where
  "enqueue_resolved_enr_tree_peers now enr_peer chain [] pq = (0, pq)"
| "enqueue_resolved_enr_tree_peers now enr_peer chain (enr # enrs) pq =
     (if take 4 enr \<noteq> ''enr:'' then enqueue_resolved_enr_tree_peers now enr_peer chain enrs pq
      else (case enr_peer enr of
          None \<Rightarrow> enqueue_resolved_enr_tree_peers now enr_peer chain enrs pq
        | Some peer \<Rightarrow>
            if \<not> direct_enr_tree_peer_allowed chain peer then enqueue_resolved_enr_tree_peers now enr_peer chain enrs pq
            else (case enqueue_validated_discovery_peer now peer pq of (ok, pq) \<Rightarrow>
                (case enqueue_resolved_enr_tree_peers now enr_peer chain enrs pq of (n, pq) \<Rightarrow> (if ok then n + 1 else n, pq)))))"

definition start_discv5_discovery :: "discovery_env \<Rightarrow> string list \<Rightarrow> runtime_chain \<Rightarrow> bool \<times> runtime_chain" where
  "start_discv5_discovery env enrs rt =
     (if enrs = [] then (False, rt)
      else (case de_discv5_starter env of
          Some starter \<Rightarrow> (starter (rt_config rt) enrs, rt)
        | None \<Rightarrow>
            (let required_fork_id = (if cc_fork_id (rt_config rt) \<noteq> None \<and> cc_fork_filter (rt_config rt) = kRequire then cc_fork_id (rt_config rt)
                                     else de_required_fork_id env)
             in case de_discv5_client env enrs required_fork_id of
                  None \<Rightarrow> (False, rt\<lparr>rt_discv5_client := False\<rparr>)
                | Some started \<Rightarrow> (started, rt\<lparr>rt_discv5_client := started\<rparr>))))"

definition start_enr_tree_discovery :: "time \<Rightarrow> discovery_env \<Rightarrow> watcher_pool \<times> runtime_chain \<Rightarrow> bool \<times> watcher_pool \<times> runtime_chain" where
  "start_enr_tree_discovery now env pr = (case pr of (p, rt) \<Rightarrow>
     if cc_enr_trees (rt_config rt) = [] then (False, p, rt)
     else let bootstrap_enrs = de_enr_resolve env (rt_config rt) (cc_enr_trees (rt_config rt)) in
       if bootstrap_enrs = [] then (False, p, rt)
       else (case enqueue_resolved_enr_tree_peers now (de_enr_peer env) (rt_config rt) bootstrap_enrs (p, rt_queue rt) of
           (_, p, q) \<Rightarrow> (case start_discv5_discovery env bootstrap_enrs (rt\<lparr>rt_queue := q\<rparr>) of (ok, rt) \<Rightarrow> (ok, p, rt))))"

definition start_discv4_fallback :: "discovery_env \<Rightarrow> runtime_chain \<Rightarrow> runtime_chain" where
  "start_discv4_fallback env rt =
     (case de_discv4_starter env of
        Some starter \<Rightarrow> rt\<lparr>discv4_fallback_started := starter (rt_config rt)\<rparr>
      | None \<Rightarrow>
          (case de_discv4_client env of
             None \<Rightarrow> rt\<lparr>rt_discovery_client := False\<rparr>
           | Some started \<Rightarrow>
               if \<not> started then rt\<lparr>rt_discovery_client := False\<rparr>
               else rt\<lparr>rt_discovery_client := True, discv4_fallback_started := True,
                      rt_find_node := map (\<lambda>b. (ip (vp_peer b), udp_port (vp_peer b), node_id (vp_peer b))) (discovery_bootnodes (rt_queue rt))\<rparr>))"

section \<open>Service\<close>

record orchestration =
  orchestration_initialized :: bool
  orchestration_running :: bool
  orchestration_config :: "watch_service_config option"
  orchestration_callback :: bool
  orchestration_pool :: watcher_pool
  runtime_chains :: "runtime_chain list"

definition stop_chain :: "runtime_chain \<Rightarrow> nat list \<times> runtime_chain" where
  "stop_chain rt = (case scheduler (rt_queue rt) of
       None \<Rightarrow> ([], rt)
     | Some s \<Rightarrow> (case stop_scheduler s of (sessions, s) \<Rightarrow> (sessions, rt\<lparr>rt_queue := (rt_queue rt)\<lparr>scheduler := Some s\<rparr>\<rparr>)))"

text \<open>\<open>stop\<close> returns the sessions it disconnects and the chains it drops, whose coroutines go on with their own references.\<close>

definition stop :: "orchestration \<Rightarrow> (nat list \<times> runtime_chain) list \<times> orchestration" where
  "stop w = (map stop_chain (runtime_chains w), w\<lparr>runtime_chains := [], orchestration_running := False\<rparr>)"

definition initialize :: "watch_service_config \<Rightarrow> bool \<Rightarrow> orchestration \<Rightarrow> bool \<times> orchestration" where
  "initialize config callback w =
     (let w = (snd (stop w))\<lparr>orchestration_initialized := False, orchestration_config := None, orchestration_callback := False\<rparr> in
      if wc_chains config = [] then (False, w)
      else if list_ex (\<lambda>chain. canonical_name chain = [] \<or> \<not> chain_config_matches_discovery_mode chain (wc_discovery_mode config)
          (enable_discv4_fallback config) (enable_enr_tree_discovery config)) (wc_chains config) then (False, w)
      else (True, w\<lparr>orchestration_config := Some config, orchestration_callback := callback, orchestration_initialized := True\<rparr>))"

definition chain_scheduler :: "time \<Rightarrow> watch_service_config \<Rightarrow> chain_peer_config \<Rightarrow> dial_scheduler option" where
  "chain_scheduler ex config chain =
     (if \<not> attach_peer_dialer config then None
      else Some (new_scheduler (case cc_fork_id chain of
          None \<Rightarrow> None
        | Some f \<Rightarrow> if cc_fork_filter chain = kRequire then Some (make_optional_fork_id_filter (fork_hash f)) else None) ex))"

text \<open>The three attempts to start a source of discovery, in their order.\<close>

definition new_runtime :: "chain_peer_config \<Rightarrow> peer_queue \<Rightarrow> runtime_chain" where
  "new_runtime chain q = \<lparr>rt_config = chain, rt_queue = q, rt_discovery_client = False, rt_discv5_client = False, discv4_fallback_started = False,
     discv5_enr_tree_started = False, discv5_cache_enr_started = False, rt_find_node = []\<rparr>"

definition enr_stage :: "time \<Rightarrow> discovery_env \<Rightarrow> watch_service_config \<Rightarrow> watcher_pool \<times> runtime_chain \<Rightarrow> watcher_pool \<times> runtime_chain" where
  "enr_stage now env config pr = (case pr of (p, rt) \<Rightarrow>
     if should_start_enr_tree_discovery (rt_queue rt) (rt_config rt) (wc_discovery_mode config) (enable_enr_tree_discovery config)
     then (case start_enr_tree_discovery now env (p, rt) of (ok, p, rt) \<Rightarrow> (p, rt\<lparr>discv5_enr_tree_started := ok\<rparr>)) else (p, rt))"

definition cache_enr_stage :: "discovery_env \<Rightarrow> watch_service_config \<Rightarrow> runtime_chain \<Rightarrow> runtime_chain" where
  "cache_enr_stage env config rt =
     (if \<not> discv5_enr_tree_started rt \<and>
         should_start_cache_enr_discovery (rt_queue rt) (rt_config rt) (wc_discovery_mode config) (enable_enr_tree_discovery config)
      then (case start_discv5_discovery env (cc_discv5_bootnodes (rt_config rt)) rt of (ok, rt) \<Rightarrow> rt\<lparr>discv5_cache_enr_started := ok\<rparr>) else rt)"

definition discv4_stage :: "discovery_env \<Rightarrow> watch_service_config \<Rightarrow> runtime_chain \<Rightarrow> runtime_chain" where
  "discv4_stage env config rt =
     (if \<not> discv5_enr_tree_started rt \<and> \<not> discv5_cache_enr_started rt \<and>
         should_start_discv4_discovery (rt_queue rt) (rt_config rt) (wc_discovery_mode config) (enable_discv4_fallback config)
      then start_discv4_fallback env rt else rt)"

definition run_chain :: "time \<Rightarrow> time \<Rightarrow> discovery_env \<Rightarrow> watch_service_config \<Rightarrow> chain_peer_config \<Rightarrow> watcher_pool \<Rightarrow> (watcher_pool \<times> runtime_chain) option" where
  "run_chain now ex env config chain p =
     map_option (\<lambda>(p, q). case enr_stage now env config (p, new_runtime chain q) of (p, rt) \<Rightarrow> (p, discv4_stage env config (cache_enr_stage env config rt)))
       (make_eth_peer_queue now (chain_scheduler ex config chain) (cc_nodes chain) (cc_bootnodes chain) (wc_peer_queue config)
          (should_preload_cached_peers (wc_discovery_mode config)) p)"

fun run_chains :: "time \<Rightarrow> time \<Rightarrow> discovery_env \<Rightarrow> watch_service_config \<Rightarrow> chain_peer_config list \<Rightarrow> watcher_pool \<Rightarrow> (watcher_pool \<times> runtime_chain list) option" where
  "run_chains now ex env config [] p = Some (p, [])"
| "run_chains now ex env config (chain # rest) p =
     Option.bind (run_chain now ex env config chain p) (\<lambda>(p, rt). map_option (\<lambda>(p, rts). (p, rt # rts)) (run_chains now ex env config rest p))"

definition make_eth_watcher_pool :: "watch_service_config \<Rightarrow> watcher_pool" where
  "make_eth_watcher_pool config = \<lparr>max_total = max_total_connections config, max_per_chain = max_connections_per_chain config, active_total = 0\<rparr>"

definition start_eth_watch_chain_peer_dialing :: "time \<Rightarrow> time \<Rightarrow> validated_peer list \<Rightarrow> watcher_pool \<Rightarrow> watcher_pool \<times> dial_scheduler" where
  "start_eth_watch_chain_peer_dialing now ex peers p = foldl (\<lambda>ps vp. enqueue now vp ps) (p, new_scheduler None ex) peers"

definition run :: "time \<Rightarrow> time \<Rightarrow> discovery_env \<Rightarrow> orchestration \<Rightarrow> orchestration option" where
  "run now ex env w =
     (if \<not> orchestration_initialized w \<or> orchestration_running w then Some w
      else (case orchestration_config w of
          None \<Rightarrow> Some w
        | Some config \<Rightarrow>
            map_option (\<lambda>(p, rts). w\<lparr>orchestration_pool := p, runtime_chains := rts, orchestration_running := True\<rparr>)
              (run_chains now ex env config (wc_chains config) (make_eth_watcher_pool config))))"

section \<open>Limits\<close>

lemma keeps_steps: "(sched_step now)\<^sup>*\<^sup>* ps ps' \<Longrightarrow> keeps ps ps'"
  by (induction rule: rtranclp_induct) (auto intro: keeps_trans keeps_step)

lemma enr_peers_ok:
  "queue_ok (snd pq) \<Longrightarrow> enqueue_resolved_enr_tree_peers now enr_peer chain enrs pq = (n, pq') \<Longrightarrow>
   queue_ok (snd pq') \<and> extends now pq pq' \<and> cached_peer_count (pq_stats (snd pq')) = cached_peer_count (pq_stats (snd pq)) \<and>
     discovery_bootnodes (snd pq') = discovery_bootnodes (snd pq)"
proof (induction enrs arbitrary: pq n)
  case (Cons enr enrs)
  have step: "queue_ok (snd pq1) \<and> extends now pq pq1 \<and> cached_peer_count (pq_stats (snd pq1)) = cached_peer_count (pq_stats (snd pq)) \<and>
      discovery_bootnodes (snd pq1) = discovery_bootnodes (snd pq)"
    if "enqueue_validated_discovery_peer now peer pq = (ok, pq1)" for peer ok pq1
  proof -
    obtain ok' p q where c: "enqueue_candidate now (make_candidate peer) False pq = (ok', p, q)" by (cases "enqueue_candidate now (make_candidate peer) False pq")
    then have "cached_peer_count (pq_stats q) = cached_peer_count (pq_stats (snd pq)) \<and> discovery_bootnodes q = discovery_bootnodes (snd pq)"
      by (cases pq) (auto simp: enqueue_candidate_def bump_def Let_def split: option.splits if_splits prod.splits)
    then show ?thesis
      using that discovered_ok [OF Cons.prems(1), of now peer] c by (auto simp: enqueue_validated_eq enqueue_discovered_peer_def bump_def split: if_splits)
  qed
  show ?case
  proof (cases "take 4 enr = ''enr:'' \<and> (\<exists>peer. enr_peer enr = Some peer \<and> direct_enr_tree_peer_allowed chain peer)")
    case True
    then obtain peer where peer: "enr_peer enr = Some peer" "direct_enr_tree_peer_allowed chain peer" by blast
    obtain ok pq1 where e: "enqueue_validated_discovery_peer now peer pq = (ok, pq1)" by (cases "enqueue_validated_discovery_peer now peer pq")
    obtain n1 pq2 where r: "enqueue_resolved_enr_tree_peers now enr_peer chain enrs pq1 = (n1, pq2)" by (cases "enqueue_resolved_enr_tree_peers now enr_peer chain enrs pq1")
    have "pq2 = pq'" using Cons.prems(2) True peer e r by auto
    then show ?thesis using step [OF e] Cons.IH [of pq1 n1] r extends_trans [of now pq pq1 pq2] by simp
  next
    case False
    then have "enqueue_resolved_enr_tree_peers now enr_peer chain enrs pq = (n, pq')" using Cons.prems(2) by (auto split: option.splits if_splits)
    from Cons.IH [OF Cons.prems(1) this] show ?thesis .
  qed
qed auto


lemma spread_some: "\<exists>ys. spread_cached_peers_for_dial_slots p b peers = Some ys \<and> mset ys = mset peers"
proof (cases "\<not> b \<or> length peers \<le> 1 \<or> max_per_chain p \<le> 1 \<or> min (length peers) (nat (max_per_chain p)) \<le> 1")
  case False
  then have "0 < min (length peers) (nat (max_per_chain p))" by auto
  from spread_loop_total [OF this, of peers] False show ?thesis by (auto simp: spread_cached_peers_for_dial_slots_def Let_def)
qed (auto simp: spread_cached_peers_for_dial_slots_def Let_def)

lemma make_queue_ok:
  assumes "sch = None \<or> (\<exists>f ex. sch = Some (new_scheduler f ex))"
  shows "\<exists>p' q. make_eth_peer_queue now sch nodes bootnodes cfg preload p = Some (p', q) \<and> queue_ok q \<and> extends now (p, new_queue sch cfg) (p', q) \<and>
    discovery_bootnodes q = bootnodes"
proof -
  let ?q = "set_discovery_bootnodes bootnodes (new_queue sch cfg)"
  have q: "queue_ok ?q" "extends now (p, new_queue sch cfg) (p, ?q)" "discovery_bootnodes ?q = bootnodes"
    using assms by (auto simp: queue_ok_def new_queue_def new_scheduler_def sched_nodes_def set_discovery_bootnodes_def extends_def)
  have boot: "discovery_bootnodes (snd (preload_loop now peers pq)) = discovery_bootnodes (snd pq)" for peers pq
  proof (induction peers arbitrary: pq)
    case (Cons peer peers)
    show ?case
      by (cases pq; cases "enqueue_candidate now peer False pq")
        (auto simp: Cons.IH bump_def enqueue_candidate_def Let_def split: option.splits if_splits prod.splits)
  qed simp
  from spread_some obtain ys where ys: "spread_cached_peers_for_dial_slots p (scheduler ?q \<noteq> None) (rotate_cached_peers (cache_peer_start_offset (pq_config ?q)) nodes) = Some ys" by blast
  show ?thesis
  proof (cases preload)
    case True
    obtain p' q' where l: "preload_loop now ys (p, ?q) = (p', q')" by (cases "preload_loop now ys (p, ?q)")
    have "make_eth_peer_queue now sch nodes bootnodes cfg preload p = Some (p', q')"
      using True ys l by (simp add: make_eth_peer_queue_def preload_cached_peers_def)
    moreover have "queue_ok q'" "extends now (p, ?q) (p', q')" using preload_ok [of "(p, ?q)" now ys] q(1) l by simp_all
    ultimately show ?thesis using extends_trans [OF q(2)] boot [of ys "(p, ?q)"] q(3) l by auto
  next
    case False
    then show ?thesis using q by (auto simp: make_eth_peer_queue_def)
  qed
qed

lemma chain_scheduler_new: "chain_scheduler ex config chain = None \<or> (\<exists>f ex'. chain_scheduler ex config chain = Some (new_scheduler f ex'))"
  by (auto simp: chain_scheduler_def)

lemma discv5_frame:
  assumes "start_discv5_discovery env enrs rt = (ok, rt')"
  shows "rt_config rt' = rt_config rt \<and> rt_queue rt' = rt_queue rt \<and> rt_discovery_client rt' = rt_discovery_client rt \<and>
    discv4_fallback_started rt' = discv4_fallback_started rt \<and> discv5_enr_tree_started rt' = discv5_enr_tree_started rt \<and>
    discv5_cache_enr_started rt' = discv5_cache_enr_started rt"
  using assms by (auto simp: start_discv5_discovery_def Let_def split: if_splits option.splits)

lemma discv4_frame:
  "rt_config (start_discv4_fallback env rt) = rt_config rt" "rt_queue (start_discv4_fallback env rt) = rt_queue rt"
  "discv5_enr_tree_started (start_discv4_fallback env rt) = discv5_enr_tree_started rt"
  "discv5_cache_enr_started (start_discv4_fallback env rt) = discv5_cache_enr_started rt"
  by (simp_all add: start_discv4_fallback_def split: option.splits)

lemma enr_tree_frame:
  assumes "start_enr_tree_discovery now env (p, rt) = (ok, p', rt')" "queue_ok (rt_queue rt)"
  shows "rt_config rt' = rt_config rt \<and> queue_ok (rt_queue rt') \<and> extends now (p, rt_queue rt) (p', rt_queue rt') \<and>
    cached_peer_count (pq_stats (rt_queue rt')) = cached_peer_count (pq_stats (rt_queue rt)) \<and>
    discovery_bootnodes (rt_queue rt') = discovery_bootnodes (rt_queue rt) \<and>
    rt_discovery_client rt' = rt_discovery_client rt \<and> discv4_fallback_started rt' = discv4_fallback_started rt \<and>
    discv5_enr_tree_started rt' = discv5_enr_tree_started rt \<and> discv5_cache_enr_started rt' = discv5_cache_enr_started rt"
proof (cases "cc_enr_trees (rt_config rt) = [] \<or> de_enr_resolve env (rt_config rt) (cc_enr_trees (rt_config rt)) = []")
  case True
  then show ?thesis using assms by (auto simp: start_enr_tree_discovery_def Let_def split: if_splits)
next
  case False
  let ?enrs = "de_enr_resolve env (rt_config rt) (cc_enr_trees (rt_config rt))"
  obtain n p1 q where e: "enqueue_resolved_enr_tree_peers now (de_enr_peer env) (rt_config rt) ?enrs (p, rt_queue rt) = (n, p1, q)"
    by (cases "enqueue_resolved_enr_tree_peers now (de_enr_peer env) (rt_config rt) ?enrs (p, rt_queue rt)")
  then have "start_discv5_discovery env ?enrs (rt\<lparr>rt_queue := q\<rparr>) = (ok, rt')" "p1 = p'"
    using assms(1) False by (auto simp: start_enr_tree_discovery_def Let_def split: prod.splits)
  then show ?thesis using discv5_frame [of env ?enrs "rt\<lparr>rt_queue := q\<rparr>" ok rt'] enr_peers_ok [OF _ e] assms(2) by simp
qed


text \<open>What starting a chain leaves: its queue is an extension of the new one, and the sources of discovery exclude each other and follow the mode.\<close>

definition started_ok :: "watch_service_config \<Rightarrow> runtime_chain \<Rightarrow> bool" where
  "started_ok config rt \<longleftrightarrow>
     (let sources = filter id [discv5_enr_tree_started rt, discv5_cache_enr_started rt, discv4_fallback_started rt] in
      length sources \<le> 1 \<and>
      (case wc_discovery_mode config of
         kCacheOnly \<Rightarrow> sources = []
       | kDiscoverIfNeeded \<Rightarrow> sources \<noteq> [] \<longrightarrow> cached_peer_count (pq_stats (rt_queue rt)) = 0
       | kDiscoverFirst \<Rightarrow> True | kHybrid \<Rightarrow> True) \<and>
      (discv5_enr_tree_started rt \<longrightarrow> enable_enr_tree_discovery config \<and> allows_enr_tree_discovery (rt_config rt)) \<and>
      (discv5_cache_enr_started rt \<longrightarrow> enable_enr_tree_discovery config \<and> allows_cache_enr_discv5_discovery (rt_config rt)) \<and>
      (discv4_fallback_started rt \<longrightarrow> enable_discv4_fallback config \<and> allows_discv4_discovery (rt_config rt)))"

lemma enr_stage_ok:
  assumes "enr_stage now env config (p, new_runtime chain q) = (p', rt)" "queue_ok q"
  shows "rt_config rt = chain \<and> queue_ok (rt_queue rt) \<and> extends now (p, q) (p', rt_queue rt) \<and> \<not> discv5_cache_enr_started rt \<and> \<not> discv4_fallback_started rt \<and>
    started_ok config rt"
proof (cases "should_start_enr_tree_discovery q chain (wc_discovery_mode config) (enable_enr_tree_discovery config)")
  case False
  then show ?thesis using assms by (auto simp: enr_stage_def new_runtime_def started_ok_def split: discovery_mode.splits)
next
  case True
  obtain ok p1 rt1 where e: "start_enr_tree_discovery now env (p, new_runtime chain q) = (ok, p1, rt1)"
    by (cases "start_enr_tree_discovery now env (p, new_runtime chain q)")
  then have r: "p' = p1" "rt = rt1\<lparr>discv5_enr_tree_started := ok\<rparr>" using True assms(1) by (simp_all add: enr_stage_def new_runtime_def)
  show ?thesis
    using enr_tree_frame [OF e] assms(2) True r
    by (auto simp: new_runtime_def started_ok_def should_start_enr_tree_discovery_def split: discovery_mode.splits if_splits)
qed

lemma cache_enr_stage_ok:
  assumes "\<not> discv5_cache_enr_started rt" "\<not> discv4_fallback_started rt" "started_ok config rt" "rt' = cache_enr_stage env config rt"
  shows "rt_config rt' = rt_config rt \<and> rt_queue rt' = rt_queue rt \<and> \<not> discv4_fallback_started rt' \<and> started_ok config rt'"
proof (cases "start_discv5_discovery env (cc_discv5_bootnodes (rt_config rt)) rt")
  case (Pair ok rt1)
  then show ?thesis
    using assms discv5_frame [OF Pair]
    by (auto simp: cache_enr_stage_def started_ok_def should_start_cache_enr_discovery_def split: discovery_mode.splits if_splits)
qed

lemma discv4_stage_ok:
  assumes "\<not> discv4_fallback_started rt" "started_ok config rt"
  shows "rt_config (discv4_stage env config rt) = rt_config rt \<and> rt_queue (discv4_stage env config rt) = rt_queue rt \<and> started_ok config (discv4_stage env config rt)"
  using assms
  by (auto simp: discv4_stage_def started_ok_def should_start_discv4_discovery_def discv4_frame needs_discovery_def split: discovery_mode.splits if_splits)

lemma run_chain_ok:
  "\<exists>p' rt. run_chain now ex env config chain p = Some (p', rt) \<and> rt_config rt = chain \<and> queue_ok (rt_queue rt) \<and> started_ok config rt \<and>
    extends now (p, new_queue (chain_scheduler ex config chain) (wc_peer_queue config)) (p', rt_queue rt)"
proof -
  obtain p1 q where q: "make_eth_peer_queue now (chain_scheduler ex config chain) (cc_nodes chain) (cc_bootnodes chain) (wc_peer_queue config)
      (should_preload_cached_peers (wc_discovery_mode config)) p = Some (p1, q)" "queue_ok q"
      "extends now (p, new_queue (chain_scheduler ex config chain) (wc_peer_queue config)) (p1, q)"
    using make_queue_ok [OF chain_scheduler_new] by blast
  obtain p2 rt where e: "enr_stage now env config (p1, new_runtime chain q) = (p2, rt)" by (cases "enr_stage now env config (p1, new_runtime chain q)")
  note ok = enr_stage_ok [OF e q(2)]
  let ?rt = "cache_enr_stage env config rt"
  have c: "rt_config ?rt = chain \<and> rt_queue ?rt = rt_queue rt \<and> \<not> discv4_fallback_started ?rt \<and> started_ok config ?rt"
    using cache_enr_stage_ok [of rt config ?rt env] ok by simp
  have "run_chain now ex env config chain p = Some (p2, discv4_stage env config ?rt)"
    using q(1) e by (simp add: run_chain_def)
  then show ?thesis using discv4_stage_ok [of ?rt config env] c ok extends_trans [OF q(3)] by auto
qed


definition schedulers :: "runtime_chain list \<Rightarrow> dial_scheduler list" where
  "schedulers rts = List.map_filter (\<lambda>rt. scheduler (rt_queue rt)) rts"

lemma schedulers_simps [simp]:
  "schedulers [] = []"
  "schedulers (rt # rts) = (case scheduler (rt_queue rt) of None \<Rightarrow> schedulers rts | Some s \<Rightarrow> s # schedulers rts)"
  by (simp_all add: schedulers_def split: option.split)

text \<open>The limits of the pool, and how starting a chain moves its counter.\<close>

lemma chain_counts:
  assumes "extends now (p, new_queue (chain_scheduler ex config chain) cfg) (p', q)" "active_total p \<le> max 0 (max_total p)"
  shows "max_total p' = max_total p \<and> max_per_chain p' = max_per_chain p \<and> active_total p' \<le> max 0 (max_total p') \<and>
    (scheduler q = None \<longleftrightarrow> \<not> attach_peer_dialer config) \<and>
    (case scheduler q of None \<Rightarrow> active_total p' = active_total p | Some s \<Rightarrow> chain_ok p' s \<and> active_total p' = active_total p + active s)"
proof (cases "attach_peer_dialer config")
  case False
  then show ?thesis using assms by (auto simp: extends_def chain_scheduler_def new_queue_def split: option.splits)
next
  case True
  then obtain f where f: "chain_scheduler ex config chain = Some (new_scheduler f ex)" by (auto simp: chain_scheduler_def)
  then obtain s where s: "scheduler q = Some s" "(sched_step now)\<^sup>*\<^sup>* (p, new_scheduler f ex) (p', s)"
    using assms(1) by (auto simp: extends_def new_queue_def split: option.splits)
  have "keeps (p, new_scheduler f ex) (p', s)" by (rule keeps_steps [OF s(2)])
  moreover have "chain_ok p (new_scheduler f ex)" by (simp add: chain_ok_def new_scheduler_def)
  ultimately show ?thesis
    using chain_keeps [of p "new_scheduler f ex" p' s] assms(2) s(1) True
    by (auto simp: keeps_def new_scheduler_def max_def split: if_splits)
qed

lemma chain_ok_pool: "max_per_chain p' = max_per_chain p \<Longrightarrow> chain_ok p' = chain_ok p"
  by (simp add: chain_ok_def fun_eq_iff)

lemma run_chains_ok:
  assumes "active_total p \<le> max 0 (max_total p)"
  shows "\<exists>p' rts. run_chains now ex env config cs p = Some (p', rts) \<and> map rt_config rts = cs \<and> list_all (\<lambda>rt. queue_ok (rt_queue rt) \<and> started_ok config rt) rts \<and>
    max_total p' = max_total p \<and> max_per_chain p' = max_per_chain p \<and> active_total p' \<le> max 0 (max_total p') \<and>
    active_total p' = active_total p + (\<Sum>s \<leftarrow> schedulers rts. active s) \<and> list_all (chain_ok p') (schedulers rts) \<and>
    (length (schedulers rts) = (if attach_peer_dialer config then length cs else 0))"
  using assms
proof (induction cs arbitrary: p)
  case (Cons chain cs)
  obtain p1 rt where c: "run_chain now ex env config chain p = Some (p1, rt)" "rt_config rt = chain" "queue_ok (rt_queue rt)" "started_ok config rt"
    "extends now (p, new_queue (chain_scheduler ex config chain) (wc_peer_queue config)) (p1, rt_queue rt)" using run_chain_ok by blast
  note k = chain_counts [OF c(5) Cons.prems]
  then have "active_total p1 \<le> max 0 (max_total p1)" by blast
  from Cons.IH [OF this] obtain p2 rts where r: "run_chains now ex env config cs p1 = Some (p2, rts)" "map rt_config rts = cs"
    "list_all (\<lambda>rt. queue_ok (rt_queue rt) \<and> started_ok config rt) rts" "max_total p2 = max_total p1" "max_per_chain p2 = max_per_chain p1"
    "active_total p2 \<le> max 0 (max_total p2)" "active_total p2 = active_total p1 + (\<Sum>s \<leftarrow> schedulers rts. active s)"
    "list_all (chain_ok p2) (schedulers rts)" "length (schedulers rts) = (if attach_peer_dialer config then length cs else 0)" by blast
  have "run_chains now ex env config (chain # cs) p = Some (p2, rt # rts)" using c(1) r(1) by simp
  then show ?case using c k r chain_ok_pool [OF r(5)] by (auto split: option.splits)
qed simp


lemma run_initialized:
  assumes "initialize config cb w0 = (True, w)"
  shows "\<exists>p rts. run now ex env w = Some (w\<lparr>orchestration_pool := p, runtime_chains := rts, orchestration_running := True\<rparr>) \<and>
    run_chains now ex env config (wc_chains config)
      \<lparr>max_total = max_total_connections config, max_per_chain = max_connections_per_chain config, active_total = 0\<rparr> = Some (p, rts)"
proof -
  have "orchestration_initialized w" "\<not> orchestration_running w" "orchestration_config w = Some config"
    using assms by (auto simp: initialize_def stop_def Let_def split: if_splits)
  then show ?thesis
    using run_chains_ok [of "\<lparr>max_total = max_total_connections config, max_per_chain = max_connections_per_chain config, active_total = 0\<rparr>" now ex env config "wc_chains config"]
    by (auto simp: run_def make_eth_watcher_pool_def)
qed

section \<open>Cached peers that the filter refuses\<close>

lemma candidate_filtered:
  assumes "scheduler q = Some s" "filter_fn s = Some f" "\<not> f (vp_peer vp)" "enqueue_candidate now vp allow (p, q) = (ok, p', q')"
  shows "p' = p \<and> scheduler q' = Some s \<and> cached_peer_count (pq_stats q') = cached_peer_count (pq_stats q)"
  using assms by (auto simp: enqueue_candidate_def enqueue_def bump_def Let_def split: if_splits option.splits)

lemma preload_filtered:
  assumes "scheduler q = Some s" "filter_fn s = Some f" "\<forall>vp \<in> set peers. \<not> f (vp_peer vp)" "preload_loop now peers (p, q) = (p', q')"
  shows "p' = p \<and> scheduler q' = Some s \<and> cached_peer_count (pq_stats q) \<le> cached_peer_count (pq_stats q')"
  using assms(1,3,4)
proof (induction peers arbitrary: q)
  case (Cons vp peers)
  obtain ok p1 q1 where e: "enqueue_candidate now vp False (p, q) = (ok, p1, q1)" by (cases "enqueue_candidate now vp False (p, q)")
  note f = candidate_filtered [OF Cons.prems(1) assms(2) _ e]
  let ?q = "if ok then bump (\<lambda>st. st\<lparr>cached_peer_count := cached_peer_count st + 1\<rparr>) q1 else q1"
  have "preload_loop now peers (p, ?q) = (p', q')" using Cons.prems(2,3) e f by auto
  moreover have "scheduler ?q = Some s" "cached_peer_count (pq_stats q) \<le> cached_peer_count (pq_stats ?q)" using Cons.prems(2) f by (simp_all add: bump_def)
  ultimately show ?case using Cons.IH [of ?q] Cons.prems(2) by fastforce
qed simp

lemma preload_filtered_new:
  assumes "sch = new_scheduler (Some f) ex" "peers \<noteq> []" "\<forall>vp \<in> set peers. \<not> f (vp_peer vp)" "q = set_discovery_bootnodes bs (new_queue (Some sch) cfg)"
    "has_slot p sch \<or> 0 < max_pending_peers cfg" "preload_loop now peers (p, q) = (p', q')"
  shows "p' = p \<and> scheduler q' = Some sch \<and> 0 < cached_peer_count (pq_stats q')"
proof -
  obtain vp rest where peers: "peers = vp # rest" using assms(2) by (cases peers) auto
  have "\<not> f (vp_peer vp)" using assms(3) peers by simp
  then obtain q1 where e: "enqueue_candidate now vp False (p, q) = (True, p, q1)" "scheduler q1 = Some sch"
    using assms(1,4,5) by (auto simp: enqueue_candidate_def enqueue_def set_discovery_bootnodes_def new_queue_def new_scheduler_def Let_def)
  let ?q = "bump (\<lambda>st. st\<lparr>cached_peer_count := cached_peer_count st + 1\<rparr>) q1"
  have "preload_loop now rest (p, ?q) = (p', q')" using assms(6) e(1) by (simp add: peers)
  from preload_filtered [OF _ _ _ this, of sch f] show ?thesis using assms(1,3) e(2) peers by (auto simp: bump_def new_scheduler_def)
qed

section \<open>Properties\<close>

text \<open>C11. After a successful \<open>initialize\<close>, \<open>run\<close> ends: every configured chain has its runtime, in order, with a scheduler exactly if dialing is enabled; over
  all chains the connections started stay within the limits of the pool they share, its counter is the sum of theirs, and every queue is
  within its bounds. A second \<open>run\<close> changes nothing.\<close>

theorem run_respects_limits:
  assumes "initialize config cb w0 = (True, w)"
  shows "\<exists>w'. run now ex env w = Some w' \<and> map rt_config (runtime_chains w') = wc_chains config \<and>
    length (schedulers (runtime_chains w')) = (if attach_peer_dialer config then length (wc_chains config) else 0) \<and>
    counts_ok \<lparr>pool = orchestration_pool w', chains = schedulers (runtime_chains w')\<rparr> \<and>
    max_total (orchestration_pool w') = max_total_connections config \<and> max_per_chain (orchestration_pool w') = max_connections_per_chain config \<and>
    list_all (\<lambda>rt. queue_ok (rt_queue rt)) (runtime_chains w') \<and> run now' ex env w' = Some w'"
proof -
  let ?p = "\<lparr>max_total = max_total_connections config, max_per_chain = max_connections_per_chain config, active_total = 0\<rparr>"
  obtain p rts where r: "run now ex env w = Some (w\<lparr>orchestration_pool := p, runtime_chains := rts, orchestration_running := True\<rparr>)"
    "run_chains now ex env config (wc_chains config) ?p = Some (p, rts)" using run_initialized [OF assms] by blast
  then show ?thesis
    using run_chains_ok [of ?p now ex env config "wc_chains config"] by (auto simp: counts_ok_def run_def list_all_iff)
qed

text \<open>C22. Every chain is started with at most one source of discovery, one that its configuration allows; in cache-only mode there is none, and
  where discovery is to be used if needed it is only started for a chain without an accepted cached peer.\<close>

theorem one_discovery_source:
  assumes "initialize config cb w0 = (True, w)" "run now ex env w = Some w'" "rt \<in> set (runtime_chains w')"
  shows "started_ok config rt"
proof -
  let ?p = "\<lparr>max_total = max_total_connections config, max_per_chain = max_connections_per_chain config, active_total = 0\<rparr>"
  obtain p rts where r: "w' = w\<lparr>orchestration_pool := p, runtime_chains := rts, orchestration_running := True\<rparr>"
    "run_chains now ex env config (wc_chains config) ?p = Some (p, rts)" using run_initialized [OF assms(1), of now ex env] assms(2) by auto
  then show ?thesis using run_chains_ok [of ?p now ex env config "wc_chains config"] assms(3) by (auto simp: list_all_iff)
qed

text \<open>C30. A cached peer counts as accepted even if the filter of the scheduler drops it: when the fork ids of all cached peers differ from the one
  that is required, a chain that uses discovery if needed dials nobody, queues nobody, and starts no discovery.\<close>

theorem refused_cache_blocks_discovery:
  assumes "attach_peer_dialer config" "wc_discovery_mode config = kDiscoverIfNeeded" "cc_fork_id chain = Some f" "cc_fork_filter chain = kRequire"
    and "cc_nodes chain \<noteq> []" "\<forall>vp \<in> set (cc_nodes chain). \<exists>e. eth_fork_id (vp_peer vp) = Some e \<and> enr_fork_hash e \<noteq> fork_hash f"
    and "0 < max_pending_peers (wc_peer_queue config)"
  shows "\<exists>rt s. run_chain now ex env config chain p = Some (p, rt) \<and> scheduler (rt_queue rt) = Some s \<and> running s = [] \<and> queue s = [] \<and> dialed s = [] \<and>
    \<not> discv5_enr_tree_started rt \<and> \<not> discv5_cache_enr_started rt \<and> \<not> discv4_fallback_started rt \<and> \<not> rt_discv5_client rt \<and> \<not> rt_discovery_client rt"
proof -
  let ?filter = "make_optional_fork_id_filter (fork_hash f)" and ?cfg = "wc_peer_queue config"
  let ?q = "set_discovery_bootnodes (cc_bootnodes chain) (new_queue (Some (new_scheduler (Some ?filter) ex)) ?cfg)"
  obtain ys where ys: "spread_cached_peers_for_dial_slots p True (rotate_cached_peers (cache_peer_start_offset ?cfg) (cc_nodes chain)) = Some ys"
    "mset ys = mset (cc_nodes chain)" using spread_some mset_rotate_cached by metis
  obtain p' q' where l: "preload_loop now ys (p, ?q) = (p', q')" by (cases "preload_loop now ys (p, ?q)")
  have "set ys = set (cc_nodes chain)" using ys(2) by (metis set_mset_mset)
  moreover from this have "ys \<noteq> []" using assms(5) by auto
  moreover have "\<not> ?filter (vp_peer vp)" if "vp \<in> set (cc_nodes chain)" for vp
    using assms(6) that by (fastforce simp: make_optional_fork_id_filter_def)
  ultimately have r: "p' = p" "scheduler q' = Some (new_scheduler (Some ?filter) ex)" "0 < cached_peer_count (pq_stats q')"
    using preload_filtered_new [OF refl _ _ refl _ l] assms(7) by auto
  have "make_eth_peer_queue now (chain_scheduler ex config chain) (cc_nodes chain) (cc_bootnodes chain) ?cfg (should_preload_cached_peers (wc_discovery_mode config)) p = Some (p, q')"
    using assms(1-4) ys(1) l r(1)
    by (simp add: make_eth_peer_queue_def chain_scheduler_def should_preload_cached_peers_def preload_cached_peers_def set_discovery_bootnodes_def new_queue_def)
  then show ?thesis
    using r(2,3) assms(2)
    by (simp add: run_chain_def enr_stage_def cache_enr_stage_def discv4_stage_def new_runtime_def should_start_enr_tree_discovery_def
        should_start_cache_enr_discovery_def should_start_discv4_discovery_def needs_discovery_def new_scheduler_def)
qed


section \<open>Witnesses\<close>

definition sample_cached :: validated_peer where
  "sample_cached = \<lparr>vp_peer = \<lparr>node_id = [1], ip = ''192.0.2.7'', udp_port = 1, tcp_port = 1, last_seen = 0,
     eth_fork_id = Some \<lparr>enr_fork_hash = [9, 9, 9, 9], enr_fork_next = 0\<rparr>\<rparr>, pubkey = [1]\<rparr>"

definition sample_chain :: chain_peer_config where
  "sample_chain = \<lparr>canonical_name = ''main'', cc_network_id = 1, cc_genesis_hash = replicate 32 2, cc_nodes = [sample_cached], cc_bootnodes = [],
     cc_discv5_bootnodes = [], cc_enr_trees = [''enrtree://sample''], cc_discovery_default = kAuto, cc_fork_filter = kRequire,
     cc_fork_id = Some \<lparr>fork_hash = [1, 2, 3, 4], next_fork = 0\<rparr>, cc_schemas = []\<rparr>"

definition sample_config :: watch_service_config where
  "sample_config = \<lparr>max_total_connections = 24, max_connections_per_chain = 3,
     wc_peer_queue = \<lparr>max_pending_peers = 8, max_disconnect_requeues = 1, too_many_peers_backoff = 10, cache_peer_start_offset = 0\<rparr>,
     wc_chains = [sample_chain], wc_watches = [], wc_discovery_mode = kDiscoverIfNeeded, enable_discv4_fallback = True, enable_enr_tree_discovery = True,
     attach_peer_dialer = True\<rparr>"

definition sample_idle :: orchestration where
  "sample_idle = \<lparr>orchestration_initialized = False, orchestration_running = False, orchestration_config = None, orchestration_callback = False,
     orchestration_pool = \<lparr>max_total = 0, max_per_chain = 0, active_total = 0\<rparr>, runtime_chains = []\<rparr>"

definition sample_discovery :: discovery_env where
  "sample_discovery = \<lparr>de_enr_resolve = (\<lambda>_ _. [''enr:sample'']), de_enr_peer = (\<lambda>_. None), de_discv5_starter = None, de_required_fork_id = None,
     de_discv5_client = (\<lambda>_ _. Some True), de_discv4_starter = None, de_discv4_client = Some True\<rparr>"

definition sample_initialized :: orchestration where
  "sample_initialized = snd (initialize sample_config True sample_idle)"

lemma sample_initialize: "initialize sample_config True sample_idle = (True, sample_initialized)"
  unfolding sample_initialized_def
  by (simp add: initialize_def sample_config_def sample_chain_def chain_config_matches_discovery_mode_def Let_def)

theorem run_respects_limits_witness:
  "\<exists>w'. run 0 30 sample_discovery sample_initialized = Some w' \<and> map rt_config (runtime_chains w') = [sample_chain]"
  using run_respects_limits [OF sample_initialize, of 0 30 sample_discovery 0] by (auto simp: sample_config_def)

theorem one_discovery_source_witness:
  "\<exists>w' rt. run 0 30 sample_discovery sample_initialized = Some w' \<and> rt \<in> set (runtime_chains w') \<and> started_ok sample_config rt"
proof -
  obtain p rts where r: "run 0 30 sample_discovery sample_initialized =
      Some (sample_initialized\<lparr>orchestration_pool := p, runtime_chains := rts, orchestration_running := True\<rparr>)"
    "run_chains 0 30 sample_discovery sample_config (wc_chains sample_config)
      \<lparr>max_total = max_total_connections sample_config, max_per_chain = max_connections_per_chain sample_config, active_total = 0\<rparr> = Some (p, rts)"
    using run_initialized [OF sample_initialize, of 0 30 sample_discovery] by blast
  have "rts \<noteq> []"
    using r(2) run_chains_ok [of "\<lparr>max_total = max_total_connections sample_config, max_per_chain = max_connections_per_chain sample_config, active_total = 0\<rparr>"
        0 30 sample_discovery sample_config "wc_chains sample_config"] by (auto simp: sample_config_def)
  then obtain rt where "rt \<in> set rts" by (cases rts) auto
  with one_discovery_source [OF sample_initialize r(1), of rt] r(1) show ?thesis by auto
qed

theorem refused_cache_blocks_discovery_witness:
  "\<exists>rt s. run_chain 0 30 sample_discovery sample_config sample_chain \<lparr>max_total = 24, max_per_chain = 3, active_total = 0\<rparr> =
      Some (\<lparr>max_total = 24, max_per_chain = 3, active_total = 0\<rparr>, rt) \<and> scheduler (rt_queue rt) = Some s \<and> dialed s = [] \<and> \<not> discv5_enr_tree_started rt"
  using refused_cache_blocks_discovery [of sample_config sample_chain "\<lparr>fork_hash = [1, 2, 3, 4], next_fork = 0\<rparr>" 0 30 sample_discovery]
  by (fastforce simp: sample_config_def sample_chain_def sample_cached_def)

end
