(* ===== verification/Peer_Dialing.thy ===== *)
theory Peer_Dialing
  imports Watch_Runner Watch_Orchestration
begin

text \<open>
  The dial function that src/eth/eth_watch_service.cpp gives to the scheduler of a chain: it connects an RLPx session, performs the Status
  handshake, counts what happened and hands a session that passed to a runner. What a dial meets outside is in \<open>dial_inputs\<close>.
\<close>

section \<open>Counters\<close>

record runtime_stats =
  tcp_connect_failures :: u64
  tcp_connected :: u64
  auth_success :: u64
  local_hello_sent :: u64
  peer_disconnect_before_hello :: u64
  peer_hello_accepted :: u64
  eth_status_sent :: u64
  remote_status_accepted :: u64
  remote_status_rejected :: u64
  rejected_disconnect_reasons :: "u64 list"
  rejected_validation_errors :: "u64 list"

definition zero_runtime_stats :: runtime_stats where
  "zero_runtime_stats = \<lparr>tcp_connect_failures = 0, tcp_connected = 0, auth_success = 0, local_hello_sent = 0, peer_disconnect_before_hello = 0,
     peer_hello_accepted = 0, eth_status_sent = 0, remote_status_accepted = 0, remote_status_rejected = 0,
     rejected_disconnect_reasons = replicate 256 0, rejected_validation_errors = replicate 4 0\<rparr>"

definition count_progress :: "connect_progress_phase \<times> disconnect_reason \<Rightarrow> runtime_stats \<Rightarrow> runtime_stats" where
  "count_progress event st = (case fst event of
       kTcpConnected \<Rightarrow> st\<lparr>tcp_connected := tcp_connected st + 1\<rparr>
     | kAuthSucceeded \<Rightarrow> st\<lparr>auth_success := auth_success st + 1\<rparr>
     | kLocalHelloSent \<Rightarrow> st\<lparr>local_hello_sent := local_hello_sent st + 1\<rparr>
     | kPeerDisconnectBeforeHello \<Rightarrow> st\<lparr>peer_disconnect_before_hello := peer_disconnect_before_hello st + 1\<rparr>
     | kPeerHelloAccepted \<Rightarrow> st\<lparr>peer_hello_accepted := peer_hello_accepted st + 1\<rparr>)"

fun error_index :: "status_validation_error \<Rightarrow> nat" where
  "error_index kProtocolVersionMismatch = 0"
| "error_index kNetworkIDMismatch = 1"
| "error_index kGenesisMismatch = 2"
| "error_index kInvalidBlockRange = 3"

text \<open>\<open>remote_status_disconnect_reason\<close> holds the reason of the last call of the disconnect handler.\<close>

definition count_rejected :: "status_validation_error \<Rightarrow> disconnect_reason list \<Rightarrow> runtime_stats \<Rightarrow> runtime_stats" where
  "count_rejected e calls st =
     (let st = st\<lparr>remote_status_rejected := remote_status_rejected st + 1\<rparr> in
      if calls \<noteq> [] then
        (let i = unat (reason_to_byte (last calls)); xs = rejected_disconnect_reasons st in st\<lparr>rejected_disconnect_reasons := xs[i := xs ! i + 1]\<rparr>)
      else (let i = error_index e; xs = rejected_validation_errors st in
        if i < length xs then st\<lparr>rejected_validation_errors := xs[i := xs ! i + 1]\<rparr> else st))"

section \<open>Dialing\<close>

record dial_inputs =
  di_keypair :: "nat \<Rightarrow> bytes option"
  di_tcp :: tcp_env
  di_random :: handshake_random
  di_junk :: auth_key_material
  di_junk_secrets :: "bytes \<times> bytes"
  di_timer :: "nat option"
  di_transport :: socket_transport
  di_coming :: "nat \<Rightarrow> nat \<Rightarrow> rlpx_message list"
  di_wait :: "nat \<Rightarrow> timer_wait"

datatype dial_call = OnDone disconnect_reason | OnConnected

record 'c dial_result =
  dr_calls :: "dial_call list"
  dr_stats :: runtime_stats
  dr_runner :: "(watch_runner \<times> 'c rlpx_channel_state) option"
  dr_closed :: "'c rlpx_session option"

definition watch_all :: "(bytes \<Rightarrow> hash256) \<Rightarrow> watch_event_spec list \<Rightarrow> watch_runner \<Rightarrow> watch_runner" where
  "watch_all keccak256 watches r = foldl (\<lambda>r w. snd (runner_watch_event keccak256 (we_contract_address w) (we_event_signature w) (we_params w)
     (we_from_block w) (we_to_block w) r)) r watches"

definition dial_params :: "key_pair \<Rightarrow> validated_peer \<Rightarrow> session_connect_params" where
  "dial_params kp vp = \<lparr>cp_remote_host = ip (vp_peer vp), cp_remote_port = tcp_port (vp_peer vp), cp_local_public_key = kp_public_key kp,
     cp_local_private_key = kp_private_key kp, cp_peer_public_key = pubkey vp, cp_client_id = ''rlp-eth-watch'', cp_listen_port = 0,
     cp_progress_handler = True\<rparr>"

definition handshake_done :: "(bytes \<Rightarrow> hash256) \<Rightarrow> watch_service_config \<Rightarrow> bool \<Rightarrow> 'c rlpx_channel_state session_channel \<Rightarrow> watch_runner \<Rightarrow> runtime_stats \<Rightarrow>
    handshake_verdict \<times> 'c rlpx_channel_state \<Rightarrow> 'c dial_result" where
  "handshake_done keccak256 config callback ch runner st result = (case result of ((verdict, calls), c) \<Rightarrow>
     (case verdict of
        Inl e \<Rightarrow> \<lparr>dr_calls = [OnDone kSubprotocolError], dr_stats = count_rejected e calls st, dr_runner = None,
                  dr_closed = Some (snd (disconnect kSubprotocolError (fst c)))\<rparr>
      | Inr _ \<Rightarrow> \<lparr>dr_calls = [OnConnected], dr_stats = st\<lparr>remote_status_accepted := remote_status_accepted st + 1\<rparr>,
                  dr_runner = Some (install_session_bridge ch (watch_all keccak256 (wc_watches config) (set_event_callback callback runner), c)),
                  dr_closed = None\<rparr>))"

definition dial_status_handshake :: "(bytes \<Rightarrow> hash256) \<Rightarrow> watch_service_config \<Rightarrow> bool \<Rightarrow> chain_peer_config \<Rightarrow> dial_inputs \<Rightarrow> runtime_stats \<Rightarrow>
    'c rlpx_session \<Rightarrow> 'c dial_result option" where
  "dial_status_handshake keccak256 config callback chain inp st session =
     (let fork = (case cc_fork_id chain of None \<Rightarrow> \<lparr>fork_hash = replicate 4 0, next_fork = 0\<rparr> | Some f \<Rightarrow> f);
          runner = new_runner (canonical_name chain) (cc_network_id chain) (cc_genesis_hash chain) fork (cc_schemas chain);
          ch = rlpx_eth_session_channel (di_wait inp)
      in map_option (handshake_done keccak256 config callback ch runner (st\<lparr>eth_status_sent := eth_status_sent st + 1\<rparr>))
          (PerformEthStatusHandshake \<lparr>es_network_id = cc_network_id chain, es_genesis_hash = cc_genesis_hash chain, es_fork_id = fork,
             es_schemas = cc_schemas chain, es_disconnect_handler = True, es_inbound_handler = False\<rparr> (Some ch) (session, di_coming inp)))"

definition default_dial :: "('pk, 'sg) auth_lib \<Rightarrow> 'c frame_lib \<Rightarrow> snappy_lib \<Rightarrow> (bytes \<Rightarrow> hash256) \<Rightarrow> watch_service_config \<Rightarrow> bool \<Rightarrow>
    chain_peer_config \<Rightarrow> validated_peer \<Rightarrow> dial_inputs \<Rightarrow> runtime_stats \<Rightarrow> 'c dial_result option" where
  "default_dial lib L S keccak256 config callback chain vp inp st =
     Option.bind (generate_ephemeral_keypair (al_ecdh lib) (di_keypair inp)) (\<lambda>keypair. case keypair of
         Inl _ \<Rightarrow> Some \<lparr>dr_calls = [OnDone kProtocolError], dr_stats = st, dr_runner = None, dr_closed = None\<rparr>
       | Inr kp \<Rightarrow>
           Option.bind (connect lib L S (dial_params kp vp) (di_tcp inp) (di_random inp) (di_junk inp) (di_junk_secrets inp) (di_timer inp) (di_transport inp))
             (\<lambda>(session, progress, reason).
                let st = fold count_progress progress st; disconnect_reason = (case reason of None \<Rightarrow> kTcpError | Some r \<Rightarrow> r)
                in case session of
                     Inl _ \<Rightarrow> Some \<lparr>dr_calls = [OnDone disconnect_reason],
                         dr_stats = (if disconnect_reason = kTcpError then st\<lparr>tcp_connect_failures := tcp_connect_failures st + 1\<rparr> else st),
                         dr_runner = None, dr_closed = None\<rparr>
                   | Inr s \<Rightarrow> dial_status_handshake keccak256 config callback chain inp st s))"

section \<open>Accounting\<close>

definition stats_ok :: "runtime_stats \<Rightarrow> bool" where
  "stats_ok st \<longleftrightarrow> length (rejected_disconnect_reasons st) = 256 \<and> length (rejected_validation_errors st) = 4 \<and>
     eth_status_sent st = peer_hello_accepted st \<and> remote_status_accepted st + remote_status_rejected st = eth_status_sent st \<and>
     sum_list (rejected_disconnect_reasons st) + sum_list (rejected_validation_errors st) = remote_status_rejected st"

lemma sum_list_count: "i < length xs \<Longrightarrow> sum_list (xs[i := xs ! i + 1]) = sum_list xs + (1 :: u64)"
proof (induction xs arbitrary: i)
  case (Cons x xs)
  then show ?case by (cases i) (simp_all add: algebra_simps)
qed simp

text \<open>The progress of a connection reports an accepted Hello once if it succeeds and not at all otherwise.\<close>

lemma hello_progress:
  "hello_exchange L S p timer ms = (r, progress, reason) \<Longrightarrow>
   length (filter (\<lambda>e. fst e = kPeerHelloAccepted) progress) = (case r of Inl _ \<Rightarrow> 0 | Inr _ \<Rightarrow> 1)"
  by (auto simp: hello_exchange_def Let_def split: sum.splits prod.splits if_splits)

lemma connect_progress:
  assumes "connect lib L S p env rnd junk junk_secrets timer t = Some (r, progress, reason)" "cp_progress_handler p"
  shows "length (filter (\<lambda>e. fst e = kPeerHelloAccepted) progress) = (case r of Inl _ \<Rightarrow> 0 | Inr _ \<Rightarrow> 1)"
proof (cases "connect_with_timeout 10000 env t")
  case (Inl e)
  then show ?thesis using assms by (auto simp: connect_def)
next
  case (Inr t1)
  then obtain hs t2 where e: "execute lib (connect_config p) rnd junk junk_secrets t1 = Some (hs, t2)"
    using assms(1) by (fastforce simp: connect_def)
  show ?thesis
  proof (cases hs)
    case (Inl e)
    then show ?thesis using assms Inr e by (auto simp: connect_def)
  next
    case (Inr secrets)
    obtain r1 progress1 reason1 where h: "hello_exchange L S p timer (new_message_stream (new_frame_cipher L (hs_frame_secrets secrets)) t2) = (r1, progress1, reason1)"
      by (cases "hello_exchange L S p timer (new_message_stream (new_frame_cipher L (hs_frame_secrets secrets)) t2)")
    then have "r = r1" "progress = (kTcpConnected, kRequested) # (kAuthSucceeded, kRequested) # progress1"
      using assms e Inr \<open>connect_with_timeout 10000 env t = Inr t1\<close> by (auto simp: connect_def)
    then show ?thesis using hello_progress [OF h] by simp
  qed
qed

lemma fold_progress:
  "let st' = fold count_progress progress st in
   peer_hello_accepted st' = peer_hello_accepted st + of_nat (length (filter (\<lambda>e. fst e = kPeerHelloAccepted) progress)) \<and>
   eth_status_sent st' = eth_status_sent st \<and> remote_status_accepted st' = remote_status_accepted st \<and> remote_status_rejected st' = remote_status_rejected st \<and>
   rejected_disconnect_reasons st' = rejected_disconnect_reasons st \<and> rejected_validation_errors st' = rejected_validation_errors st"
proof (induction progress arbitrary: st)
  case (Cons e progress)
  show ?case using Cons.IH [of "count_progress e st"] by (auto simp: Let_def count_progress_def split: connect_progress_phase.splits)
qed simp

lemma error_index_less: "error_index e < 4"
  by (cases e) simp_all

lemma count_rejected_accepted [simp]: "remote_status_accepted (count_rejected e calls st) = remote_status_accepted st"
  by (simp add: count_rejected_def Let_def)

lemma rejected_ok:
  assumes "length (rejected_disconnect_reasons st) = 256" "length (rejected_validation_errors st) = 4"
    "sum_list (rejected_disconnect_reasons st) + sum_list (rejected_validation_errors st) = remote_status_rejected st"
  shows "let st' = count_rejected e calls st in length (rejected_disconnect_reasons st') = 256 \<and> length (rejected_validation_errors st') = 4 \<and>
    sum_list (rejected_disconnect_reasons st') + sum_list (rejected_validation_errors st') = remote_status_rejected st' \<and>
    remote_status_rejected st' = remote_status_rejected st + 1 \<and> eth_status_sent st' = eth_status_sent st \<and>
    remote_status_accepted st' = remote_status_accepted st \<and> peer_hello_accepted st' = peer_hello_accepted st"
proof (cases "calls = []")
  case True
  then show ?thesis using assms error_index_less [of e] sum_list_count [of "error_index e" "rejected_validation_errors st"]
    by (simp add: count_rejected_def Let_def)
next
  case False
  have "unat (reason_to_byte (last calls)) < 256" using unat_less_exp [of "reason_to_byte (last calls)"] by simp
  then show ?thesis using False assms sum_list_count [of "unat (reason_to_byte (last calls))" "rejected_disconnect_reasons st"]
    by (simp add: count_rejected_def Let_def)
qed

text \<open>What a dial that returns has done.\<close>

definition dial_ok :: "runtime_stats \<Rightarrow> 'c dial_result \<Rightarrow> bool" where
  "dial_ok st res \<longleftrightarrow> (stats_ok st \<longrightarrow> stats_ok (dr_stats res)) \<and>
     (dr_calls res = [OnConnected] \<and> dr_runner res \<noteq> None \<and> remote_status_accepted (dr_stats res) = remote_status_accepted st + 1 \<or>
      (\<exists>reason. dr_calls res = [OnDone reason]) \<and> dr_runner res = None \<and> remote_status_accepted (dr_stats res) = remote_status_accepted st)"

lemma status_handshake_ok:
  assumes "dial_status_handshake kec config callback chain inp st1 s = Some res" "peer_hello_accepted st1 = peer_hello_accepted st + 1"
    "eth_status_sent st1 = eth_status_sent st" "remote_status_accepted st1 = remote_status_accepted st" "remote_status_rejected st1 = remote_status_rejected st"
    "rejected_disconnect_reasons st1 = rejected_disconnect_reasons st" "rejected_validation_errors st1 = rejected_validation_errors st"
  shows "dial_ok st res"
proof -
  let ?st = "st1\<lparr>eth_status_sent := eth_status_sent st1 + 1\<rparr>"
  obtain ch runner verdict calls c where "res = handshake_done kec config callback ch runner ?st ((verdict, calls), c)"
    using assms(1) by (auto simp only: dial_status_handshake_def Let_def map_option_eq_Some split_paired_Ex)
  then consider
    e s' where "res = \<lparr>dr_calls = [OnDone kSubprotocolError], dr_stats = count_rejected e calls ?st, dr_runner = None, dr_closed = Some s'\<rparr>" |
    r where "res = \<lparr>dr_calls = [OnConnected], dr_stats = ?st\<lparr>remote_status_accepted := remote_status_accepted st1 + 1\<rparr>, dr_runner = Some r, dr_closed = None\<rparr>"
    by (cases verdict) (simp_all add: handshake_done_def)
  then show ?thesis
  proof cases
    case 1
    then show ?thesis using 1 rejected_ok [of ?st e calls] assms(2-7)
      by (auto simp: dial_ok_def stats_ok_def Let_def algebra_simps)
  next
    case 2
    then show ?thesis using assms(2-7) by (auto simp: dial_ok_def stats_ok_def algebra_simps)
  qed
qed


lemma default_dial_ok:
  assumes "default_dial lib L S kec config callback chain vp inp st = Some res"
  shows "dial_ok st res"
proof -
  obtain kp where kp: "generate_ephemeral_keypair (al_ecdh lib) (di_keypair inp) = Some kp"
    using assms by (auto simp: default_dial_def bind_eq_Some_conv)
  show ?thesis
  proof (cases kp)
    case (Inl e)
    then show ?thesis using assms kp by (auto simp: default_dial_def dial_ok_def)
  next
    case (Inr pair)
    then obtain r progress reason where c: "connect lib L S (dial_params pair vp) (di_tcp inp) (di_random inp) (di_junk inp) (di_junk_secrets inp) (di_timer inp)
        (di_transport inp) = Some (r, progress, reason)"
      using assms kp by (auto simp: default_dial_def bind_eq_Some_conv)
    note n = connect_progress [OF c] and f = fold_progress [of progress st]
    show ?thesis
    proof (cases r)
      case (Inl e)
      then show ?thesis
        using assms kp Inr c n f by (auto simp: default_dial_def dial_ok_def stats_ok_def dial_params_def Let_def split: if_splits)
    next
      case (Inr s)
      then have "dial_status_handshake kec config callback chain inp (fold count_progress progress st) s = Some res"
        using assms kp \<open>kp = Inr pair\<close> c by (simp add: default_dial_def Let_def)
      from status_handshake_ok [OF this, of st] show ?thesis using n f Inr by (simp add: dial_params_def Let_def)
    qed
  qed
qed

section \<open>Dialing under a scheduler\<close>

text \<open>A scheduler whose dials are \<open>default_dial\<close>. A dial is a coroutine that runs once: beside the scheduler, the state says for each running dial
  whether its coroutine has run. Peers arrive; a coroutine that has not run yet runs to its end and makes its calls; a connected peer
  sends Disconnect; the scheduler is stopped; and other chains change the counter of the pool.\<close>

type_synonym dialing = "watcher_pool \<times> dial_scheduler \<times> bool list"

definition with_new_dials :: "bool list \<Rightarrow> watcher_pool \<times> dial_scheduler \<Rightarrow> dialing" where
  "with_new_dials fin ps = (case ps of (p, s) \<Rightarrow> (p, s, fin @ replicate (length (running s) - length fin) False))"

fun apply_call :: "time \<Rightarrow> nat \<Rightarrow> nat \<Rightarrow> dialing \<Rightarrow> dial_call \<Rightarrow> dialing" where
  "apply_call now j session (p, s, fin) (OnDone reason) = with_new_dials (take j fin @ drop (Suc j) fin) (finish_dial now j (p, s))"
| "apply_call now j session (p, s, fin) OnConnected = (p, on_connected j session s, fin)"

inductive dialing_step :: "('pk, 'sg) auth_lib \<Rightarrow> 'c frame_lib \<Rightarrow> snappy_lib \<Rightarrow> (bytes \<Rightarrow> hash256) \<Rightarrow> watch_service_config \<Rightarrow> chain_peer_config \<Rightarrow>
    dialing \<Rightarrow> dialing \<Rightarrow> bool" for lib L S kec config chain where
  ds_enqueue: "dialing_step lib L S kec config chain (p, s, fin) (with_new_dials fin (enqueue now vp (p, s)))"
| ds_dial: "j < length (running s) \<Longrightarrow> \<not> fin ! j \<Longrightarrow>
    default_dial lib L S kec config callback chain (dl_peer (running s ! j)) inp st = Some res \<Longrightarrow>
    dialing_step lib L S kec config chain (p, s, fin) (foldl (apply_call now j session) (p, s, fin[j := True]) (dr_calls res))"
| ds_disconnect_message: "j < length (running s) \<Longrightarrow> dialing_step lib L S kec config chain (p, s, fin) (p, mark_reported j s, fin)"
| ds_stop: "dialing_step lib L S kec config chain (p, s, fin) (p, snd (stop_scheduler s), fin)"
| ds_other_chain: "dialing_step lib L S kec config chain (p, s, fin) (p\<lparr>active_total := n\<rparr>, s, fin)"

text \<open>Starting dials adds dials that have not succeeded and leaves the rest alone.\<close>

definition adds_dials :: "watcher_pool \<times> dial_scheduler \<Rightarrow> watcher_pool \<times> dial_scheduler \<Rightarrow> bool" where
  "adds_dials ps ps' \<longleftrightarrow> (\<exists>new. running (snd ps') = running (snd ps) @ new \<and> (\<forall>d \<in> set new. \<not> was_validated d)) \<and>
     total_validated (snd ps') = total_validated (snd ps) \<and> validated_count (snd ps') = validated_count (snd ps)"

lemma adds_trans: "adds_dials a b \<Longrightarrow> adds_dials b c \<Longrightarrow> adds_dials a c"
  unfolding adds_dials_def by fastforce

lemma adds_drain: "adds_dials (p, s) (drain now (p, s))"
proof -
  have "adds_dials (p, s) (p, s\<lparr>queue := q\<rparr>)" "adds_dials (p, s) (start_dial now vp (p, s\<lparr>queue := q\<rparr>))" for p s q vp
    by (auto simp: adds_dials_def start_dial_def spawn_dial_def)
  then show ?thesis
    using drain_relates [where R = adds_dials and I = "\<lambda>_. True" and now = now and p = p and s = s] adds_trans by (auto simp: adds_dials_def)
qed

lemma adds_enqueue: "adds_dials (p, s) (enqueue now vp (p, s))"
proof -
  have "adds_dials (p, s) (p, s\<lparr>history := h\<rparr>)" "adds_dials (p, s) (start_dial now vp (p, s\<lparr>history := h\<rparr>))" "adds_dials (p, s) (p, s)"
      "adds_dials (p, s) (p, s\<lparr>history := h, queue := q\<rparr>)" for h q
    by (auto simp: adds_dials_def start_dial_def spawn_dial_def)
  then show ?thesis by (simp add: enqueue_def Let_def split: option.splits)
qed

text \<open>As long as every dial is \<open>default_dial\<close>, the dials whose coroutine has run are those that have succeeded, and no dial that has succeeded ends.\<close>

definition slots_held :: "dialing \<Rightarrow> bool" where
  "slots_held d \<longleftrightarrow> (case d of (p, s, fin) \<Rightarrow> chain_ok p s \<and> fin = map was_validated (running s) \<and> total_validated s = validated_count s)"

lemma with_new_dials_held:
  assumes "adds_dials (q, s) (p', s')" "chain_ok p' s'" "fin = map was_validated (running s)" "total_validated s = validated_count s"
  shows "slots_held (with_new_dials fin (p', s'))"
proof -
  from assms(1) obtain new where new: "running s' = running s @ new" "\<forall>d \<in> set new. \<not> was_validated d" by (auto simp: adds_dials_def)
  then have "replicate (length new) False = map was_validated new" by (metis (mono_tags, lifting) map_eq_conv map_replicate_const)
  then show ?thesis using assms new(1) by (simp add: slots_held_def with_new_dials_def adds_dials_def)
qed

lemma held_done:
  assumes "slots_held (p, s, fin)" "j < length (running s)" "\<not> fin ! j"
  shows "slots_held (apply_call now j session (p, s, fin[j := True]) (OnDone reason))"
proof -
  have held: "chain_ok p s" "fin = map was_validated (running s)" "total_validated s = validated_count s" using assms(1) by (simp_all add: slots_held_def)
  obtain p' s' where ps: "finish_dial now j (p, s) = (p', s')" by (cases "finish_dial now j (p, s)")
  let ?s = "s\<lparr>running := take j (running s) @ drop (Suc j) (running s)\<rparr>"
  have "\<not> was_validated (running s ! j)" using assms(2,3) held(2) by simp
  then have fd: "finish_dial now j (p, s) = release now (p, ?s)" by (simp add: finish_dial_def)
  have "adds_dials (p, ?s) (p', s')"
  proof (cases "stopping s")
    case True
    then show ?thesis using ps fd by (auto simp: release_def Let_def adds_dials_def)
  next
    case False
    let ?d = "(p\<lparr>active_total := active_total p - 1\<rparr>, ?s\<lparr>active := active s - 1, history := history_expire now (history s)\<rparr>)"
    have "(p', s') = drain now ?d" using False ps fd by (simp add: release_def Let_def)
    then show ?thesis using adds_drain [of "fst ?d" "snd ?d" now] by (simp add: adds_dials_def)
  qed
  moreover have "chain_ok p' s'" using chain_keeps [OF held(1)] keeps_finish [OF assms(2), of p now] ps by simp
  moreover have "take j (fin[j := True]) @ drop (Suc j) (fin[j := True]) = map was_validated (running ?s)"
    using held(2) by (simp add: take_map drop_map)
  ultimately show ?thesis using with_new_dials_held [of p ?s p' s'] held(3) ps by simp
qed

lemma held_connected:
  assumes "slots_held (p, s, fin)" "j < length (running s)" "\<not> fin ! j"
  shows "slots_held (apply_call now j session (p, s, fin[j := True]) OnConnected)"
proof -
  have "\<not> was_validated (running s ! j)" using assms by (simp add: slots_held_def)
  then have "keeps (p, s) (p, on_connected j session s)" by (intro keeps_step [OF step_connected [OF assms(2)]])
  then show ?thesis using assms chain_keeps [of p s] by (auto simp: slots_held_def on_connected_def map_update)
qed

lemma held_step: "dialing_step lib L S kec config chain d d' \<Longrightarrow> slots_held d \<Longrightarrow> slots_held d'"
proof (induction rule: dialing_step.induct)
  case (ds_enqueue p s fin now vp)
  obtain p' s' where ps: "enqueue now vp (p, s) = (p', s')" by (cases "enqueue now vp (p, s)")
  then have "chain_ok p' s'" using ds_enqueue chain_keeps [of p s] keeps_enqueue [of "(p, s)" now vp] by (simp add: slots_held_def)
  then show ?case using with_new_dials_held [of p s p' s' fin] adds_enqueue [of p s now vp] ps ds_enqueue by (simp add: slots_held_def)
next
  case (ds_dial j s fin callback inp st res p now session)
  from default_dial_ok [OF ds_dial(3)] consider "dr_calls res = [OnConnected]" | reason where "dr_calls res = [OnDone reason]" by (auto simp: dial_ok_def)
  then show ?case
  proof cases
    case 1
    then show ?thesis using held_connected [OF ds_dial(4,1,2), of now session] by simp
  next
    case 2
    then show ?thesis using held_done [OF ds_dial(4,1,2), of now session reason] by simp
  qed
next
  case (ds_disconnect_message j s p fin)
  have "map was_validated ((running s)[j := (running s ! j)\<lparr>reported := True\<rparr>]) = map was_validated (running s)"
    using ds_disconnect_message(1) by (simp add: map_update list_update_same_conv)
  moreover have "chain_ok p (mark_reported j s)"
    using ds_disconnect_message chain_keeps [of p s] keeps_step [OF step_reported [OF ds_disconnect_message(1)]] by (simp add: slots_held_def)
  ultimately show ?case using ds_disconnect_message by (simp add: slots_held_def mark_reported_def)
next
  case (ds_stop p s fin)
  then show ?case by (auto simp: slots_held_def stop_scheduler_def chain_ok_def)
next
  case (ds_other_chain p s fin n)
  then show ?case by (simp add: slots_held_def chain_ok_def)
qed

lemma held_steps: "(dialing_step lib L S kec config chain)\<^sup>*\<^sup>* d d' \<Longrightarrow> slots_held d \<Longrightarrow> slots_held d'"
  by (induction rule: rtranclp_induct) (auto dest: held_step)

lemma all_validated:
  assumes "chain_ok p s" "max_per_chain p \<le> validated_dials s" "j < length (running s)"
  shows "was_validated (running s ! j)"
proof (rule ccontr)
  assume "\<not> was_validated (running s ! j)"
  then have "length (filter was_validated (running s)) < length (running s)" using assms(3) length_filter_less [of "running s ! j"] by simp
  moreover have "int (length (running s)) \<le> max 0 (max_per_chain p)" using assms(1) by (simp add: chain_ok_def)
  ultimately show False using assms(2,3) by linarith
qed

lemma full_step:
  assumes "dialing_step lib L S kec config chain (p, s, fin) (p', s', fin')" "slots_held (p, s, fin)" "max_per_chain p \<le> total_validated s"
  shows "dialed s' = dialed s \<and> max_per_chain p' \<le> total_validated s'"
proof -
  have held: "chain_ok p s" "fin = map was_validated (running s)" "total_validated s = validated_count s" "validated_count s = validated_dials s"
    using assms(2) by (simp_all add: slots_held_def chain_ok_def)
  then have "validated_dials s \<le> active s" by (simp add: chain_ok_def)
  then have slot: "\<not> has_slot p s" using assms(3) held(3,4) by (simp add: has_slot_def)
  show ?thesis
    using assms(1)
  proof (cases rule: dialing_step.cases)
    case (ds_enqueue now vp)
    then show ?thesis using slot assms(3) by (auto simp: with_new_dials_def enqueue_def Let_def has_slot_def split: if_splits option.splits)
  next
    case (ds_dial j callback inp st res now session)
    then show ?thesis using all_validated [OF held(1), of j] assms(3) held by auto
  qed (use assms(3) in \<open>auto simp: mark_reported_def stop_scheduler_def\<close>)
qed

lemma full_steps:
  assumes "(dialing_step lib L S kec config chain)\<^sup>*\<^sup>* (p, s, fin) d'" "slots_held (p, s, fin)" "max_per_chain p \<le> total_validated s"
  shows "dialed (fst (snd d')) = dialed s \<and> max_per_chain (fst d') \<le> total_validated (fst (snd d'))"
  using assms(1)
proof (induction rule: rtranclp_induct)
  case base
  then show ?case using assms(3) by simp
next
  case (step d1 d2)
  obtain p1 s1 fin1 p2 s2 fin2 where d: "d1 = (p1, s1, fin1)" "d2 = (p2, s2, fin2)" by (metis prod_cases3)
  have "slots_held (p1, s1, fin1)" using held_steps [OF step.hyps(1) assms(2)] d by simp
  then show ?case using full_step [of lib L S kec config chain p1 s1 fin1 p2 s2 fin2] step d by simp
qed

section \<open>Properties\<close>

text \<open>The counters after some dials, with the number of runners that were started; a dial is taken as a whole, and the additions of dials that overlap
  commute.\<close>

inductive dials_counted :: "('pk, 'sg) auth_lib \<Rightarrow> 'c frame_lib \<Rightarrow> snappy_lib \<Rightarrow> (bytes \<Rightarrow> hash256) \<Rightarrow> watch_service_config \<Rightarrow> chain_peer_config \<Rightarrow>
    nat \<Rightarrow> runtime_stats \<Rightarrow> bool" for lib L S kec config chain where
  no_dials: "dials_counted lib L S kec config chain 0 zero_runtime_stats"
| one_more: "dials_counted lib L S kec config chain n st \<Longrightarrow> default_dial lib L S kec config callback chain vp inp st = Some res \<Longrightarrow>
    dials_counted lib L S kec config chain (if dr_runner res = None then n else Suc n) (dr_stats res)"


text \<open>C13. A dial that succeeds never gives its slot back: the dial function then calls only the one of its two callbacks that does not release it. At
  any time after the scheduler of a chain was made, the dials that have ever succeeded all hold a slot; and once as many have succeeded as
  the chain may have connections, it never dials again, whatever peers arrive and even when all of its peers disconnect.\<close>

theorem slots_are_not_returned:
  assumes "(dialing_step lib L S kec config chain)\<^sup>*\<^sup>* (p0, new_scheduler f ex, []) (p, s, fin)"
  shows "total_validated s = validated_count s \<and> validated_count s \<le> active s \<and>
    (max_per_chain p \<le> total_validated s \<and> (dialing_step lib L S kec config chain)\<^sup>*\<^sup>* (p, s, fin) (p', s', fin') \<longrightarrow> dialed s' = dialed s)"
proof (intro conjI impI)
  have "slots_held (p0, new_scheduler f ex, [])" by (simp add: slots_held_def chain_ok_def new_scheduler_def)
  then have held: "slots_held (p, s, fin)" using held_steps [OF assms] by blast
  then show "total_validated s = validated_count s" "validated_count s \<le> active s" by (simp_all add: slots_held_def chain_ok_def)
  assume "max_per_chain p \<le> total_validated s \<and> (dialing_step lib L S kec config chain)\<^sup>*\<^sup>* (p, s, fin) (p', s', fin')"
  then show "dialed s' = dialed s" using full_steps [OF _ held, of lib L S kec config chain "(p', s', fin')"] by simp
qed

section \<open>Witnesses\<close>

definition unreachable_inputs :: dial_inputs where
  "unreachable_inputs = \<lparr>di_keypair = hr_keypair sample_hs_random, di_tcp = \<lparr>resolve_ec = None, connect_ec = (\<lambda>_. Some asio_other)\<rparr>,
     di_random = sample_hs_random, di_junk = undefined, di_junk_secrets = ([], []), di_timer = None, di_transport = fresh_transport,
     di_coming = (\<lambda>_ _. []), di_wait = (\<lambda>_. Fires 0)\<rparr>"

lemma unreachable_dial:
  "default_dial sample_auth_lib counting_lib sample_snappy (\<lambda>_. []) sample_config True sample_chain sample_cached unreachable_inputs zero_runtime_stats =
     Some \<lparr>dr_calls = [OnDone kTcpError], dr_stats = zero_runtime_stats\<lparr>tcp_connect_failures := 1\<rparr>, dr_runner = None, dr_closed = None\<rparr>"
proof -
  obtain a where "generate_ephemeral_keypair (al_ecdh sample_auth_lib) (hr_keypair sample_hs_random) = Some (Inr a)"
    using outbound_executes [OF sample_outbound sample_ack_arrives [of "kp_public_key (sample_pair 9)"]] sample_pair_is_pair [of 9]
    by (metis is_key_pair_def)
  then show ?thesis
    by (simp add: default_dial_def unreachable_inputs_def connect_def connect_with_timeout_def dial_params_def zero_runtime_stats_def)
qed


text \<open>A dial that succeeds: the peer answers the handshake of the key pair 7, and its Status is the first message after the Hello.\<close>

definition answering_peer :: validated_peer where
  "answering_peer = sample_cached\<lparr>pubkey := kp_public_key (sample_pair 8)\<rparr>"

definition answering_inputs :: "socket_transport \<Rightarrow> rlpx_message \<Rightarrow> dial_inputs" where
  "answering_inputs t m = \<lparr>di_keypair = (\<lambda>_. Some (replicate 32 7)), di_tcp = \<lparr>resolve_ec = None, connect_ec = (\<lambda>_. None)\<rparr>,
     di_random = sample_hs_random, di_junk = undefined, di_junk_secrets = ([], []), di_timer = None, di_transport = t,
     di_coming = (\<lambda>i k. if i = 0 \<and> k = 0 then [m] else []), di_wait = (\<lambda>_. Fires 0)\<rparr>"

lemma sample_keypair: "generate_ephemeral_keypair (al_ecdh sample_auth_lib) (\<lambda>_. Some (replicate 32 7)) = Some (Inr (sample_pair 7))"
  using sample_pair_is_pair [of 7]
  by (auto simp: generate_ephemeral_keypair_def first_valid_key.simps sample_auth_lib_def is_key_pair_def sample_ecdh_def sample_lib_def sample_pair_def)

lemma answering_connects:
  "\<exists>t s progress. connect sample_auth_lib counting_lib sample_snappy (dial_params (sample_pair 7) answering_peer)
     \<lparr>resolve_ec = None, connect_ec = (\<lambda>_. None)\<rparr> sample_hs_random undefined ([], []) None t = Some (Inr s, progress, None) \<and>
     state s = kActive \<and> negotiated_eth_version s = 68 \<and> negotiated_eth_offset s = 16 \<and> send_channel s = Some [] \<and> recv_channel s = Some []"
proof (rule sample_peer_answers [of "dial_params (sample_pair 7) answering_peer"])
  fix a packet t ack
  let ?p = "dial_params (sample_pair 7) answering_peer"
  assume x: "outbound sample_auth_lib (connect_config ?p) (sample_pair 7) (sample_pair 8) sample_hs_random 0 (replicate 32 5)"
    "is_key_pair (al_ecdh sample_auth_lib) (sample_pair 9)"
    "generate_ephemeral_keypair (al_ecdh sample_auth_lib) (hr_keypair sample_hs_random) = Some (Inr a)"
    "create_auth_message sample_auth_lib (hr_padding sample_hs_random) (hr_ecies sample_hs_random) (kp_private_key (sample_pair 7))
       (kp_public_key (sample_pair 7)) (kp_private_key a) (replicate 32 5) (kp_public_key (sample_pair 8)) = Some (Inr packet)"
    "ack_arrives sample_auth_lib (kp_private_key (sample_pair 7)) t ack
       (first_wire counting_lib sample_snappy (responder_secrets sample_auth_lib ([], []) (kp_public_key (sample_pair 7)) a (sample_pair 9)
          (replicate 32 5) (replicate 32 6) packet ack) \<lparr>msg_id = 0, msg_payload = rlp_encode (RList (hello_items sample_hello))\<rparr> @ [])
       (kp_public_key (sample_pair 9)) (replicate 32 6)"
  have m: "length (rlp_encode (RList (hello_items (local_hello ?p)))) < 2 ^ 23"
    by (simp add: hello_items_def local_hello_def dial_params_def answering_peer_def capability_item_def bytes_of_def RUint_def nat_to_be.simps
        rlp_encode_simps rlp_str_def rlp_list_def rlp_prefix_def sample_pair_def)
  show ?thesis
    using connect_succeeds [OF counting_lib_laws sample_snappy_laws x sample_hello_payload(1) sample_hello_fits m,
        of "\<lparr>resolve_ec = None, connect_ec = (\<lambda>_. None)\<rparr>" undefined "([], [])"] sample_negotiated
    by auto
qed (simp_all add: dial_params_def answering_peer_def)

lemma answering_dial:
  "\<exists>inp res. default_dial sample_auth_lib counting_lib sample_snappy (\<lambda>_. []) sample_config True sample_chain answering_peer inp zero_runtime_stats = Some res \<and>
     dr_calls res = [OnConnected]"
proof -
  obtain t s progress where c: "connect sample_auth_lib counting_lib sample_snappy (dial_params (sample_pair 7) answering_peer)
     \<lparr>resolve_ec = None, connect_ec = (\<lambda>_. None)\<rparr> sample_hs_random undefined ([], []) None t = Some (Inr s, progress, None)"
    and s: "state s = kActive" "negotiated_eth_version s = 68" "negotiated_eth_offset s = 16" "send_channel s = Some []" "recv_channel s = Some []"
    using answering_connects by blast
  let ?fork = "\<lparr>fork_hash = [1, 2, 3, 4], next_fork = 0\<rparr>"
  define st where "st = \<lparr>es_network_id = 1, es_genesis_hash = replicate 32 2, es_fork_id = ?fork, es_schemas = [], es_disconnect_handler = True,
    es_inbound_handler = False\<rparr>"
  define inp where "inp = answering_inputs t (status_wire s (own_status st s ?fork))"
  have ready: "handshake_ready st s" using s by (simp add: handshake_ready_def st_def)
  have w: "fst (waits (rlpx_eth_session_channel (di_wait inp)) 0 (after_post st (s, di_coming inp))) = Inr (status_wire s (own_status st s ?fork))"
    using s by (simp add: after_post_def receive_pushed inp_def answering_inputs_def)
  obtain c' where "PerformEthStatusHandshake st (Some (rlpx_eth_session_channel (di_wait inp))) (s, di_coming inp) =
      Some ((Inr (own_status st s ?fork), []), c')"
    using perform_is_loop(1) [OF ready] loop_accepts_own_status [OF ready _ _ _ refl _ w] s(3) by (auto simp: st_def)
  then obtain res where "dial_status_handshake (\<lambda>_. []) sample_config True sample_chain inp (fold count_progress progress zero_runtime_stats) s = Some res"
      "dr_calls res = [OnConnected]"
    by (cases c') (auto simp: dial_status_handshake_def handshake_done_def Let_def sample_chain_def st_def)
  then have "default_dial sample_auth_lib counting_lib sample_snappy (\<lambda>_. []) sample_config True sample_chain answering_peer inp zero_runtime_stats = Some res"
    using c sample_keypair by (simp add: default_dial_def inp_def answering_inputs_def)
  then show ?thesis using \<open>dr_calls res = _\<close> by blast
qed

theorem slots_are_not_returned_witness:
  "\<exists>p s fin p' s' fin'. (dialing_step sample_auth_lib counting_lib sample_snappy (\<lambda>_. []) sample_config sample_chain)\<^sup>*\<^sup>*
       (\<lparr>max_total = 4, max_per_chain = 1, active_total = 0\<rparr>, new_scheduler None 35, []) (p, s, fin) \<and> total_validated s = 1 \<and>
     (dialing_step sample_auth_lib counting_lib sample_snappy (\<lambda>_. []) sample_config sample_chain)\<^sup>*\<^sup>* (p, s, fin) (p', s', fin') \<and>
     queue s' = [sample_peer 3] \<and> dialed s' = dialed s"
proof -
  let ?step = "dialing_step sample_auth_lib counting_lib sample_snappy (\<lambda>_. []) sample_config sample_chain"
  let ?p0 = "\<lparr>max_total = 4, max_per_chain = 1, active_total = 0\<rparr> :: watcher_pool" and ?s0 = "new_scheduler None 35"
  obtain inp res where d: "default_dial sample_auth_lib counting_lib sample_snappy (\<lambda>_. []) sample_config True sample_chain answering_peer inp
      zero_runtime_stats = Some res" "dr_calls res = [OnConnected]" using answering_dial by blast
  define p s1 where "p = fst (enqueue 0 answering_peer (?p0, ?s0))" and "s1 = snd (enqueue 0 answering_peer (?p0, ?s0))"
  note ev = new_scheduler_def new_history_def enqueue_def history_expire_def history_contains_def history_add_def has_slot_def start_dial_def
    spawn_dial_def with_new_dials_def
  have s1: "running s1 = [\<lparr>dl_peer = answering_peer, was_validated = False, reported = False\<rparr>]" by (simp add: s1_def ev)
  have step1: "?step (?p0, ?s0, []) (p, s1, [False])"
    using ds_enqueue [of sample_auth_lib counting_lib sample_snappy "\<lambda>_. []" sample_config sample_chain ?p0 ?s0 "[]" 0 answering_peer]
    by (simp add: p_def s1_def ev)
  define s2 where "s2 = on_connected 0 5 s1"
  have step2: "?step (p, s1, [False]) (p, s2, [True])"
    using ds_dial [where j = 0 and s = s1 and fin = "[False]" and res = res and p = p and now = 1 and session = 5] d s1
    by (auto simp: s2_def)
  define s3 where "s3 = snd (enqueue 9 (sample_peer 3) (p, mark_reported 0 s2))"
  have step3: "?step (p, s2, [True]) (p, mark_reported 0 s2, [True])" by (rule ds_disconnect_message) (simp add: s2_def on_connected_def s1)
  have step4: "\<exists>p' fin'. ?step (p, mark_reported 0 s2, [True]) (p', s3, fin')"
    using ds_enqueue [of sample_auth_lib counting_lib sample_snappy "\<lambda>_. []" sample_config sample_chain p "mark_reported 0 s2" "[True]" 9 "sample_peer 3"]
    by (auto simp: s3_def with_new_dials_def split: prod.splits)
  then obtain p' fin' where "?step (p, mark_reported 0 s2, [True]) (p', s3, fin')" by blast
  then have r: "?step\<^sup>*\<^sup>* (?p0, ?s0, []) (p, s2, [True])" "?step\<^sup>*\<^sup>* (p, s2, [True]) (p', s3, fin')"
    using step1 step2 step3 by (meson converse_rtranclp_into_rtranclp r_into_rtranclp)+
  have "replicate 64 (3 :: byte) \<noteq> [1]" by (rule notI, drule arg_cong [of _ _ length]) simp
  then have "total_validated s2 = 1" "max_per_chain p = 1" "queue s3 = [sample_peer 3]"
    by (simp_all add: s3_def s2_def mark_reported_def on_connected_def p_def s1_def ev sample_peer_def answering_peer_def sample_cached_def)
  then show ?thesis using slots_are_not_returned [OF r(1), of p' s3 fin'] r by (metis order_refl)
qed

end
