(* ===== verification/Spec2Isabelle.thy ===== *)
theory Spec2Isabelle
  imports Rlp_Streaming Eth_Messages Chain_Tracker Abi_Decoder Event_Filter Bridge_Observation Finality_Policy Watch_Service
    Peer_Queue Session_Run Peer_Dialing
begin

text \<open>
  \<^bold>\<open>A verification library for evmrelay.\<close>

  evmrelay watches EVM chains over the devp2p network: it finds peers, opens RLPx sessions, speaks the eth
  protocol, asks for the receipts of announced blocks, filters and decodes their logs, and turns the logs of a bridge
  contract into signed observations.

  \<^bold>\<open>Theories and sources.\<close>
  \<^item> \<open>Evm_Prelude\<close>: machine types, the \<open>outcome::result\<close> control flow as a sum type, big-endian numbers, shared lemmas.
  \<^item> \<open>Rlp_Types\<close>, \<open>Rlp_Endian\<close>, \<open>Rlp_Encoder\<close>, \<open>Rlp_Decoder\<close>, \<open>Rlp_Streaming\<close>: the RLP codec of
    include/rlp and src/rlp. The encoder state is its buffer and the stack of open list positions, the decoder state the
    remaining view. \<open>Rlp_Spec\<close> is the specification both are proved against: trees of byte strings and their
    canonical encoding.
  \<^item> \<open>Eth_Objects\<close>, \<open>Eth_Payloads\<close>, \<open>Eth_Status\<close>, \<open>Eth_Messages\<close>: src/eth/objects.cpp and src/eth/messages.cpp.
  \<^item> \<open>Chain_Tracker\<close>, \<open>Abi_Decoder\<close>, \<open>Event_Filter\<close>, \<open>Watch_Service\<close>: src/eth/chain_tracker.cpp, abi_decoder.cpp,
    event_filter.cpp and the message path of eth_watch_service.cpp.
  \<^item> \<open>Byte_Encoding\<close>, \<open>Bridge_Event\<close>, \<open>Bridge_Observation\<close>, \<open>Finality_Policy\<close>: include/base/byte_encoding.hpp and
    src/eth/bridge_event.cpp, bridge_observation.cpp, secp256k1_utility.cpp, finality_policy.cpp.
  \<^item> \<open>Dial_Scheduler\<close>, \<open>Peer_Queue\<close>: include/discv4/dial_history.hpp, dial_scheduler.hpp and src/eth/eth_peer_queue.cpp. The
    coroutine of a dial is an entry in the list of running dials, and its callbacks are operations on the scheduler.
  \<^item> \<open>Rlpx_Types\<close>, \<open>Rlpx_Messages\<close>: include/rlpx/rlpx_types.hpp, rlpx_error.hpp and src/rlpx/protocol/messages.cpp.
  \<^item> \<open>Frame_Cipher\<close>, \<open>Message_Stream\<close>: src/rlpx/framing and src/rlpx/socket/socket_transport.cpp. A socket is the bytes still to
    be read and the bytes written; two ends and the bytes in flight between them make the world of \<open>link_run\<close>.
  \<^item> \<open>Rlpx_Crypto\<close>, \<open>Ecies_Cipher\<close>, \<open>Auth_Handshake\<close>: src/rlpx/crypto and src/rlpx/auth, both roles of the handshake included.
  \<^item> \<open>Rlpx_Session\<close>: src/rlpx/rlpx_session.cpp, \<open>connect\<close>, negotiation, routing, and both loops cut at the points where they suspend: the send loop
    into \<open>send_check\<close>, \<open>send_poll\<close> and \<open>send_resume\<close>, the receive loop into \<open>receive_await\<close> and \<open>receive_dispatch\<close>.
    \<open>Session_Run\<close> puts two sessions and the network together as a step relation whose steps are the code between two
    suspension points; while a frame is written, the socket takes its bytes a few at a time.
  \<^item> \<open>Eth_Handshake\<close>: src/eth/eth_handshake_guard.cpp, eth_peer_session.cpp, eth_handshake.cpp and eth_session_channel.cpp, the Status handshake
    over a session interface and its instance on an RLPx session.
  \<^item> \<open>Watch_Runner\<close>: src/eth/eth_watch_runner.cpp, the bridge between a session and a watch service.
  \<^item> \<open>Watch_Orchestration\<close>, \<open>Peer_Dialing\<close>: the orchestration of src/eth/eth_watch_service.cpp (\<open>initialize\<close>, \<open>run\<close>, \<open>stop\<close>, the choice of a source of
    discovery) and its dial function, which composes \<open>connect\<close>, the Status handshake and the runner.

  \<^bold>\<open>What the lemmas show.\<close> The RLP encoder writes the canonical encoding of a tree and the decoder accepts exactly
  canonical items; the object and message codecs are inverse on well-formed values, with the forms the decoders
  reject or normalise stated as such; the block window is a first-in first-out window; event dispatch is what the filters say,
  and the service composes these: an announced block is requested once and its response reaches the matching callbacks.
  Bridge payloads are canonical, claims are checked against receipts field by field, and signatures verify.
  The dial scheduler keeps its counters and limits whatever its coroutines do. Messages sent over an RLPx stream arrive once, in
  order and unchanged, and a completed handshake leaves both ends with the secrets such a stream starts from; \<open>connect\<close> composes the two, and what
  one session posts is what the other routes; a session that has ended completes at most the write it had begun and routes at most one more message. The Status handshake accepts only a peer of the same chain, and accepts another node of this code.
  A runner composes all of it: an announcement read from the wire becomes a request on the wire, and the response becomes the notifications of the user.
  Starting the service respects the limits of the pool that its chains share; a dial that succeeded keeps its slot for good.

  \<^bold>\<open>Interfaces.\<close> Locales carry the contracts that several parts share: \<open>item_loop\<close> (list loops of the codecs),
  \<open>request_codec\<close> (request and response pairs), \<open>fifo_window\<close> (the block window), \<open>payload_field\<close> (one written
  field and its reader), \<open>status_channel\<close> (a session as the Status handshake uses it). Each is interpreted on the definitions of the model.

  \<^bold>\<open>Bounds.\<close> Integers have the width of the source. \<open>size_t\<close> is \<open>nat\<close> where the values are sizes of objects in
  memory, with the assumption that they stay below two to the power 64 as a hypothesis (\<open>fits\<close>), and a 64-bit word where
  the source computes with untrusted values (\<open>Abi_Decoder\<close>). No definition uses fuel: loops are structural or have a
  termination proof, and the loop of the Status handshake, which may run forever, is a partial function. A frame of exactly 16 MiB, whose length
  does not fit the header, is sent by the code and not understood by the receiver: \<open>link_run\<close> has only smaller frames, and for two
  sessions the size of the messages is a hypothesis.

  \<^bold>\<open>Parameters.\<close> keccak256, libsecp256k1, the OpenSSL primitives (SHA-256, HMAC, AES) and Snappy come from libraries; they are
  arguments of the definitions that use them, with documented behaviour as named hypotheses (\<open>secp256k1_laws\<close>, \<open>ecdh_laws\<close>,
  \<open>ecies_laws\<close>, \<open>frame_lib_laws\<close>, \<open>snappy_laws\<close>). Random bytes and the contents of uninitialised memory are arguments too, and so are
  the outcomes of Boost.Asio: what resolving a name and connecting give, how each wait of a timer ends, and the bytes a socket takes and delivers.
  In \<open>Watch_Orchestration\<close> hooks of the configuration that start discovery are arguments as well; they are taken not to enqueue peers before they
  return.

  \<^bold>\<open>Not modelled.\<close> The discovery clients (src/discv4, src/discv5) with their packets, records and ENR trees: they are asynchronous UDP clients, and
  what reaches the rest of the program are the peers they report, which are arguments here. Access over RPC and JSON (src/eth/rpc_*.cpp,
  json_rpc.cpp, src/base): parsing and transport of Boost.JSON and HTTP. The tables of chain peers, logging, and the example programs. Of the
  parts that are modelled: timers other than as the time they leave, threads (all handlers run on one), and the accessors that only count or sum.
\<close>

end
